(* ===== verification/Prelude.thy ===== *)
theory Prelude
  imports Main "HOL-Library.List_Lexorder" "HOL-Library.Char_ord" "HOL-Library.Product_Lexorder"
begin

text \<open>
  Shared vocabulary of the development: Python strings and their whitespace rule, the
  identity limits of \<^verbatim>\<open>src/src/powercontext/limits.py\<close>, the exceptions the modelled
  code raises, and the effect type of a repository operation.

  A Python \<^verbatim>\<open>str\<close> is a HOL \<^typ>\<open>string\<close>: its characters are the code points
  below 256. Python's \<^verbatim>\<open>int\<close> is \<^typ>\<open>int\<close>. A timestamp is an \<^typ>\<open>int\<close>
  number of microseconds of naive UTC.

  An operation of type \<open>('s, 'a) exec\<close> takes the database state, and gives either the
  exception it raises or its result, together with the state it leaves behind. An
  exception does not undo the statements executed before it: only \<open>transaction\<close> does.
\<close>

named_theorems exec_simps \<open>evaluation rules of the effect combinators\<close>
named_theorems preserves_rules \<open>rules that lift an invariant through the effect combinators\<close>

section \<open>Limits and Python strings\<close>

abbreviation (input) MAX_SCOPE_ID_LENGTH :: nat where "MAX_SCOPE_ID_LENGTH \<equiv> 256"
abbreviation (input) MAX_BINDING_NAME_LENGTH :: nat where "MAX_BINDING_NAME_LENGTH \<equiv> 128"
abbreviation (input) MAX_ARTIFACT_FAMILY_LENGTH :: nat where "MAX_ARTIFACT_FAMILY_LENGTH \<equiv> 128"
abbreviation (input) MAX_ARTIFACT_ID_LENGTH :: nat where "MAX_ARTIFACT_ID_LENGTH \<equiv> 128"

text \<open>\<^verbatim>\<open>str.isspace\<close> of one character, over the first 256 code points.\<close>

definition py_isspace :: "char \<Rightarrow> bool" where
  "py_isspace c \<longleftrightarrow>
     (of_char c :: nat) \<in> set [9, 10, 11, 12, 13, 28, 29, 30, 31, 32, 133, 160]"

definition py_lstrip :: "string \<Rightarrow> string" where
  "py_lstrip s = dropWhile py_isspace s"

definition py_strip :: "string \<Rightarrow> string" where
  "py_strip s = rev (py_lstrip (rev (py_lstrip s)))"

text \<open>\<^verbatim>\<open>str(n)\<close> of a non-negative integer, for the messages that quote a limit.\<close>

fun decimal :: "nat \<Rightarrow> string" where
  "decimal n = (if n < 10 then [char_of (48 + n)] else decimal (n div 10) @ [char_of (48 + n mod 10)])"

declare decimal.simps [simp del]

definition trimmed :: "string \<Rightarrow> bool" where
  "trimmed v \<longleftrightarrow> py_strip v \<noteq> [] \<and> v = py_strip v"

section \<open>References and exceptions\<close>

text \<open>An exact artifact revision, as \<^verbatim>\<open>ArtifactRef\<close> names it.\<close>

record artifact_ref =
  ref_family :: string
  ref_artifact_id :: string
  ref_revision :: int

text \<open>
  The diagnostics \<^verbatim>\<open>attach_diagnostics\<close> puts on a budget error: the estimated input
  tokens and the effective budget, where the limiting ceiling is known.
\<close>

type_synonym budget_diagnostics = "int option \<times> int option"

text \<open>
  One constructor per exception class of the modelled modules, with the fields the class
  stores. \<^term>\<open>()\<close>-like constructors without fields are classes without fields. An
  identity mismatch between two Sources has a constructor of its own, for their type and id.
\<close>

datatype error =
    InvalidRepositoryArgument (err_field: string) (err_detail: string)
  | InvalidStoredPayload string string
  | InvalidPublicationLineage string
  | RepositoryNotFound string "string list" "int option"
  | StoredPayloadConflict string "string list" "int option"
  | IdentityMismatch string artifact_ref artifact_ref
  | SourceIdentityMismatch "string \<times> string" "string \<times> string"
  | InvalidStoredColumn string string
  | GenerationConflict string "int option" "int option"
  | LeadershipLost string string int
  | IntegrityError
  | MultipleResultsFound
  | NoResultFound
  | StopIteration
  | KeyError
  | TypeError
  | CandidateNotFound string
  | CandidateConflict string int int
  | CandidateTerminal string string
  | InvalidCandidate string string
  | ValidationError string
  | RevisionConflict artifact_ref artifact_ref
  | DraftConflict string artifact_ref
  | ArtifactFamilyMismatch string string
  | InvalidArtifactReference string string
  | InvalidArtifactLifecycle string
  | TopicMemoryGeneration string "budget_diagnostics option"
  | TopicMemoryBlockNotFound
  | TopicMemoryBlockConflict
  | ArtifactProcessingBlocked string string string "(string \<times> int) list" "budget_diagnostics option"
  | SourceNotEligible string string
  | AccessIdentityRequired
  | AccessDenied
  | AccessBindingNotFound
  | AccessUnavailable string
  | AccessConflict string
  | AccessInvalidRequest string
  | ValueError
  | RuntimeError
  | WorkingNoteUnavailable string string
  | InvalidSourceReference string string

section \<open>Effects: state, exceptions and transactions\<close>

type_synonym ('s, 'a) exec = "'s \<Rightarrow> (error + 'a) \<times> 's"

definition return :: "'a \<Rightarrow> ('s, 'a) exec" where
  "return x = (\<lambda>s. (Inr x, s))"

definition raise :: "error \<Rightarrow> ('s, 'a) exec" where
  "raise e = (\<lambda>s. (Inl e, s))"

definition bind :: "('s, 'a) exec \<Rightarrow> ('a \<Rightarrow> ('s, 'b) exec) \<Rightarrow> ('s, 'b) exec" where
  "bind m f = (\<lambda>s. case m s of (Inl e, s') \<Rightarrow> (Inl e, s') | (Inr x, s') \<Rightarrow> f x s')"

definition andThen :: "('s, 'a) exec \<Rightarrow> ('s, 'b) exec \<Rightarrow> ('s, 'b) exec" where
  "andThen m n = bind m (\<lambda>_. n)"

definition gets :: "('s \<Rightarrow> 'a) \<Rightarrow> ('s, 'a) exec" where
  "gets f = (\<lambda>s. (Inr (f s), s))"

definition require :: "bool \<Rightarrow> error \<Rightarrow> ('s, unit) exec" where
  "require b e = (if b then return () else raise e)"

text \<open>\<^verbatim>\<open>try: m except E: h\<close>; what is not caught propagates.\<close>

definition catch :: "('s, 'a) exec \<Rightarrow> (error \<Rightarrow> bool) \<Rightarrow> (error \<Rightarrow> ('s, 'a) exec) \<Rightarrow> ('s, 'a) exec" where
  "catch m p h = (\<lambda>s. case m s of
      (Inl e, s') \<Rightarrow> if p e then h e s' else (Inl e, s')
    | (Inr x, s') \<Rightarrow> (Inr x, s'))"

text \<open>A database transaction: an exception rolls every statement of the block back.\<close>

definition transaction :: "('s, 'a) exec \<Rightarrow> ('s, 'a) exec" where
  "transaction m = (\<lambda>s. case m s of (Inl e, _) \<Rightarrow> (Inl e, s) | (Inr x, s') \<Rightarrow> (Inr x, s'))"

fun for_each :: "'a list \<Rightarrow> ('a \<Rightarrow> ('s, unit) exec) \<Rightarrow> ('s, unit) exec" where
  "for_each [] f = return ()"
| "for_each (x # xs) f = andThen (f x) (for_each xs f)"

lemma return_run [exec_simps, simp]: "return x s = (Inr x, s)"
  by (simp add: return_def)

lemma raise_run [exec_simps, simp]: "raise e s = (Inl e, s)"
  by (simp add: raise_def)

lemma gets_run [exec_simps, simp]: "gets f s = (Inr (f s), s)"
  by (simp add: gets_def)

lemma require_run [exec_simps, simp]: "require b e s = (if b then (Inr (), s) else (Inl e, s))"
  by (simp add: require_def)

lemma bind_run [exec_simps]:
  "bind m f s = (case m s of (Inl e, s') \<Rightarrow> (Inl e, s') | (Inr x, s') \<Rightarrow> f x s')"
  by (simp add: bind_def)

lemma andThen_run [exec_simps]:
  "andThen m n s = (case m s of (Inl e, s') \<Rightarrow> (Inl e, s') | (Inr x, s') \<Rightarrow> n s')"
  by (simp add: andThen_def bind_def)

lemma catch_run [exec_simps]:
  "catch m p h s = (case m s of
      (Inl e, s') \<Rightarrow> if p e then h e s' else (Inl e, s')
    | (Inr x, s') \<Rightarrow> (Inr x, s'))"
  by (simp add: catch_def)

lemma transaction_run [exec_simps]:
  "transaction m s = (case m s of (Inl e, _) \<Rightarrow> (Inl e, s) | (Inr x, s') \<Rightarrow> (Inr x, s'))"
  by (simp add: transaction_def)

lemma bind_Inr_iff:
  "bind m f s = (Inr y, t) \<longleftrightarrow> (\<exists>x u. m s = (Inr x, u) \<and> f x u = (Inr y, t))"
  by (auto simp: bind_def split: prod.splits sum.splits)

lemma andThen_Inr_iff:
  "andThen m n s = (Inr y, t) \<longleftrightarrow> (\<exists>x u. m s = (Inr x, u) \<and> n u = (Inr y, t))"
  by (auto simp: andThen_def bind_Inr_iff)

lemma require_Inr_iff [simp]: "require b e s = (Inr x, t) \<longleftrightarrow> b \<and> t = s"
  by auto

lemmas exec_Inr_iffs = bind_Inr_iff andThen_Inr_iff require_Inr_iff

lemma transaction_Inr_iff: "transaction m s = (Inr x, t) \<longleftrightarrow> m s = (Inr x, t)"
  by (auto simp: transaction_def split: prod.splits sum.splits)

lemma transaction_Inl: "transaction m s = (Inl e, t) \<Longrightarrow> t = s"
  by (auto simp: transaction_def split: prod.splits sum.splits)

text \<open>
  \<^verbatim>\<open>cast(T, value)\<close> and \<^verbatim>\<open>int(value)\<close> of a value the code takes to be present:
  using a \<^verbatim>\<open>None\<close> there raises.
\<close>

definition cast_some :: "'a option \<Rightarrow> ('s, 'a) exec" where
  "cast_some x = (case x of None \<Rightarrow> raise TypeError | Some v \<Rightarrow> return v)"

lemma cast_some_simps [simp, exec_simps]:
  "cast_some (Some v) s = (Inr v, s)" "cast_some None s = (Inl TypeError, s)"
  by (simp_all add: cast_some_def)

section \<open>Invariants of operations\<close>

text \<open>
  \<open>preserves P m\<close>: whatever the operation returns or raises, it leaves a state in which
  \<open>P\<close> still holds. The rules below reduce a whole operation to its statements.
\<close>

definition preserves :: "('s \<Rightarrow> bool) \<Rightarrow> ('s, 'a) exec \<Rightarrow> bool" where
  "preserves P m \<longleftrightarrow> (\<forall>s. P s \<longrightarrow> P (snd (m s)))"

lemma preservesI: "(\<And>s. P s \<Longrightarrow> P (snd (m s))) \<Longrightarrow> preserves P m"
  by (simp add: preserves_def)

lemma preservesD: "preserves P m \<Longrightarrow> P s \<Longrightarrow> P (snd (m s))"
  by (simp add: preserves_def)

lemma preservesE: "preserves P m \<Longrightarrow> P s \<Longrightarrow> m s = (r, t) \<Longrightarrow> P t"
  by (drule (1) preservesD) simp

lemma preserves_return [preserves_rules, intro]: "preserves P (return x)"
  by (simp add: preserves_def)

lemma preserves_raise [preserves_rules, intro]: "preserves P (raise e)"
  by (simp add: preserves_def)

lemma preserves_gets [preserves_rules, intro]: "preserves P (gets f)"
  by (simp add: preserves_def)

lemma preserves_require [preserves_rules, intro]: "preserves P (require b e)"
  by (simp add: preserves_def)

lemma preserves_bind [preserves_rules, intro]:
  "preserves P m \<Longrightarrow> (\<And>x. preserves P (f x)) \<Longrightarrow> preserves P (bind m f)"
  by (auto simp: preserves_def bind_def split: prod.splits sum.splits)

text \<open>The same, when what follows depends on what the first operation can return.\<close>

lemma preserves_bind_Inr:
  "preserves P m \<Longrightarrow> (\<And>s x t. P s \<Longrightarrow> m s = (Inr x, t) \<Longrightarrow> preserves P (f x)) \<Longrightarrow> preserves P (bind m f)"
  by (force simp: preserves_def bind_def split: prod.splits sum.splits)

lemma preserves_andThen [preserves_rules, intro]:
  "preserves P m \<Longrightarrow> preserves P n \<Longrightarrow> preserves P (andThen m n)"
  unfolding andThen_def by (rule preserves_bind)

lemma preserves_catch [preserves_rules, intro]:
  "preserves P m \<Longrightarrow> (\<And>e. preserves P (h e)) \<Longrightarrow> preserves P (catch m p h)"
  by (auto simp: preserves_def catch_def split: prod.splits sum.splits)

lemma preserves_transaction [preserves_rules, intro]:
  "preserves P m \<Longrightarrow> preserves P (transaction m)"
  by (auto simp: preserves_def transaction_def split: prod.splits sum.splits)

lemma preserves_if [preserves_rules, intro]:
  "(b \<Longrightarrow> preserves P m) \<Longrightarrow> (\<not> b \<Longrightarrow> preserves P n) \<Longrightarrow> preserves P (if b then m else n)"
  by simp

lemma preserves_case_option [preserves_rules, intro]:
  "preserves P m \<Longrightarrow> (\<And>x. preserves P (f x)) \<Longrightarrow> preserves P (case y of None \<Rightarrow> m | Some x \<Rightarrow> f x)"
  by (cases y) auto

lemma preserves_case_prod [preserves_rules, intro]:
  "(\<And>a b. preserves P (f a b)) \<Longrightarrow> preserves P (case y of (a, b) \<Rightarrow> f a b)"
  by (cases y) auto

lemma preserves_Let [preserves_rules, intro]:
  "(\<And>x. preserves P (f x)) \<Longrightarrow> preserves P (let x = y in f x)"
  by simp

lemma preserves_for_each [preserves_rules, intro]:
  "(\<And>x. preserves P (f x)) \<Longrightarrow> preserves P (for_each xs f)"
  by (induction xs) auto

lemma preserves_cast_some [preserves_rules, intro]: "preserves P (cast_some x)"
  by (cases x) (auto simp: cast_some_def)

lemma preserves_conj:
  "preserves P m \<Longrightarrow> preserves Q m \<Longrightarrow> preserves (\<lambda>s. P s \<and> Q s) m"
  by (auto simp: preserves_def)

text \<open>An operation that only reads.\<close>

definition reads_only :: "('s, 'a) exec \<Rightarrow> bool" where
  "reads_only m \<longleftrightarrow> (\<forall>s. snd (m s) = s)"

lemma reads_onlyD: "reads_only m \<Longrightarrow> m s = (r, t) \<Longrightarrow> t = s"
  by (metis reads_only_def snd_conv)

lemma reads_only_preserves [intro]: "reads_only m \<Longrightarrow> preserves P m"
  by (simp add: reads_only_def preserves_def)

lemma reads_only_basic [intro, simp]:
  "reads_only (return x)" "reads_only (raise e)" "reads_only (gets f)" "reads_only (require b e)"
  by (simp_all add: reads_only_def)

lemma reads_only_bind [intro]:
  "reads_only m \<Longrightarrow> (\<And>x. reads_only (f x)) \<Longrightarrow> reads_only (bind m f)"
  by (auto simp: reads_only_def bind_def split: prod.splits sum.splits) (metis snd_conv)+

lemma reads_only_andThen [intro]:
  "reads_only m \<Longrightarrow> reads_only n \<Longrightarrow> reads_only (andThen m n)"
  unfolding andThen_def by (rule reads_only_bind)

lemma bind_reads:
  "reads_only m \<Longrightarrow> bind m f s = (case fst (m s) of Inl e \<Rightarrow> (Inl e, s) | Inr x \<Rightarrow> f x s)"
  by (auto simp: bind_def reads_only_def split: prod.split sum.split) (metis snd_conv)+

lemma andThen_reads:
  "reads_only m \<Longrightarrow> andThen m n s = (case fst (m s) of Inl e \<Rightarrow> (Inl e, s) | Inr x \<Rightarrow> n s)"
  unfolding andThen_def by (rule bind_reads)

lemma bind_reads_Inr:
  assumes "reads_only m" and "bind m f s = (Inr y, t)"
  obtains x where "m s = (Inr x, s)" and "f x s = (Inr y, t)"
  using assms by (auto simp: bind_Inr_iff dest: reads_onlyD)

lemma catch_raise_Inr: "catch m p (\<lambda>_. raise e) s = (Inr x, t) \<longleftrightarrow> m s = (Inr x, t)"
  by (auto simp: catch_run split: prod.splits sum.splits)

lemma preserves_required: "(b \<Longrightarrow> preserves P m) \<Longrightarrow> preserves P (andThen (require b e) m)"
  by (cases b) (simp_all add: preserves_def andThen_run)

lemma preserves_each: "(\<And>x. x \<in> set xs \<Longrightarrow> preserves P (f x)) \<Longrightarrow> preserves P (for_each xs f)"
  by (induction xs) (auto intro: preserves_rules)

lemma reads_only_if: "reads_only m \<Longrightarrow> reads_only n \<Longrightarrow> reads_only (if b then m else n)"
  by simp

lemma reads_only_case_option: "reads_only m \<Longrightarrow> (\<And>x. reads_only (f x)) \<Longrightarrow> reads_only (case v of None \<Rightarrow> m | Some x \<Rightarrow> f x)"
  by (cases v) simp_all

section \<open>Argument checks the repositories share\<close>

text \<open>
  \<^verbatim>\<open>_require_identifier\<close> of the processing, supervision and cursor repositories, and
  \<^verbatim>\<open>_require_scope\<close>, which is the same check on the field \<^verbatim>\<open>scope_id\<close>.
\<close>

definition require_identifier :: "string \<Rightarrow> string \<Rightarrow> nat \<Rightarrow> ('s, unit) exec" where
  "require_identifier field value maximum =
     andThen
       (require (trimmed value)
          (InvalidRepositoryArgument field ''must be a non-empty trimmed string''))
       (require (length value \<le> maximum)
          (InvalidRepositoryArgument field (''must not exceed '' @ decimal maximum @ '' characters'')))"

definition valid_identifier :: "string \<Rightarrow> nat \<Rightarrow> bool" where
  "valid_identifier value maximum \<longleftrightarrow> trimmed value \<and> length value \<le> maximum"

lemma require_identifier_run:
  "require_identifier f v m s =
     (if valid_identifier v m then (Inr (), s)
      else (Inl (InvalidRepositoryArgument f
              (if trimmed v then ''must not exceed '' @ decimal m @ '' characters''
               else ''must be a non-empty trimmed string'')), s))"
  by (simp add: require_identifier_def valid_identifier_def andThen_run)

lemma require_identifier_Inr_iff [simp]:
  "require_identifier f v m s = (Inr x, t) \<longleftrightarrow> valid_identifier v m \<and> t = s"
  by (auto simp: require_identifier_run)

lemma require_identifier_ok [simp, exec_simps]:
  "valid_identifier v m \<Longrightarrow> require_identifier f v m s = (Inr (), s)"
  by (simp add: require_identifier_run)

lemma reads_only_require_identifier [intro, simp]: "reads_only (require_identifier f v m)"
  by (simp add: reads_only_def require_identifier_run)

lemma preserves_require_identifier [preserves_rules, intro]:
  "preserves P (require_identifier f v m)"
  by (rule reads_only_preserves) simp

section \<open>Lists\<close>

lemma find_filter: "List.find p xs = (case filter p xs of [] \<Rightarrow> None | x # _ \<Rightarrow> Some x)"
  by (induction xs) auto

lemma find_SomeD: "List.find p xs = Some x \<Longrightarrow> x \<in> set xs \<and> p x"
  by (auto simp: find_Some_iff)

lemma find_append:
  "List.find p (xs @ ys) = (case List.find p xs of None \<Rightarrow> List.find p ys | Some x \<Rightarrow> Some x)"
  by (induction xs) auto

lemma find_in_filter: "List.find q (filter p xs) = List.find (\<lambda>x. p x \<and> q x) xs"
  by (induction xs) auto

lemma find_never: "(\<And>x. x \<in> set xs \<Longrightarrow> \<not> p x) \<Longrightarrow> List.find p xs = None"
  by (auto simp: find_None_iff)

lemma find_cong_set:
  "(\<And>x. x \<in> set xs \<Longrightarrow> p x = q x) \<Longrightarrow> List.find p xs = List.find q xs"
  by (induction xs) auto

text \<open>The slices \<^verbatim>\<open>xs[start : start + n] for start in range(0, len(xs), n)\<close>.\<close>

fun batches :: "nat \<Rightarrow> 'a list \<Rightarrow> 'a list list" where
  "batches n xs = (if xs = [] \<or> n = 0 then [] else take n xs # batches n (drop n xs))"

declare batches.simps [simp del]

lemma concat_batches: "0 < n \<Longrightarrow> concat (batches n xs) = xs"
  by (induction n xs rule: batches.induct) (subst batches.simps, auto)

text \<open>\<^verbatim>\<open>dict.fromkeys\<close>: the distinct elements in order of first occurrence.\<close>

fun dedup_onto :: "'a list \<Rightarrow> 'a list \<Rightarrow> 'a list" where
  "dedup_onto seen [] = []"
| "dedup_onto seen (x # xs) =
     (if x \<in> set seen then dedup_onto seen xs else x # dedup_onto (x # seen) xs)"

definition from_keys :: "'a list \<Rightarrow> 'a list" where
  "from_keys xs = dedup_onto [] xs"

lemma set_dedup_onto: "set (dedup_onto seen xs) = set xs - set seen"
  by (induction seen xs rule: dedup_onto.induct) auto

lemma distinct_dedup_onto: "distinct (dedup_onto seen xs)"
  by (induction seen xs rule: dedup_onto.induct) (auto simp: set_dedup_onto)

lemma set_from_keys [simp]: "set (from_keys xs) = set xs"
  by (simp add: from_keys_def set_dedup_onto)

lemma distinct_from_keys [simp]: "distinct (from_keys xs)"
  by (simp add: from_keys_def distinct_dedup_onto)

lemma dedup_onto_distinct:
  "distinct xs \<Longrightarrow> set xs \<inter> set seen = {} \<Longrightarrow> dedup_onto seen xs = xs"
  by (induction seen xs rule: dedup_onto.induct) auto

lemma from_keys_distinct [simp]: "distinct xs \<Longrightarrow> from_keys xs = xs"
  by (simp add: from_keys_def dedup_onto_distinct)


text \<open>Keyset pagination over a strictly sorted list: the next page starts after the last key.\<close>

lemma sorted_wrt_key_filter:
  fixes key :: "'a \<Rightarrow> 'k::linorder"
  assumes "sorted_wrt (\<lambda>a b. key a < key b) (xs @ ys)" and "xs \<noteq> []"
  shows "filter (\<lambda>x. key (last xs) < key x) (xs @ ys) = ys"
proof -
  obtain us u where xs: "xs = us @ [u]"
    using assms(2) by (cases xs rule: rev_cases) auto
  with assms(1) have "filter (\<lambda>x. key u < key x) us = []" "filter (\<lambda>x. key u < key x) ys = ys"
    by (auto simp: sorted_wrt_append filter_empty_conv filter_id_conv dest: less_not_sym)
  with xs show ?thesis by simp
qed

lemma keyset_page:
  fixes key :: "'a \<Rightarrow> 'k::linorder"
  assumes "sorted_wrt (\<lambda>a b. key a < key b) xs" and "take m xs \<noteq> []"
  shows "take (m + n) xs = take m xs @ take n (filter (\<lambda>x. key (last (take m xs)) < key x) xs)"
  using sorted_wrt_key_filter [of key "take m xs" "drop m xs"] assms by (simp add: take_add)

lemma filter_after:
  fixes key :: "'a \<Rightarrow> 'k::linorder"
  shows "k < key y \<Longrightarrow> filter (\<lambda>x. key y < key x) (filter (\<lambda>x. k < key x) xs) = filter (\<lambda>x. key y < key x) xs"
  by (induction xs) auto

lemma sorted_key_distinct:
  fixes key :: "'a \<Rightarrow> 'k::linorder"
  assumes "distinct (map key xs)"
  shows "sorted_wrt (\<lambda>a b. key a < key b) (sort_key key xs)"
proof -
  have "distinct (map key (sort_key key xs))"
    using assms by (simp add: distinct_map)
  then have "sorted_wrt (<) (map key (sort_key key xs))"
    by (simp add: strict_sorted_iff)
  then show ?thesis by (simp add: sorted_wrt_map)
qed

lemma filter_sort_key: "filter p (sort_key key xs) = sort_key key (filter p xs)"
  by (rule filter_sort)

text \<open>A pure result as an operation.\<close>

definition lift_result :: "error + 'a \<Rightarrow> ('s, 'a) exec" where
  "lift_result x = (case x of Inl e \<Rightarrow> raise e | Inr v \<Rightarrow> return v)"

lemma lift_result_run [simp, exec_simps]:
  "lift_result x s = (x, s)"
  by (cases x) (simp_all add: lift_result_def)

lemma reads_only_lift_result [intro, simp]: "reads_only (lift_result x)"
  by (simp add: reads_only_def)

lemma preserves_lift_result [preserves_rules, intro]: "preserves P (lift_result x)"
  by (rule reads_only_preserves) simp

text \<open>The same operation, or the same pure decoding, on each element in turn; the first error ends it.\<close>

fun each_result :: "('a \<Rightarrow> error + 'b) \<Rightarrow> 'a list \<Rightarrow> error + 'b list" where
  "each_result f [] = Inr []"
| "each_result f (x # xs) = (case f x of
     Inl e \<Rightarrow> Inl e
   | Inr y \<Rightarrow> (case each_result f xs of Inl e \<Rightarrow> Inl e | Inr ys \<Rightarrow> Inr (y # ys)))"

lemma each_result_append: "each_result f (xs @ ys) = (case each_result f xs of
    Inl e \<Rightarrow> Inl e
  | Inr as \<Rightarrow> (case each_result f ys of Inl e \<Rightarrow> Inl e | Inr bs \<Rightarrow> Inr (as @ bs)))"
  by (induction xs) (auto split: sum.splits)

fun collect :: "('a \<Rightarrow> ('s, 'b) exec) \<Rightarrow> 'a list \<Rightarrow> ('s, 'b list) exec" where
  "collect f [] = return []"
| "collect f (x # xs) = bind (f x) (\<lambda>y. bind (collect f xs) (\<lambda>ys. return (y # ys)))"

lemma collect_Inr:
  assumes "collect f xs s = (Inr ys, t)"
    and "\<And>x s u y. f x s = (Inr y, u) \<Longrightarrow> R s u \<and> Q x y" and "\<And>s. R s s" and "\<And>a b c. R a b \<Longrightarrow> R b c \<Longrightarrow> R a c"
  shows "R s t \<and> list_all2 Q xs ys"
  using assms(1)
proof (induction xs arbitrary: s ys)
  case Nil
  then show ?case using assms(3) by simp
next
  case (Cons x xs)
  then obtain y u zs where "f x s = (Inr y, u)" "collect f xs u = (Inr zs, t)" "ys = y # zs"
    by (auto simp: bind_Inr_iff)
  with Cons.IH assms(2) [of x s y u] assms(4) show ?case by auto
qed

lemma collect_run:
  "(\<And>x. x \<in> set xs \<Longrightarrow> f x s = (Inr (g x), s)) \<Longrightarrow> collect f xs s = (Inr (map g xs), s)"
  by (induction xs) (auto simp: bind_run)

end
