(* ===== verification/Sql.thy ===== *)
theory Sql
  imports Prelude
begin

text \<open>
  The relational statements the repositories issue through SQLAlchemy, over tables of
  rows. A table handle says where the rows live in the database state, which two rows
  clash on a primary key or \<^verbatim>\<open>UNIQUE\<close> constraint, and which rows the \<^verbatim>\<open>CHECK\<close>,
  \<^verbatim>\<open>NOT NULL\<close> and \<^verbatim>\<open>FOREIGN KEY\<close> constraints admit. A statement that would break
  a constraint raises \<^const>\<open>IntegrityError\<close> and changes nothing.

  Statements of one transaction run one after another on the state; \<^verbatim>\<open>FOR UPDATE\<close> and
  the no-op updates the code issues to take a write lock change no row and are left out.

  The locale \<open>stored_table\<close> states what a handle must satisfy (it is a lens on the
  database state, and clashing is symmetric) and proves once what the statements do to
  the rows, to the lookup of a key, and to the table's own invariant \<open>table_ok\<close>.
\<close>

record ('s, 'r) sql_table =
  rows_of :: "'s \<Rightarrow> 'r list"
  put_rows :: "'r list \<Rightarrow> 's \<Rightarrow> 's"
  clash :: "'r \<Rightarrow> 'r \<Rightarrow> bool"
  admits :: "'s \<Rightarrow> 'r \<Rightarrow> bool"

definition update_rows :: "('r \<Rightarrow> bool) \<Rightarrow> ('r \<Rightarrow> 'r) \<Rightarrow> 'r list \<Rightarrow> 'r list" where
  "update_rows p f t = map (\<lambda>r. if p r then f r else r) t"

definition clash_free :: "('s, 'r) sql_table \<Rightarrow> 'r list \<Rightarrow> bool" where
  "clash_free T t \<longleftrightarrow> sorted_wrt (\<lambda>a b. \<not> clash T a b) t"

definition table_ok :: "('s, 'r) sql_table \<Rightarrow> 's \<Rightarrow> bool" where
  "table_ok T s \<longleftrightarrow> clash_free T (rows_of T s) \<and> (\<forall>r \<in> set (rows_of T s). admits T s r)"

definition sql_select :: "('s, 'r) sql_table \<Rightarrow> ('r \<Rightarrow> bool) \<Rightarrow> ('s, 'r list) exec" where
  "sql_select T p = gets (\<lambda>s. filter p (rows_of T s))"

text \<open>\<^verbatim>\<open>.one_or_none()\<close>, which refuses a result of several rows.\<close>

definition sql_one_or_none :: "('s, 'r) sql_table \<Rightarrow> ('r \<Rightarrow> bool) \<Rightarrow> ('s, 'r option) exec" where
  "sql_one_or_none T p = bind (sql_select T p) (\<lambda>rs. case rs of
      [] \<Rightarrow> return None
    | [r] \<Rightarrow> return (Some r)
    | _ \<Rightarrow> raise MultipleResultsFound)"

text \<open>\<^verbatim>\<open>connection.scalar(select(column)...)\<close>: the column of the first row, or \<^verbatim>\<open>None\<close>.\<close>

definition sql_scalar :: "('s, 'r) sql_table \<Rightarrow> ('r \<Rightarrow> bool) \<Rightarrow> ('r \<Rightarrow> 'v) \<Rightarrow> ('s, 'v option) exec" where
  "sql_scalar T p col = gets (\<lambda>s. map_option col (List.find p (rows_of T s)))"

definition sql_insert :: "('s, 'r) sql_table \<Rightarrow> 'r \<Rightarrow> ('s, unit) exec" where
  "sql_insert T r = (\<lambda>s.
     if (\<exists>r' \<in> set (rows_of T s). clash T r r') \<or> \<not> admits T s r then (Inl IntegrityError, s)
     else (Inr (), put_rows T (rows_of T s @ [r]) s))"

text \<open>\<^verbatim>\<open>INSERT OR IGNORE\<close>; the result is the statement's row count.\<close>

definition sql_insert_ignore :: "('s, 'r) sql_table \<Rightarrow> 'r \<Rightarrow> ('s, nat) exec" where
  "sql_insert_ignore T r = (\<lambda>s.
     if \<exists>r' \<in> set (rows_of T s). clash T r r' then (Inr 0, s)
     else if \<not> admits T s r then (Inl IntegrityError, s)
     else (Inr 1, put_rows T (rows_of T s @ [r]) s))"

text \<open>The result of an update or a delete is its row count: how many rows matched.\<close>

definition sql_update :: "('s, 'r) sql_table \<Rightarrow> ('r \<Rightarrow> bool) \<Rightarrow> ('r \<Rightarrow> 'r) \<Rightarrow> ('s, nat) exec" where
  "sql_update T p f = (\<lambda>s.
     let t = rows_of T s; t' = update_rows p f t in
     if (\<forall>r \<in> set t. p r \<longrightarrow> admits T s (f r)) \<and> clash_free T t'
     then (Inr (length (filter p t)), put_rows T t' s)
     else (Inl IntegrityError, s))"

definition sql_delete :: "('s, 'r) sql_table \<Rightarrow> ('r \<Rightarrow> bool) \<Rightarrow> ('s, nat) exec" where
  "sql_delete T p = (\<lambda>s.
     let t = rows_of T s in
     (Inr (length (filter p t)), put_rows T (filter (\<lambda>r. \<not> p r) t) s))"

text \<open>\<^verbatim>\<open>INSERT ... ON CONFLICT DO UPDATE\<close>: the clashing row is updated instead.\<close>

definition sql_upsert :: "('s, 'r) sql_table \<Rightarrow> 'r \<Rightarrow> ('r \<Rightarrow> 'r) \<Rightarrow> ('s, unit) exec" where
  "sql_upsert T r f = (\<lambda>s.
     if \<exists>r' \<in> set (rows_of T s). clash T r r'
     then andThen (sql_update T (clash T r) f) (return ()) s
     else sql_insert T r s)"

section \<open>Rows\<close>

lemma update_rows_simps [simp]:
  "update_rows p f [] = []"
  "update_rows p f (r # t) = (if p r then f r else r) # update_rows p f t"
  by (simp_all add: update_rows_def)

lemma set_update_rows: "set (update_rows p f t) = (\<lambda>r. if p r then f r else r) ` set t"
  by (simp add: update_rows_def)

lemma length_update_rows [simp]: "length (update_rows p f t) = length t"
  by (simp add: update_rows_def)

lemma update_rows_id:
  "(\<And>r. r \<in> set t \<Longrightarrow> p r \<Longrightarrow> f r = r) \<Longrightarrow> update_rows p f t = t"
  by (induction t) auto

lemma update_rows_none: "(\<And>r. r \<in> set t \<Longrightarrow> \<not> p r) \<Longrightarrow> update_rows p f t = t"
  by (induction t) auto

lemma filter_update_rows_stable:
  "(\<And>r. r \<in> set t \<Longrightarrow> p r \<Longrightarrow> q (f r) = q r) \<Longrightarrow>
     filter q (update_rows p f t) = update_rows p f (filter q t)"
  by (induction t) auto

lemma find_update_rows:
  "(\<And>r. r \<in> set t \<Longrightarrow> p r \<Longrightarrow> q (f r) = q r) \<Longrightarrow>
     List.find q (update_rows p f t) = map_option (\<lambda>r. if p r then f r else r) (List.find q t)"
  by (induction t) auto

lemma map_update_rows_stable:
  "(\<And>r. r \<in> set t \<Longrightarrow> p r \<Longrightarrow> g (f r) = g r) \<Longrightarrow> map g (update_rows p f t) = map g t"
  by (induction t) auto

lemma clash_free_Nil [simp]: "clash_free T []"
  by (simp add: clash_free_def)

lemma clash_free_append1:
  "clash_free T (t @ [r]) \<longleftrightarrow> clash_free T t \<and> (\<forall>r' \<in> set t. \<not> clash T r' r)"
  by (auto simp: clash_free_def sorted_wrt_append)

lemma clash_free_filter: "clash_free T t \<Longrightarrow> clash_free T (filter p t)"
  by (simp add: clash_free_def sorted_wrt_filter)

lemma clash_free_update_rows:
  assumes "clash_free T t"
    and "\<And>a b. a \<in> set t \<Longrightarrow> b \<in> set t \<Longrightarrow> \<not> clash T a b \<Longrightarrow>
            \<not> clash T (if p a then f a else a) (if p b then f b else b)"
  shows "clash_free T (update_rows p f t)"
  unfolding clash_free_def update_rows_def sorted_wrt_map
  by (rule sorted_wrt_mono_rel [OF _ assms(1) [unfolded clash_free_def]]) (rule assms(2))

lemma clash_free_at_most_one:
  assumes "clash_free T t" and "\<And>a b. p a \<Longrightarrow> p b \<Longrightarrow> clash T a b"
  shows "filter p t = (case List.find p t of None \<Rightarrow> [] | Some r \<Rightarrow> [r])"
  using assms(1)
proof (induction t)
  case Nil
  then show ?case by simp
next
  case (Cons r t)
  show ?case
  proof (cases "p r")
    case True
    with Cons.prems assms(2) have "\<forall>r' \<in> set t. \<not> p r'"
      by (auto simp: clash_free_def)
    with True show ?thesis by (simp add: filter_empty_conv)
  next
    case False
    with Cons show ?thesis by (simp add: clash_free_def)
  qed
qed

section \<open>Statements\<close>

lemma sql_select_run [simp, exec_simps]: "sql_select T p s = (Inr (filter p (rows_of T s)), s)"
  by (simp add: sql_select_def)

lemma sql_scalar_run [simp, exec_simps]:
  "sql_scalar T p c s = (Inr (map_option c (List.find p (rows_of T s))), s)"
  by (simp add: sql_scalar_def)

lemma reads_only_sql [intro, simp]:
  "reads_only (sql_select T p)" "reads_only (sql_scalar T p c)" "reads_only (sql_one_or_none T p)"
  by (auto simp: reads_only_def sql_one_or_none_def bind_run split: list.splits)

lemmas preserves_sql_reads [preserves_rules, intro] = reads_only_sql [THEN reads_only_preserves]

lemma sql_one_or_none_run:
  assumes "clash_free T (rows_of T s)" and "\<And>a b. p a \<Longrightarrow> p b \<Longrightarrow> clash T a b"
  shows "sql_one_or_none T p s = (Inr (List.find p (rows_of T s)), s)"
  using clash_free_at_most_one [OF assms]
  by (simp add: sql_one_or_none_def bind_run split: option.splits)

lemma sql_one_or_none_Inr:
  "sql_one_or_none T p s = (Inr x, t) \<Longrightarrow> t = s \<and> x = List.find p (rows_of T s)"
  by (auto simp: sql_one_or_none_def bind_run find_filter split: list.splits)

text \<open>
  A property that does not depend on a table's rows survives every statement on the
  table: the frame rule of the development.
\<close>

lemma preserves_frame:
  assumes "\<And>t s. P s \<Longrightarrow> P (put_rows T t s)"
  shows "preserves P (sql_insert T r)" "preserves P (sql_insert_ignore T r)"
    "preserves P (sql_update T p f)" "preserves P (sql_delete T p)" "preserves P (sql_upsert T r f)"
  using assms
  by (auto simp: preserves_def sql_insert_def sql_insert_ignore_def sql_update_def sql_delete_def
      sql_upsert_def andThen_run Let_def)

section \<open>The contract of a table handle\<close>

locale stored_table =
  fixes T :: "('s, 'r) sql_table"
  assumes rows_put [simp]: "rows_of T (put_rows T t s) = t"
    and put_same [simp]: "put_rows T (rows_of T s) s = s"
    and put_put [simp]: "put_rows T u (put_rows T t s) = put_rows T u s"
    and clash_sym: "clash T a b \<Longrightarrow> clash T b a"
    and admits_put: "admits T (put_rows T t s) r = admits T s r"
begin

lemma insert_cases:
  obtains "sql_insert T r s = (Inl IntegrityError, s)"
  | "sql_insert T r s = (Inr (), put_rows T (rows_of T s @ [r]) s)"
    "\<forall>r' \<in> set (rows_of T s). \<not> clash T r r'" "admits T s r"
proof (cases "(\<exists>r' \<in> set (rows_of T s). clash T r r') \<or> \<not> admits T s r")
  case True
  then show ?thesis by (intro that(1)) (simp add: sql_insert_def)
next
  case False
  then show ?thesis by (intro that(2)) (auto simp: sql_insert_def)
qed

lemma insert_ok:
  "(\<And>r'. r' \<in> set (rows_of T s) \<Longrightarrow> \<not> clash T r r') \<Longrightarrow> admits T s r \<Longrightarrow>
     sql_insert T r s = (Inr (), put_rows T (rows_of T s @ [r]) s)"
  by (auto simp: sql_insert_def)

lemma table_ok_put:
  "table_ok T (put_rows T t s) \<longleftrightarrow> clash_free T t \<and> (\<forall>r \<in> set t. admits T s r)"
  by (simp add: table_ok_def admits_put)

lemma table_ok_insert: "table_ok T s \<Longrightarrow> table_ok T (snd (sql_insert T r s))"
  by (cases rule: insert_cases [of r s])
     (auto simp: table_ok_put clash_free_append1 dest: clash_sym, auto simp: table_ok_def)

lemma table_ok_insert_ignore: "table_ok T s \<Longrightarrow> table_ok T (snd (sql_insert_ignore T r s))"
  using table_ok_insert [of s r] by (auto simp: sql_insert_ignore_def sql_insert_def)

lemma table_ok_update: "table_ok T s \<Longrightarrow> table_ok T (snd (sql_update T p f s))"
  by (auto simp: sql_update_def table_ok_put Let_def set_update_rows)
     (auto simp: table_ok_def)

lemma table_ok_delete: "table_ok T s \<Longrightarrow> table_ok T (snd (sql_delete T p s))"
  by (auto simp: sql_delete_def table_ok_put Let_def clash_free_filter)
     (auto simp: table_ok_def clash_free_filter)

lemma table_ok_upsert: "table_ok T s \<Longrightarrow> table_ok T (snd (sql_upsert T r f s))"
  using table_ok_insert [of s r] table_ok_update [of s "clash T r" f]
  by (auto simp: sql_upsert_def andThen_run split: prod.splits sum.splits)

lemmas table_ok_statements =
  table_ok_insert table_ok_insert_ignore table_ok_update table_ok_delete table_ok_upsert

text \<open>No statement on the table breaks its own constraints.\<close>

lemma preserves_table_ok [preserves_rules]:
  "preserves (table_ok T) (sql_insert T r)"
  "preserves (table_ok T) (sql_insert_ignore T r)"
  "preserves (table_ok T) (sql_update T p f)"
  "preserves (table_ok T) (sql_delete T p)"
  "preserves (table_ok T) (sql_upsert T r f)"
  by (auto intro!: preservesI table_ok_statements)

text \<open>An update whose new rows keep their keys and stay admissible always takes effect.\<close>

lemma update_run:
  assumes "table_ok T s"
    and "\<And>r. r \<in> set (rows_of T s) \<Longrightarrow> p r \<Longrightarrow> admits T s (f r)"
    and "\<And>a b. clash T (if p a then f a else a) (if p b then f b else b) = clash T a b"
  shows "sql_update T p f s =
    (Inr (length (filter p (rows_of T s))), put_rows T (update_rows p f (rows_of T s)) s)"
  using assms by (auto simp: sql_update_def table_ok_def Let_def clash_free_update_rows)

text \<open>The update that only takes a write lock.\<close>

lemma update_same:
  "table_ok T s \<Longrightarrow> (\<And>r. p r \<Longrightarrow> f r = r) \<Longrightarrow> sql_update T p f s = (Inr (length (filter p (rows_of T s))), s)"
  by (auto simp: sql_update_def update_rows_id table_ok_def Let_def)

lemma one_or_none_run:
  assumes "table_ok T s" and "\<And>a b. p a \<Longrightarrow> p b \<Longrightarrow> clash T a b"
  shows "sql_one_or_none T p s = (Inr (List.find p (rows_of T s)), s)"
  using assms by (auto simp: table_ok_def intro: sql_one_or_none_run)

text \<open>
  A key: a predicate that at most one row of a clash-free table satisfies. A guarded
  update on a key is the compare-and-swap the repositories are built on: it matches one
  row or none.
\<close>

lemma guarded_filter:
  assumes "table_ok T s" and "\<And>a b. k a \<Longrightarrow> k b \<Longrightarrow> clash T a b"
  shows "filter (\<lambda>r. k r \<and> g r) (rows_of T s) =
    (case List.find k (rows_of T s) of None \<Rightarrow> [] | Some r \<Rightarrow> if g r then [r] else [])"
proof -
  have "filter k (rows_of T s) = (case List.find k (rows_of T s) of None \<Rightarrow> [] | Some r \<Rightarrow> [r])"
    using assms by (auto simp: table_ok_def intro: clash_free_at_most_one)
  moreover have "filter (\<lambda>r. k r \<and> g r) (rows_of T s) = filter g (filter k (rows_of T s))"
    by simp
  ultimately show ?thesis
    by (simp del: filter_filter split: option.split)
qed

lemma cas_run:
  assumes "table_ok T s" and "\<And>a b. k a \<Longrightarrow> k b \<Longrightarrow> clash T a b"
    and "\<And>r. List.find k (rows_of T s) = Some r \<Longrightarrow> g r \<Longrightarrow> admits T s (f r)"
    and "\<And>a b. clash T (if k a \<and> g a then f a else a) (if k b \<and> g b then f b else b) = clash T a b"
  shows "sql_update T (\<lambda>r. k r \<and> g r) f s =
    (case List.find k (rows_of T s) of
       None \<Rightarrow> (Inr 0, s)
     | Some r \<Rightarrow> if g r then (Inr 1, put_rows T (update_rows (\<lambda>r. k r \<and> g r) f (rows_of T s)) s)
               else (Inr 0, s))"
proof -
  have match: "filter (\<lambda>r. k r \<and> g r) (rows_of T s) =
      (case List.find k (rows_of T s) of None \<Rightarrow> [] | Some r \<Rightarrow> if g r then [r] else [])"
    by (rule guarded_filter [OF assms(1,2)])
  have "admits T s (f r)" if "r \<in> set (rows_of T s)" "k r \<and> g r" for r
  proof -
    from that have "r \<in> set (filter (\<lambda>r. k r \<and> g r) (rows_of T s))" by simp
    with match assms(3) show ?thesis by (auto split: option.splits if_splits)
  qed
  then have "sql_update T (\<lambda>r. k r \<and> g r) f s = (Inr (length (filter (\<lambda>r. k r \<and> g r) (rows_of T s))),
      put_rows T (update_rows (\<lambda>r. k r \<and> g r) f (rows_of T s)) s)"
    using assms by (intro update_run) auto
  moreover have "update_rows (\<lambda>r. k r \<and> g r) f (rows_of T s) = rows_of T s"
    if "filter (\<lambda>r. k r \<and> g r) (rows_of T s) = []"
    using that by (intro update_rows_none) (auto simp: filter_empty_conv)
  ultimately show ?thesis using match by (auto split: option.split)
qed

lemma key_update_run:
  assumes "table_ok T s" and "\<And>a b. k a \<Longrightarrow> k b \<Longrightarrow> clash T a b"
    and "\<And>r. List.find k (rows_of T s) = Some r \<Longrightarrow> admits T s (f r)"
    and "\<And>a b. clash T (if k a then f a else a) (if k b then f b else b) = clash T a b"
  shows "sql_update T k f s =
    (case List.find k (rows_of T s) of
       None \<Rightarrow> (Inr 0, s)
     | Some r \<Rightarrow> (Inr 1, put_rows T (update_rows k f (rows_of T s)) s))"
  using cas_run [of s k "\<lambda>_. True" f] assms by (simp split: option.split)

lemma insert_many_run:
  assumes "clash_free T (rows_of T s @ rs)" and "\<And>r. r \<in> set rs \<Longrightarrow> admits T s r"
  shows "for_each rs (sql_insert T) s = (Inr (), put_rows T (rows_of T s @ rs) s)"
  using assms
proof (induction rs arbitrary: s)
  case Nil
  then show ?case by simp
next
  case (Cons r rs)
  have "sql_insert T r s = (Inr (), put_rows T (rows_of T s @ [r]) s)"
    using Cons.prems
    by (intro insert_ok) (auto simp: clash_free_def sorted_wrt_append dest: clash_sym)
  with Cons.IH [of "put_rows T (rows_of T s @ [r]) s"] Cons.prems show ?case
    by (simp add: andThen_run admits_put)
qed

text \<open>Rows inserted one after another, seen from the outcome.\<close>

lemma insert_many_Inr:
  assumes "for_each rs (sql_insert T) s = (Inr x, t)"
  shows "t = put_rows T (rows_of T s @ rs) s \<and> (\<forall>r \<in> set rs. admits T s r)
    \<and> (clash_free T (rows_of T s) \<longrightarrow> clash_free T (rows_of T s @ rs))"
  using assms
proof (induction rs arbitrary: s)
  case Nil
  then show ?case by simp
next
  case (Cons r rs)
  then obtain u where u: "sql_insert T r s = (Inr (), u)" "for_each rs (sql_insert T) u = (Inr x, t)"
    by (auto simp: andThen_Inr_iff)
  then have new: "u = put_rows T (rows_of T s @ [r]) s" "\<forall>r' \<in> set (rows_of T s). \<not> clash T r r'" "admits T s r"
    by (cases rule: insert_cases [of r s]; simp)+
  then have "clash_free T (rows_of T u)" if "clash_free T (rows_of T s)"
    using that by (auto simp: clash_free_append1 dest: clash_sym)
  with Cons.IH [OF u(2)] new show ?case by (simp add: admits_put)
qed

lemma matching_count:
  assumes "table_ok T s" and "\<And>a b. p a \<Longrightarrow> p b \<Longrightarrow> clash T a b"
  shows "length (filter p (rows_of T s)) = (if List.find p (rows_of T s) = None then 0 else 1)"
  using clash_free_at_most_one [of T "rows_of T s" p] assms
  by (auto simp: table_ok_def split: option.splits)

lemma find_key_delete:
  assumes "table_ok T s" and "\<And>a b. p a \<Longrightarrow> p b \<Longrightarrow> clash T a b"
  shows "List.find p (filter (\<lambda>r. \<not> q r) (rows_of T s)) =
    (case List.find p (rows_of T s) of None \<Rightarrow> None | Some r \<Rightarrow> if q r then None else Some r)"
proof -
  have "filter p (rows_of T s) = (case List.find p (rows_of T s) of None \<Rightarrow> [] | Some r \<Rightarrow> [r])"
    using assms by (auto simp: table_ok_def intro: clash_free_at_most_one)
  moreover have "List.find p (filter (\<lambda>r. \<not> q r) (rows_of T s)) =
      (case filter (\<lambda>r. \<not> q r) (filter p (rows_of T s)) of [] \<Rightarrow> None | x # _ \<Rightarrow> Some x)"
    by (simp add: find_filter conj_commute)
  ultimately show ?thesis
    by (simp del: filter_filter split: option.split)
qed

end


section \<open>Facts about every row, and the row of a key\<close>

text \<open>A fact about every row of a table survives a statement that inserts or makes only such rows.\<close>

lemma preserves_every_row:
  fixes rows :: "'s \<Rightarrow> 'r list"
  assumes "rows_of T = rows" and "stored_table T"
  shows "Q r \<Longrightarrow> preserves (\<lambda>s. \<forall>x \<in> set (rows s). Q x) (sql_insert T r)"
    and "(\<And>x. Q x \<Longrightarrow> p x \<Longrightarrow> Q (f x)) \<Longrightarrow> preserves (\<lambda>s. \<forall>x \<in> set (rows s). Q x) (sql_update T p f)"
    and "preserves (\<lambda>s. \<forall>x \<in> set (rows s). Q x) (sql_delete T p)"
  using assms(1) stored_table.rows_put [OF assms(2)]
  by (auto simp: preserves_def sql_insert_def sql_update_def sql_delete_def Let_def set_update_rows)

lemma find_key_row:
  assumes "clash_free T rows" and "\<And>a b. k a \<Longrightarrow> k b \<Longrightarrow> clash T a b" and "r \<in> set rows" and "k r"
  shows "List.find k rows = Some r"
proof -
  have "r \<in> set (filter k rows)" using assms(3,4) by simp
  then show ?thesis
    using clash_free_at_most_one [OF assms(1,2)] by (cases "List.find k rows") simp_all
qed

section \<open>Tables with a primary key only\<close>

text \<open>
  Most tables have one constraint between rows, the primary key. For them the rows are a
  map from keys to rows: the lookup of a key, and storing a row under its key.
\<close>

definition lookup_row :: "('s, 'r) sql_table \<Rightarrow> ('r \<Rightarrow> 'k) \<Rightarrow> 's \<Rightarrow> 'k \<Rightarrow> 'r option" where
  "lookup_row T key s k = List.find (\<lambda>r. key r = k) (rows_of T s)"

definition store_row :: "('s, 'r) sql_table \<Rightarrow> ('r \<Rightarrow> 'k) \<Rightarrow> 'r \<Rightarrow> 's \<Rightarrow> 's" where
  "store_row T key r s = put_rows T
     (if lookup_row T key s (key r) = None then rows_of T s @ [r]
      else update_rows (\<lambda>x. key x = key r) (\<lambda>_. r) (rows_of T s)) s"

definition remove_row :: "('s, 'r) sql_table \<Rightarrow> ('r \<Rightarrow> 'k) \<Rightarrow> 'k \<Rightarrow> 's \<Rightarrow> 's" where
  "remove_row T key k s = put_rows T (filter (\<lambda>r. key r \<noteq> k) (rows_of T s)) s"

locale keyed_table = stored_table T
  for T :: "('s, 'r) sql_table" +
  fixes key :: "'r \<Rightarrow> 'k"
  assumes clash_key: "clash T a b \<longleftrightarrow> key a = key b"
begin

lemma lookup_key: "lookup_row T key s k = Some r \<Longrightarrow> key r = k \<and> r \<in> set (rows_of T s)"
  by (auto simp: lookup_row_def dest: find_SomeD)

lemma lookup_None: "lookup_row T key s k = None \<longleftrightarrow> (\<forall>r \<in> set (rows_of T s). key r \<noteq> k)"
  by (auto simp: lookup_row_def find_None_iff)

lemma row_unique:
  assumes "table_ok T s" and "r \<in> set (rows_of T s)" and "r' \<in> set (rows_of T s)" and "key r = key r'"
  shows "r = r'"
proof -
  have "filter (\<lambda>x. key x = key r) (rows_of T s) =
      (case List.find (\<lambda>x. key x = key r) (rows_of T s) of None \<Rightarrow> [] | Some r \<Rightarrow> [r])"
    using assms(1) by (intro clash_free_at_most_one [where T = T]) (auto simp: clash_key table_ok_def)
  moreover have "r \<in> set (filter (\<lambda>x. key x = key r) (rows_of T s))"
    "r' \<in> set (filter (\<lambda>x. key x = key r) (rows_of T s))"
    using assms(2-4) by auto
  ultimately show ?thesis by (auto split: option.splits)
qed

lemma lookup_mem:
  assumes "table_ok T s" and "r \<in> set (rows_of T s)"
  shows "lookup_row T key s (key r) = Some r"
proof (cases "lookup_row T key s (key r)")
  case None
  with assms(2) show ?thesis by (auto simp: lookup_None)
next
  case (Some c)
  then have "r = c" using lookup_key [OF Some] by (intro row_unique [OF assms]) auto
  with Some show ?thesis by simp
qed

lemma lookup_iff:
  "table_ok T s \<Longrightarrow> lookup_row T key s k = Some r \<longleftrightarrow> r \<in> set (rows_of T s) \<and> key r = k"
  using lookup_mem [of s r] lookup_key [of s k r] by auto

lemma lookup_admits: "table_ok T s \<Longrightarrow> lookup_row T key s k = Some r \<Longrightarrow> admits T s r"
  by (auto simp: table_ok_def dest: lookup_key)

lemma rows_store:
  "rows_of T (store_row T key r s) = (if lookup_row T key s (key r) = None then rows_of T s @ [r]
      else update_rows (\<lambda>x. key x = key r) (\<lambda>_. r) (rows_of T s))"
  by (simp add: store_row_def)

lemma lookup_store:
  "lookup_row T key (store_row T key r s) k = (if k = key r then Some r else lookup_row T key s k)"
proof (cases "lookup_row T key s (key r)")
  case None
  then have "List.find (\<lambda>x. key x = key r) (rows_of T s) = None"
    by (simp add: lookup_row_def)
  with None show ?thesis
    by (auto simp: lookup_row_def [of T key "store_row T key r s"] rows_store find_append)
       (auto simp: lookup_row_def split: option.split)
next
  case (Some c)
  have "List.find (\<lambda>x. key x = k) (update_rows (\<lambda>x. key x = key r) (\<lambda>_. r) (rows_of T s)) =
      map_option (\<lambda>x. if key x = key r then r else x) (List.find (\<lambda>x. key x = k) (rows_of T s))"
    by (rule find_update_rows) simp
  then have "lookup_row T key (store_row T key r s) k =
      map_option (\<lambda>x. if key x = key r then r else x) (lookup_row T key s k)"
    using Some by (simp add: lookup_row_def [of T key "store_row T key r s"] rows_store)
      (simp add: lookup_row_def)
  with Some show ?thesis
    using lookup_key [of s k] by (cases "lookup_row T key s k") auto
qed

lemma store_store:
  assumes "key r' = key r"
  shows "store_row T key r' (store_row T key r s) = store_row T key r' s"
proof -
  have "update_rows (\<lambda>x. key x = key r) (\<lambda>_. r') (update_rows (\<lambda>x. key x = key r) (\<lambda>_. r) t) =
      update_rows (\<lambda>x. key x = key r) (\<lambda>_. r') t" for t
    by (induction t) auto
  moreover have "update_rows (\<lambda>x. key x = key r) (\<lambda>_. r') (t @ [r]) = t @ [r']" if "\<forall>x \<in> set t. key x \<noteq> key r" for t
    using that by (simp add: update_rows_def map_idI)
  ultimately show ?thesis
    using assms lookup_store [of r s "key r"] lookup_None [of s "key r"]
    by (simp add: store_row_def [of T key r' s] store_row_def [of T key r' "store_row T key r s"] rows_store)
       (simp add: store_row_def)
qed

lemma table_ok_store: "table_ok T s \<Longrightarrow> admits T s r \<Longrightarrow> table_ok T (store_row T key r s)"
  unfolding store_row_def
  by (auto simp: table_ok_put clash_free_append1 clash_key lookup_None set_update_rows)
     (auto simp: table_ok_def clash_key intro!: clash_free_update_rows split: if_splits)

lemma lookup_remove: "lookup_row T key (remove_row T key k s) k' = (if k' = k then None else lookup_row T key s k')"
  by (auto simp: lookup_row_def remove_row_def find_in_filter intro!: find_never find_cong_set)

lemma table_ok_remove: "table_ok T s \<Longrightarrow> table_ok T (remove_row T key k s)"
  unfolding remove_row_def by (auto simp: table_ok_put) (auto simp: table_ok_def clash_free_filter)

lemma load_run:
  "table_ok T s \<Longrightarrow> (\<And>r. p r \<longleftrightarrow> key r = k) \<Longrightarrow> sql_one_or_none T p s = (Inr (lookup_row T key s k), s)"
  by (subst one_or_none_run) (auto simp: clash_key lookup_row_def intro: find_cong_set)

lemma insert_store:
  "lookup_row T key s (key r) = None \<Longrightarrow> admits T s r \<Longrightarrow> sql_insert T r s = (Inr (), store_row T key r s)"
  by (subst insert_ok) (auto simp: clash_key lookup_None store_row_def)

lemma insert_taken:
  "lookup_row T key s (key r) = Some c \<Longrightarrow> sql_insert T r s = (Inl IntegrityError, s)"
  using lookup_key [of s "key r" c] by (force simp: sql_insert_def clash_key)

lemma insert_ignore_run:
  "(lookup_row T key s (key r) = None \<Longrightarrow> admits T s r) \<Longrightarrow> sql_insert_ignore T r s =
     (if lookup_row T key s (key r) = None then (Inr 1, store_row T key r s) else (Inr 0, s))"
  using lookup_key [of s "key r"]
  by (auto simp: sql_insert_ignore_def clash_key lookup_None store_row_def)

lemma find_keyed:
  assumes "table_ok T s" and "\<And>r. p r \<Longrightarrow> key r = k"
  shows "List.find p (rows_of T s) = (case lookup_row T key s k of
      None \<Rightarrow> None | Some c \<Rightarrow> if p c then Some c else None)"
proof (cases "\<exists>c. lookup_row T key s k = Some c \<and> p c")
  case True
  then obtain c where c: "lookup_row T key s k = Some c" "p c" by blast
  have "p r \<longleftrightarrow> key r = k" if "r \<in> set (rows_of T s)" for r
    using row_unique [OF assms(1) that, of c] assms(2) c(2) lookup_key [OF c(1)] by auto
  then have "List.find p (rows_of T s) = Some c"
    using c(1) by (metis (mono_tags, lifting) find_cong_set lookup_row_def)
  with c show ?thesis by simp
next
  case False
  then have "\<not> p r" if "r \<in> set (rows_of T s)" for r
    using lookup_mem [OF assms(1) that] assms(2) by auto
  then have "List.find p (rows_of T s) = None" by (rule find_never)
  with False show ?thesis by (auto split: option.split)
qed

lemma count_keyed:
  assumes "table_ok T s" and "\<And>r. p r \<Longrightarrow> key r = k"
  shows "length (filter p (rows_of T s)) = (case lookup_row T key s k of None \<Rightarrow> 0 | Some c \<Rightarrow> if p c then 1 else 0)"
  using matching_count [OF assms(1), of p] find_keyed [OF assms] assms(2)
  by (auto simp: clash_key split: option.splits if_splits)

text \<open>A guarded update of one key: the compare-and-swap of the repositories.\<close>

lemma update_store:
  assumes "table_ok T s" and "\<And>r. p r \<Longrightarrow> key r = k"
    and "\<And>c. lookup_row T key s k = Some c \<Longrightarrow> p c \<Longrightarrow> key (f c) = k \<and> admits T s (f c)"
  shows "sql_update T p f s = (case lookup_row T key s k of
      None \<Rightarrow> (Inr 0, s)
    | Some c \<Rightarrow> if p c then (Inr 1, store_row T key (f c) s) else (Inr 0, s))"
proof (cases "\<exists>c. lookup_row T key s k = Some c \<and> p c")
  case True
  then obtain c where c: "lookup_row T key s k = Some c" "p c" by blast
  note fc = assms(3) [OF c] and kc = lookup_key [OF c(1)]
  have only: "p r \<longleftrightarrow> key r = k" "key r = k \<Longrightarrow> r = c" if "r \<in> set (rows_of T s)" for r
    using row_unique [OF assms(1) that, of c] assms(2) c(2) kc by auto
  have "filter p (rows_of T s) = (case List.find p (rows_of T s) of None \<Rightarrow> [] | Some r \<Rightarrow> [r])"
    using assms(1,2) by (intro clash_free_at_most_one [where T = T]) (auto simp: clash_key table_ok_def)
  moreover have "List.find p (rows_of T s) = Some c"
    using c(1) only by (metis (mono_tags, lifting) find_cong_set lookup_row_def)
  ultimately have n: "length (filter p (rows_of T s)) = 1" by simp
  have upd: "update_rows p f (rows_of T s) = update_rows (\<lambda>x. key x = key (f c)) (\<lambda>_. f c) (rows_of T s)"
    using only fc by (auto simp: update_rows_def)
  have "clash_free T (update_rows p f (rows_of T s))"
    unfolding upd using assms(1) by (intro clash_free_update_rows) (auto simp: clash_key table_ok_def)
  moreover have "\<forall>r \<in> set (rows_of T s). p r \<longrightarrow> admits T s (f r)"
    using only fc by auto
  ultimately show ?thesis
    using c n upd fc by (simp add: sql_update_def store_row_def)
next
  case False
  then have "\<not> p r" if "r \<in> set (rows_of T s)" for r
    using lookup_mem [OF assms(1) that] assms(2) by auto
  then have "update_rows p f (rows_of T s) = rows_of T s" "filter p (rows_of T s) = []"
    "\<forall>r \<in> set (rows_of T s). \<not> p r"
    by (auto simp: update_rows_none filter_empty_conv)
  with False assms(1) show ?thesis
    by (auto simp: sql_update_def table_ok_def split: option.split)
qed

text \<open>The same, with the constraint violation as an outcome.\<close>

lemma update_key:
  assumes "table_ok T s" and "\<And>r. p r \<Longrightarrow> key r = k" and "\<And>r. key (f r) = key r"
  shows "sql_update T p f s = (case lookup_row T key s k of
      None \<Rightarrow> (Inr 0, s)
    | Some c \<Rightarrow> if \<not> p c then (Inr 0, s) else if admits T s (f c) then (Inr 1, store_row T key (f c) s)
        else (Inl IntegrityError, s))"
proof (cases "\<exists>c. lookup_row T key s k = Some c \<and> p c \<and> \<not> admits T s (f c)")
  case True
  then obtain c where "lookup_row T key s k = Some c" "p c" "\<not> admits T s (f c)" by blast
  then show ?thesis using lookup_key by (fastforce simp: sql_update_def Let_def)
next
  case False
  then show ?thesis
    using assms by (subst update_store [where k = k]) (auto dest: lookup_key split: option.split)
qed

lemma insert_run:
  "sql_insert T r s = (if lookup_row T key s (key r) = None \<and> admits T s r then (Inr (), store_row T key r s)
     else (Inl IntegrityError, s))"
  using insert_store [of s r] insert_taken [of s r] by (cases "lookup_row T key s (key r)") (auto simp: sql_insert_def)

lemma delete_run:
  assumes "table_ok T s" and "\<And>r. p r \<Longrightarrow> key r = k"
  shows "sql_delete T p s = (case lookup_row T key s k of
      None \<Rightarrow> (Inr 0, s)
    | Some c \<Rightarrow> if p c then (Inr 1, remove_row T key k s) else (Inr 0, s))"
proof (cases "\<exists>c. lookup_row T key s k = Some c \<and> p c")
  case True
  then obtain c where c: "lookup_row T key s k = Some c" "p c" by blast
  have only: "p r \<longleftrightarrow> key r = k" if "r \<in> set (rows_of T s)" for r
    using row_unique [OF assms(1) that, of c] assms(2) c(2) lookup_key [OF c(1)] by auto
  have "filter p (rows_of T s) = (case List.find p (rows_of T s) of None \<Rightarrow> [] | Some r \<Rightarrow> [r])"
    using assms by (intro clash_free_at_most_one [where T = T]) (auto simp: clash_key table_ok_def)
  moreover have "List.find p (rows_of T s) = Some c"
    using c(1) only by (metis (mono_tags, lifting) find_cong_set lookup_row_def)
  moreover have "filter (\<lambda>r. \<not> p r) (rows_of T s) = filter (\<lambda>r. key r \<noteq> k) (rows_of T s)"
    using only by (auto intro: filter_cong)
  ultimately show ?thesis
    using c by (simp add: sql_delete_def remove_row_def)
next
  case False
  then have "\<not> p r" if "r \<in> set (rows_of T s)" for r
    using lookup_mem [OF assms(1) that] assms(2) by auto
  then have "filter (\<lambda>r. \<not> p r) (rows_of T s) = rows_of T s" "filter p (rows_of T s) = []"
    by (auto simp: filter_id_conv filter_empty_conv)
  with False show ?thesis
    by (auto simp: sql_delete_def split: option.split)
qed

end

end
