(* ===== verification/Database.thy ===== *)
theory Database
  imports Sql
begin

text \<open>
  The tables of \<^verbatim>\<open>src/src/powercontext/builtin/persistence/tables.py\<close> that the modelled
  repositories read and write: one record per row type, one handle per table with the
  constraints the schema declares, and the database state that holds them all.

  The field names carry a prefix per table, since a HOL record selector is a constant.
  A binary payload column holds what \<^verbatim>\<open>load_model\<close> makes of its bytes: the model
  value, or \<open>Corrupt\<close> when the bytes do not decode; \<^verbatim>\<open>dump_model\<close> of a value is
  \<open>Canonical\<close> of it.

  \<open>clock\<close> and \<open>ticks\<close> model the database clock: the n-th reading of it is
  \<open>clock s n\<close>, whatever the clock does between two readings.
\<close>

datatype 'a payload = Canonical 'a | Corrupt

section \<open>Row types\<close>

record journal_head_row =
  jh_scope_id :: string
  jh_position :: int

record cursor_row =
  cu_scope_id :: string
  cu_binding_name :: string
  cu_cursor :: "int payload"
  cu_generation :: int

record pending_row =
  pe_binding_name :: string
  pe_scope_id :: string
  pe_source_through :: int
  pe_flush_generation :: int
  pe_handled_flush_generation :: int

record wave_target_row =
  wt_wave_id :: string
  wt_binding_name :: string
  wt_scope_id :: string
  wt_source_through :: int
  wt_completed :: bool

record lease_row =
  le_supervisor_group :: string
  le_holder_id :: string
  le_supervisor_generation :: int
  le_lease_expires_at :: "int option"

record binding_state_row =
  bs_binding_name :: string
  bs_last_auto_wave_completed_at :: "int option"
  bs_last_schedule_checkpoint_at :: "int option"
  bs_scan_generation :: int
  bs_scan_in_progress :: bool
  bs_scan_upper_pending_sequence :: "int option"

record sequence_row =
  sq_singleton :: int
  sq_sequence :: int

record intent_row =
  in_binding_name :: string
  in_scope_id :: string
  in_pending_sequence :: int
  in_dirty_generation :: int
  in_clean_generation :: int
  in_requested_generation :: int
  in_handled_generation :: int
  in_last_auto_scan_generation :: int
  in_consecutive_dream_attempts :: int

record topic_target_row =
  tt_binding_name :: string
  tt_scope_id :: string
  tt_target_request_generation :: int
  tt_source_through :: int
  tt_captured_flush_generation :: int
  tt_observed_dirty_generation :: int

record budget_row =
  bu_scope_id :: string
  bu_binding_name :: string
  bu_source_after :: int
  bu_source_through :: int
  bu_attempt_id :: string
  bu_attempts :: int
  bu_requests :: int
  bu_tokens :: int
  bu_failure_code :: string
  bu_attempt_source_through :: "int option"
  bu_started_at :: "int option"
  bu_finished_at :: "int option"
  bu_supervisor_group :: "string option"
  bu_supervisor_generation :: "int option"
  bu_holder_id :: "string option"
  bu_last_error_code :: "string option"

record block_row =
  bl_block_id :: string
  bl_attempt_id :: string
  bl_scope_id :: string
  bl_binding_name :: string
  bl_source_after :: int
  bl_source_through :: "int option"
  bl_budget_source_through :: "int option"
  bl_legacy_source_through :: "int option"
  bl_target_source_through :: int
  bl_attempts :: int
  bl_requests :: int
  bl_tokens :: int
  bl_last_error_code :: "string option"
  bl_error_code :: string
  bl_blocked_at :: int
  bl_retried_at :: "int option"
  bl_retry_request_generation :: "int option"

section \<open>The database state\<close>

record db =
  dialect :: string
  clock :: "nat \<Rightarrow> int"
  ticks :: nat
  journal_heads :: "journal_head_row list"
  cursors :: "cursor_row list"
  pendings :: "pending_row list"
  wave_targets :: "wave_target_row list"
  leases :: "lease_row list"
  binding_states :: "binding_state_row list"
  sequences :: "sequence_row list"
  intents :: "intent_row list"
  topic_targets :: "topic_target_row list"
  budgets :: "budget_row list"
  blocks :: "block_row list"

section \<open>Table handles\<close>

definition SOURCE_JOURNAL_HEADS_TABLE :: "(db, journal_head_row) sql_table" where
  "SOURCE_JOURNAL_HEADS_TABLE = \<lparr>
     rows_of = journal_heads, put_rows = (\<lambda>t s. s\<lparr>journal_heads := t\<rparr>),
     clash = (\<lambda>a b. jh_scope_id a = jh_scope_id b),
     admits = (\<lambda>_ r. 0 \<le> jh_position r)\<rparr>"

definition SOURCE_CURSORS_TABLE :: "(db, cursor_row) sql_table" where
  "SOURCE_CURSORS_TABLE = \<lparr>
     rows_of = cursors, put_rows = (\<lambda>t s. s\<lparr>cursors := t\<rparr>),
     clash = (\<lambda>a b. cu_scope_id a = cu_scope_id b \<and> cu_binding_name a = cu_binding_name b),
     admits = (\<lambda>_ r. 0 \<le> cu_generation r)\<rparr>"

definition ARTIFACT_PROCESSING_PENDING_TABLE :: "(db, pending_row) sql_table" where
  "ARTIFACT_PROCESSING_PENDING_TABLE = \<lparr>
     rows_of = pendings, put_rows = (\<lambda>t s. s\<lparr>pendings := t\<rparr>),
     clash = (\<lambda>a b. pe_binding_name a = pe_binding_name b \<and> pe_scope_id a = pe_scope_id b),
     admits = (\<lambda>_ r. 1 \<le> pe_source_through r \<and> 0 \<le> pe_flush_generation r
        \<and> 0 \<le> pe_handled_flush_generation r
        \<and> pe_handled_flush_generation r \<le> pe_flush_generation r)\<rparr>"

definition ARTIFACT_PROCESSING_AUTO_WAVE_TARGETS_TABLE :: "(db, wave_target_row) sql_table" where
  "ARTIFACT_PROCESSING_AUTO_WAVE_TARGETS_TABLE = \<lparr>
     rows_of = wave_targets, put_rows = (\<lambda>t s. s\<lparr>wave_targets := t\<rparr>),
     clash = (\<lambda>a b. wt_wave_id a = wt_wave_id b \<and> wt_binding_name a = wt_binding_name b
        \<and> wt_scope_id a = wt_scope_id b),
     admits = (\<lambda>_ r. 1 \<le> wt_source_through r)\<rparr>"

definition ARTIFACT_PROCESSING_LEASES_TABLE :: "(db, lease_row) sql_table" where
  "ARTIFACT_PROCESSING_LEASES_TABLE = \<lparr>
     rows_of = leases, put_rows = (\<lambda>t s. s\<lparr>leases := t\<rparr>),
     clash = (\<lambda>a b. le_supervisor_group a = le_supervisor_group b),
     admits = (\<lambda>_ r. 0 < le_supervisor_generation r)\<rparr>"

definition ARTIFACT_PROCESSING_BINDING_STATES_TABLE :: "(db, binding_state_row) sql_table" where
  "ARTIFACT_PROCESSING_BINDING_STATES_TABLE = \<lparr>
     rows_of = binding_states, put_rows = (\<lambda>t s. s\<lparr>binding_states := t\<rparr>),
     clash = (\<lambda>a b. bs_binding_name a = bs_binding_name b),
     admits = (\<lambda>_ r. 0 \<le> bs_scan_generation r)\<rparr>"

definition ARTIFACT_PROCESSING_SEQUENCES_TABLE :: "(db, sequence_row) sql_table" where
  "ARTIFACT_PROCESSING_SEQUENCES_TABLE = \<lparr>
     rows_of = sequences, put_rows = (\<lambda>t s. s\<lparr>sequences := t\<rparr>),
     clash = (\<lambda>a b. sq_singleton a = sq_singleton b),
     admits = (\<lambda>_ r. sq_singleton r = 1 \<and> 0 \<le> sq_sequence r)\<rparr>"

definition ARTIFACT_PROCESSING_INTENTS_TABLE :: "(db, intent_row) sql_table" where
  "ARTIFACT_PROCESSING_INTENTS_TABLE = \<lparr>
     rows_of = intents, put_rows = (\<lambda>t s. s\<lparr>intents := t\<rparr>),
     clash = (\<lambda>a b. (in_binding_name a = in_binding_name b \<and> in_scope_id a = in_scope_id b)
        \<or> in_pending_sequence a = in_pending_sequence b),
     admits = (\<lambda>_ r. 0 < in_pending_sequence r
        \<and> 0 \<le> in_clean_generation r \<and> in_clean_generation r \<le> in_dirty_generation r
        \<and> 0 \<le> in_handled_generation r \<and> in_handled_generation r \<le> in_requested_generation r
        \<and> 0 \<le> in_last_auto_scan_generation r)\<rparr>"

definition TOPIC_MEMORY_PROCESSING_TARGETS_TABLE :: "(db, topic_target_row) sql_table" where
  "TOPIC_MEMORY_PROCESSING_TARGETS_TABLE = \<lparr>
     rows_of = topic_targets, put_rows = (\<lambda>t s. s\<lparr>topic_targets := t\<rparr>),
     clash = (\<lambda>a b. tt_binding_name a = tt_binding_name b \<and> tt_scope_id a = tt_scope_id b),
     admits = (\<lambda>_ r. 0 < tt_target_request_generation r \<and> 0 \<le> tt_source_through r
        \<and> 0 \<le> tt_captured_flush_generation r \<and> 0 \<le> tt_observed_dirty_generation r)\<rparr>"

definition TOPIC_MEMORY_WORK_BUDGETS_TABLE :: "(db, budget_row) sql_table" where
  "TOPIC_MEMORY_WORK_BUDGETS_TABLE = \<lparr>
     rows_of = budgets, put_rows = (\<lambda>t s. s\<lparr>budgets := t\<rparr>),
     clash = (\<lambda>a b. bu_scope_id a = bu_scope_id b \<and> bu_binding_name a = bu_binding_name b
        \<and> bu_source_after a = bu_source_after b),
     admits = (\<lambda>_ r. 0 \<le> bu_source_after r \<and> bu_source_after r < bu_source_through r
        \<and> 0 < bu_attempts r \<and> 0 \<le> bu_requests r \<and> 0 \<le> bu_tokens r
        \<and> (case bu_attempt_source_through r of None \<Rightarrow> True
           | Some x \<Rightarrow> bu_source_after r < x \<and> x \<le> bu_source_through r))\<rparr>"

definition block_window_ok :: "int \<Rightarrow> int \<Rightarrow> int option \<Rightarrow> bool" where
  "block_window_ok after target x = (case x of None \<Rightarrow> True | Some v \<Rightarrow> after < v \<and> v \<le> target)"

definition TOPIC_MEMORY_WORK_BLOCKS_TABLE :: "(db, block_row) sql_table" where
  "TOPIC_MEMORY_WORK_BLOCKS_TABLE = \<lparr>
     rows_of = blocks, put_rows = (\<lambda>t s. s\<lparr>blocks := t\<rparr>),
     clash = (\<lambda>a b. bl_block_id a = bl_block_id b
        \<or> (bl_scope_id a = bl_scope_id b \<and> bl_binding_name a = bl_binding_name b
           \<and> bl_source_after a = bl_source_after b \<and> bl_attempt_id a = bl_attempt_id b)),
     admits = (\<lambda>_ r. 0 \<le> bl_source_after r \<and> bl_source_after r < bl_target_source_through r
        \<and> block_window_ok (bl_source_after r) (bl_target_source_through r) (bl_source_through r)
        \<and> block_window_ok (bl_source_after r) (bl_target_source_through r) (bl_budget_source_through r)
        \<and> (case (bl_source_through r, bl_budget_source_through r) of
             (Some x, Some y) \<Rightarrow> x \<le> y | _ \<Rightarrow> True)
        \<and> block_window_ok (bl_source_after r) (bl_target_source_through r) (bl_legacy_source_through r)
        \<and> 0 < bl_attempts r \<and> 0 \<le> bl_requests r \<and> 0 \<le> bl_tokens r
        \<and> (case (bl_retried_at r, bl_retry_request_generation r) of
             (None, None) \<Rightarrow> True | (Some _, Some g) \<Rightarrow> 0 < g | _ \<Rightarrow> False))\<rparr>"

lemmas table_handle_defs =
  SOURCE_JOURNAL_HEADS_TABLE_def SOURCE_CURSORS_TABLE_def ARTIFACT_PROCESSING_PENDING_TABLE_def
  ARTIFACT_PROCESSING_AUTO_WAVE_TARGETS_TABLE_def ARTIFACT_PROCESSING_LEASES_TABLE_def
  ARTIFACT_PROCESSING_BINDING_STATES_TABLE_def ARTIFACT_PROCESSING_SEQUENCES_TABLE_def
  ARTIFACT_PROCESSING_INTENTS_TABLE_def TOPIC_MEMORY_PROCESSING_TARGETS_TABLE_def
  TOPIC_MEMORY_WORK_BUDGETS_TABLE_def TOPIC_MEMORY_WORK_BLOCKS_TABLE_def

lemma handle_rows [simp]:
  "rows_of SOURCE_JOURNAL_HEADS_TABLE = journal_heads"
  "rows_of SOURCE_CURSORS_TABLE = cursors"
  "rows_of ARTIFACT_PROCESSING_PENDING_TABLE = pendings"
  "rows_of ARTIFACT_PROCESSING_AUTO_WAVE_TARGETS_TABLE = wave_targets"
  "rows_of ARTIFACT_PROCESSING_LEASES_TABLE = leases"
  "rows_of ARTIFACT_PROCESSING_BINDING_STATES_TABLE = binding_states"
  "rows_of ARTIFACT_PROCESSING_SEQUENCES_TABLE = sequences"
  "rows_of ARTIFACT_PROCESSING_INTENTS_TABLE = intents"
  "rows_of TOPIC_MEMORY_PROCESSING_TARGETS_TABLE = topic_targets"
  "rows_of TOPIC_MEMORY_WORK_BUDGETS_TABLE = budgets"
  "rows_of TOPIC_MEMORY_WORK_BLOCKS_TABLE = blocks"
  by (simp_all add: table_handle_defs)

lemma handle_put [simp]:
  "put_rows SOURCE_JOURNAL_HEADS_TABLE t1 s = s\<lparr>journal_heads := t1\<rparr>"
  "put_rows SOURCE_CURSORS_TABLE t2 s = s\<lparr>cursors := t2\<rparr>"
  "put_rows ARTIFACT_PROCESSING_PENDING_TABLE t3 s = s\<lparr>pendings := t3\<rparr>"
  "put_rows ARTIFACT_PROCESSING_AUTO_WAVE_TARGETS_TABLE t4 s = s\<lparr>wave_targets := t4\<rparr>"
  "put_rows ARTIFACT_PROCESSING_LEASES_TABLE t5 s = s\<lparr>leases := t5\<rparr>"
  "put_rows ARTIFACT_PROCESSING_BINDING_STATES_TABLE t6 s = s\<lparr>binding_states := t6\<rparr>"
  "put_rows ARTIFACT_PROCESSING_SEQUENCES_TABLE t7 s = s\<lparr>sequences := t7\<rparr>"
  "put_rows ARTIFACT_PROCESSING_INTENTS_TABLE t8 s = s\<lparr>intents := t8\<rparr>"
  "put_rows TOPIC_MEMORY_PROCESSING_TARGETS_TABLE t9 s = s\<lparr>topic_targets := t9\<rparr>"
  "put_rows TOPIC_MEMORY_WORK_BUDGETS_TABLE t10 s = s\<lparr>budgets := t10\<rparr>"
  "put_rows TOPIC_MEMORY_WORK_BLOCKS_TABLE t11 s = s\<lparr>blocks := t11\<rparr>"
  by (simp_all add: table_handle_defs)

text \<open>The constraints of a handle, as rewrite rules that leave the handle itself folded.\<close>

lemmas handle_admits = table_handle_defs [THEN arg_cong, where f = admits, simplified]
lemmas handle_clash = table_handle_defs [THEN arg_cong, where f = clash, simplified]

text \<open>The primary keys of the tables whose only uniqueness constraint is the primary key.\<close>

abbreviation cursor_pk :: "cursor_row \<Rightarrow> string \<times> string" where
  "cursor_pk \<equiv> \<lambda>r. (cu_scope_id r, cu_binding_name r)"

abbreviation pending_pk :: "pending_row \<Rightarrow> string \<times> string" where
  "pending_pk \<equiv> \<lambda>r. (pe_binding_name r, pe_scope_id r)"

abbreviation wave_target_pk :: "wave_target_row \<Rightarrow> string \<times> string \<times> string" where
  "wave_target_pk \<equiv> \<lambda>r. (wt_wave_id r, wt_binding_name r, wt_scope_id r)"

abbreviation topic_target_pk :: "topic_target_row \<Rightarrow> string \<times> string" where
  "topic_target_pk \<equiv> \<lambda>r. (tt_binding_name r, tt_scope_id r)"

abbreviation budget_pk :: "budget_row \<Rightarrow> string \<times> string \<times> int" where
  "budget_pk \<equiv> \<lambda>r. (bu_scope_id r, bu_binding_name r, bu_source_after r)"

interpretation journal_heads_t: keyed_table SOURCE_JOURNAL_HEADS_TABLE jh_scope_id
  by unfold_locales (auto simp: SOURCE_JOURNAL_HEADS_TABLE_def)

interpretation cursors_t: keyed_table SOURCE_CURSORS_TABLE cursor_pk
  by unfold_locales (auto simp: SOURCE_CURSORS_TABLE_def)

interpretation pending_t: keyed_table ARTIFACT_PROCESSING_PENDING_TABLE pending_pk
  by unfold_locales (auto simp: ARTIFACT_PROCESSING_PENDING_TABLE_def)

interpretation wave_targets_t: keyed_table ARTIFACT_PROCESSING_AUTO_WAVE_TARGETS_TABLE wave_target_pk
  by unfold_locales (auto simp: ARTIFACT_PROCESSING_AUTO_WAVE_TARGETS_TABLE_def)

interpretation leases_t: keyed_table ARTIFACT_PROCESSING_LEASES_TABLE le_supervisor_group
  by unfold_locales (auto simp: ARTIFACT_PROCESSING_LEASES_TABLE_def)

interpretation binding_states_t: keyed_table ARTIFACT_PROCESSING_BINDING_STATES_TABLE bs_binding_name
  by unfold_locales (auto simp: ARTIFACT_PROCESSING_BINDING_STATES_TABLE_def)

interpretation sequences_t: stored_table ARTIFACT_PROCESSING_SEQUENCES_TABLE
  by unfold_locales (auto simp: ARTIFACT_PROCESSING_SEQUENCES_TABLE_def)

interpretation intents_t: stored_table ARTIFACT_PROCESSING_INTENTS_TABLE
  by unfold_locales (auto simp: ARTIFACT_PROCESSING_INTENTS_TABLE_def)

interpretation topic_targets_t: keyed_table TOPIC_MEMORY_PROCESSING_TARGETS_TABLE topic_target_pk
  by unfold_locales (auto simp: TOPIC_MEMORY_PROCESSING_TARGETS_TABLE_def)

interpretation budgets_t: keyed_table TOPIC_MEMORY_WORK_BUDGETS_TABLE budget_pk
  by unfold_locales (auto simp: TOPIC_MEMORY_WORK_BUDGETS_TABLE_def)

interpretation blocks_t: stored_table TOPIC_MEMORY_WORK_BLOCKS_TABLE
  by unfold_locales (auto simp: TOPIC_MEMORY_WORK_BLOCKS_TABLE_def)

text \<open>The schema invariant of the processing tables: every table keeps its constraints.\<close>

definition schema_ok :: "db \<Rightarrow> bool" where
  "schema_ok s \<longleftrightarrow>
     table_ok SOURCE_JOURNAL_HEADS_TABLE s \<and> table_ok SOURCE_CURSORS_TABLE s
     \<and> table_ok ARTIFACT_PROCESSING_PENDING_TABLE s
     \<and> table_ok ARTIFACT_PROCESSING_AUTO_WAVE_TARGETS_TABLE s
     \<and> table_ok ARTIFACT_PROCESSING_LEASES_TABLE s
     \<and> table_ok ARTIFACT_PROCESSING_BINDING_STATES_TABLE s
     \<and> table_ok ARTIFACT_PROCESSING_SEQUENCES_TABLE s
     \<and> table_ok ARTIFACT_PROCESSING_INTENTS_TABLE s
     \<and> table_ok TOPIC_MEMORY_PROCESSING_TARGETS_TABLE s
     \<and> table_ok TOPIC_MEMORY_WORK_BUDGETS_TABLE s
     \<and> table_ok TOPIC_MEMORY_WORK_BLOCKS_TABLE s"

definition empty_db :: "string \<Rightarrow> (nat \<Rightarrow> int) \<Rightarrow> db" where
  "empty_db d c = \<lparr>dialect = d, clock = c, ticks = 0, journal_heads = [], cursors = [],
     pendings = [], wave_targets = [], leases = [], binding_states = [], sequences = [],
     intents = [], topic_targets = [], budgets = [], blocks = []\<rparr>"

lemma schema_ok_empty_db: "schema_ok (empty_db d c)"
  by (simp add: schema_ok_def table_ok_def empty_db_def)

section \<open>The database clock\<close>

definition database_utc_now :: "(db, int) exec" where
  "database_utc_now = (\<lambda>s. (Inr (clock s (ticks s)), s\<lparr>ticks := Suc (ticks s)\<rparr>))"

lemma database_utc_now_run [simp, exec_simps]:
  "database_utc_now s = (Inr (clock s (ticks s)), s\<lparr>ticks := Suc (ticks s)\<rparr>)"
  by (simp add: database_utc_now_def)


text \<open>
  \<^verbatim>\<open>AsyncDatabase.transaction()\<close>: an exception rolls every row change of the block back. The
  clock does not run backwards with it: its readings stay consumed.
\<close>

definition db_transaction :: "(db, 'a) exec \<Rightarrow> (db, 'a) exec" where
  "db_transaction m = (\<lambda>s. case m s of
      (Inl e, t) \<Rightarrow> (Inl e, s\<lparr>ticks := ticks t\<rparr>)
    | (Inr x, t) \<Rightarrow> (Inr x, t))"

lemma db_transaction_run [exec_simps]:
  "db_transaction m s = (case m s of (Inl e, t) \<Rightarrow> (Inl e, s\<lparr>ticks := ticks t\<rparr>) | (Inr x, t) \<Rightarrow> (Inr x, t))"
  by (simp add: db_transaction_def)

lemma db_transaction_Inr_iff: "db_transaction m s = (Inr x, t) \<longleftrightarrow> m s = (Inr x, t)"
  by (auto simp: db_transaction_def split: prod.splits sum.splits)

lemma preserves_db_transaction:
  assumes "preserves P m" and "\<And>s n. P (s\<lparr>ticks := n\<rparr>) = P s"
  shows "preserves P (db_transaction m)"
  using assms by (auto simp: preserves_def db_transaction_def split: prod.splits sum.splits)

lemma preserves_database_utc_now:
  "(\<And>s n. P (s\<lparr>ticks := n\<rparr>) = P s) \<Longrightarrow> preserves P database_utc_now"
  by (simp add: preserves_def)

end
