(* ===== verification/Intents.thy ===== *)
theory Intents
  imports Database
begin

text \<open>
  The coalesced invocation intents of
  \<^verbatim>\<open>src/src/powercontext/builtin/persistence/processing_intents.py\<close>: per binding and
  scope a dirty counter (domain input) and a request counter (invocations), each with
  what has been acknowledged, and a sequence number that is never reused.

  The lemmas give the state every mutation leaves behind, the invariant \<open>intents_inv\<close>
  (schema constraints, and no sequence beyond the allocator), and the agreement of the
  bulk \<open>mark_dirty_many\<close> with marking the bindings one at a time.
\<close>

definition intent_key :: "string \<Rightarrow> string \<Rightarrow> intent_row \<Rightarrow> bool" where
  "intent_key scope_id binding_name r \<longleftrightarrow> in_scope_id r = scope_id \<and> in_binding_name r = binding_name"

text \<open>The module's own \<^verbatim>\<open>_require_identifier\<close> (one message for every fault).\<close>

definition require_intent_identifier :: "string \<Rightarrow> string \<Rightarrow> nat \<Rightarrow> ('s, unit) exec" where
  "require_intent_identifier field value limit =
     require (valid_identifier value limit)
       (InvalidRepositoryArgument field ''must be a non-empty trimmed identifier within the length limit'')"

definition require_intent_key :: "string \<Rightarrow> string \<Rightarrow> ('s, unit) exec" where
  "require_intent_key scope_id binding_name =
     andThen (require_intent_identifier ''scope_id'' scope_id MAX_SCOPE_ID_LENGTH)
       (require_intent_identifier ''binding_name'' binding_name MAX_BINDING_NAME_LENGTH)"

definition require_nonnegative :: "string \<Rightarrow> int \<Rightarrow> ('s, unit) exec" where
  "require_nonnegative field value =
     require (0 \<le> value) (InvalidRepositoryArgument field ''must be a non-negative integer'')"

definition intent_load :: "string \<Rightarrow> string \<Rightarrow> (db, intent_row option) exec" where
  "intent_load scope_id binding_name =
     andThen (require_intent_key scope_id binding_name)
       (sql_one_or_none ARTIFACT_PROCESSING_INTENTS_TABLE (intent_key scope_id binding_name))"

text \<open>A row of the intents table with the column defaults of the schema.\<close>

definition new_intent :: "string \<Rightarrow> string \<Rightarrow> int \<Rightarrow> intent_row" where
  "new_intent scope_id binding_name sequence =
     \<lparr>in_binding_name = binding_name, in_scope_id = scope_id, in_pending_sequence = sequence,
      in_dirty_generation = 0, in_clean_generation = 0, in_requested_generation = 0,
      in_handled_generation = 0, in_last_auto_scan_generation = 0,
      in_consecutive_dream_attempts = 0\<rparr>"

text \<open>The seeding of the singleton sequence row, once per dialect in the source.\<close>

definition seed_sequence :: "(db, unit) exec" where
  "seed_sequence = bind (gets dialect) (\<lambda>d.
     if d = ''sqlite'' \<or> d = ''mysql''
     then andThen (sql_insert_ignore ARTIFACT_PROCESSING_SEQUENCES_TABLE
                    \<lparr>sq_singleton = 1, sq_sequence = 0\<rparr>) (return ())
     else raise (InvalidRepositoryArgument ''dialect'' ''processing intents require SQLite or MySQL''))"

definition advance_sequence :: "int \<Rightarrow> (db, int) exec" where
  "advance_sequence n =
     andThen (sql_update ARTIFACT_PROCESSING_SEQUENCES_TABLE (\<lambda>r. sq_singleton r = 1)
                (\<lambda>r. r\<lparr>sq_sequence := sq_sequence r + n\<rparr>))
       (bind (sql_scalar ARTIFACT_PROCESSING_SEQUENCES_TABLE (\<lambda>r. sq_singleton r = 1) sq_sequence)
          cast_some)"

definition intent_ensure :: "string \<Rightarrow> string \<Rightarrow> (db, intent_row) exec" where
  "intent_ensure scope_id binding_name =
     bind (intent_load scope_id binding_name) (\<lambda>current.
     case current of
       Some r \<Rightarrow> return r
     | None \<Rightarrow>
         andThen seed_sequence
        (bind (intent_load scope_id binding_name) (\<lambda>current'.
         case current' of
           Some r \<Rightarrow> return r
         | None \<Rightarrow>
             bind (advance_sequence 1) (\<lambda>allocated.
             andThen (sql_insert ARTIFACT_PROCESSING_INTENTS_TABLE
                        (new_intent scope_id binding_name allocated))
               (bind (intent_load scope_id binding_name) cast_some)))))"

definition intent_in_names :: "string \<Rightarrow> string list \<Rightarrow> intent_row \<Rightarrow> bool" where
  "intent_in_names scope_id names r \<longleftrightarrow> in_scope_id r = scope_id \<and> in_binding_name r \<in> set names"

definition registered_names :: "string \<Rightarrow> string list \<Rightarrow> (db, string list) exec" where
  "registered_names scope_id names =
     bind (sql_select ARTIFACT_PROCESSING_INTENTS_TABLE (intent_in_names scope_id names))
       (\<lambda>rows. return (from_keys (map in_binding_name rows)))"

definition mark_dirty_many :: "string \<Rightarrow> string list \<Rightarrow> int \<Rightarrow> (db, unit) exec" where
  "mark_dirty_many scope_id binding_names increment =
     (let names = from_keys binding_names in
      if names = [] then return ()
      else
        andThen (require (1 \<le> increment)
                   (InvalidRepositoryArgument ''increment'' ''must be a positive integer''))
       (andThen (for_each names (require_intent_key scope_id))
       (bind (registered_names scope_id names) (\<lambda>existing.
        andThen
          (if length existing \<noteq> length names
           then
             andThen seed_sequence
            (bind (registered_names scope_id names) (\<lambda>existing'.
             let missing = filter (\<lambda>name. name \<notin> set existing') names in
             if missing \<noteq> []
             then bind (advance_sequence (int (length missing))) (\<lambda>last.
                    for_each
                      (map (\<lambda>(offset, name).
                          new_intent scope_id name (last - int (length missing) + int offset))
                         (List.enumerate 1 missing))
                      (sql_insert ARTIFACT_PROCESSING_INTENTS_TABLE))
             else return ()))
           else return ())
          (andThen (sql_update ARTIFACT_PROCESSING_INTENTS_TABLE (intent_in_names scope_id names)
                      (\<lambda>r. r\<lparr>in_dirty_generation := in_dirty_generation r + increment\<rparr>))
             (return ()))))))"

definition mark_dirty :: "string \<Rightarrow> string \<Rightarrow> (db, intent_row) exec" where
  "mark_dirty scope_id binding_name =
     andThen (mark_dirty_many scope_id [binding_name] 1)
       (bind (intent_load scope_id binding_name) cast_some)"

definition intent_request :: "string \<Rightarrow> string \<Rightarrow> (db, intent_row) exec" where
  "intent_request scope_id binding_name =
     andThen (intent_ensure scope_id binding_name)
    (andThen (sql_update ARTIFACT_PROCESSING_INTENTS_TABLE (intent_key scope_id binding_name)
                (\<lambda>r. r\<lparr>in_requested_generation := in_requested_generation r + 1\<rparr>))
       (bind (intent_load scope_id binding_name) cast_some))"

definition acknowledge :: "string \<Rightarrow> string \<Rightarrow> int \<Rightarrow> int option \<Rightarrow> bool \<Rightarrow> (db, intent_row) exec" where
  "acknowledge scope_id binding_name generation clean_generation dream =
     andThen (require_nonnegative ''generation'' generation)
    (bind (intent_load scope_id binding_name) (\<lambda>current.
     case current of
       None \<Rightarrow> raise (InvalidRepositoryArgument ''generation'' ''cannot acknowledge an unaccepted invocation'')
     | Some cur \<Rightarrow>
         if generation > in_requested_generation cur
         then raise (InvalidRepositoryArgument ''generation'' ''cannot acknowledge an unaccepted invocation'')
         else if generation \<le> in_handled_generation cur then return cur
         else
           bind (case clean_generation of
                   None \<Rightarrow> return (in_clean_generation cur)
                 | Some cg \<Rightarrow>
                     andThen (require_nonnegative ''clean_generation'' cg)
                    (andThen (require (cg \<le> in_dirty_generation cur)
                                (InvalidRepositoryArgument ''clean_generation'' ''cannot acknowledge unseen domain work''))
                       (return (max (in_clean_generation cur) cg)))) (\<lambda>clean.
           andThen (sql_update ARTIFACT_PROCESSING_INTENTS_TABLE (intent_key scope_id binding_name)
                      (\<lambda>r. r\<lparr>in_handled_generation := max (in_handled_generation cur) generation,
                             in_clean_generation := clean,
                             in_consecutive_dream_attempts :=
                               (if dream then min (in_consecutive_dream_attempts cur + 1) 4 else 0)\<rparr>))
             (bind (intent_load scope_id binding_name) cast_some))))"

text \<open>\<^verbatim>\<open>pending_observation\<close>: the count of pending scopes and the time of the snapshot.\<close>

definition pending_observation :: "string \<Rightarrow> (db, nat \<times> int) exec" where
  "pending_observation binding_name =
     andThen (require_intent_identifier ''binding_name'' binding_name MAX_BINDING_NAME_LENGTH)
    (bind (sql_select ARTIFACT_PROCESSING_INTENTS_TABLE
             (\<lambda>r. in_binding_name r = binding_name \<and> in_requested_generation r > in_handled_generation r)) (\<lambda>rows.
     bind database_utc_now (\<lambda>now. return (length rows, now))))"

definition intent_scan :: "string \<Rightarrow> int \<Rightarrow> int \<Rightarrow> bool \<Rightarrow> bool \<Rightarrow> int option \<Rightarrow> (db, intent_row list) exec" where
  "intent_scan binding_name after_sequence limit requested_only dirty_only upper_sequence =
     andThen (require_intent_identifier ''binding_name'' binding_name MAX_BINDING_NAME_LENGTH)
    (andThen (require_nonnegative ''after_sequence'' after_sequence)
    (andThen (require (1 \<le> limit) (InvalidRepositoryArgument ''limit'' ''must be a positive integer''))
    (andThen (case upper_sequence of None \<Rightarrow> return () | Some u \<Rightarrow> require_nonnegative ''upper_sequence'' u)
    (bind (sql_select ARTIFACT_PROCESSING_INTENTS_TABLE (\<lambda>r.
             in_binding_name r = binding_name \<and> in_pending_sequence r > after_sequence
             \<and> (case upper_sequence of None \<Rightarrow> True | Some u \<Rightarrow> in_pending_sequence r \<le> u)
             \<and> (requested_only \<longrightarrow> in_requested_generation r > in_handled_generation r)
             \<and> (dirty_only \<longrightarrow> in_dirty_generation r > in_clean_generation r))) (\<lambda>rows.
     return (take (nat limit) (sort_key in_pending_sequence rows)))))))"

definition max_sequence :: "string \<Rightarrow> (db, int) exec" where
  "max_sequence binding_name =
     andThen (require_intent_identifier ''binding_name'' binding_name MAX_BINDING_NAME_LENGTH)
    (bind (sql_select ARTIFACT_PROCESSING_INTENTS_TABLE (\<lambda>r. in_binding_name r = binding_name)) (\<lambda>rows.
     return (case map in_pending_sequence rows of [] \<Rightarrow> 0 | x # xs \<Rightarrow> fold max xs x)))"

definition admit :: "string \<Rightarrow> string \<Rightarrow> int \<Rightarrow> (db, intent_row) exec" where
  "admit scope_id binding_name scan_generation =
     andThen (require_nonnegative ''scan_generation'' scan_generation)
    (bind (sql_one_or_none ARTIFACT_PROCESSING_BINDING_STATES_TABLE
             (\<lambda>r. bs_binding_name r = binding_name)) (\<lambda>state.
     case state of
       None \<Rightarrow> raise (InvalidRepositoryArgument ''scan_generation'' ''automatic scan is not current'')
     | Some st \<Rightarrow>
         if \<not> bs_scan_in_progress st \<or> bs_scan_generation st \<noteq> scan_generation
         then raise (InvalidRepositoryArgument ''scan_generation'' ''automatic scan is not current'')
         else
           bind (intent_load scope_id binding_name) (\<lambda>current.
           case current of
             None \<Rightarrow> raise (InvalidRepositoryArgument ''scope_id'' ''automatic member is not registered'')
           | Some cur \<Rightarrow>
               if in_pending_sequence cur >
                    (case bs_scan_upper_pending_sequence st of None \<Rightarrow> 0 | Some u \<Rightarrow> u)
               then raise (InvalidRepositoryArgument ''scope_id'' ''automatic member is outside the frozen scan'')
               else if in_last_auto_scan_generation cur \<ge> scan_generation then return cur
               else
                 let requested =
                   (if in_dirty_generation cur > in_clean_generation cur
                       \<and> in_requested_generation cur = in_handled_generation cur
                    then in_requested_generation cur + 1 else in_requested_generation cur) in
                 andThen (sql_update ARTIFACT_PROCESSING_INTENTS_TABLE (intent_key scope_id binding_name)
                            (\<lambda>r. r\<lparr>in_requested_generation := requested,
                                   in_last_auto_scan_generation := scan_generation\<rparr>))
                   (bind (intent_load scope_id binding_name) cast_some))))"

section \<open>Looking an intent up, allocating a sequence\<close>

definition intent_of :: "db \<Rightarrow> string \<Rightarrow> string \<Rightarrow> intent_row option" where
  "intent_of s scope_id binding_name = List.find (intent_key scope_id binding_name) (intents s)"

definition seq_of :: "db \<Rightarrow> int" where
  "seq_of s = (case List.find (\<lambda>r. sq_singleton r = 1) (sequences s) of
      None \<Rightarrow> 0 | Some r \<Rightarrow> sq_sequence r)"

definition intents_inv :: "db \<Rightarrow> bool" where
  "intents_inv s \<longleftrightarrow> table_ok ARTIFACT_PROCESSING_INTENTS_TABLE s
     \<and> table_ok ARTIFACT_PROCESSING_SEQUENCES_TABLE s
     \<and> (\<forall>r \<in> set (intents s). in_pending_sequence r \<le> seq_of s)"

definition valid_key :: "string \<Rightarrow> string \<Rightarrow> bool" where
  "valid_key scope_id binding_name \<longleftrightarrow> valid_identifier scope_id MAX_SCOPE_ID_LENGTH
     \<and> valid_identifier binding_name MAX_BINDING_NAME_LENGTH"

definition supported_dialect :: "db \<Rightarrow> bool" where
  "supported_dialect s \<longleftrightarrow> dialect s = ''sqlite'' \<or> dialect s = ''mysql''"

abbreviation intents_ok :: "db \<Rightarrow> bool" where
  "intents_ok \<equiv> table_ok ARTIFACT_PROCESSING_INTENTS_TABLE"

lemma intents_invD [simp]:
  "intents_inv s \<Longrightarrow> intents_ok s" "intents_inv s \<Longrightarrow> table_ok ARTIFACT_PROCESSING_SEQUENCES_TABLE s"
  by (simp_all add: intents_inv_def)

lemma intent_key_clash:
  "intent_key i b x \<Longrightarrow> intent_key i b y \<Longrightarrow> clash ARTIFACT_PROCESSING_INTENTS_TABLE x y"
  by (simp add: ARTIFACT_PROCESSING_INTENTS_TABLE_def intent_key_def)

lemma intent_of_key: "intent_of s i b = Some r \<Longrightarrow> in_scope_id r = i \<and> in_binding_name r = b \<and> r \<in> set (intents s)"
  by (auto simp: intent_of_def intent_key_def dest: find_SomeD)

lemma intent_of_admits:
  "intents_ok s \<Longrightarrow> intent_of s i b = Some r \<Longrightarrow> admits ARTIFACT_PROCESSING_INTENTS_TABLE s r"
  by (auto simp: table_ok_def dest: intent_of_key)

lemma require_intent_key_run [simp, exec_simps]:
  "valid_key i b \<Longrightarrow> require_intent_key i b s = (Inr (), s)"
  by (simp add: require_intent_key_def require_intent_identifier_def valid_key_def andThen_run)

lemma intent_load_run:
  "intents_ok s \<Longrightarrow> valid_key i b \<Longrightarrow> intent_load i b s = (Inr (intent_of s i b), s)"
  by (simp add: intent_load_def andThen_run intents_t.one_or_none_run intent_key_clash intent_of_def)

lemma reads_only_intent_load [intro, simp]: "reads_only (intent_load i b)"
  by (auto simp: intent_load_def require_intent_key_def require_intent_identifier_def
      intro!: reads_only_andThen)

lemma preserves_intent_load [preserves_rules, intro]: "preserves P (intent_load i b)"
  by (rule reads_only_preserves) simp

lemma sequences_cases:
  assumes "table_ok ARTIFACT_PROCESSING_SEQUENCES_TABLE s"
  shows "(sequences s = [] \<and> seq_of s = 0) \<or>
    (sequences s = [\<lparr>sq_singleton = 1, sq_sequence = seq_of s\<rparr>] \<and> 0 \<le> seq_of s)"
proof (cases "sequences s")
  case Nil
  then show ?thesis by (simp add: seq_of_def)
next
  case (Cons r t)
  with assms have "t = []" and r: "sq_singleton r = 1" "0 \<le> sq_sequence r"
    by (cases t; auto simp: table_ok_def clash_free_def ARTIFACT_PROCESSING_SEQUENCES_TABLE_def)+
  with Cons show ?thesis by (cases r) (simp add: seq_of_def)
qed

lemma seed_sequence_run:
  assumes "table_ok ARTIFACT_PROCESSING_SEQUENCES_TABLE s" and "supported_dialect s"
  shows "seed_sequence s = (Inr (), s\<lparr>sequences := [\<lparr>sq_singleton = 1, sq_sequence = seq_of s\<rparr>]\<rparr>)"
  using sequences_cases [OF assms(1)] assms(2)
  by (auto simp: seed_sequence_def bind_run andThen_run supported_dialect_def sql_insert_ignore_def
      ARTIFACT_PROCESSING_SEQUENCES_TABLE_def)

lemma advance_sequence_run:
  assumes "sequences s = [\<lparr>sq_singleton = 1, sq_sequence = n\<rparr>]" and "0 \<le> n" and "0 \<le> k"
  shows "advance_sequence k s = (Inr (n + k), s\<lparr>sequences := [\<lparr>sq_singleton = 1, sq_sequence = n + k\<rparr>]\<rparr>)"
  using assms
  by (simp add: advance_sequence_def andThen_run bind_run sql_update_def update_rows_def
      ARTIFACT_PROCESSING_SEQUENCES_TABLE_def clash_free_def)

section \<open>Updating one intent\<close>

definition upd_intent :: "string \<Rightarrow> string \<Rightarrow> (intent_row \<Rightarrow> intent_row) \<Rightarrow> db \<Rightarrow> db" where
  "upd_intent i b f s = s\<lparr>intents := update_rows (intent_key i b) f (intents s)\<rparr>"

definition keeps_intent_key :: "(intent_row \<Rightarrow> intent_row) \<Rightarrow> bool" where
  "keeps_intent_key f \<longleftrightarrow> (\<forall>r. in_scope_id (f r) = in_scope_id r \<and> in_binding_name (f r) = in_binding_name r
     \<and> in_pending_sequence (f r) = in_pending_sequence r)"

lemma intent_of_upd:
  assumes "keeps_intent_key f"
  shows "intent_of (upd_intent i b f s) i' b' =
    (if i' = i \<and> b' = b then map_option f (intent_of s i b) else intent_of s i' b')"
proof -
  have "intent_of (upd_intent i b f s) i' b' =
      map_option (\<lambda>r. if intent_key i b r then f r else r) (intent_of s i' b')"
    using assms
    by (simp add: intent_of_def upd_intent_def find_update_rows keeps_intent_key_def intent_key_def)
  then show ?thesis
    using intent_of_key [of s i' b'] by (cases "intent_of s i' b'") (auto simp: intent_key_def)
qed

lemma intent_update_run:
  assumes "intents_ok s" and "keeps_intent_key f"
    and "\<And>r. intent_of s i b = Some r \<Longrightarrow> admits ARTIFACT_PROCESSING_INTENTS_TABLE s (f r)"
  shows "sql_update ARTIFACT_PROCESSING_INTENTS_TABLE (intent_key i b) f s =
    (Inr (if intent_of s i b = None then 0 else 1), upd_intent i b f s)"
proof -
  have "intent_of s i b = None \<Longrightarrow> upd_intent i b f s = s"
    by (simp add: upd_intent_def update_rows_none intent_of_def find_None_iff)
  moreover have "clash ARTIFACT_PROCESSING_INTENTS_TABLE (if intent_key i b x then f x else x)
      (if intent_key i b y then f y else y) = clash ARTIFACT_PROCESSING_INTENTS_TABLE x y" for x y
    using assms(2) by (simp add: keeps_intent_key_def ARTIFACT_PROCESSING_INTENTS_TABLE_def)
  ultimately show ?thesis
    using assms(1,3)
    by (subst intents_t.key_update_run)
       (auto simp: intent_key_clash upd_intent_def intent_of_def split: option.splits)
qed

lemma intents_inv_upd:
  assumes "intents_inv s" and "keeps_intent_key f"
    and "\<And>r. intent_of s i b = Some r \<Longrightarrow> admits ARTIFACT_PROCESSING_INTENTS_TABLE s (f r)"
  shows "intents_inv (upd_intent i b f s)"
proof -
  have "intents_ok (upd_intent i b f s)"
    using intents_t.table_ok_update [of s "intent_key i b" f] intent_update_run [of s f i b] assms by simp
  then show ?thesis
    using assms(1,2)
    by (auto simp: intents_inv_def upd_intent_def seq_of_def set_update_rows keeps_intent_key_def
        table_ok_def ARTIFACT_PROCESSING_SEQUENCES_TABLE_def)
qed

section \<open>Registration\<close>

definition ensured :: "string \<Rightarrow> string \<Rightarrow> db \<Rightarrow> db" where
  "ensured i b s = (if intent_of s i b = None
     then s\<lparr>sequences := [\<lparr>sq_singleton = 1, sq_sequence = seq_of s + 1\<rparr>],
            intents := intents s @ [new_intent i b (seq_of s + 1)]\<rparr>
     else s)"

lemma intent_of_ensured:
  "intent_of (ensured i b s) i' b' =
    (if i' = i \<and> b' = b \<and> intent_of s i b = None then Some (new_intent i b (seq_of s + 1))
     else intent_of s i' b')"
  by (auto simp: ensured_def intent_of_def find_append new_intent_def intent_key_def split: option.split)

lemma new_intent_fresh:
  assumes "intents_inv s" and "intent_of s i b = None" and "seq_of s < n" and "r \<in> set (intents s)"
  shows "\<not> clash ARTIFACT_PROCESSING_INTENTS_TABLE r (new_intent i b n)"
    "\<not> clash ARTIFACT_PROCESSING_INTENTS_TABLE (new_intent i b n) r"
  using assms
  by (force simp: intents_inv_def ARTIFACT_PROCESSING_INTENTS_TABLE_def new_intent_def intent_of_def
      find_None_iff intent_key_def)+

lemma new_intent_admits: "0 < n \<Longrightarrow> admits ARTIFACT_PROCESSING_INTENTS_TABLE s (new_intent i b n)"
  by (simp add: ARTIFACT_PROCESSING_INTENTS_TABLE_def new_intent_def)

lemma seq_of_nonneg: "intents_inv s \<Longrightarrow> 0 \<le> seq_of s"
  using sequences_cases [of s] by auto

lemma intents_inv_ensured: "intents_inv s \<Longrightarrow> intents_inv (ensured i b s)"
proof (cases "intent_of s i b")
  case None
  assume inv: "intents_inv s"
  then have "clash_free ARTIFACT_PROCESSING_INTENTS_TABLE (intents s @ [new_intent i b (seq_of s + 1)])"
    using None new_intent_fresh [OF inv None]
    by (auto simp: clash_free_append1 intents_inv_def table_ok_def)
  with inv None seq_of_nonneg [OF inv] show ?thesis
    by (auto simp: intents_inv_def ensured_def table_ok_def seq_of_def new_intent_def
        ARTIFACT_PROCESSING_SEQUENCES_TABLE_def ARTIFACT_PROCESSING_INTENTS_TABLE_def clash_free_def)
qed (simp add: ensured_def)

lemma intent_ensure_run:
  assumes "intents_inv s" and "valid_key i b" and "supported_dialect s"
  shows "\<exists>r. intent_ensure i b s = (Inr r, ensured i b s) \<and> intent_of (ensured i b s) i b = Some r"
proof (cases "intent_of s i b")
  case None
  let ?s1 = "s\<lparr>sequences := [\<lparr>sq_singleton = 1, sq_sequence = seq_of s\<rparr>]\<rparr>"
  let ?s2 = "s\<lparr>sequences := [\<lparr>sq_singleton = 1, sq_sequence = seq_of s + 1\<rparr>]\<rparr>"
  have same: "intent_of ?s1 i b = intent_of s i b" "intents_ok ?s1" "intents_ok ?s2"
    using assms(1)
    by (auto simp: intent_of_def intents_inv_def table_ok_def ARTIFACT_PROCESSING_INTENTS_TABLE_def)
  have "advance_sequence 1 ?s1 = (Inr (seq_of s + 1), ?s2)"
    using seq_of_nonneg [OF assms(1)] by (simp add: advance_sequence_run)
  moreover have "sql_insert ARTIFACT_PROCESSING_INTENTS_TABLE (new_intent i b (seq_of s + 1)) ?s2 =
      (Inr (), ensured i b s)"
    using None seq_of_nonneg [OF assms(1)] new_intent_fresh [OF assms(1) None]
    by (subst intents_t.insert_ok) (auto simp: new_intent_admits ensured_def)
  ultimately show ?thesis
    using None same assms intents_inv_ensured [OF assms(1), of i b]
    by (simp add: intent_ensure_def bind_run andThen_run intent_load_run seed_sequence_run
        intent_of_ensured)
next
  case (Some r)
  with assms show ?thesis
    by (simp add: intent_ensure_def bind_run intent_load_run ensured_def)
qed


section \<open>Requests, acknowledgements, admissions\<close>

text \<open>The update of one intent followed by reading it back, which ends every mutation.\<close>

lemma update_and_load_run:
  assumes "intents_inv s" and "valid_key i b" and "keeps_intent_key f" and "intent_of s i b = Some r"
    and "admits ARTIFACT_PROCESSING_INTENTS_TABLE s (f r)"
  shows "andThen (sql_update ARTIFACT_PROCESSING_INTENTS_TABLE (intent_key i b) f)
      (bind (intent_load i b) cast_some) s = (Inr (f r), upd_intent i b f s)"
proof -
  have "intents_ok (upd_intent i b f s)"
    using intents_inv_upd [OF assms(1,3), of i b] assms(4,5) by simp
  moreover have "sql_update ARTIFACT_PROCESSING_INTENTS_TABLE (intent_key i b) f s = (Inr 1, upd_intent i b f s)"
    using intent_update_run [OF intents_invD(1) [OF assms(1)] assms(3), of i b] assms(4,5) by simp
  ultimately show ?thesis
    using assms by (simp add: andThen_run bind_run intent_load_run intent_of_upd)
qed

lemma supported_ensured [simp]: "supported_dialect (ensured i b s) = supported_dialect s"
  by (simp add: ensured_def supported_dialect_def)

definition bump_requested :: "intent_row \<Rightarrow> intent_row" where
  "bump_requested r = r\<lparr>in_requested_generation := in_requested_generation r + 1\<rparr>"

lemma bump_requested_admits:
  "admits ARTIFACT_PROCESSING_INTENTS_TABLE s r \<Longrightarrow>
     admits ARTIFACT_PROCESSING_INTENTS_TABLE s (bump_requested r)"
  by (simp add: handle_admits bump_requested_def)

lemma keeps_bump_requested [simp]: "keeps_intent_key bump_requested"
  by (simp add: keeps_intent_key_def bump_requested_def)

lemma intent_request_run:
  assumes "intents_inv s" and "valid_key i b" and "supported_dialect s"
  shows "\<exists>r. intent_of (ensured i b s) i b = Some r
    \<and> intent_request i b s = (Inr (bump_requested r), upd_intent i b bump_requested (ensured i b s))
    \<and> intents_inv (upd_intent i b bump_requested (ensured i b s))"
proof -
  note inv = intents_inv_ensured [OF assms(1), of i b]
  obtain r where r: "intent_ensure i b s = (Inr r, ensured i b s)" "intent_of (ensured i b s) i b = Some r"
    using intent_ensure_run [OF assms] by blast
  have adm: "admits ARTIFACT_PROCESSING_INTENTS_TABLE (ensured i b s) (bump_requested r)"
    using intent_of_admits [OF intents_invD(1) [OF inv] r(2)] by (simp add: bump_requested_admits)
  have "bump_requested = (\<lambda>r. r\<lparr>in_requested_generation := in_requested_generation r + 1\<rparr>)"
    by (simp add: fun_eq_iff bump_requested_def)
  then have "intent_request i b s = (Inr (bump_requested r), upd_intent i b bump_requested (ensured i b s))"
    using r(1) update_and_load_run [OF inv assms(2) keeps_bump_requested r(2) adm]
    by (simp add: intent_request_def andThen_run [of "intent_ensure i b"])
  with r(2) intents_inv_upd [OF inv keeps_bump_requested, of i b] adm show ?thesis by simp
qed

text \<open>What an accepted acknowledgement does to the row.\<close>

definition ack_row :: "int \<Rightarrow> int option \<Rightarrow> bool \<Rightarrow> intent_row \<Rightarrow> intent_row \<Rightarrow> intent_row" where
  "ack_row generation clean dream cur r =
     r\<lparr>in_handled_generation := max (in_handled_generation cur) generation,
       in_clean_generation := (case clean of None \<Rightarrow> in_clean_generation cur
                               | Some cg \<Rightarrow> max (in_clean_generation cur) cg),
       in_consecutive_dream_attempts :=
         (if dream then min (in_consecutive_dream_attempts cur + 1) 4 else 0)\<rparr>"

definition ack_accepted :: "int \<Rightarrow> int option \<Rightarrow> intent_row \<Rightarrow> bool" where
  "ack_accepted generation clean cur \<longleftrightarrow> generation \<le> in_requested_generation cur \<and>
     (case clean of None \<Rightarrow> True | Some cg \<Rightarrow> 0 \<le> cg \<and> cg \<le> in_dirty_generation cur)"

lemma acknowledge_accepted:
  assumes "intents_inv s" and "valid_key i b" and "intent_of s i b = Some cur" and "0 \<le> generation"
    and "in_handled_generation cur < generation" and "ack_accepted generation clean cur"
  shows "acknowledge i b generation clean dream s =
      (Inr (ack_row generation clean dream cur cur), upd_intent i b (ack_row generation clean dream cur) s)"
    and "intents_inv (upd_intent i b (ack_row generation clean dream cur) s)"
proof -
  have k: "keeps_intent_key (ack_row generation clean dream cur)"
    by (simp add: keeps_intent_key_def ack_row_def)
  have adm: "admits ARTIFACT_PROCESSING_INTENTS_TABLE s (ack_row generation clean dream cur cur)"
    using intent_of_admits [OF intents_invD(1) [OF assms(1)] assms(3)] assms(4,6)
    by (auto simp: handle_admits ack_row_def ack_accepted_def split: option.splits)
  show "intents_inv (upd_intent i b (ack_row generation clean dream cur) s)"
    using intents_inv_upd [OF assms(1) k, of i b] assms(3) adm by simp
  show "acknowledge i b generation clean dream s =
      (Inr (ack_row generation clean dream cur cur), upd_intent i b (ack_row generation clean dream cur) s)"
    using assms update_and_load_run [OF assms(1,2) k assms(3) adm]
    by (cases clean)
       (simp_all add: acknowledge_def require_nonnegative_def andThen_run [of "require x y" for x y]
         bind_run [of "intent_load i b" "\<lambda>c. case c of None \<Rightarrow> x | Some cur \<Rightarrow> y cur" for x y]
         bind_run [of "return x" for x] bind_run [of "andThen x y" for x y]
         intent_load_run ack_accepted_def ack_row_def [abs_def])
qed

lemma acknowledge_repeated:
  assumes "intents_inv s" and "valid_key i b" and "intent_of s i b = Some cur" and "0 \<le> generation"
    and "generation \<le> in_handled_generation cur"
  shows "acknowledge i b generation clean dream s = (Inr cur, s)"
proof -
  have "generation \<le> in_requested_generation cur"
    using intent_of_admits [OF intents_invD(1) [OF assms(1)] assms(3)] assms(5) by (simp add: handle_admits)
  with assms show ?thesis
    by (simp add: acknowledge_def require_nonnegative_def andThen_run bind_run intent_load_run)
qed

lemma acknowledge_refused:
  assumes "intents_inv s" and "valid_key i b" and "0 \<le> generation"
    and "case intent_of s i b of None \<Rightarrow> True
      | Some cur \<Rightarrow> in_handled_generation cur < generation \<and> \<not> ack_accepted generation clean cur"
  shows "\<exists>f d. acknowledge i b generation clean dream s = (Inl (InvalidRepositoryArgument f d), s)"
  using assms
  by (auto simp: acknowledge_def require_nonnegative_def andThen_run bind_run intent_load_run
      ack_accepted_def split: option.splits)


text \<open>What an admission to the running automatic scan does to the row.\<close>

definition admit_row :: "int \<Rightarrow> intent_row \<Rightarrow> intent_row \<Rightarrow> intent_row" where
  "admit_row scan cur r =
     r\<lparr>in_requested_generation :=
         (if in_dirty_generation cur > in_clean_generation cur
             \<and> in_requested_generation cur = in_handled_generation cur
          then in_requested_generation cur + 1 else in_requested_generation cur),
       in_last_auto_scan_generation := scan\<rparr>"

definition scan_of :: "db \<Rightarrow> string \<Rightarrow> binding_state_row option" where
  "scan_of s b = List.find (\<lambda>r. bs_binding_name r = b) (binding_states s)"

definition admissible :: "int \<Rightarrow> binding_state_row \<Rightarrow> intent_row \<Rightarrow> bool" where
  "admissible scan st cur \<longleftrightarrow> bs_scan_in_progress st \<and> bs_scan_generation st = scan
     \<and> in_pending_sequence cur \<le> (case bs_scan_upper_pending_sequence st of None \<Rightarrow> 0 | Some u \<Rightarrow> u)"

abbreviation binding_states_ok :: "db \<Rightarrow> bool" where
  "binding_states_ok \<equiv> table_ok ARTIFACT_PROCESSING_BINDING_STATES_TABLE"

lemma scan_of_load:
  "binding_states_ok s \<Longrightarrow>
     sql_one_or_none ARTIFACT_PROCESSING_BINDING_STATES_TABLE (\<lambda>r. bs_binding_name r = b) s = (Inr (scan_of s b), s)"
  by (subst binding_states_t.one_or_none_run) (auto simp: scan_of_def handle_clash)

lemma admit_accepted:
  assumes "intents_inv s" and "binding_states_ok s" and "valid_key i b" and "0 \<le> scan"
    and "scan_of s b = Some st" and "intent_of s i b = Some cur" and "admissible scan st cur"
    and "in_last_auto_scan_generation cur < scan"
  shows "admit i b scan s = (Inr (admit_row scan cur cur), upd_intent i b (admit_row scan cur) s)"
    and "intents_inv (upd_intent i b (admit_row scan cur) s)"
proof -
  have k: "keeps_intent_key (admit_row scan cur)"
    by (simp add: keeps_intent_key_def admit_row_def)
  have adm: "admits ARTIFACT_PROCESSING_INTENTS_TABLE s (admit_row scan cur cur)"
    using intent_of_admits [OF intents_invD(1) [OF assms(1)] assms(6)] assms(4)
    by (auto simp: handle_admits admit_row_def)
  show "intents_inv (upd_intent i b (admit_row scan cur) s)"
    using intents_inv_upd [OF assms(1) k, of i b] assms(6) adm by simp
  show "admit i b scan s = (Inr (admit_row scan cur cur), upd_intent i b (admit_row scan cur) s)"
    using assms update_and_load_run [OF assms(1,3) k assms(6) adm]
    by (simp add: admit_def require_nonnegative_def andThen_run [of "require x y" for x y]
        bind_run [of "sql_one_or_none x y" for x y] Let_def
        bind_run [of "intent_load i b" "\<lambda>c. case c of None \<Rightarrow> x | Some cur \<Rightarrow> y cur" for x y]
        intent_load_run scan_of_load admissible_def admit_row_def [abs_def])
qed

lemma admit_repeated:
  assumes "intents_inv s" and "binding_states_ok s" and "valid_key i b" and "0 \<le> scan"
    and "scan_of s b = Some st" and "intent_of s i b = Some cur" and "admissible scan st cur"
    and "scan \<le> in_last_auto_scan_generation cur"
  shows "admit i b scan s = (Inr cur, s)"
  using assms
  by (simp add: admit_def require_nonnegative_def andThen_run bind_run intent_load_run scan_of_load
      admissible_def)

lemma admit_refused:
  assumes "intents_inv s" and "binding_states_ok s" and "valid_key i b" and "0 \<le> scan"
    and "\<not> (\<exists>st cur. scan_of s b = Some st \<and> intent_of s i b = Some cur \<and> admissible scan st cur)"
  shows "\<exists>f d. admit i b scan s = (Inl (InvalidRepositoryArgument f d), s)"
  using assms
  by (auto simp: admit_def require_nonnegative_def andThen_run bind_run intent_load_run scan_of_load
      admissible_def split: option.split)

section \<open>Marking several bindings dirty at once\<close>

definition bump_dirty :: "int \<Rightarrow> intent_row \<Rightarrow> intent_row" where
  "bump_dirty k r = r\<lparr>in_dirty_generation := in_dirty_generation r + k\<rparr>"

definition dirtied :: "string \<Rightarrow> int \<Rightarrow> string \<Rightarrow> db \<Rightarrow> db" where
  "dirtied i k n s = upd_intent i n (bump_dirty k) (ensured i n s)"

lemma keeps_bump_dirty [simp]: "keeps_intent_key (bump_dirty k)"
  by (simp add: keeps_intent_key_def bump_dirty_def)

lemma bump_dirty_admits:
  "0 \<le> k \<Longrightarrow> admits ARTIFACT_PROCESSING_INTENTS_TABLE s r \<Longrightarrow>
     admits ARTIFACT_PROCESSING_INTENTS_TABLE s' (bump_dirty k r)"
  by (auto simp: handle_admits bump_dirty_def)

definition missing :: "string \<Rightarrow> db \<Rightarrow> string list \<Rightarrow> string list" where
  "missing i s names = filter (\<lambda>n. intent_of s i n = None) names"

definition fresh_rows :: "string \<Rightarrow> int \<Rightarrow> string list \<Rightarrow> intent_row list" where
  "fresh_rows i q M = map (\<lambda>(k, n). new_intent i n (q + int k)) (List.enumerate 1 M)"

definition registered :: "string \<Rightarrow> db \<Rightarrow> string list \<Rightarrow> db" where
  "registered i s names = (if missing i s names = [] then s else
     s\<lparr>sequences := [\<lparr>sq_singleton = 1, sq_sequence = seq_of s + int (length (missing i s names))\<rparr>],
       intents := intents s @ fresh_rows i (seq_of s) (missing i s names)\<rparr>)"

definition dirty_all :: "string \<Rightarrow> int \<Rightarrow> string list \<Rightarrow> db \<Rightarrow> db" where
  "dirty_all i k names s = s\<lparr>intents := update_rows (intent_in_names i names) (bump_dirty k) (intents s)\<rparr>"

lemma fresh_rows_snoc:
  "fresh_rows i q (M @ [n]) = fresh_rows i q M @ [new_intent i n (q + int (length M) + 1)]"
  by (simp add: fresh_rows_def enumerate_append_eq algebra_simps)

lemma fresh_rows_mem:
  "r \<in> set (fresh_rows i q M) \<Longrightarrow> in_scope_id r = i \<and> in_binding_name r \<in> set M \<and> q < in_pending_sequence r"
proof (induction M rule: rev_induct)
  case Nil
  then show ?case by (simp add: fresh_rows_def)
next
  case (snoc n M)
  then show ?case by (auto simp: fresh_rows_snoc new_intent_def)
qed

lemma intent_of_registered:
  assumes "n \<notin> set names"
  shows "intent_of (registered i s names) i n = intent_of s i n"
proof -
  have "List.find (intent_key i n) (fresh_rows i (seq_of s) (missing i s names)) = None"
    using assms fresh_rows_mem by (intro find_never) (fastforce simp: missing_def intent_key_def)
  then show ?thesis
    by (simp add: registered_def intent_of_def find_append split: option.split)
qed

lemma seq_of_registered: "seq_of (registered i s names) = seq_of s + int (length (missing i s names))"
  by (simp add: registered_def seq_of_def)

lemma registered_snoc:
  assumes "n \<notin> set names"
  shows "registered i s (names @ [n]) = ensured i n (registered i s names)"
proof (cases "intent_of s i n")
  case None
  then have m: "missing i s (names @ [n]) = missing i s names @ [n]"
    by (simp add: missing_def)
  have "ensured i n (registered i s names) =
    (registered i s names)\<lparr>sequences := [\<lparr>sq_singleton = 1, sq_sequence = seq_of (registered i s names) + 1\<rparr>],
       intents := intents (registered i s names) @ [new_intent i n (seq_of (registered i s names) + 1)]\<rparr>"
    using None intent_of_registered [OF assms, of i s] by (simp add: ensured_def)
  also have "\<dots> = registered i s (names @ [n])"
    unfolding seq_of_registered
    by (simp add: registered_def m fresh_rows_snoc) (simp add: fresh_rows_def algebra_simps)
  finally show ?thesis by simp
next
  case (Some r)
  then show ?thesis
    using intent_of_registered [OF assms, of i s] by (simp add: ensured_def registered_def missing_def)
qed

lemma ensured_dirty_all:
  assumes "n \<notin> set names"
  shows "ensured i n (dirty_all i k names s) = dirty_all i k names (ensured i n s)"
proof -
  have "intent_of (dirty_all i k names s) i n = intent_of s i n"
  proof -
    have "intent_of (dirty_all i k names s) i n =
        map_option (\<lambda>r. if intent_in_names i names r then bump_dirty k r else r) (intent_of s i n)"
      by (simp add: intent_of_def dirty_all_def find_update_rows intent_key_def bump_dirty_def)
    with assms intent_of_key [of s i n] show ?thesis
      by (cases "intent_of s i n") (auto simp: intent_in_names_def)
  qed
  with assms show ?thesis
    by (auto simp: ensured_def dirty_all_def seq_of_def update_rows_def intent_in_names_def new_intent_def)
qed

lemma upd_dirty_all:
  assumes "n \<notin> set names"
  shows "upd_intent i n (bump_dirty k) (dirty_all i k names s) = dirty_all i k (names @ [n]) s"
proof -
  have "update_rows (intent_key i n) (bump_dirty k) (update_rows (intent_in_names i names) (bump_dirty k) t) =
      update_rows (intent_in_names i (names @ [n])) (bump_dirty k) t" for t
    using assms
    by (induction t) (auto simp: intent_in_names_def intent_key_def bump_dirty_def)
  then show ?thesis by (simp add: upd_intent_def dirty_all_def)
qed

lemma fold_dirtied:
  "distinct names \<Longrightarrow> fold (dirtied i k) names s = dirty_all i k names (registered i s names)"
proof (induction names rule: rev_induct)
  case Nil
  then show ?case
    by (simp add: dirty_all_def registered_def missing_def update_rows_none intent_in_names_def)
next
  case (snoc n names)
  then show ?case
    by (simp add: dirtied_def registered_snoc ensured_dirty_all upd_dirty_all)
qed

lemma intents_inv_dirtied: "intents_inv s \<Longrightarrow> 0 \<le> k \<Longrightarrow> intents_inv (dirtied i k n s)"
  unfolding dirtied_def
  by (intro intents_inv_upd intents_inv_ensured)
     (auto intro!: bump_dirty_admits dest: intent_of_admits [OF intents_invD(1) [OF intents_inv_ensured]])

lemma intents_inv_registered: "intents_inv s \<Longrightarrow> distinct names \<Longrightarrow> intents_inv (registered i s names)"
proof (induction names rule: rev_induct)
  case Nil
  then show ?case by (simp add: registered_def missing_def)
next
  case (snoc n names)
  then show ?case by (simp add: registered_snoc intents_inv_ensured)
qed


lemma registered_names_run:
  "\<exists>ex. registered_names i names s = (Inr ex, s) \<and> distinct ex
     \<and> set ex = {n \<in> set names. intent_of s i n \<noteq> None}"
  by (auto simp: registered_names_def bind_run intent_of_def find_None_iff intent_in_names_def
      intent_key_def image_iff)

lemma no_missing_iff:
  assumes "distinct names" and "distinct ex" and "set ex = {n \<in> set names. intent_of s i n \<noteq> None}"
  shows "length ex = length names \<longleftrightarrow> missing i s names = []"
proof -
  have "length ex = length names \<longleftrightarrow> card (set ex) = card (set names)"
    using assms(1,2) by (simp add: distinct_card)
  also have "\<dots> \<longleftrightarrow> set ex = set names"
    using assms(3) card_subset_eq [of "set names" "set ex"] by auto
  also have "\<dots> \<longleftrightarrow> missing i s names = []"
    using assms(3) by (auto simp: missing_def filter_empty_conv)
  finally show ?thesis .
qed

lemma insert_missing_run:
  assumes "intents_inv s" and "distinct names" and "missing i s names \<noteq> []" and "intents s' = intents s"
    and "s'\<lparr>intents := x\<rparr> = s\<lparr>sequences :=
      [\<lparr>sq_singleton = 1, sq_sequence = seq_of s + int (length (missing i s names))\<rparr>], intents := x\<rparr>"
  shows "for_each (fresh_rows i (seq_of s) (missing i s names))
      (sql_insert ARTIFACT_PROCESSING_INTENTS_TABLE) s' = (Inr (), registered i s names)"
proof -
  let ?rows = "fresh_rows i (seq_of s) (missing i s names)"
  have "intents_ok (registered i s names)"
    using intents_inv_registered [OF assms(1,2), of i] by simp
  then have "clash_free ARTIFACT_PROCESSING_INTENTS_TABLE (intents s @ ?rows)"
    and "\<forall>r \<in> set ?rows. admits ARTIFACT_PROCESSING_INTENTS_TABLE s' r"
    using assms(3) by (auto simp: table_ok_def registered_def handle_admits)
  then have "for_each ?rows (sql_insert ARTIFACT_PROCESSING_INTENTS_TABLE) s' =
      (Inr (), s'\<lparr>intents := intents s @ ?rows\<rparr>)"
    using intents_t.insert_many_run [of s' ?rows] assms(4) by simp
  moreover have "s'\<lparr>intents := intents s @ ?rows\<rparr> = (s'\<lparr>intents := x\<rparr>)\<lparr>intents := intents s @ ?rows\<rparr>"
    by simp
  ultimately show ?thesis
    unfolding assms(5) using assms(3) by (simp add: registered_def)
qed

lemma dirty_all_run:
  assumes "intents_ok s" and "0 \<le> k"
  shows "\<exists>n. sql_update ARTIFACT_PROCESSING_INTENTS_TABLE (intent_in_names i names)
      (\<lambda>r. r\<lparr>in_dirty_generation := in_dirty_generation r + k\<rparr>) s = (Inr n, dirty_all i k names s)"
  using assms
  by (subst intents_t.update_run)
     (auto simp: dirty_all_def bump_dirty_def [abs_def] handle_clash handle_admits table_ok_def)

lemma require_names_run:
  "(\<And>n. n \<in> set names \<Longrightarrow> valid_key i n) \<Longrightarrow> for_each names (require_intent_key i) s = (Inr (), s)"
  by (induction names) (simp_all add: andThen_run)

lemma mark_dirty_many_run:
  assumes "intents_inv s" and "supported_dialect s" and "1 \<le> k" and "\<And>n. n \<in> set names \<Longrightarrow> valid_key i n"
  shows "mark_dirty_many i names k s = (Inr (), fold (dirtied i k) (from_keys names) s)"
proof -
  let ?ns = "from_keys names" and ?M = "missing i s (from_keys names)"
  let ?s1 = "s\<lparr>sequences := [\<lparr>sq_singleton = 1, sq_sequence = seq_of s\<rparr>]\<rparr>"
  let ?s2 = "s\<lparr>sequences := [\<lparr>sq_singleton = 1, sq_sequence = seq_of s + int (length ?M)\<rparr>]\<rparr>"
  let ?reg = "if ?M = [] then return () else
      (andThen seed_sequence
            (bind (registered_names i ?ns) (\<lambda>existing'.
             let missing = filter (\<lambda>name. name \<notin> set existing') ?ns in
             if missing \<noteq> []
             then bind (advance_sequence (int (length missing))) (\<lambda>last.
                    for_each
                      (map (\<lambda>(offset, name).
                          new_intent i name (last - int (length missing) + int offset))
                         (List.enumerate 1 missing))
                      (sql_insert ARTIFACT_PROCESSING_INTENTS_TABLE))
             else return ())))"
  have "?reg s = (Inr (), registered i s ?ns)"
  proof (cases "?M = []")
    case True
    then show ?thesis by (simp add: registered_def)
  next
    case False
    have "intent_of ?s1 i n = intent_of s i n" for n by (simp add: intent_of_def)
    with registered_names_run [of i ?ns ?s1] obtain ex where
      ex: "registered_names i ?ns ?s1 = (Inr ex, ?s1)" "set ex = {n \<in> set ?ns. intent_of s i n \<noteq> None}"
      by auto
    then have M: "filter (\<lambda>name. name \<notin> set ex) ?ns = ?M"
      by (auto simp: missing_def intro: filter_cong)
    have "seed_sequence s = (Inr (), ?s1)"
      using seed_sequence_run [of s] assms(1,2) by simp
    moreover have "advance_sequence (int (length ?M)) ?s1 = (Inr (seq_of s + int (length ?M)), ?s2)"
      using seq_of_nonneg [OF assms(1)] by (simp add: advance_sequence_run)
    moreover have "for_each (fresh_rows i (seq_of s) ?M) (sql_insert ARTIFACT_PROCESSING_INTENTS_TABLE) ?s2 =
        (Inr (), registered i s ?ns)"
      by (rule insert_missing_run [where x = "[]", OF assms(1) _ False]) simp_all
    ultimately show ?thesis
      using False ex(1) M by (simp add: andThen_run bind_run Let_def fresh_rows_def)
  qed
  moreover obtain ex where "registered_names i ?ns s = (Inr ex, s)" "distinct ex"
    "set ex = {n \<in> set ?ns. intent_of s i n \<noteq> None}"
    using registered_names_run by blast
  moreover have "intents_ok (registered i s ?ns)"
    using intents_inv_registered [OF assms(1), of ?ns i] by simp
  ultimately show ?thesis
    using dirty_all_run [of "registered i s ?ns" k i ?ns] assms(3,4) no_missing_iff [of ?ns ex s i]
      require_names_run [of ?ns i s]
    by (cases "?ns = []")
       (auto simp: mark_dirty_many_def Let_def andThen_run bind_run fold_dirtied split: if_splits)
qed

lemma intents_inv_fold_dirtied: "intents_inv s \<Longrightarrow> 0 \<le> k \<Longrightarrow> intents_inv (fold (dirtied i k) names s)"
  by (induction names arbitrary: s) (simp_all add: intents_inv_dirtied)

lemma supported_dirtied [simp]: "supported_dialect (dirtied i k n s) = supported_dialect s"
  by (simp add: dirtied_def upd_intent_def) (simp add: supported_dialect_def ensured_def)


section \<open>Runs of intent operations\<close>

text \<open>
  Any client call on the repository, with whatever arguments and outcome; a call that
  raises takes the step to the state it leaves behind.
\<close>

inductive intent_step :: "db \<Rightarrow> db \<Rightarrow> bool" where
  step_ensure: "intent_step s (snd (intent_ensure i b s))"
| step_mark_dirty: "intent_step s (snd (mark_dirty_many i names k s))"
| step_request: "intent_step s (snd (intent_request i b s))"
| step_acknowledge: "intent_step s (snd (acknowledge i b g clean dream s))"
| step_admit: "intent_step s (snd (admit i b scan s))"

inductive_cases intent_stepE: "intent_step s t"

text \<open>How an intent may change: the identity and sequence stay, the counters grow.\<close>

definition row_advances :: "intent_row \<Rightarrow> intent_row \<Rightarrow> bool" where
  "row_advances r r' \<longleftrightarrow> in_pending_sequence r' = in_pending_sequence r
     \<and> in_dirty_generation r \<le> in_dirty_generation r' \<and> in_clean_generation r \<le> in_clean_generation r'
     \<and> in_requested_generation r \<le> in_requested_generation r'
     \<and> in_handled_generation r \<le> in_handled_generation r'
     \<and> in_last_auto_scan_generation r \<le> in_last_auto_scan_generation r'"

text \<open>
  How a run may change the intents: registered intents advance, the allocator grows, a
  newly registered intent gets a sequence beyond every number handed out before, and the
  scheduling baseline is not touched.
\<close>

definition intents_advance :: "db \<Rightarrow> db \<Rightarrow> bool" where
  "intents_advance s t \<longleftrightarrow>
     (\<forall>i b r. intent_of s i b = Some r \<longrightarrow> (\<exists>r'. intent_of t i b = Some r' \<and> row_advances r r'))
     \<and> seq_of s \<le> seq_of t
     \<and> (\<forall>i b r. intent_of s i b = None \<longrightarrow> intent_of t i b = Some r \<longrightarrow> seq_of s < in_pending_sequence r)
     \<and> binding_states t = binding_states s"

definition intents_env :: "db \<Rightarrow> bool" where
  "intents_env s \<longleftrightarrow> intents_inv s \<and> supported_dialect s \<and> binding_states_ok s"

lemma intents_advance_refl [simp]: "intents_advance s s"
  by (simp add: intents_advance_def row_advances_def)

lemma row_advances_trans: "row_advances r x \<Longrightarrow> row_advances x y \<Longrightarrow> row_advances r y"
  by (auto simp: row_advances_def)

lemma intents_advanceD:
  "intents_advance s t \<Longrightarrow> intent_of s i b = Some r \<Longrightarrow> \<exists>r'. intent_of t i b = Some r' \<and> row_advances r r'"
  by (simp add: intents_advance_def)

lemma intents_advance_trans:
  assumes "intents_advance s t" and "intents_advance t u"
  shows "intents_advance s u"
proof -
  have "seq_of s < in_pending_sequence r" if "intent_of s i b = None" "intent_of u i b = Some r" for i b r
  proof (cases "intent_of t i b")
    case None
    with assms that have "seq_of s \<le> seq_of t" "seq_of t < in_pending_sequence r"
      by (auto simp: intents_advance_def)
    then show ?thesis by simp
  next
    case (Some x)
    with assms that have "seq_of s < in_pending_sequence x" "row_advances x r"
      unfolding intents_advance_def by (blast, metis option.inject)
    then show ?thesis by (simp add: row_advances_def)
  qed
  moreover have "\<exists>r'. intent_of u i b = Some r' \<and> row_advances r r'" if "intent_of s i b = Some r" for i b r
    using intents_advanceD [OF assms(1) that] intents_advanceD [OF assms(2)] row_advances_trans by blast
  ultimately show ?thesis
    using assms by (auto simp: intents_advance_def)
qed

lemma seq_of_ensured: "seq_of (ensured i b s) = (if intent_of s i b = None then seq_of s + 1 else seq_of s)"
  by (simp add: ensured_def seq_of_def)

lemma intents_advance_ensured [simp]: "intents_advance s (ensured i b s)"
  by (auto simp: intents_advance_def intent_of_ensured row_advances_def seq_of_ensured new_intent_def
      split: if_splits) (simp_all add: ensured_def)

lemma intents_advance_upd:
  assumes "keeps_intent_key f" and "\<And>r. intent_of s i b = Some r \<Longrightarrow> row_advances r (f r)"
  shows "intents_advance s (upd_intent i b f s)"
  using assms
  by (auto simp: intents_advance_def intent_of_upd row_advances_def split: if_splits)
     (simp_all add: upd_intent_def seq_of_def)

lemma env_upd: "binding_states_ok (upd_intent i b f s) = binding_states_ok s"
    "supported_dialect (upd_intent i b f s) = supported_dialect s"
    "binding_states_ok (ensured i b s) = binding_states_ok s"
  by (simp_all add: upd_intent_def table_ok_def handle_admits supported_dialect_def ensured_def)

lemma env_dirtied:
  "intents_env s \<Longrightarrow> 0 \<le> k \<Longrightarrow> intents_env (dirtied i k n s) \<and> intents_advance s (dirtied i k n s)"
  using intents_advance_trans [OF intents_advance_ensured [of s i n]
      intents_advance_upd [OF keeps_bump_dirty, of "ensured i n s" i n k]]
  by (simp add: intents_env_def intents_inv_dirtied)
     (simp add: dirtied_def env_upd row_advances_def bump_dirty_def)

lemma env_fold_dirtied:
  "intents_env s \<Longrightarrow> 0 \<le> k \<Longrightarrow>
     intents_env (fold (dirtied i k) names s) \<and> intents_advance s (fold (dirtied i k) names s)"
proof (induction names arbitrary: s)
  case Nil
  then show ?case by simp
next
  case (Cons n names)
  with Cons.IH [of "dirtied i k n s"] env_dirtied [of s k i n] show ?case
    by (auto intro: intents_advance_trans)
qed

lemma intent_load_invalid:
  "\<not> valid_key i b \<Longrightarrow> \<exists>e. intent_load i b s = (Inl e, s)"
  by (auto simp: intent_load_def require_intent_key_def require_intent_identifier_def valid_key_def
      andThen_run)

lemma mark_dirty_many_invalid:
  assumes "k < 1 \<or> (\<exists>n \<in> set names. \<not> valid_key i n)"
  shows "snd (mark_dirty_many i names k s) = s"
proof -
  have "\<exists>e. for_each ns (require_intent_key i) s = (Inl e, s)" if "\<exists>n \<in> set ns. \<not> valid_key i n" for ns
    using that
    by (induction ns) (auto simp: andThen_run require_intent_key_def require_intent_identifier_def valid_key_def)
  note bad = this [of "from_keys names"]
  show ?thesis
  proof (cases "\<exists>n \<in> set names. \<not> valid_key i n")
    case True
    with bad obtain e where "for_each (from_keys names) (require_intent_key i) s = (Inl e, s)" by auto
    then show ?thesis by (simp add: mark_dirty_many_def Let_def andThen_run)
  next
    case False
    with assms show ?thesis by (simp add: mark_dirty_many_def Let_def andThen_run)
  qed
qed

lemma env_acknowledge:
  assumes "intents_env s"
  shows "intents_env (snd (acknowledge i b g clean dream s))
    \<and> intents_advance s (snd (acknowledge i b g clean dream s))"
proof -
  have inv: "intents_inv s" using assms by (simp add: intents_env_def)
  consider "g < 0" | "0 \<le> g" "\<not> valid_key i b" | "0 \<le> g" "valid_key i b" "intent_of s i b = None"
    | cur where "0 \<le> g" "valid_key i b" "intent_of s i b = Some cur"
    by (cases "intent_of s i b") force+
  then show ?thesis
  proof cases
    case 1
    then show ?thesis using assms by (simp add: acknowledge_def require_nonnegative_def andThen_run)
  next
    case 2
    then show ?thesis
      using assms intent_load_invalid [of i b s]
      by (auto simp: acknowledge_def require_nonnegative_def andThen_run bind_run)
  next
    case 3
    then show ?thesis using assms acknowledge_refused [OF inv, of i b g clean dream] by auto
  next
    case (4 cur)
    have k: "keeps_intent_key (ack_row g clean dream cur)"
      by (simp add: keeps_intent_key_def ack_row_def)
    show ?thesis
    proof (cases "in_handled_generation cur < g \<and> ack_accepted g clean cur")
      case True
      with 4 have "row_advances cur (ack_row g clean dream cur cur)"
        by (auto simp: row_advances_def ack_row_def split: option.split)
      with True 4 assms show ?thesis
        using acknowledge_accepted [OF inv 4(2,3,1), of clean dream]
          intents_advance_upd [OF k, of s i b]
        by (simp add: intents_env_def env_upd)
    next
      case False
      then show ?thesis
        using assms acknowledge_repeated [OF inv 4(2,3,1), of clean dream]
          acknowledge_refused [OF inv 4(2,1), of clean dream] 4
        by (cases "g \<le> in_handled_generation cur") auto
    qed
  qed
qed

lemma env_admit:
  assumes "intents_env s"
  shows "intents_env (snd (admit i b scan s)) \<and> intents_advance s (snd (admit i b scan s))"
proof -
  have inv: "intents_inv s" "binding_states_ok s" using assms by (simp_all add: intents_env_def)
  have stay: ?thesis if "snd (admit i b scan s) = s" using that assms by simp
  show ?thesis
  proof (cases "0 \<le> scan \<and> valid_key i b")
    case False
    then show ?thesis
      using intent_load_invalid [of i b s] scan_of_load [OF inv(2), of b]
      by (intro stay) (auto simp: admit_def require_nonnegative_def andThen_run bind_run split: option.split)
  next
    case True
    show ?thesis
    proof (cases "\<exists>st cur. scan_of s b = Some st \<and> intent_of s i b = Some cur \<and> admissible scan st cur")
      case False
      with True show ?thesis using admit_refused [OF inv, of i b scan] by (intro stay) auto
    next
      case ok: True
      then obtain st cur where c: "scan_of s b = Some st" "intent_of s i b = Some cur" "admissible scan st cur"
        by blast
      have k: "keeps_intent_key (admit_row scan cur)"
        by (simp add: keeps_intent_key_def admit_row_def)
      show ?thesis
      proof (cases "scan \<le> in_last_auto_scan_generation cur")
        case True
        with admit_repeated [OF inv _ _ c] \<open>0 \<le> scan \<and> valid_key i b\<close> show ?thesis
          by (intro stay) simp
      next
        case False
        then have "row_advances cur (admit_row scan cur cur)"
          by (auto simp: row_advances_def admit_row_def)
        with False True assms c show ?thesis
          using admit_accepted [OF inv _ _ c] intents_advance_upd [OF k, of s i b]
          by (simp add: intents_env_def env_upd)
      qed
    qed
  qed
qed


lemma env_ensure:
  assumes "intents_env s"
  shows "intents_env (snd (intent_ensure i b s)) \<and> intents_advance s (snd (intent_ensure i b s))"
proof (cases "valid_key i b")
  case True
  then obtain r where "intent_ensure i b s = (Inr r, ensured i b s)"
    using assms intent_ensure_run [of s i b] unfolding intents_env_def by blast
  with assms intents_inv_ensured [of s i b] show ?thesis
    by (simp add: intents_env_def env_upd)
next
  case False
  then show ?thesis
    using assms intent_load_invalid [of i b s] by (auto simp: intent_ensure_def bind_run)
qed

lemma env_request:
  assumes "intents_env s"
  shows "intents_env (snd (intent_request i b s)) \<and> intents_advance s (snd (intent_request i b s))"
proof (cases "valid_key i b")
  case True
  have "intents_advance s (upd_intent i b bump_requested (ensured i b s))"
    by (rule intents_advance_trans [OF intents_advance_ensured], rule intents_advance_upd)
       (simp_all add: row_advances_def bump_requested_def)
  moreover obtain r where "intent_request i b s = (Inr r, upd_intent i b bump_requested (ensured i b s))"
    "intents_inv (upd_intent i b bump_requested (ensured i b s))"
    using True assms intent_request_run [of s i b] unfolding intents_env_def by blast
  ultimately show ?thesis
    using assms by (simp add: intents_env_def env_upd)
next
  case False
  then show ?thesis
    using assms intent_load_invalid [of i b s]
    by (auto simp: intent_request_def intent_ensure_def bind_run andThen_run)
qed

lemma env_mark_dirty_many:
  assumes "intents_env s"
  shows "intents_env (snd (mark_dirty_many i names k s)) \<and> intents_advance s (snd (mark_dirty_many i names k s))"
proof (cases "k < 1 \<or> (\<exists>n \<in> set names. \<not> valid_key i n)")
  case True
  with assms show ?thesis by (simp add: mark_dirty_many_invalid)
next
  case False
  then have "mark_dirty_many i names k s = (Inr (), fold (dirtied i k) (from_keys names) s)"
    using assms by (intro mark_dirty_many_run) (auto simp: intents_env_def)
  with False assms env_fold_dirtied [of s k i "from_keys names"] show ?thesis by simp
qed

lemma intent_step_env: "intent_step s t \<Longrightarrow> intents_env s \<Longrightarrow> intents_env t \<and> intents_advance s t"
  by (erule intent_stepE)
     (simp_all add: env_ensure env_request env_mark_dirty_many env_acknowledge env_admit)

lemma intent_run_env: "intent_step\<^sup>*\<^sup>* s t \<Longrightarrow> intents_env s \<Longrightarrow> intents_env t \<and> intents_advance s t"
proof (induction rule: rtranclp_induct)
  case base
  then show ?case by simp
next
  case (step t u)
  then show ?case using intent_step_env [of t u] by (auto intro: intents_advance_trans)
qed

section \<open>Properties\<close>

text \<open>
  C22: marking many bindings of a scope dirty in one bulk statement leaves exactly the state
  that marking them one at a time, in the order of the request without repetitions, leaves:
  the same rows in the same order, with the same sequence numbers.
\<close>

theorem mark_dirty_many_one_at_a_time:
  assumes "intents_env s" and "1 \<le> k" and "\<forall>n \<in> set names. valid_key i n"
  shows "mark_dirty_many i names k s = for_each (from_keys names) (\<lambda>n. mark_dirty_many i [n] k) s"
proof -
  have "for_each ns (\<lambda>n. mark_dirty_many i [n] k) s = (Inr (), fold (dirtied i k) ns s)"
    if "\<forall>n \<in> set ns. valid_key i n" for ns
    using that assms(1)
  proof (induction ns arbitrary: s)
    case (Cons n ns)
    then have "mark_dirty_many i [n] k s = (Inr (), dirtied i k n s)"
      using mark_dirty_many_run [of s k "[n]" i] assms(2) by (auto simp: intents_env_def)
    moreover have "intents_env (dirtied i k n s)"
      using env_dirtied [OF Cons.prems(2), of k i n] assms(2) by simp
    ultimately show ?case using Cons by (simp add: andThen_run)
  qed simp
  from this [of "from_keys names"] assms mark_dirty_many_run [of s k names i] show ?thesis
    by (simp add: intents_env_def)
qed

lemma intents_env_empty: "d = ''sqlite'' \<or> d = ''mysql'' \<Longrightarrow> intents_env (empty_db d c)"
  by (auto simp: intents_env_def intents_inv_def table_ok_def empty_db_def supported_dialect_def)

lemma valid_keys_example: "valid_key ''scope'' ''memory''" "valid_key ''scope'' ''topics''"
  by code_simp+

theorem mark_dirty_many_one_at_a_time_witness:
  "mark_dirty_many ''scope'' [''memory'', ''topics'', ''memory''] 2 (empty_db ''sqlite'' (\<lambda>_. 0)) =
     for_each [''memory'', ''topics''] (\<lambda>n. mark_dirty_many ''scope'' [n] 2) (empty_db ''sqlite'' (\<lambda>_. 0))"
  using mark_dirty_many_one_at_a_time [OF intents_env_empty [of "''sqlite''" "\<lambda>_. 0"], of 2
      "[''memory'', ''topics'', ''memory'']" "''scope''"]
  by (simp add: valid_keys_example from_keys_def)

text \<open>
  C28: along every run of intent operations, whatever their arguments and outcomes, the schema
  constraints and the sequence allocator stay consistent (in particular clean never
  overtakes dirty and handled never overtakes requested), and a registered intent keeps
  its sequence number while its counters only grow.
\<close>

theorem intent_run_monotone:
  assumes "intents_env s" and "intent_step\<^sup>*\<^sup>* s t"
  shows "intents_inv t \<and> intents_advance s t"
  using intent_run_env [OF assms(2,1)] by (simp add: intents_env_def)

theorem intent_run_monotone_witness:
  "intents_inv (snd (intent_request ''scope'' ''memory'' (empty_db ''sqlite'' (\<lambda>_. 0))))
   \<and> intents_advance (empty_db ''sqlite'' (\<lambda>_. 0))
       (snd (intent_request ''scope'' ''memory'' (empty_db ''sqlite'' (\<lambda>_. 0))))"
  using intent_run_monotone [OF intents_env_empty [of "''sqlite''" "\<lambda>_. 0"]
      r_into_rtranclp [of intent_step, OF step_request]]
  by blast

text \<open>
  C2: no domain work is lost between observing an intent and acknowledging it. If the dirty
  counter moved on after it was read as \<open>r\<close>, an acknowledgement of the
  invocation with the observed counter leaves the intent dirty, whatever happened in
  between.
\<close>

theorem acknowledge_keeps_unseen_work:
  assumes "intents_env s" and "intent_of s i b = Some r" and "intent_step\<^sup>*\<^sup>* s t"
    and "intent_of t i b = Some cur" and "in_dirty_generation r < in_dirty_generation cur"
    and "in_clean_generation cur < in_dirty_generation cur"
    and "valid_key i b" and "in_handled_generation cur < g" and "g \<le> in_requested_generation cur"
  shows "\<exists>r' u. acknowledge i b g (Some (in_dirty_generation r)) dream t = (Inr r', u)
    \<and> intent_of u i b = Some r' \<and> in_handled_generation r' = g
    \<and> in_dirty_generation r \<le> in_clean_generation r' \<and> in_clean_generation r' < in_dirty_generation r'"
proof -
  have env: "intents_env t" using intent_run_env [OF assms(3,1)] by simp
  have "0 \<le> in_handled_generation cur" "0 \<le> in_dirty_generation r"
    using intent_of_admits [of t i b cur] intent_of_admits [of s i b r] assms(1,2,4) env
    by (auto simp: intents_env_def handle_admits)
  moreover from this assms(5,9) have "ack_accepted g (Some (in_dirty_generation r)) cur"
    by (simp add: ack_accepted_def)
  ultimately have "acknowledge i b g (Some (in_dirty_generation r)) dream t =
      (Inr (ack_row g (Some (in_dirty_generation r)) dream cur cur),
       upd_intent i b (ack_row g (Some (in_dirty_generation r)) dream cur) t)"
    using acknowledge_accepted(1) [OF _ assms(7,4)] env assms(8) by (simp add: intents_env_def)
  moreover have "intent_of (upd_intent i b (ack_row g (Some (in_dirty_generation r)) dream cur) t) i b =
      Some (ack_row g (Some (in_dirty_generation r)) dream cur cur)"
    using assms(4) by (subst intent_of_upd) (simp_all add: keeps_intent_key_def ack_row_def)
  ultimately show ?thesis
    using assms(5,6,8) by simp (simp add: ack_row_def)
qed


lemma valid_key_binding: "valid_key i b \<Longrightarrow> valid_identifier b MAX_BINDING_NAME_LENGTH"
  by (simp add: valid_key_def)

definition example_intents :: db where
  "example_intents = (empty_db ''sqlite'' (\<lambda>_. 0))\<lparr>
     sequences := [\<lparr>sq_singleton = 1, sq_sequence = 1\<rparr>],
     intents := [(new_intent ''scope'' ''memory'' 1)\<lparr>in_dirty_generation := 1, in_requested_generation := 1\<rparr>]\<rparr>"

lemma example_intents_env: "intents_env example_intents"
  by (simp add: intents_env_def example_intents_def intents_inv_def table_ok_def handle_admits
      supported_dialect_def empty_db_def new_intent_def seq_of_def clash_free_def)

lemma example_intents_of:
  "intent_of example_intents ''scope'' ''memory'' =
     Some ((new_intent ''scope'' ''memory'' 1)\<lparr>in_dirty_generation := 1, in_requested_generation := 1\<rparr>)"
  by (simp add: example_intents_def intent_of_def intent_key_def new_intent_def)

theorem acknowledge_keeps_unseen_work_witness:
  "\<exists>r' u. acknowledge ''scope'' ''memory'' 1 (Some 1) True
       (snd (mark_dirty_many ''scope'' [''memory''] 1 example_intents)) = (Inr r', u)
     \<and> in_clean_generation r' < in_dirty_generation r'"
proof -
  let ?r = "(new_intent ''scope'' ''memory'' 1)\<lparr>in_dirty_generation := 1, in_requested_generation := 1\<rparr>"
  let ?t = "snd (mark_dirty_many ''scope'' [''memory''] 1 example_intents)"
  have "mark_dirty_many ''scope'' [''memory''] 1 example_intents =
      (Inr (), fold (dirtied ''scope'' 1) (from_keys [''memory'']) example_intents)"
    using example_intents_env by (intro mark_dirty_many_run) (auto simp: intents_env_def valid_keys_example)
  then have t: "intent_of ?t ''scope'' ''memory'' = Some (bump_dirty 1 ?r)"
    by (simp add: dirtied_def intent_of_upd intent_of_ensured example_intents_of)
  have "intent_step\<^sup>*\<^sup>* example_intents ?t"
    by (rule r_into_rtranclp) (rule step_mark_dirty)
  from acknowledge_keeps_unseen_work [OF example_intents_env example_intents_of this t, of 1 True]
  show ?thesis by (auto simp: valid_keys_example bump_dirty_def new_intent_def)
qed

section \<open>Scanning\<close>

definition scan_match :: "string \<Rightarrow> bool \<Rightarrow> bool \<Rightarrow> int option \<Rightarrow> intent_row \<Rightarrow> bool" where
  "scan_match b requested_only dirty_only upper r \<longleftrightarrow> in_binding_name r = b
     \<and> (case upper of None \<Rightarrow> True | Some u \<Rightarrow> in_pending_sequence r \<le> u)
     \<and> (requested_only \<longrightarrow> in_requested_generation r > in_handled_generation r)
     \<and> (dirty_only \<longrightarrow> in_dirty_generation r > in_clean_generation r)"

lemma intent_scan_run:
  assumes "valid_identifier b MAX_BINDING_NAME_LENGTH" and "0 \<le> after" and "1 \<le> limit"
    and "case upper of None \<Rightarrow> True | Some u \<Rightarrow> 0 \<le> u"
  shows "intent_scan b after limit ro do upper s =
    (Inr (take (nat limit) (filter (\<lambda>r. after < in_pending_sequence r)
       (sort_key in_pending_sequence (filter (scan_match b ro do upper) (intents s))))), s)"
proof -
  have "filter (\<lambda>r. in_binding_name r = b \<and> after < in_pending_sequence r
      \<and> (case upper of None \<Rightarrow> True | Some u \<Rightarrow> in_pending_sequence r \<le> u)
      \<and> (ro \<longrightarrow> in_requested_generation r > in_handled_generation r)
      \<and> (do \<longrightarrow> in_dirty_generation r > in_clean_generation r)) t =
    filter (\<lambda>r. after < in_pending_sequence r) (filter (scan_match b ro do upper) t)" for t
    by (auto simp: scan_match_def intro: filter_cong)
  with assms show ?thesis
    by (simp add: intent_scan_def andThen_run bind_run require_intent_identifier_def require_nonnegative_def
        filter_sort del: filter_filter split: option.splits)
qed

lemma distinct_sequences:
  "clash_free ARTIFACT_PROCESSING_INTENTS_TABLE t \<Longrightarrow> distinct (map in_pending_sequence t)"
  by (induction t) (auto simp: clash_free_def handle_clash)

lemma distinct_map_filter: "distinct (map f xs) \<Longrightarrow> distinct (map f (filter p xs))"
  by (induction xs) auto

text \<open>
  An intent scan reads the matching intents in sequence order, and continuing it after
  the last intent of a page gives exactly the following ones: the two pages together are
  the one larger page, so no intent is skipped and none repeated.
\<close>

theorem intent_scan_pages:
  assumes "intents_inv s" and "valid_identifier b MAX_BINDING_NAME_LENGTH"
    and "0 \<le> after" and "1 \<le> m" and "1 \<le> n" and "case upper of None \<Rightarrow> True | Some u \<Rightarrow> 0 \<le> u"
    and "intent_scan b after m ro do upper s = (Inr page, s)" and "page \<noteq> []"
  shows "\<exists>next. intent_scan b (in_pending_sequence (last page)) n ro do upper s = (Inr next, s)
    \<and> intent_scan b after (m + n) ro do upper s = (Inr (page @ next), s)
    \<and> sorted_wrt (\<lambda>x y. in_pending_sequence x < in_pending_sequence y) (page @ next)"
proof -
  let ?all = "filter (\<lambda>r. after < in_pending_sequence r)
       (sort_key in_pending_sequence (filter (scan_match b ro do upper) (intents s)))"
  have "distinct (map in_pending_sequence (filter (scan_match b ro do upper) (intents s)))"
    using assms(1) by (intro distinct_map_filter distinct_sequences) (simp add: intents_inv_def table_ok_def)
  then have sorted: "sorted_wrt (\<lambda>x y. in_pending_sequence x < in_pending_sequence y) ?all"
    by (intro sorted_wrt_filter sorted_key_distinct)
  have page: "page = take (nat m) ?all"
    using assms(7) intent_scan_run [OF assms(2,3,4,6)] by simp
  have "last page \<in> set page" using assms(8) by simp
  then have mem: "last page \<in> set ?all" unfolding page by (rule in_set_takeD)
  have "0 \<le> in_pending_sequence (last page)" using mem assms(3) by auto
  moreover have "filter (\<lambda>r. in_pending_sequence (last page) < in_pending_sequence r) ?all =
    filter (\<lambda>r. in_pending_sequence (last page) < in_pending_sequence r)
      (sort_key in_pending_sequence (filter (scan_match b ro do upper) (intents s)))"
    using mem by (auto intro: filter_cong)
  moreover have "take (nat m + nat n) ?all = page @
      take (nat n) (filter (\<lambda>r. in_pending_sequence (last page) < in_pending_sequence r) ?all)"
    using keyset_page [OF sorted, of "nat m" "nat n"] page assms(8) by simp
  ultimately show ?thesis
    using intent_scan_run [OF assms(2) _ assms(5,6)] intent_scan_run [OF assms(2,3) _ assms(6), of "m + n"]
      assms(4,5) sorted_wrt_take [OF sorted, of "nat m + nat n"]
    by (simp add: nat_add_distrib)
qed


theorem intent_scan_pages_witness:
  "intent_scan ''memory'' 0 1 True False None example_intents =
      (Inr [(new_intent ''scope'' ''memory'' 1)\<lparr>in_dirty_generation := 1, in_requested_generation := 1\<rparr>], example_intents)
   \<and> (\<exists>next. intent_scan ''memory'' 1 5 True False None example_intents = (Inr next, example_intents)
     \<and> intent_scan ''memory'' 0 6 True False None example_intents =
      (Inr ((new_intent ''scope'' ''memory'' 1)\<lparr>in_dirty_generation := 1, in_requested_generation := 1\<rparr> # next), example_intents))"
proof -
  let ?r = "(new_intent ''scope'' ''memory'' 1)\<lparr>in_dirty_generation := 1, in_requested_generation := 1\<rparr>"
  have inv: "intents_inv example_intents" and b: "valid_identifier ''memory'' MAX_BINDING_NAME_LENGTH"
    using example_intents_env valid_key_binding [OF valid_keys_example(1)] by (simp_all add: intents_env_def)
  have page: "intent_scan ''memory'' 0 1 True False None example_intents = (Inr [?r], example_intents)"
    using intent_scan_run [OF b, of 0 1 None True False example_intents]
    by (simp add: example_intents_def scan_match_def new_intent_def)
  from intent_scan_pages [OF inv b _ _ _ _ page, of 5] page show ?thesis
    by (auto simp: new_intent_def)
qed

text \<open>
  Admission to an automatic scan. On a registered intent inside the frozen range of the
  running scan it requests an invocation exactly when there is domain work and no
  outstanding request, records the scan, and admitting the same intent again in the same
  scan changes nothing.
\<close>

theorem admit_once_per_scan:
  assumes "intents_env s" and "valid_key i b" and "0 \<le> scan"
    and "scan_of s b = Some st" and "intent_of s i b = Some cur" and "admissible scan st cur"
    and "in_last_auto_scan_generation cur < scan"
  shows "\<exists>r t. admit i b scan s = (Inr r, t) \<and> admit i b scan t = (Inr r, t) \<and> intent_of t i b = Some r
    \<and> in_last_auto_scan_generation r = scan
    \<and> (in_requested_generation r = in_requested_generation cur + 1 \<longleftrightarrow>
         in_clean_generation cur < in_dirty_generation cur
         \<and> in_requested_generation cur = in_handled_generation cur)
    \<and> in_requested_generation r \<in> {in_requested_generation cur, in_requested_generation cur + 1}"
proof -
  let ?t = "upd_intent i b (admit_row scan cur) s" and ?r = "admit_row scan cur cur"
  have inv: "intents_inv s" "binding_states_ok s" using assms(1) by (simp_all add: intents_env_def)
  note acc = admit_accepted [OF inv assms(2-7)]
  have of_t: "intent_of ?t i b = Some ?r"
    using assms(5) by (subst intent_of_upd) (simp_all add: keeps_intent_key_def admit_row_def)
  have "scan_of ?t b = Some st" "binding_states_ok ?t" "admissible scan st ?r"
    using assms(4,6) inv(2)
    by (simp_all add: env_upd admissible_def admit_row_def) (simp add: scan_of_def upd_intent_def)
  then have "admit i b scan ?t = (Inr ?r, ?t)"
    using acc(2) of_t assms(2,3) by (intro admit_repeated) (simp_all add: admit_row_def)
  with acc(1) of_t show ?thesis by simp (simp add: admit_row_def)
qed

lemma admit_member:
  assumes "intents_env s" and "valid_key i b" and "0 \<le> scan" and "scan_of s b = Some st" and "intent_of s i b = Some cur"
    and "admissible scan st cur"
  shows "\<exists>r t. admit i b scan s = (Inr r, t) \<and> intent_of t i b = Some r \<and> scan \<le> in_last_auto_scan_generation r"
proof (cases "in_last_auto_scan_generation cur < scan")
  case True
  have "intents_inv s" "binding_states_ok s" using assms(1) by (simp_all add: intents_env_def)
  from admit_accepted(1) [OF this assms(2-) True] assms(5) show ?thesis
    by (simp add: intent_of_upd keeps_intent_key_def admit_row_def)
next
  case False
  with assms show ?thesis by (simp add: admit_repeated intents_env_def)
qed

definition example_scan :: db where
  "example_scan = example_intents\<lparr>
     intents := [(new_intent ''scope'' ''memory'' 1)\<lparr>in_dirty_generation := 1\<rparr>],
     binding_states := [\<lparr>bs_binding_name = ''memory'', bs_last_auto_wave_completed_at = None,
       bs_last_schedule_checkpoint_at = None, bs_scan_generation = 3, bs_scan_in_progress = True,
       bs_scan_upper_pending_sequence = Some 1\<rparr>]\<rparr>"

theorem admit_once_per_scan_witness:
  "\<exists>r t. admit ''scope'' ''memory'' 3 example_scan = (Inr r, t)
     \<and> admit ''scope'' ''memory'' 3 t = (Inr r, t) \<and> in_requested_generation r = 1"
proof -
  have env: "intents_env example_scan"
    by (simp add: example_scan_def intents_env_def example_intents_def intents_inv_def table_ok_def
        handle_admits supported_dialect_def empty_db_def new_intent_def seq_of_def clash_free_def)
  have st: "scan_of example_scan ''memory'' = Some (hd (binding_states example_scan))"
    and cur: "intent_of example_scan ''scope'' ''memory'' =
      Some ((new_intent ''scope'' ''memory'' 1)\<lparr>in_dirty_generation := 1\<rparr>)"
    and adm: "admissible 3 (hd (binding_states example_scan)) ((new_intent ''scope'' ''memory'' 1)\<lparr>in_dirty_generation := 1\<rparr>)"
    by (simp_all add: example_scan_def scan_of_def intent_of_def intent_key_def new_intent_def admissible_def)
  show ?thesis
    using admit_once_per_scan [OF env valid_keys_example(1) _ st cur adm] by (auto simp: new_intent_def)
qed

end
