(* ===== verification/Register.thy ===== *)
theory Register
  imports Prelude
begin

text \<open>
  The contract of an optimistically versioned record, which the repositories offer their
  clients in several places: a supervisor lease and its generation, a review
  candidate's head and its version, an artifact head with its revision or the generation of
  its governance, the access policy and its revision. A step either leaves the version and what belongs to it alone, or moves to a
  higher version. The consequences are proved once: versions never come back, so a token
  of an older version is refused forever, and two observers of the same version agree on
  its content.
\<close>

locale versioned_register =
  fixes ok :: "'s \<Rightarrow> bool"
    and step :: "'s \<Rightarrow> 's \<Rightarrow> bool"
    and content :: "'s \<Rightarrow> (int \<times> 'c) option"
  assumes ok_step: "ok s \<Longrightarrow> step s t \<Longrightarrow> ok t"
    and advance: "ok s \<Longrightarrow> step s t \<Longrightarrow> content s = Some (v, c) \<Longrightarrow>
      content t = Some (v, c) \<or> (\<exists>v' c'. content t = Some (v', c') \<and> v < v')"
begin

lemma run_ok: "step\<^sup>*\<^sup>* s t \<Longrightarrow> ok s \<Longrightarrow> ok t"
  by (induction rule: rtranclp_induct) (auto intro: ok_step)

lemma run_advance:
  assumes "step\<^sup>*\<^sup>* s t" and "ok s" and "content s = Some (v, c)"
  shows "content t = Some (v, c) \<or> (\<exists>v' c'. content t = Some (v', c') \<and> v < v')"
  using assms
proof (induction rule: rtranclp_induct)
  case base
  then show ?case by simp
next
  case (step t u)
  have "ok t" using run_ok [OF step.hyps(1) step.prems(1)] .
  with step show ?case
    using advance [of t u] by (metis less_trans)
qed

lemma stale_forever:
  "step\<^sup>*\<^sup>* s t \<Longrightarrow> ok s \<Longrightarrow> content s = Some (v, c) \<Longrightarrow> w < v \<Longrightarrow> content t \<noteq> Some (w, d)"
  using run_advance [of s t v c] by force

lemma same_version_same_content:
  "step\<^sup>*\<^sup>* s t \<Longrightarrow> ok s \<Longrightarrow> content s = Some (v, c) \<Longrightarrow> content t = Some (v, d) \<Longrightarrow> d = c"
  using run_advance [of s t v c] by force

lemma never_removed: "step\<^sup>*\<^sup>* s t \<Longrightarrow> ok s \<Longrightarrow> content s \<noteq> None \<Longrightarrow> content t \<noteq> None"
  using run_advance [of s t] by (cases "content s") force+

text \<open>A write that requires the version it read succeeds at most once per version.\<close>

lemma one_commit_per_version:
  assumes "step\<^sup>*\<^sup>* s t" and "ok s" and "content s = Some (v, c)"
    and "content t = Some (v', c')" and "v < v'" and "step\<^sup>*\<^sup>* t u"
  shows "content u \<noteq> Some (v, d)"
  using stale_forever [OF assms(6) run_ok [OF assms(1,2)] assms(4,5)] .

end

end
