(* ===== verification/Supervision.thy ===== *)
theory Supervision
  imports Intents Register
begin

text \<open>
  The supervisor leadership lease and the scheduling baseline of
  \<^verbatim>\<open>src/src/powercontext/builtin/persistence/supervision.py\<close>.

  A lease duration is an integer number of microseconds, the resolution of a
  \<^verbatim>\<open>timedelta\<close>. A savepoint (\<^verbatim>\<open>begin_nested\<close>) is a \<open>transaction\<close>.

  The lemmas show that a leadership term is a versioned register: generations only grow
  and a generation has one holder, so a fence of an earlier term is refused forever; and
  that a frozen scan range separates the intents registered before it from later ones.
\<close>

datatype lease_mode = SingleProcess | OceanBase

record processing_fence =
  fe_supervisor_group :: string
  fe_holder_id :: string
  fe_supervisor_generation :: int
  fe_lease_mode :: lease_mode

definition lease_fence :: "lease_row \<Rightarrow> lease_mode \<Rightarrow> processing_fence" where
  "lease_fence l mode = \<lparr>fe_supervisor_group = le_supervisor_group l, fe_holder_id = le_holder_id l,
     fe_supervisor_generation = le_supervisor_generation l, fe_lease_mode = mode\<rparr>"

definition leadership_lost :: "processing_fence \<Rightarrow> error" where
  "leadership_lost f = LeadershipLost (fe_supervisor_group f) (fe_holder_id f) (fe_supervisor_generation f)"

definition require_positive :: "string \<Rightarrow> int \<Rightarrow> ('s, unit) exec" where
  "require_positive field value = require (0 < value) (InvalidRepositoryArgument field ''must be positive'')"

abbreviation tick :: "db \<Rightarrow> db" where
  "tick s \<equiv> s\<lparr>ticks := Suc (ticks s)\<rparr>"

abbreviation db_now :: "db \<Rightarrow> int" where
  "db_now s \<equiv> clock s (ticks s)"

section \<open>The leadership lease\<close>

abbreviation in_group :: "string \<Rightarrow> lease_row \<Rightarrow> bool" where
  "in_group supervisor_group r \<equiv> le_supervisor_group r = supervisor_group"

definition lease_load :: "string \<Rightarrow> (db, lease_row option) exec" where
  "lease_load supervisor_group =
     andThen (require_identifier ''supervisor_group'' supervisor_group 64)
       (sql_one_or_none ARTIFACT_PROCESSING_LEASES_TABLE (in_group supervisor_group))"

definition start_single_process_term :: "string \<Rightarrow> string \<Rightarrow> (db, lease_row) exec" where
  "start_single_process_term holder_id supervisor_group =
     andThen (require_identifier ''holder_id'' holder_id 36)
    (bind (lease_load supervisor_group) (\<lambda>current.
     let generation = (case current of None \<Rightarrow> 1 | Some c \<Rightarrow> le_supervisor_generation c + 1);
         lease = \<lparr>le_supervisor_group = supervisor_group, le_holder_id = holder_id,
                  le_supervisor_generation = generation, le_lease_expires_at = None\<rparr> in
     andThen
       (case current of
          None \<Rightarrow> sql_insert ARTIFACT_PROCESSING_LEASES_TABLE lease
        | Some _ \<Rightarrow>
            andThen (sql_update ARTIFACT_PROCESSING_LEASES_TABLE (in_group supervisor_group)
                       (\<lambda>r. r\<lparr>le_holder_id := holder_id, le_supervisor_generation := generation,
                              le_lease_expires_at := None\<rparr>)) (return ()))
       (return lease)))"

text \<open>
  \<^verbatim>\<open>try_acquire\<close>. The insertion runs in a savepoint; an \<^verbatim>\<open>IntegrityError\<close> there
  means another supervisor was first, whose lease is then read. \<open>Inl\<close> is the early
  return of the inserted lease.
\<close>

definition insert_first_lease :: "string \<Rightarrow> string \<Rightarrow> int \<Rightarrow> (db, lease_row + lease_row option) exec" where
  "insert_first_lease holder_id supervisor_group lease_seconds =
     bind database_utc_now (\<lambda>now.
     let lease = \<lparr>le_supervisor_group = supervisor_group, le_holder_id = holder_id,
                  le_supervisor_generation = 1, le_lease_expires_at = Some (now + lease_seconds)\<rparr> in
     catch (andThen (transaction (sql_insert ARTIFACT_PROCESSING_LEASES_TABLE lease)) (return (Inl lease)))
       (\<lambda>e. e = IntegrityError)
       (\<lambda>e. bind (lease_load supervisor_group) (\<lambda>current.
          case current of None \<Rightarrow> raise e | Some c \<Rightarrow> return (Inr (Some c)))))"

definition take_over :: "string \<Rightarrow> string \<Rightarrow> int \<Rightarrow> lease_row option \<Rightarrow> (db, lease_row option) exec" where
  "take_over holder_id supervisor_group lease_seconds current =
     bind database_utc_now (\<lambda>now.
     case current of
       None \<Rightarrow> return None
     | Some c \<Rightarrow>
         (case le_lease_expires_at c of
            None \<Rightarrow> return None
          | Some expires \<Rightarrow>
              if expires > now then return None
              else
                let lease = \<lparr>le_supervisor_group = supervisor_group, le_holder_id = holder_id,
                             le_supervisor_generation = le_supervisor_generation c + 1,
                             le_lease_expires_at = Some (now + lease_seconds)\<rparr> in
                bind (sql_update ARTIFACT_PROCESSING_LEASES_TABLE
                        (\<lambda>r. in_group supervisor_group r \<and> (le_holder_id r = le_holder_id c
                           \<and> le_supervisor_generation r = le_supervisor_generation c
                           \<and> le_lease_expires_at r = Some expires))
                        (\<lambda>r. r\<lparr>le_holder_id := holder_id,
                               le_supervisor_generation := le_supervisor_generation c + 1,
                               le_lease_expires_at := Some (now + lease_seconds)\<rparr>)) (\<lambda>rowcount.
                if rowcount \<noteq> 1 then return None else return (Some lease))))"

definition try_acquire :: "string \<Rightarrow> int \<Rightarrow> string \<Rightarrow> (db, lease_row option) exec" where
  "try_acquire holder_id lease_seconds supervisor_group =
     andThen (require_identifier ''holder_id'' holder_id 36)
    (andThen (require_positive ''lease_seconds'' lease_seconds)
    (bind (lease_load supervisor_group) (\<lambda>current.
     bind (case current of
             None \<Rightarrow> insert_first_lease holder_id supervisor_group lease_seconds
           | Some c \<Rightarrow> return (Inr (Some c))) (\<lambda>found.
     case found of
       Inl lease \<Rightarrow> return (Some lease)
     | Inr current' \<Rightarrow> take_over holder_id supervisor_group lease_seconds current'))))"

definition renew :: "processing_fence \<Rightarrow> int \<Rightarrow> (db, lease_row) exec" where
  "renew fence lease_seconds =
     andThen (require (fe_lease_mode fence = OceanBase)
                (InvalidRepositoryArgument ''lease_mode'' ''only OceanBase leases are renewable''))
    (andThen (require_positive ''lease_seconds'' lease_seconds)
    (bind (lease_load (fe_supervisor_group fence)) (\<lambda>current.
     case current of
       None \<Rightarrow> raise (leadership_lost fence)
     | Some c \<Rightarrow>
         if le_holder_id c \<noteq> fe_holder_id fence
            \<or> le_supervisor_generation c \<noteq> fe_supervisor_generation fence
         then raise (leadership_lost fence)
         else (case le_lease_expires_at c of
            None \<Rightarrow> raise (leadership_lost fence)
          | Some expires \<Rightarrow>
              bind database_utc_now (\<lambda>now.
              if expires \<le> now then raise (leadership_lost fence)
              else
                bind (sql_update ARTIFACT_PROCESSING_LEASES_TABLE
                        (\<lambda>r. in_group (fe_supervisor_group fence) r
                           \<and> (le_holder_id r = fe_holder_id fence
                           \<and> le_supervisor_generation r = fe_supervisor_generation fence
                           \<and> le_lease_expires_at r = Some expires))
                        (\<lambda>r. r\<lparr>le_lease_expires_at := Some (now + lease_seconds)\<rparr>)) (\<lambda>rowcount.
                if rowcount \<noteq> 1 then raise (leadership_lost fence)
                else return \<lparr>le_supervisor_group = fe_supervisor_group fence,
                             le_holder_id = fe_holder_id fence,
                             le_supervisor_generation = fe_supervisor_generation fence,
                             le_lease_expires_at = Some (now + lease_seconds)\<rparr>))))))"

definition require_fence :: "processing_fence \<Rightarrow> (db, lease_row) exec" where
  "require_fence fence =
     bind (lease_load (fe_supervisor_group fence)) (\<lambda>current.
     case current of
       None \<Rightarrow> raise (leadership_lost fence)
     | Some c \<Rightarrow>
         if le_holder_id c \<noteq> fe_holder_id fence
            \<or> le_supervisor_generation c \<noteq> fe_supervisor_generation fence
         then raise (leadership_lost fence)
         else if fe_lease_mode fence = SingleProcess
         then (if le_lease_expires_at c \<noteq> None then raise (leadership_lost fence) else return c)
         else
           bind database_utc_now (\<lambda>now.
           case le_lease_expires_at c of
             None \<Rightarrow> raise (leadership_lost fence)
           | Some expires \<Rightarrow> if expires \<le> now then raise (leadership_lost fence) else return c))"

section \<open>The scheduling baseline of a binding\<close>

definition binding_state_load :: "string \<Rightarrow> (db, binding_state_row option) exec" where
  "binding_state_load binding_name =
     andThen (require_identifier ''binding_name'' binding_name MAX_BINDING_NAME_LENGTH)
       (sql_one_or_none ARTIFACT_PROCESSING_BINDING_STATES_TABLE (\<lambda>r. bs_binding_name r = binding_name))"

text \<open>A row of the binding states table with the column defaults of the schema.\<close>

definition new_binding_state :: "string \<Rightarrow> binding_state_row" where
  "new_binding_state binding_name = \<lparr>bs_binding_name = binding_name,
     bs_last_auto_wave_completed_at = None, bs_last_schedule_checkpoint_at = None,
     bs_scan_generation = 0, bs_scan_in_progress = False, bs_scan_upper_pending_sequence = None\<rparr>"

definition start_scan :: "string \<Rightarrow> int option \<Rightarrow> (db, binding_state_row) exec" where
  "start_scan binding_name checkpoint_at =
     bind (binding_state_load binding_name) (\<lambda>current.
     if (case current of None \<Rightarrow> False | Some c \<Rightarrow> bs_scan_in_progress c)
     then cast_some current
     else
       bind (case checkpoint_at of None \<Rightarrow> database_utc_now | Some t \<Rightarrow> return t) (\<lambda>checkpoint.
       bind (max_sequence binding_name) (\<lambda>upper.
       let generation = (case current of None \<Rightarrow> 1 | Some c \<Rightarrow> bs_scan_generation c + 1);
           values = (\<lambda>r. r\<lparr>bs_last_schedule_checkpoint_at := Some checkpoint,
                           bs_scan_generation := generation, bs_scan_in_progress := True,
                           bs_scan_upper_pending_sequence := Some upper\<rparr>) in
       andThen
         (case current of
            None \<Rightarrow> sql_insert ARTIFACT_PROCESSING_BINDING_STATES_TABLE (values (new_binding_state binding_name))
          | Some _ \<Rightarrow> andThen (sql_update ARTIFACT_PROCESSING_BINDING_STATES_TABLE
                       (\<lambda>r. bs_binding_name r = binding_name) values) (return ()))
         (bind (binding_state_load binding_name) cast_some))))"

definition finish_scan :: "string \<Rightarrow> (db, unit) exec" where
  "finish_scan binding_name =
     andThen (require_identifier ''binding_name'' binding_name MAX_BINDING_NAME_LENGTH)
    (andThen (sql_update ARTIFACT_PROCESSING_BINDING_STATES_TABLE (\<lambda>r. bs_binding_name r = binding_name)
                (\<lambda>r. r\<lparr>bs_scan_in_progress := False\<rparr>))
       (return ()))"

text \<open>
  The result is built from the two values the function holds: the other fields take the
  defaults of the model class, whatever the row says.
\<close>

definition mark_auto_wave_completed :: "string \<Rightarrow> (db, binding_state_row) exec" where
  "mark_auto_wave_completed binding_name =
     andThen (require_identifier ''binding_name'' binding_name MAX_BINDING_NAME_LENGTH)
    (bind database_utc_now (\<lambda>completed_at.
     let complete = andThen (sql_update ARTIFACT_PROCESSING_BINDING_STATES_TABLE
                       (\<lambda>r. bs_binding_name r = binding_name)
                       (\<lambda>r. r\<lparr>bs_last_auto_wave_completed_at := Some completed_at\<rparr>)) (return ());
         fresh = (new_binding_state binding_name)\<lparr>bs_last_auto_wave_completed_at := Some completed_at\<rparr> in
     bind (binding_state_load binding_name) (\<lambda>current.
     andThen
       (case current of
          None \<Rightarrow> catch (transaction (sql_insert ARTIFACT_PROCESSING_BINDING_STATES_TABLE fresh))
                    (\<lambda>e. e = IntegrityError) (\<lambda>_. complete)
        | Some _ \<Rightarrow> complete)
       (return fresh))))"


section \<open>What the lease operations do\<close>

abbreviation leases_ok :: "db \<Rightarrow> bool" where
  "leases_ok \<equiv> table_ok ARTIFACT_PROCESSING_LEASES_TABLE"

abbreviation lease_of :: "db \<Rightarrow> string \<Rightarrow> lease_row option" where
  "lease_of \<equiv> lookup_row ARTIFACT_PROCESSING_LEASES_TABLE le_supervisor_group"

abbreviation put_lease :: "lease_row \<Rightarrow> db \<Rightarrow> db" where
  "put_lease \<equiv> store_row ARTIFACT_PROCESSING_LEASES_TABLE le_supervisor_group"

lemma lease_of_tick [simp]: "lease_of (tick s) g = lease_of s g"
  by (simp add: lookup_row_def)

lemma leases_ok_tick [simp]: "leases_ok (tick s) = leases_ok s"
  by (simp add: table_ok_def handle_admits)

lemma lease_generation_pos: "leases_ok s \<Longrightarrow> lease_of s g = Some l \<Longrightarrow> 0 < le_supervisor_generation l"
  using leases_t.lookup_admits by (auto simp: handle_admits)

lemma lease_load_run:
  "leases_ok s \<Longrightarrow> valid_identifier g 64 \<Longrightarrow> lease_load g s = (Inr (lease_of s g), s)"
  by (simp add: lease_load_def andThen_run leases_t.load_run)

lemma lease_load_Inr: "lease_load g s = (Inr x, t) \<Longrightarrow> t = s \<and> valid_identifier g 64"
  by (auto simp: lease_load_def exec_Inr_iffs dest: sql_one_or_none_Inr)

lemma start_single_run:
  assumes "leases_ok s" and "valid_identifier h 36" and "valid_identifier g 64"
  shows "\<exists>l. start_single_process_term h g s = (Inr l, put_lease l s)
    \<and> le_supervisor_group l = g \<and> le_holder_id l = h \<and> le_lease_expires_at l = None
    \<and> le_supervisor_generation l = (case lease_of s g of None \<Rightarrow> 1 | Some c \<Rightarrow> le_supervisor_generation c + 1)"
proof (cases "lease_of s g")
  case None
  with assms show ?thesis
    by (simp add: start_single_process_term_def andThen_run bind_run lease_load_run leases_t.insert_store
        handle_admits Let_def)
next
  case (Some c)
  have "sql_update ARTIFACT_PROCESSING_LEASES_TABLE (in_group g)
      (\<lambda>r. r\<lparr>le_holder_id := h, le_supervisor_generation := le_supervisor_generation c + 1,
             le_lease_expires_at := None\<rparr>) s =
      (Inr 1, put_lease \<lparr>le_supervisor_group = g, le_holder_id = h,
         le_supervisor_generation = le_supervisor_generation c + 1, le_lease_expires_at = None\<rparr> s)"
    using Some leases_t.lookup_key [OF Some] lease_generation_pos [OF assms(1) Some]
    by (cases c, subst leases_t.update_store [OF assms(1), where k = g]) (auto simp: handle_admits)
  with Some assms show ?thesis
    by (simp add: start_single_process_term_def andThen_run bind_run lease_load_run Let_def)
qed

lemma try_acquire_free:
  assumes "leases_ok s" and "valid_identifier h 36" and "valid_identifier g 64" and "0 < d"
    and "case lease_of s g of None \<Rightarrow> True | Some c \<Rightarrow> (\<exists>e. le_lease_expires_at c = Some e \<and> e \<le> db_now s)"
  shows "\<exists>l. try_acquire h d g s = (Inr (Some l), put_lease l (tick s))
    \<and> le_supervisor_group l = g \<and> le_holder_id l = h \<and> le_lease_expires_at l = Some (db_now s + d)
    \<and> le_supervisor_generation l = (case lease_of s g of None \<Rightarrow> 1 | Some c \<Rightarrow> le_supervisor_generation c + 1)"
proof (cases "lease_of s g")
  case None
  with assms(1-4) show ?thesis
    by (simp add: try_acquire_def insert_first_lease_def require_positive_def andThen_run bind_run
        catch_run transaction_run lease_load_run leases_t.insert_store handle_admits Let_def)
next
  case (Some c)
  with assms(5) obtain e where e: "le_lease_expires_at c = Some e" "e \<le> db_now s" by auto
  have "sql_update ARTIFACT_PROCESSING_LEASES_TABLE
      (\<lambda>r. in_group g r \<and> (le_holder_id r = le_holder_id c
         \<and> le_supervisor_generation r = le_supervisor_generation c \<and> le_lease_expires_at r = Some e))
      (\<lambda>r. r\<lparr>le_holder_id := h, le_supervisor_generation := le_supervisor_generation c + 1,
             le_lease_expires_at := Some (db_now s + d)\<rparr>) (tick s) =
      (Inr 1, put_lease \<lparr>le_supervisor_group = g, le_holder_id = h,
        le_supervisor_generation = le_supervisor_generation c + 1,
        le_lease_expires_at = Some (db_now s + d)\<rparr> (tick s))"
    using assms(1) Some e(1) leases_t.lookup_key [OF Some] lease_generation_pos [OF assms(1) Some]
    by (cases c, subst leases_t.update_store [where k = g]) (auto simp: handle_admits)
  with Some assms(1-4) e show ?thesis
    by (simp add: try_acquire_def take_over_def require_positive_def andThen_run bind_run lease_load_run Let_def)
qed

lemma try_acquire_held:
  assumes "leases_ok s" and "valid_identifier h 36" and "valid_identifier g 64" and "0 < d"
    and "lease_of s g = Some c" and "case le_lease_expires_at c of None \<Rightarrow> True | Some e \<Rightarrow> db_now s < e"
  shows "try_acquire h d g s = (Inr None, tick s)"
  using assms
  by (auto simp: try_acquire_def take_over_def require_positive_def andThen_run bind_run lease_load_run
      split: option.splits)

text \<open>The stored term of a fence: the same holder at the same generation.\<close>

definition holds_term :: "processing_fence \<Rightarrow> lease_row \<Rightarrow> bool" where
  "holds_term f c \<longleftrightarrow> le_supervisor_group c = fe_supervisor_group f \<and> le_holder_id c = fe_holder_id f
     \<and> le_supervisor_generation c = fe_supervisor_generation f"

lemma renew_live:
  assumes "leases_ok s" and "fe_lease_mode f = OceanBase" and "0 < d"
    and "valid_identifier (fe_supervisor_group f) 64" and "lease_of s (fe_supervisor_group f) = Some c"
    and "holds_term f c" and "le_lease_expires_at c = Some e" and "db_now s < e"
  shows "renew f d s = (Inr (c\<lparr>le_lease_expires_at := Some (db_now s + d)\<rparr>),
    put_lease (c\<lparr>le_lease_expires_at := Some (db_now s + d)\<rparr>) (tick s))"
proof -
  have "sql_update ARTIFACT_PROCESSING_LEASES_TABLE
      (\<lambda>r. in_group (fe_supervisor_group f) r \<and> (le_holder_id r = fe_holder_id f
         \<and> le_supervisor_generation r = fe_supervisor_generation f \<and> le_lease_expires_at r = Some e))
      (\<lambda>r. r\<lparr>le_lease_expires_at := Some (db_now s + d)\<rparr>) (tick s) =
      (Inr 1, put_lease (c\<lparr>le_lease_expires_at := Some (db_now s + d)\<rparr>) (tick s))"
    using assms lease_generation_pos [OF assms(1,5)]
    by (subst leases_t.update_store [where k = "fe_supervisor_group f"])
       (auto simp: handle_admits holds_term_def)
  with assms show ?thesis
    by (cases c) (simp add: renew_def require_positive_def andThen_run bind_run lease_load_run holds_term_def)
qed

lemma renew_lost:
  assumes "leases_ok s" and "fe_lease_mode f = OceanBase" and "0 < d"
    and "valid_identifier (fe_supervisor_group f) 64"
    and "\<not> (\<exists>c e. lease_of s (fe_supervisor_group f) = Some c \<and> holds_term f c
            \<and> le_lease_expires_at c = Some e \<and> db_now s < e)"
  shows "fst (renew f d s) = Inl (leadership_lost f)" and "snd (renew f d s) \<in> {s, tick s}"
  using assms leases_t.lookup_key [of s "fe_supervisor_group f"]
  by (auto simp: renew_def require_positive_def andThen_run bind_run lease_load_run holds_term_def
      split: option.splits)

lemma require_fence_run:
  assumes "leases_ok s" and "valid_identifier (fe_supervisor_group f) 64"
  shows "fst (require_fence f s) = (case lease_of s (fe_supervisor_group f) of
      None \<Rightarrow> Inl (leadership_lost f)
    | Some c \<Rightarrow> if holds_term f c \<and> (if fe_lease_mode f = SingleProcess then le_lease_expires_at c = None
          else (\<exists>e. le_lease_expires_at c = Some e \<and> db_now s < e))
        then Inr c else Inl (leadership_lost f))"
    and "snd (require_fence f s) \<in> {s, tick s}"
  using assms leases_t.lookup_key [of s "fe_supervisor_group f"]
  by (auto simp: require_fence_def bind_run lease_load_run holds_term_def split: option.splits)


section \<open>Leadership terms as a versioned register\<close>

text \<open>Any call on the lease repository by any supervisor, with whatever outcome.\<close>

inductive lease_step :: "db \<Rightarrow> db \<Rightarrow> bool" where
  step_start_term: "lease_step s (snd (start_single_process_term h g s))"
| step_try_acquire: "lease_step s (snd (try_acquire h d g s))"
| step_renew: "lease_step s (snd (renew f d s))"
| step_require_fence: "lease_step s (snd (require_fence f s))"

inductive_cases lease_stepE: "lease_step s t"

text \<open>
  The effect of a call: at most the clock is read, or one lease is written, by a new term
  or by its own holder.
\<close>

definition lease_effect :: "db \<Rightarrow> db \<Rightarrow> bool" where
  "lease_effect s t \<longleftrightarrow> t \<in> {s, tick s} \<or> (\<exists>l. t \<in> {put_lease l s, put_lease l (tick s)}
     \<and> 0 < le_supervisor_generation l
     \<and> (\<forall>c. lease_of s (le_supervisor_group l) = Some c \<longrightarrow>
          le_supervisor_generation c < le_supervisor_generation l
          \<or> le_supervisor_generation c = le_supervisor_generation l \<and> le_holder_id c = le_holder_id l))"

lemma lease_effect_same [simp]: "lease_effect s s" "lease_effect s (tick s)"
  by (simp_all add: lease_effect_def)

lemma lease_effect_write:
  assumes "t = put_lease l s \<or> t = put_lease l (tick s)"
    and "case lease_of s (le_supervisor_group l) of None \<Rightarrow> 0 < le_supervisor_generation l
      | Some c \<Rightarrow> 0 < le_supervisor_generation c \<and> (le_supervisor_generation c < le_supervisor_generation l
          \<or> le_supervisor_generation c = le_supervisor_generation l \<and> le_holder_id c = le_holder_id l)"
  shows "lease_effect s t"
  unfolding lease_effect_def
  by (rule disjI2, rule exI [of _ l]) (use assms in \<open>auto split: option.splits\<close>)

lemma lease_load_invalid: "\<not> valid_identifier g 64 \<Longrightarrow> \<exists>e. lease_load g s = (Inl e, s)"
  by (auto simp: lease_load_def require_identifier_run andThen_run)

lemma effect_start_term: "leases_ok s \<Longrightarrow> lease_effect s (snd (start_single_process_term h g s))"
proof (cases "valid_identifier h 36 \<and> valid_identifier g 64")
  case True
  assume "leases_ok s"
  with True obtain l where "start_single_process_term h g s = (Inr l, put_lease l s)"
    "le_supervisor_group l = g"
    "le_supervisor_generation l = (case lease_of s g of None \<Rightarrow> 1 | Some c \<Rightarrow> le_supervisor_generation c + 1)"
    using start_single_run [of s h g] by blast
  then show ?thesis
    using lease_generation_pos [OF \<open>leases_ok s\<close>, of g]
    by (intro lease_effect_write [of _ l]) (auto split: option.splits)
next
  case False
  then show ?thesis
    using lease_load_invalid [of g s]
    by (auto simp: start_single_process_term_def andThen_run bind_run require_identifier_run)
qed

lemma effect_try_acquire: "leases_ok s \<Longrightarrow> lease_effect s (snd (try_acquire h d g s))"
proof (cases "valid_identifier h 36 \<and> valid_identifier g 64 \<and> 0 < d")
  case True
  assume ok: "leases_ok s"
  show ?thesis
  proof (cases "case lease_of s g of None \<Rightarrow> True
      | Some c \<Rightarrow> (\<exists>e. le_lease_expires_at c = Some e \<and> e \<le> db_now s)")
    case free: True
    with True ok obtain l where "try_acquire h d g s = (Inr (Some l), put_lease l (tick s))"
      "le_supervisor_group l = g"
      "le_supervisor_generation l = (case lease_of s g of None \<Rightarrow> 1 | Some c \<Rightarrow> le_supervisor_generation c + 1)"
      using try_acquire_free [of s h g d] by blast
    then show ?thesis
      using lease_generation_pos [OF ok, of g]
      by (intro lease_effect_write [of _ l]) (auto split: option.splits)
  next
    case False
    then obtain c where "lease_of s g = Some c"
      "case le_lease_expires_at c of None \<Rightarrow> True | Some e \<Rightarrow> db_now s < e"
      by (fastforce split: option.splits)
    with True ok show ?thesis by (simp add: try_acquire_held)
  qed
next
  case False
  then show ?thesis
    using lease_load_invalid [of g s]
    by (auto simp: try_acquire_def require_positive_def andThen_run bind_run require_identifier_run)
qed

lemma effect_renew: "leases_ok s \<Longrightarrow> lease_effect s (snd (renew f d s))"
proof (cases "fe_lease_mode f = OceanBase \<and> 0 < d \<and> valid_identifier (fe_supervisor_group f) 64")
  case True
  assume ok: "leases_ok s"
  show ?thesis
  proof (cases "\<exists>c e. lease_of s (fe_supervisor_group f) = Some c \<and> holds_term f c
            \<and> le_lease_expires_at c = Some e \<and> db_now s < e")
    case live: True
    then obtain c e where c: "lease_of s (fe_supervisor_group f) = Some c" "holds_term f c"
      "le_lease_expires_at c = Some e" "db_now s < e" by blast
    with renew_live [OF ok _ _ _ c] True lease_generation_pos [OF ok c(1)] leases_t.lookup_key [OF c(1)]
    show ?thesis
      by (intro lease_effect_write [of _ "c\<lparr>le_lease_expires_at := Some (db_now s + d)\<rparr>"]) auto
  next
    case False
    with True renew_lost(2) [OF ok, of f d] show ?thesis by auto
  qed
next
  case False
  then show ?thesis
    using lease_load_invalid [of "fe_supervisor_group f" s]
    by (auto simp: renew_def require_positive_def andThen_run bind_run)
qed

lemma effect_require_fence: "leases_ok s \<Longrightarrow> lease_effect s (snd (require_fence f s))"
  using require_fence_run(2) [of s f] lease_load_invalid [of "fe_supervisor_group f" s]
  by (cases "valid_identifier (fe_supervisor_group f) 64")
     (auto simp: require_fence_def bind_run)

lemma lease_step_effect: "lease_step s t \<Longrightarrow> leases_ok s \<Longrightarrow> lease_effect s t"
  by (erule lease_stepE) (simp_all add: effect_start_term effect_try_acquire effect_renew effect_require_fence)

lemma lease_effect_ok:
  assumes "leases_ok s" and "lease_effect s t"
  shows "leases_ok t"
proof -
  have "leases_ok (put_lease l u)" if "leases_ok u" "0 < le_supervisor_generation l" for l u
    using that by (intro leases_t.table_ok_store) (simp_all add: handle_admits)
  from this [of s] this [of "tick s"] assms show ?thesis
    by (auto simp: lease_effect_def)
qed

abbreviation term_of :: "string \<Rightarrow> db \<Rightarrow> (int \<times> string) option" where
  "term_of g s \<equiv> map_option (\<lambda>l. (le_supervisor_generation l, le_holder_id l)) (lease_of s g)"

interpretation terms: versioned_register leases_ok lease_step "term_of g" for g
proof
  fix s t :: db
  assume "leases_ok s" and "lease_step s t"
  then show "leases_ok t" by (blast intro: lease_effect_ok lease_step_effect)
next
  fix s t :: db and v h
  assume ok: "leases_ok s" and "lease_step s t" and tm: "term_of g s = Some (v, h)"
  then have "lease_effect s t" by (blast intro: lease_step_effect)
  moreover from tm obtain c where "lease_of s g = Some c" "le_supervisor_generation c = v" "le_holder_id c = h"
    by auto
  ultimately show "term_of g t = Some (v, h) \<or> (\<exists>v' h'. term_of g t = Some (v', h') \<and> v < v')"
    by (auto simp: lease_effect_def leases_t.lookup_store)
qed

lemma require_fence_term:
  assumes "require_fence f s = (Inr l, t)" and "leases_ok s"
  shows "term_of (fe_supervisor_group f) s = Some (fe_supervisor_generation f, fe_holder_id f)"
proof -
  from assms(1) have "valid_identifier (fe_supervisor_group f) 64"
    by (auto simp: require_fence_def exec_Inr_iffs dest!: lease_load_Inr)
  with require_fence_run(1) [OF assms(2), of f] assms(1) show ?thesis
    by (auto simp: holds_term_def split: option.splits if_splits)
qed

section \<open>Properties of leadership\<close>

text \<open>
  C3: fencing. Once a group has a term of a higher generation than a fence, that fence is
  refused with a lost leadership in every later state, whatever supervisors do with the
  lease and whatever the database clock shows.
\<close>

theorem stale_fence_refused_forever:
  assumes "leases_ok s" and "lease_of s (fe_supervisor_group f) = Some c"
    and "fe_supervisor_generation f < le_supervisor_generation c" and "lease_step\<^sup>*\<^sup>* s t"
    and "valid_identifier (fe_supervisor_group f) 64"
  shows "fst (require_fence f t) = Inl (leadership_lost f)"
proof (cases "fst (require_fence f t)")
  case (Inr l)
  then obtain u where "require_fence f t = (Inr l, u)" by (metis prod.collapse)
  with require_fence_term terms.run_ok [OF assms(4,1)]
  have "term_of (fe_supervisor_group f) t = Some (fe_supervisor_generation f, fe_holder_id f)" by blast
  with terms.stale_forever [OF assms(4,1), of "fe_supervisor_group f" _ _ _ "fe_holder_id f"] assms(2,3)
  show ?thesis by auto
next
  case (Inl e)
  with require_fence_run(1) [OF terms.run_ok [OF assms(4,1)] assms(5)] show ?thesis
    by (auto split: option.splits if_splits)
qed

text \<open>
  C23: one leader per term. Two fences of the same group and generation that are accepted in
  two states of a run name the same holder.
\<close>

theorem one_leader_per_term:
  assumes "leases_ok s" and "require_fence f s = (Inr l, s')" and "lease_step\<^sup>*\<^sup>* s t"
    and "require_fence f' t = (Inr l', t')" and "fe_supervisor_group f' = fe_supervisor_group f"
    and "fe_supervisor_generation f' = fe_supervisor_generation f"
  shows "fe_holder_id f' = fe_holder_id f"
  using terms.same_version_same_content [OF assms(3,1), of "fe_supervisor_group f"]
    require_fence_term [OF assms(2,1)] require_fence_term [OF assms(4) terms.run_ok [OF assms(3,1)]] assms(5,6)
  by auto

text \<open>
  Acquiring a lease. An attempt with valid arguments never raises; it succeeds exactly when
  the group has no lease or an expired one. Then the fence of the new term is accepted in
  the state it leaves as long as the clock has not reached the new expiry, and the leases
  of other groups are unchanged; a failed attempt changes no lease.
\<close>

theorem try_acquire_only_when_free:
  assumes "leases_ok s" and "valid_identifier h 36" and "valid_identifier g 64" and "0 < d"
  shows "case try_acquire h d g s of
      (Inl e, t) \<Rightarrow> False
    | (Inr None, t) \<Rightarrow> (\<exists>c. lease_of s g = Some c \<and>
          (case le_lease_expires_at c of None \<Rightarrow> True | Some e \<Rightarrow> db_now s < e))
        \<and> (\<forall>g'. lease_of t g' = lease_of s g')
    | (Inr (Some l), t) \<Rightarrow> (\<forall>c. lease_of s g = Some c \<longrightarrow>
          (\<exists>e. le_lease_expires_at c = Some e \<and> e \<le> db_now s)
          \<and> le_supervisor_generation l = le_supervisor_generation c + 1)
        \<and> le_holder_id l = h \<and> lease_of t g = Some l
        \<and> (db_now t < db_now s + d \<longrightarrow> fst (require_fence (lease_fence l OceanBase) t) = Inr l)
        \<and> (\<forall>g'. g' \<noteq> g \<longrightarrow> lease_of t g' = lease_of s g')"
proof (cases "case lease_of s g of None \<Rightarrow> True
    | Some c \<Rightarrow> (\<exists>e. le_lease_expires_at c = Some e \<and> e \<le> db_now s)")
  case True
  then obtain l where l: "try_acquire h d g s = (Inr (Some l), put_lease l (tick s))"
    "le_supervisor_group l = g" "le_holder_id l = h" "le_lease_expires_at l = Some (db_now s + d)"
    "le_supervisor_generation l = (case lease_of s g of None \<Rightarrow> 1 | Some c \<Rightarrow> le_supervisor_generation c + 1)"
    using try_acquire_free [OF assms] by blast
  have "leases_ok (put_lease l (tick s))"
    using l(1) effect_try_acquire [OF assms(1), of h d g] lease_effect_ok [OF assms(1)] by simp
  then have "db_now (put_lease l (tick s)) < db_now s + d \<Longrightarrow>
      fst (require_fence (lease_fence l OceanBase) (put_lease l (tick s))) = Inr l"
    using l assms(3) require_fence_run(1) [of "put_lease l (tick s)" "lease_fence l OceanBase"]
    by (simp add: lease_fence_def holds_term_def leases_t.lookup_store)
  with l True show ?thesis
    by (simp add: leases_t.lookup_store split: option.splits)
next
  case False
  then obtain c where c: "lease_of s g = Some c"
    "case le_lease_expires_at c of None \<Rightarrow> True | Some e \<Rightarrow> db_now s < e"
    by (fastforce split: option.splits)
  with try_acquire_held [OF assms c] show ?thesis by simp
qed


section \<open>Scans\<close>

lemma scan_of_lookup: "scan_of s b = lookup_row ARTIFACT_PROCESSING_BINDING_STATES_TABLE bs_binding_name s b"
  by (simp add: scan_of_def lookup_row_def)

lemma binding_state_load_run:
  "binding_states_ok s \<Longrightarrow> valid_identifier b MAX_BINDING_NAME_LENGTH \<Longrightarrow>
     binding_state_load b s = (Inr (scan_of s b), s)"
  by (simp add: binding_state_load_def andThen_run scan_of_load)

definition upper_sequence :: "db \<Rightarrow> string \<Rightarrow> int" where
  "upper_sequence s b = (case map in_pending_sequence (filter (\<lambda>r. in_binding_name r = b) (intents s)) of
     [] \<Rightarrow> 0 | x # xs \<Rightarrow> fold max xs x)"

lemma max_sequence_run:
  "valid_identifier b MAX_BINDING_NAME_LENGTH \<Longrightarrow> max_sequence b s = (Inr (upper_sequence s b), s)"
  by (simp add: max_sequence_def require_intent_identifier_def andThen_run bind_run upper_sequence_def)

lemma fold_max_ge: "x \<in> set (y # ys) \<Longrightarrow> (x::int) \<le> fold max ys y"
  by (simp add: Max.set_eq_fold [symmetric])

lemma fold_max_le: "\<forall>x \<in> set (y # ys). x \<le> u \<Longrightarrow> fold max ys y \<le> (u::int)"
  by (simp add: Max.set_eq_fold [symmetric])

lemma upper_sequence_covers: "intent_of s i b = Some r \<Longrightarrow> in_pending_sequence r \<le> upper_sequence s b"
proof -
  assume "intent_of s i b = Some r"
  then have "in_pending_sequence r \<in> set (map in_pending_sequence (filter (\<lambda>r. in_binding_name r = b) (intents s)))"
    using intent_of_key by fastforce
  then show ?thesis
    unfolding upper_sequence_def
    by (cases "map in_pending_sequence (filter (\<lambda>r. in_binding_name r = b) (intents s))")
       (auto intro: fold_max_ge)
qed

lemma upper_sequence_le: "intents_inv s \<Longrightarrow> upper_sequence s b \<le> seq_of s"
proof -
  assume inv: "intents_inv s"
  then have "\<forall>x \<in> set (map in_pending_sequence (filter (\<lambda>r. in_binding_name r = b) (intents s))). x \<le> seq_of s"
    by (auto simp: intents_inv_def simp del: intents_invD)
  with seq_of_nonneg [OF inv] show ?thesis
    unfolding upper_sequence_def
    by (cases "map in_pending_sequence (filter (\<lambda>r. in_binding_name r = b) (intents s))")
       (simp, metis fold_max_le list.simps(5))
qed

definition started_scan :: "db \<Rightarrow> string \<Rightarrow> int \<Rightarrow> binding_state_row" where
  "started_scan s b checkpoint =
     (case scan_of s b of None \<Rightarrow> new_binding_state b | Some c \<Rightarrow> c)
       \<lparr>bs_last_schedule_checkpoint_at := Some checkpoint,
        bs_scan_generation := (case scan_of s b of None \<Rightarrow> 1 | Some c \<Rightarrow> bs_scan_generation c + 1),
        bs_scan_in_progress := True, bs_scan_upper_pending_sequence := Some (upper_sequence s b)\<rparr>"

abbreviation put_scan :: "binding_state_row \<Rightarrow> db \<Rightarrow> db" where
  "put_scan \<equiv> store_row ARTIFACT_PROCESSING_BINDING_STATES_TABLE bs_binding_name"

lemma put_scan_frame [simp]:
  "intents (put_scan r s) = intents s" "sequences (put_scan r s) = sequences s" "dialect (put_scan r s) = dialect s"
  by (simp_all add: store_row_def)

lemma scan_of_put: "scan_of (put_scan r s) b = (if b = bs_binding_name r then Some r else scan_of s b)"
  by (simp add: scan_of_lookup binding_states_t.lookup_store)

lemma scan_of_tick [simp]: "scan_of (tick s) b = scan_of s b" "binding_states_ok (tick s) = binding_states_ok s"
  "upper_sequence (tick s) b = upper_sequence s b"
  by (simp_all add: scan_of_def table_ok_def handle_admits upper_sequence_def)

lemma binding_state_name: "scan_of s b = Some c \<Longrightarrow> bs_binding_name c = b"
  by (auto simp: scan_of_def dest: find_SomeD)

lemma scan_generation_nonneg: "binding_states_ok s \<Longrightarrow> scan_of s b = Some c \<Longrightarrow> 0 \<le> bs_scan_generation c"
  using binding_states_t.lookup_admits [of s b c] by (simp add: scan_of_lookup handle_admits)

lemma put_scan_ok:
  "binding_states_ok s \<Longrightarrow> 0 \<le> bs_scan_generation r \<Longrightarrow> binding_states_ok (put_scan r s)"
  by (intro binding_states_t.table_ok_store) (simp_all add: handle_admits)

text \<open>Writing the values of a scan, to a fresh row or over the stored one.\<close>

lemma write_scan_run:
  assumes "binding_states_ok s" and "bs_binding_name (f (new_binding_state b)) = b"
    and "\<And>r. bs_binding_name (f r) = bs_binding_name r"
    and "0 \<le> bs_scan_generation (f (case scan_of s b of None \<Rightarrow> new_binding_state b | Some c \<Rightarrow> c))"
  shows "(case scan_of s b of
      None \<Rightarrow> sql_insert ARTIFACT_PROCESSING_BINDING_STATES_TABLE (f (new_binding_state b))
    | Some _ \<Rightarrow> andThen (sql_update ARTIFACT_PROCESSING_BINDING_STATES_TABLE
                  (\<lambda>r. bs_binding_name r = b) f) (return ())) s =
    (Inr (), put_scan (f (case scan_of s b of None \<Rightarrow> new_binding_state b | Some c \<Rightarrow> c)) s)"
proof (cases "scan_of s b")
  case None
  with assms show ?thesis
    by (simp add: binding_states_t.insert_store scan_of_lookup handle_admits)
next
  case (Some c)
  have "sql_update ARTIFACT_PROCESSING_BINDING_STATES_TABLE (\<lambda>r. bs_binding_name r = b) f s =
      (Inr 1, put_scan (f c) s)"
    using Some assms binding_state_name [OF Some]
    by (subst binding_states_t.update_store [OF assms(1), where k = b])
       (auto simp: scan_of_lookup handle_admits)
  with Some show ?thesis by (simp add: andThen_run)
qed

lemma start_scan_fresh:
  assumes "binding_states_ok s" and "valid_identifier b MAX_BINDING_NAME_LENGTH"
    and "\<forall>c. scan_of s b = Some c \<longrightarrow> \<not> bs_scan_in_progress c"
  shows "\<exists>checkpoint u. u \<in> {s, tick s} \<and> start_scan b at s =
    (Inr (started_scan s b checkpoint), put_scan (started_scan s b checkpoint) u)
    \<and> (case at of None \<Rightarrow> checkpoint = db_now s | Some x \<Rightarrow> checkpoint = x)"
proof -
  obtain checkpoint u where cu: "(case at of None \<Rightarrow> database_utc_now | Some t \<Rightarrow> return t) s = (Inr checkpoint, u)"
    "u \<in> {s, tick s}" "case at of None \<Rightarrow> checkpoint = db_now s | Some x \<Rightarrow> checkpoint = x"
    by (cases at) simp_all
  let ?f = "\<lambda>r. r\<lparr>bs_last_schedule_checkpoint_at := Some checkpoint,
     bs_scan_generation := (case scan_of s b of None \<Rightarrow> 1 | Some c \<Rightarrow> bs_scan_generation c + 1),
     bs_scan_in_progress := True, bs_scan_upper_pending_sequence := Some (upper_sequence s b)\<rparr>"
  have u: "scan_of u b = scan_of s b" "binding_states_ok u" "upper_sequence u b = upper_sequence s b"
    using cu(2) assms(1) by auto
  have f: "?f (case scan_of s b of None \<Rightarrow> new_binding_state b | Some c \<Rightarrow> c) = started_scan s b checkpoint"
    by (simp add: started_scan_def)
  have gen: "0 \<le> bs_scan_generation (started_scan s b checkpoint)"
    using scan_generation_nonneg [OF assms(1), of b] by (auto simp: started_scan_def split: option.split)
  have name: "bs_binding_name (started_scan s b checkpoint) = b"
    using binding_state_name [of s b] by (auto simp: started_scan_def new_binding_state_def split: option.split)
  have w: "(case scan_of s b of
      None \<Rightarrow> sql_insert ARTIFACT_PROCESSING_BINDING_STATES_TABLE (?f (new_binding_state b))
    | Some _ \<Rightarrow> andThen (sql_update ARTIFACT_PROCESSING_BINDING_STATES_TABLE
                  (\<lambda>r. bs_binding_name r = b) ?f) (return ())) u =
      (Inr (), put_scan (started_scan s b checkpoint) u)"
    using write_scan_run [OF u(2), of ?f b] gen unfolding u f by (simp add: new_binding_state_def)
  have "binding_state_load b (put_scan (started_scan s b checkpoint) u) =
      (Inr (Some (started_scan s b checkpoint)), put_scan (started_scan s b checkpoint) u)"
    using binding_state_load_run [OF put_scan_ok [OF u(2) gen] assms(2)] by (simp add: scan_of_put name)
  moreover have "(case scan_of s b of None \<Rightarrow> False | Some c \<Rightarrow> bs_scan_in_progress c) = False"
    using assms(3) by (simp split: option.split)
  moreover have "max_sequence b u = (Inr (upper_sequence s b), u)"
    using max_sequence_run [OF assms(2), of u] u(3) by simp
  ultimately have "start_scan b at s =
      (Inr (started_scan s b checkpoint), put_scan (started_scan s b checkpoint) u)"
    unfolding start_scan_def
    by (simp add: bind_run binding_state_load_run assms(1,2) andThen_run Let_def cu(1) w)
  with cu(2,3) show ?thesis by blast
qed

lemma start_scan_running:
  assumes "binding_states_ok s" and "valid_identifier b MAX_BINDING_NAME_LENGTH"
    and "scan_of s b = Some c" and "bs_scan_in_progress c"
  shows "start_scan b at s = (Inr c, s)"
  using assms by (simp add: start_scan_def bind_run binding_state_load_run)

lemma write_scan_frame:
  "u \<in> {s, tick s} \<Longrightarrow> intent_of (put_scan r u) = intent_of s"
  "u \<in> {s, tick s} \<Longrightarrow> seq_of (put_scan r u) = seq_of s"
  by (auto simp: fun_eq_iff intent_of_def seq_of_def)

lemma intents_env_put_scan:
  assumes "intents_env s" and "u \<in> {s, tick s}" and "0 \<le> bs_scan_generation r"
  shows "intents_env (put_scan r u)"
proof -
  have "binding_states_ok u" "intents_ok u" "table_ok ARTIFACT_PROCESSING_SEQUENCES_TABLE u"
    using assms(1,2) by (auto simp: intents_env_def intents_inv_def table_ok_def handle_admits simp del: intents_invD)
  moreover have "intents_ok (put_scan r u) = intents_ok u"
    "table_ok ARTIFACT_PROCESSING_SEQUENCES_TABLE (put_scan r u) = table_ok ARTIFACT_PROCESSING_SEQUENCES_TABLE u"
    by (simp_all add: table_ok_def handle_admits)
  ultimately show ?thesis
    using assms put_scan_ok [of u r] write_scan_frame(2) [OF assms(2), of r]
    by (auto simp: intents_env_def intents_inv_def supported_dialect_def simp del: intents_invD)
qed


text \<open>
  C29: an automatic scan is frozen when it starts. After it started, and after any number of
  further intent operations, \<open>admit\<close> accepts exactly the scopes of the binding whose intents
  were registered when the scan started: for such a scope it returns the stored intent, marked
  with the scan, and for every other scope, registered since or not at all, it raises and
  changes nothing. Starting the scan again while it runs changes nothing and gives the same scan.
\<close>

theorem scan_admits_exactly_the_registered:
  assumes "intents_env s" and "valid_identifier b MAX_BINDING_NAME_LENGTH"
    and "\<forall>c. scan_of s b = Some c \<longrightarrow> \<not> bs_scan_in_progress c" and "start_scan b at s = (Inr st, t)"
    and "intent_step\<^sup>*\<^sup>* t u" and "valid_identifier i MAX_SCOPE_ID_LENGTH"
  shows "bs_scan_generation st = (case scan_of s b of None \<Rightarrow> 1 | Some c \<Rightarrow> bs_scan_generation c + 1)
    \<and> start_scan b at' u = (Inr st, u)
    \<and> (if intent_of s i b \<noteq> None
       then \<exists>r v. admit i b (bs_scan_generation st) u = (Inr r, v) \<and> intent_of v i b = Some r
          \<and> bs_scan_generation st \<le> in_last_auto_scan_generation r
       else \<exists>f d. admit i b (bs_scan_generation st) u = (Inl (InvalidRepositoryArgument f d), u))"
proof -
  have ok: "binding_states_ok s" and inv: "intents_inv s" using assms(1) by (simp_all add: intents_env_def)
  obtain checkpoint v where v: "v \<in> {s, tick s}" and "start_scan b at s =
      (Inr (started_scan s b checkpoint), put_scan (started_scan s b checkpoint) v)"
    using start_scan_fresh [OF ok assms(2,3), of at] by blast
  with assms(4) have st: "st = started_scan s b checkpoint" and t: "t = put_scan st v" by auto
  have name: "bs_binding_name st = b" and gen: "0 \<le> bs_scan_generation st"
    using binding_state_name [of s b] scan_generation_nonneg [OF ok, of b]
    by (auto simp: st started_scan_def new_binding_state_def split: option.split)
  have env_t: "intents_env t" unfolding t by (rule intents_env_put_scan [OF assms(1) v gen])
  have frame: "intent_of t = intent_of s" "seq_of t = seq_of s"
    using write_scan_frame [OF v, of st] t by simp_all
  have env_u: "intents_env u" and adv: "intents_advance t u"
    using intent_run_env [OF assms(5) env_t] by simp_all
  have "scan_of u b = scan_of t b" using adv by (simp add: intents_advance_def scan_of_def)
  then have scan_u: "scan_of u b = Some st" by (simp add: t scan_of_put name)
  have running: "bs_scan_in_progress st" and upper: "bs_scan_upper_pending_sequence st = Some (upper_sequence s b)"
    by (simp_all add: st started_scan_def)
  have start: "start_scan b at' u = (Inr st, u)"
    using start_scan_running [OF _ assms(2) scan_u running] env_u by (simp add: intents_env_def)
  have inside: "admissible (bs_scan_generation st) st r \<longleftrightarrow> intent_of s i b \<noteq> None"
    if r: "intent_of u i b = Some r" for r
  proof (cases "intent_of s i b")
    case None
    then have "seq_of s < in_pending_sequence r"
      using adv r frame by (metis intents_advance_def)
    with None upper_sequence_le [OF inv, of b] upper show ?thesis by (simp add: admissible_def)
  next
    case (Some x)
    with intents_advanceD [OF adv, of i b x] frame r have "row_advances x r" by simp
    with Some upper_sequence_covers [OF Some] running upper show ?thesis by (simp add: row_advances_def admissible_def)
  qed
  have key: "valid_key i b" using assms(2,6) by (simp add: valid_key_def)
  have "if intent_of s i b \<noteq> None
       then \<exists>r v. admit i b (bs_scan_generation st) u = (Inr r, v) \<and> intent_of v i b = Some r
          \<and> bs_scan_generation st \<le> in_last_auto_scan_generation r
       else \<exists>f d. admit i b (bs_scan_generation st) u = (Inl (InvalidRepositoryArgument f d), u)"
  proof (cases "intent_of s i b")
    case None
    with inside scan_u have "\<not> (\<exists>st' cur. scan_of u b = Some st' \<and> intent_of u i b = Some cur
        \<and> admissible (bs_scan_generation st) st' cur)" by auto
    with admit_refused [of u, OF _ _ key gen] env_u None show ?thesis by (simp add: intents_env_def)
  next
    case (Some x)
    then obtain r where r: "intent_of u i b = Some r" using intents_advanceD [OF adv, of i b x] frame by auto
    with admit_member [OF env_u key gen scan_u r] inside [OF r] Some show ?thesis by simp
  qed
  with start show ?thesis by (simp add: st started_scan_def)
qed

text \<open>
  C30: Recording the completion of an automatic wave stores the database time as the baseline
  and keeps the running scan of the stored row; the record it returns carries the baseline
  with the default scan fields instead of the stored ones.
\<close>

theorem mark_auto_wave_completed_baseline:
  assumes "binding_states_ok s" and "valid_identifier b MAX_BINDING_NAME_LENGTH"
  shows "\<exists>t. mark_auto_wave_completed b s =
      (Inr ((new_binding_state b)\<lparr>bs_last_auto_wave_completed_at := Some (db_now s)\<rparr>), t)
    \<and> scan_of t b = Some ((case scan_of s b of None \<Rightarrow> new_binding_state b | Some c \<Rightarrow> c)
        \<lparr>bs_last_auto_wave_completed_at := Some (db_now s)\<rparr>)
    \<and> (\<forall>b'. b' \<noteq> b \<longrightarrow> scan_of t b' = scan_of s b') \<and> binding_states_ok t"
proof -
  let ?f = "\<lambda>r. r\<lparr>bs_last_auto_wave_completed_at := Some (db_now s)\<rparr>"
  let ?r = "case scan_of s b of None \<Rightarrow> new_binding_state b | Some c \<Rightarrow> c"
  have ok: "binding_states_ok (tick s)" using assms(1) by simp
  have gen: "0 \<le> bs_scan_generation (?f ?r)" and name: "bs_binding_name (?f ?r) = b"
    using scan_generation_nonneg [OF assms(1), of b] binding_state_name [of s b]
    by (auto simp: new_binding_state_def split: option.split)
  have "(case scan_of (tick s) b of
      None \<Rightarrow> sql_insert ARTIFACT_PROCESSING_BINDING_STATES_TABLE (?f (new_binding_state b))
    | Some _ \<Rightarrow> andThen (sql_update ARTIFACT_PROCESSING_BINDING_STATES_TABLE
                  (\<lambda>r. bs_binding_name r = b) ?f) (return ())) (tick s) = (Inr (), put_scan (?f ?r) (tick s))"
    using write_scan_run [OF ok, of ?f b] gen by (simp add: new_binding_state_def)
  then have "mark_auto_wave_completed b s = (Inr (?f (new_binding_state b)), put_scan (?f ?r) (tick s))"
    using assms
    by (cases "scan_of s b")
       (simp_all add: mark_auto_wave_completed_def andThen_run bind_run binding_state_load_run Let_def
         catch_run transaction_run)
  with put_scan_ok [OF ok gen] show ?thesis by (simp add: scan_of_put name)
qed


section \<open>Examples\<close>

definition example_lease :: lease_row where
  "example_lease = \<lparr>le_supervisor_group = ''global'', le_holder_id = ''node-2'',
     le_supervisor_generation = 2, le_lease_expires_at = Some 100\<rparr>"

definition example_leases :: db where
  "example_leases = (empty_db ''mysql'' int)\<lparr>leases := [example_lease]\<rparr>"

definition example_fence :: "string \<Rightarrow> int \<Rightarrow> processing_fence" where
  "example_fence h g = \<lparr>fe_supervisor_group = ''global'', fe_holder_id = h,
     fe_supervisor_generation = g, fe_lease_mode = OceanBase\<rparr>"

lemma example_leases_facts:
  "leases_ok example_leases" "lease_of example_leases ''global'' = Some example_lease"
  "db_now example_leases = 0"
  by (simp_all add: example_leases_def example_lease_def table_ok_def clash_free_def handle_admits
      lookup_row_def empty_db_def)

lemma example_identifiers:
  "valid_identifier ''global'' 64" "valid_identifier ''node-2'' 36" "valid_identifier ''memory'' MAX_BINDING_NAME_LENGTH"
  by code_simp+

lemma example_fence_accepted:
  "\<exists>t. require_fence (example_fence ''node-2'' 2) example_leases = (Inr example_lease, t)"
  using require_fence_run(1) [OF example_leases_facts(1), of "example_fence ''node-2'' 2"] example_identifiers(1)
  by (cases "require_fence (example_fence ''node-2'' 2) example_leases")
     (simp add: example_leases_facts example_fence_def holds_term_def example_lease_def)

theorem stale_fence_refused_forever_witness:
  "fst (require_fence (example_fence ''node-1'' 1) (snd (try_acquire ''node-2'' 5 ''global'' example_leases))) =
     Inl (LeadershipLost ''global'' ''node-1'' 1)"
proof -
  have "lease_step\<^sup>*\<^sup>* example_leases (snd (try_acquire ''node-2'' 5 ''global'' example_leases))"
    by (rule r_into_rtranclp) (rule step_try_acquire)
  from stale_fence_refused_forever [of example_leases "example_fence ''node-1'' 1" example_lease, OF _ _ _ this]
  show ?thesis
    by (simp add: example_leases_facts example_fence_def example_lease_def example_identifiers leadership_lost_def)
qed

theorem one_leader_per_term_witness:
  "\<exists>t. require_fence (example_fence ''node-2'' 2) example_leases = (Inr example_lease, t)
     \<and> fe_holder_id (example_fence ''node-2'' 2) = ''node-2''"
proof -
  obtain t where t: "require_fence (example_fence ''node-2'' 2) example_leases = (Inr example_lease, t)"
    using example_fence_accepted by blast
  show ?thesis
    using one_leader_per_term [OF example_leases_facts(1) t rtranclp.rtrancl_refl t] t
    by (simp add: example_fence_def)
qed

theorem try_acquire_only_when_free_witness:
  "\<exists>t. try_acquire ''node-2'' 5 ''global'' example_leases = (Inr None, t)
     \<and> lease_of t ''global'' = Some example_lease"
proof -
  have d: "(0::int) < 5" by simp
  from try_acquire_only_when_free [OF example_leases_facts(1) example_identifiers(2,1) d]
  show ?thesis
    by (auto simp: example_leases_facts example_lease_def split: prod.splits sum.splits option.splits)
qed

text \<open>
  A scope that registers while the scan runs is refused; the one registered before is admitted.
\<close>

theorem scan_admits_exactly_the_registered_witness:
  "\<exists>st t. start_scan ''memory'' (Some 7) example_intents = (Inr st, t) \<and> bs_scan_generation st = 1
     \<and> (let u = snd (mark_dirty_many ''late'' [''memory''] 1 t) in
          (\<exists>r v. admit ''scope'' ''memory'' 1 u = (Inr r, v) \<and> 1 \<le> in_last_auto_scan_generation r)
          \<and> (\<exists>f d. admit ''late'' ''memory'' 1 u = (Inl (InvalidRepositoryArgument f d), u)))"
proof -
  have ok: "binding_states_ok example_intents" using example_intents_env by (simp add: intents_env_def)
  have none: "scan_of example_intents ''memory'' = None"
    by (simp add: scan_of_def example_intents_def empty_db_def)
  then have idle: "\<forall>c. scan_of example_intents ''memory'' = Some c \<longrightarrow> \<not> bs_scan_in_progress c" by simp
  obtain st t where st: "start_scan ''memory'' (Some 7) example_intents = (Inr st, t)"
    using start_scan_fresh [OF ok example_identifiers(3) idle] by blast
  have run: "intent_step\<^sup>*\<^sup>* t (snd (mark_dirty_many ''late'' [''memory''] 1 t))"
    by (rule r_into_rtranclp) (rule step_mark_dirty)
  have valid: "valid_identifier ''scope'' MAX_SCOPE_ID_LENGTH" "valid_identifier ''late'' MAX_SCOPE_ID_LENGTH" by code_simp+
  have "intent_of example_intents ''late'' ''memory'' = None"
    by (simp add: intent_of_def example_intents_def new_intent_def intent_key_def)
  note early = scan_admits_exactly_the_registered [OF example_intents_env example_identifiers(3) idle st run valid(1), of None]
    and late = scan_admits_exactly_the_registered [OF example_intents_env example_identifiers(3) idle st run valid(2), of None]
  have gen: "bs_scan_generation st = 1" using early by (simp add: none)
  show ?thesis
    using early late st \<open>intent_of example_intents ''late'' ''memory'' = None\<close> unfolding gen Let_def
    by (intro exI [of _ st] exI [of _ t] conjI) (auto simp: gen example_intents_of)
qed

theorem mark_auto_wave_completed_baseline_witness:
  "\<exists>t. mark_auto_wave_completed ''memory'' example_scan =
      (Inr ((new_binding_state ''memory'')\<lparr>bs_last_auto_wave_completed_at := Some 0\<rparr>), t)
    \<and> map_option bs_scan_in_progress (scan_of t ''memory'') = Some True"
proof -
  have ok: "binding_states_ok example_scan"
    by (simp add: example_scan_def table_ok_def clash_free_def handle_admits)
  from mark_auto_wave_completed_baseline [OF ok example_identifiers(3)] show ?thesis
    by (auto simp: example_scan_def scan_of_def example_intents_def empty_db_def)
qed

end
