(* ===== verification/Cursors.thy ===== *)
theory Cursors
  imports Database
begin

text \<open>
  The Source-window cursors of
  \<^verbatim>\<open>src/src/powercontext/builtin/persistence/cursors.py\<close>: one position per scope and
  binding, written by compare-and-swap on a generation.

  The lemmas give the result of a load and of a save on every branch, that a save leaves
  every other cursor alone, and that the batched \<open>load_many\<close> agrees with one load per
  scope.
\<close>

abbreviation (input) SELECTION_BATCH_SIZE :: nat where "SELECTION_BATCH_SIZE \<equiv> 500"

record stored_cursor =
  sc_scope_id :: string
  sc_binding_name :: string
  sc_cursor :: int
  sc_generation :: int

text \<open>\<^verbatim>\<open>_decode_row\<close>\<close>

definition decode_cursor_row :: "cursor_row \<Rightarrow> ('s, stored_cursor) exec" where
  "decode_cursor_row r = (case cu_cursor r of
      Corrupt \<Rightarrow> raise (InvalidStoredPayload ''source-cursor'' (cu_binding_name r))
    | Canonical c \<Rightarrow> return \<lparr>sc_scope_id = cu_scope_id r, sc_binding_name = cu_binding_name r,
        sc_cursor = c, sc_generation = cu_generation r\<rparr>)"

definition cursor_key :: "string \<Rightarrow> string \<Rightarrow> cursor_row \<Rightarrow> bool" where
  "cursor_key scope_id binding_name r \<longleftrightarrow> cu_scope_id r = scope_id \<and> cu_binding_name r = binding_name"

definition cursor_load :: "string \<Rightarrow> string \<Rightarrow> (db, stored_cursor option) exec" where
  "cursor_load scope_id binding_name =
     andThen (require_identifier ''scope_id'' scope_id MAX_SCOPE_ID_LENGTH)
    (andThen (require_identifier ''binding_name'' binding_name MAX_BINDING_NAME_LENGTH)
    (bind (sql_one_or_none SOURCE_CURSORS_TABLE (cursor_key scope_id binding_name)) (\<lambda>row.
       case row of
         None \<Rightarrow> return None
       | Some r \<Rightarrow> bind (decode_cursor_row r) (\<lambda>c. return (Some c)))))"

text \<open>
  \<^verbatim>\<open>unconsumed_scope_ids\<close>: the outer join of the journal heads with the binding's
  cursors, in scope order. A head without a cursor, with an undecodable cursor, or with a
  cursor behind the head is selected.
\<close>

definition join_cursors :: "string \<Rightarrow> cursor_row list \<Rightarrow> journal_head_row
    \<Rightarrow> (string \<times> int \<times> int payload option) list" where
  "join_cursors binding_name cs h =
     (case filter (cursor_key (jh_scope_id h) binding_name) cs of
        [] \<Rightarrow> [(jh_scope_id h, jh_position h, None)]
      | ms \<Rightarrow> map (\<lambda>r. (jh_scope_id h, jh_position h, Some (cu_cursor r))) ms)"

definition selects_unconsumed :: "string \<times> int \<times> int payload option \<Rightarrow> bool" where
  "selects_unconsumed x = (case x of (_, position, pl) \<Rightarrow>
     (case pl of None \<Rightarrow> True | Some Corrupt \<Rightarrow> True | Some (Canonical c) \<Rightarrow> c < position))"

definition unconsumed_scope_ids :: "string \<Rightarrow> (db, string list) exec" where
  "unconsumed_scope_ids binding_name =
     andThen (require_identifier ''binding_name'' binding_name MAX_BINDING_NAME_LENGTH)
     (gets (\<lambda>s. map fst (filter selects_unconsumed (concat
        (map (join_cursors binding_name (cursors s))
           (sort_key jh_scope_id (filter (\<lambda>h. 0 < jh_position h) (journal_heads s))))))))"

text \<open>\<^verbatim>\<open>load_many\<close>: the dictionary is a map, filled batch by batch, row by row.\<close>

fun collect_cursors :: "cursor_row list \<Rightarrow> (string \<rightharpoonup> stored_cursor)
    \<Rightarrow> ('s, string \<rightharpoonup> stored_cursor) exec" where
  "collect_cursors [] loaded = return loaded"
| "collect_cursors (r # rs) loaded =
     bind (decode_cursor_row r) (\<lambda>c. collect_cursors rs (loaded(cu_scope_id r \<mapsto> c)))"

fun load_batches :: "string \<Rightarrow> string list list \<Rightarrow> (string \<rightharpoonup> stored_cursor)
    \<Rightarrow> (db, string \<rightharpoonup> stored_cursor) exec" where
  "load_batches binding_name [] loaded = return loaded"
| "load_batches binding_name (batch # bs) loaded =
     bind (sql_select SOURCE_CURSORS_TABLE
             (\<lambda>r. cu_scope_id r \<in> set batch \<and> cu_binding_name r = binding_name)) (\<lambda>rows.
     bind (collect_cursors rows loaded) (load_batches binding_name bs))"

definition cursor_load_many :: "string list \<Rightarrow> string \<Rightarrow> (db, string \<rightharpoonup> stored_cursor) exec" where
  "cursor_load_many scope_ids binding_name =
     andThen (require_identifier ''binding_name'' binding_name MAX_BINDING_NAME_LENGTH)
    (andThen (for_each scope_ids (\<lambda>i. require_identifier ''scope_id'' i MAX_SCOPE_ID_LENGTH))
    (load_batches binding_name (batches SELECTION_BATCH_SIZE (from_keys scope_ids)) Map.empty))"

text \<open>\<^verbatim>\<open>_insert_if_absent\<close>\<close>

definition cursor_insert_if_absent :: "string \<Rightarrow> string \<Rightarrow> int \<Rightarrow> int \<Rightarrow> (db, bool) exec" where
  "cursor_insert_if_absent scope_id binding_name cursor generation =
     bind (gets dialect) (\<lambda>d.
     if d = ''sqlite'' \<or> d = ''mysql''
     then bind (sql_insert_ignore SOURCE_CURSORS_TABLE
            \<lparr>cu_scope_id = scope_id, cu_binding_name = binding_name,
             cu_cursor = Canonical cursor, cu_generation = generation\<rparr>) (\<lambda>n. return (n = 1))
     else raise (InvalidRepositoryArgument ''dialect'' (d @ '' does not support source cursors'')))"

definition cursor_save :: "string \<Rightarrow> string \<Rightarrow> int \<Rightarrow> int option \<Rightarrow> (db, stored_cursor) exec" where
  "cursor_save scope_id binding_name cursor expected_generation =
     andThen (require_identifier ''scope_id'' scope_id MAX_SCOPE_ID_LENGTH)
    (andThen (require_identifier ''binding_name'' binding_name MAX_BINDING_NAME_LENGTH)
    (andThen (require (case expected_generation of None \<Rightarrow> True | Some g \<Rightarrow> 1 \<le> g)
                (InvalidRepositoryArgument ''expected_generation'' ''must be positive''))
    (bind
      (case expected_generation of
         None \<Rightarrow>
           bind (cursor_insert_if_absent scope_id binding_name cursor 1) (\<lambda>created.
           if created then return 1
           else bind (cursor_load scope_id binding_name) (\<lambda>existing.
             case existing of
               None \<Rightarrow> raise (GenerationConflict binding_name None None)
             | Some c \<Rightarrow> raise (GenerationConflict binding_name None (Some (sc_generation c)))))
       | Some g \<Rightarrow>
           bind (sql_update SOURCE_CURSORS_TABLE
                   (\<lambda>r. cursor_key scope_id binding_name r \<and> cu_generation r = g)
                   (\<lambda>r. r\<lparr>cu_cursor := Canonical cursor, cu_generation := g + 1\<rparr>)) (\<lambda>n.
           if n \<noteq> 1
           then bind (cursor_load scope_id binding_name) (\<lambda>actual.
                  raise (GenerationConflict binding_name (Some g) (map_option sc_generation actual)))
           else return (g + 1)))
      (\<lambda>generation. return \<lparr>sc_scope_id = scope_id, sc_binding_name = binding_name,
          sc_cursor = cursor, sc_generation = generation\<rparr>))))"

section \<open>Looking a cursor up\<close>

definition cursor_of :: "db \<Rightarrow> string \<Rightarrow> string \<Rightarrow> cursor_row option" where
  "cursor_of s scope_id binding_name = List.find (cursor_key scope_id binding_name) (cursors s)"

definition cursor_generation :: "string \<Rightarrow> string \<Rightarrow> db \<Rightarrow> int option" where
  "cursor_generation scope_id binding_name s = map_option cu_generation (cursor_of s scope_id binding_name)"

text \<open>The position processing has reached, 0 where no cursor is stored.\<close>

definition cursor_position :: "db \<Rightarrow> string \<Rightarrow> string \<Rightarrow> int" where
  "cursor_position s scope_id binding_name =
     (case cursor_of s scope_id binding_name of
        Some r \<Rightarrow> (case cu_cursor r of Canonical c \<Rightarrow> c | Corrupt \<Rightarrow> 0) | None \<Rightarrow> 0)"

lemma cursor_clash:
  "clash SOURCE_CURSORS_TABLE a b \<longleftrightarrow> cursor_key (cu_scope_id b) (cu_binding_name b) a"
  by (simp add: SOURCE_CURSORS_TABLE_def cursor_key_def)

lemma cursor_key_clash: "cursor_key i b x \<Longrightarrow> cursor_key i b y \<Longrightarrow> clash SOURCE_CURSORS_TABLE x y"
  by (simp add: cursor_clash cursor_key_def)

abbreviation cursors_ok :: "db \<Rightarrow> bool" where
  "cursors_ok \<equiv> table_ok SOURCE_CURSORS_TABLE"

lemma cursor_load_run:
  assumes "cursors_ok s" and "valid_identifier i MAX_SCOPE_ID_LENGTH"
    and "valid_identifier b MAX_BINDING_NAME_LENGTH"
  shows "cursor_load i b s = (case cursor_of s i b of
      None \<Rightarrow> (Inr None, s)
    | Some r \<Rightarrow> (case cu_cursor r of
        Corrupt \<Rightarrow> (Inl (InvalidStoredPayload ''source-cursor'' b), s)
      | Canonical c \<Rightarrow> (Inr (Some \<lparr>sc_scope_id = i, sc_binding_name = b, sc_cursor = c,
                                    sc_generation = cu_generation r\<rparr>), s)))"
proof -
  have "sql_one_or_none SOURCE_CURSORS_TABLE (cursor_key i b) s = (Inr (cursor_of s i b), s)"
    using assms(1) by (subst cursors_t.one_or_none_run) (auto simp: cursor_key_clash cursor_of_def)
  moreover have "cu_scope_id r = i \<and> cu_binding_name r = b" if "cursor_of s i b = Some r" for r
    using find_SomeD that unfolding cursor_of_def by (metis cursor_key_def)
  ultimately show ?thesis
    using assms(2,3)
    by (auto simp: cursor_load_def andThen_run bind_run decode_cursor_row_def
        split: option.splits payload.splits)
qed

lemma cursor_load_position:
  assumes "cursor_load i b s = (Inr x, t)"
  shows "t = s \<and> (case x of None \<Rightarrow> 0 | Some c \<Rightarrow> sc_cursor c) = cursor_position s i b"
proof -
  obtain row u where row: "sql_one_or_none SOURCE_CURSORS_TABLE (cursor_key i b) s = (Inr row, u)"
    and rest: "(case row of None \<Rightarrow> return None
       | Some r \<Rightarrow> bind (decode_cursor_row r) (\<lambda>c. return (Some c))) u = (Inr x, t)"
    using assms by (auto simp: cursor_load_def exec_Inr_iffs)
  have "u = s" and "row = cursor_of s i b"
    using sql_one_or_none_Inr [OF row] by (simp_all add: cursor_of_def)
  with rest show ?thesis
    by (cases "cursor_of s i b")
       (auto simp: bind_run decode_cursor_row_def cursor_position_def split: payload.splits)
qed

lemma reads_only_cursor_load [intro, simp]: "reads_only (cursor_load i b)"
  by (auto simp: cursor_load_def decode_cursor_row_def split: option.splits payload.splits
      intro!: reads_only_andThen reads_only_bind)

lemma preserves_cursor_load [preserves_rules, intro]: "preserves P (cursor_load i b)"
  by (rule reads_only_preserves) simp

section \<open>Saving a cursor\<close>

text \<open>The state after the compare-and-swap took effect.\<close>

definition put_cursor :: "string \<Rightarrow> string \<Rightarrow> int \<Rightarrow> int option \<Rightarrow> db \<Rightarrow> db" where
  "put_cursor i b c e s = (case e of
      None \<Rightarrow> s\<lparr>cursors := cursors s @ [\<lparr>cu_scope_id = i, cu_binding_name = b,
                 cu_cursor = Canonical c, cu_generation = 1\<rparr>]\<rparr>
    | Some g \<Rightarrow> s\<lparr>cursors := update_rows (\<lambda>r. cursor_key i b r \<and> cu_generation r = g)
                 (\<lambda>r. r\<lparr>cu_cursor := Canonical c, cu_generation := g + 1\<rparr>) (cursors s)\<rparr>)"

lemma cursor_of_put_cursor:
  assumes "cursor_generation i b s = e"
  shows "cursor_of (put_cursor i b c e s) i' b' =
    (if i' = i \<and> b' = b
     then Some \<lparr>cu_scope_id = i, cu_binding_name = b, cu_cursor = Canonical c,
                cu_generation = (case e of None \<Rightarrow> 1 | Some g \<Rightarrow> g + 1)\<rparr>
     else cursor_of s i' b')"
proof (cases e)
  case None
  with assms have "cursor_of s i b = None"
    by (simp add: cursor_generation_def)
  with None show ?thesis
    by (auto simp: put_cursor_def cursor_of_def find_append cursor_key_def split: option.split)
next
  case (Some g)
  with assms obtain r where r: "cursor_of s i b = Some r" "cu_generation r = g"
    by (auto simp: cursor_generation_def)
  then have "cursor_key i b r" by (auto simp: cursor_of_def dest: find_SomeD)
  moreover have "cursor_of (put_cursor i b c e s) i' b' =
      map_option (\<lambda>r. if cursor_key i b r \<and> cu_generation r = g
        then r\<lparr>cu_cursor := Canonical c, cu_generation := g + 1\<rparr> else r) (cursor_of s i' b')"
    using Some by (simp add: put_cursor_def cursor_of_def find_update_rows cursor_key_def)
  moreover have "\<not> cursor_key i b x" if "cursor_of s i' b' = Some x" "\<not> (i' = i \<and> b' = b)" for x
    using that find_SomeD unfolding cursor_of_def by (fastforce simp: cursor_key_def)
  ultimately show ?thesis
    using r Some by (cases "cursor_of s i' b'") (auto simp: cursor_key_def)
qed

lemma cursor_save_hit:
  assumes "cursors_ok s" and "valid_identifier i MAX_SCOPE_ID_LENGTH"
    and "valid_identifier b MAX_BINDING_NAME_LENGTH"
    and "case e of None \<Rightarrow> dialect s \<in> {''sqlite'', ''mysql''} | Some g \<Rightarrow> 1 \<le> g"
    and "cursor_generation i b s = e"
  shows "cursor_save i b c e s =
    (Inr \<lparr>sc_scope_id = i, sc_binding_name = b, sc_cursor = c,
          sc_generation = (case e of None \<Rightarrow> 1 | Some g \<Rightarrow> g + 1)\<rparr>, put_cursor i b c e s)"
proof (cases e)
  case None
  have "\<forall>r \<in> set (cursors s). \<not> cursor_key i b r"
    using assms(5) None by (auto simp: cursor_generation_def cursor_of_def find_None_iff)
  then show ?thesis
    using None assms(2-4)
    by (auto simp: cursor_save_def put_cursor_def andThen_run bind_run cursor_insert_if_absent_def
        sql_insert_ignore_def SOURCE_CURSORS_TABLE_def cursor_key_def)
next
  case (Some g)
  from Some assms(5) obtain r where r: "cursor_of s i b = Some r" "cu_generation r = g"
    by (auto simp: cursor_generation_def)
  have "sql_update SOURCE_CURSORS_TABLE (\<lambda>r. cursor_key i b r \<and> cu_generation r = g)
      (\<lambda>r. r\<lparr>cu_cursor := Canonical c, cu_generation := g + 1\<rparr>) s = (Inr 1, put_cursor i b c e s)"
    using assms(1,4) Some r
    by (subst cursors_t.cas_run)
       (auto simp: SOURCE_CURSORS_TABLE_def put_cursor_def cursor_of_def cursor_key_def)
  with Some assms(2-4) show ?thesis
    by (simp add: cursor_save_def andThen_run bind_run)
qed

lemma cursor_save_miss:
  assumes "cursors_ok s" and "valid_identifier i MAX_SCOPE_ID_LENGTH"
    and "valid_identifier b MAX_BINDING_NAME_LENGTH"
    and "case e of None \<Rightarrow> dialect s \<in> {''sqlite'', ''mysql''} | Some g \<Rightarrow> 1 \<le> g"
    and "cursor_generation i b s \<noteq> e"
  shows "\<exists>err. cursor_save i b c e s = (Inl err, s) \<and>
    err \<in> {GenerationConflict b e (cursor_generation i b s), InvalidStoredPayload ''source-cursor'' b}"
proof (cases e)
  case None
  with assms(5) obtain r where r: "cursor_of s i b = Some r"
    by (auto simp: cursor_generation_def)
  then have "\<exists>r \<in> set (cursors s). cursor_key i b r"
    by (auto simp: cursor_of_def find_Some_iff)
  then have "cursor_insert_if_absent i b c 1 s = (Inr False, s)"
    using None assms(4)
    by (auto simp: cursor_insert_if_absent_def bind_run sql_insert_ignore_def
        SOURCE_CURSORS_TABLE_def cursor_key_def)
  with r None assms(2,3) cursor_load_run [OF assms(1-3)] show ?thesis
    by (auto simp: cursor_save_def andThen_run bind_run cursor_generation_def split: payload.splits)
next
  case (Some g)
  have "sql_update SOURCE_CURSORS_TABLE (\<lambda>r. cursor_key i b r \<and> cu_generation r = g)
      (\<lambda>r. r\<lparr>cu_cursor := Canonical c, cu_generation := g + 1\<rparr>) s = (Inr 0, s)"
    using assms(1,4,5) Some
    by (subst cursors_t.cas_run)
       (auto simp: SOURCE_CURSORS_TABLE_def cursor_of_def cursor_key_def cursor_generation_def
         split: option.splits)
  with Some assms(2-4) cursor_load_run [OF assms(1-3)] show ?thesis
    by (auto simp: cursor_save_def andThen_run bind_run cursor_generation_def
        split: payload.splits option.splits)
qed

section \<open>Invariants of the cursor operations\<close>

lemma preserves_cursor_save_ok [preserves_rules]: "preserves cursors_ok (cursor_save i b c e)"
  unfolding cursor_save_def cursor_insert_if_absent_def
  by (intro preserves_rules cursors_t.preserves_table_ok)

lemma preserves_cursor_save_frame:
  "(\<And>t s. P s \<Longrightarrow> P (s\<lparr>cursors := t\<rparr>)) \<Longrightarrow> preserves P (cursor_save i b c e)"
  unfolding cursor_save_def cursor_insert_if_absent_def
  by (intro preserves_rules preserves_frame) auto

section \<open>Batched loading\<close>

definition decoded_cursor :: "cursor_row \<Rightarrow> stored_cursor" where
  "decoded_cursor r = \<lparr>sc_scope_id = cu_scope_id r, sc_binding_name = cu_binding_name r,
     sc_cursor = (case cu_cursor r of Canonical c \<Rightarrow> c | Corrupt \<Rightarrow> 0), sc_generation = cu_generation r\<rparr>"

lemma decode_cursor_row_run:
  "cu_cursor r \<noteq> Corrupt \<Longrightarrow> decode_cursor_row r s = (Inr (decoded_cursor r), s)"
  by (auto simp: decode_cursor_row_def decoded_cursor_def split: payload.splits)

lemma collect_cursors_run:
  assumes "\<forall>r \<in> set rs. cu_cursor r \<noteq> Corrupt" and "distinct (map cu_scope_id rs)"
  shows "\<exists>m'. collect_cursors rs m s = (Inr m', s) \<and>
    (\<forall>i. m' i = (case List.find (\<lambda>r. cu_scope_id r = i) rs of
        Some r \<Rightarrow> Some (decoded_cursor r) | None \<Rightarrow> m i))"
  using assms
proof (induction rs arbitrary: m)
  case Nil
  then show ?case by simp
next
  case (Cons r rs)
  from Cons.prems have "\<forall>r \<in> set rs. cu_cursor r \<noteq> Corrupt" "distinct (map cu_scope_id rs)"
    by auto
  from Cons.IH [OF this, of "m(cu_scope_id r \<mapsto> decoded_cursor r)"]
  obtain m' where m': "collect_cursors rs (m(cu_scope_id r \<mapsto> decoded_cursor r)) s = (Inr m', s)"
    "\<And>i. m' i = (case List.find (\<lambda>r. cu_scope_id r = i) rs of
       Some r \<Rightarrow> Some (decoded_cursor r) | None \<Rightarrow> (m(cu_scope_id r \<mapsto> decoded_cursor r)) i)"
    by blast
  moreover have "List.find (\<lambda>x. cu_scope_id x = cu_scope_id r) rs = None"
    using Cons.prems by (auto simp: find_None_iff) (metis imageI)
  ultimately show ?case
    using Cons.prems by (auto simp: bind_run decode_cursor_row_run split: option.split)
qed

lemma distinct_cursor_scopes:
  "clash_free SOURCE_CURSORS_TABLE t \<Longrightarrow>
     distinct (map cu_scope_id (filter (\<lambda>r. cu_scope_id r \<in> A \<and> cu_binding_name r = b) t))"
  by (induction t) (auto simp: clash_free_def SOURCE_CURSORS_TABLE_def)

lemma load_batches_run:
  assumes "cursors_ok s"
    and "\<forall>i \<in> set (concat bs). \<forall>r. cursor_of s i b = Some r \<longrightarrow> cu_cursor r \<noteq> Corrupt"
  shows "\<exists>m'. load_batches b bs m s = (Inr m', s) \<and>
    (\<forall>i. m' i = (if i \<in> set (concat bs) \<and> cursor_of s i b \<noteq> None
       then map_option decoded_cursor (cursor_of s i b) else m i))"
  using assms(2)
proof (induction bs arbitrary: m)
  case Nil
  then show ?case by simp
next
  case (Cons batch bs)
  let ?rows = "filter (\<lambda>r. cu_scope_id r \<in> set batch \<and> cu_binding_name r = b) (cursors s)"
  have uniq: "cursor_of s (cu_scope_id r) b = Some r" if "r \<in> set ?rows" for r
  proof -
    from that have "r \<in> set (filter (cursor_key (cu_scope_id r) b) (cursors s))"
      by (auto simp: cursor_key_def)
    moreover have "filter (cursor_key (cu_scope_id r) b) (cursors s) =
        (case cursor_of s (cu_scope_id r) b of None \<Rightarrow> [] | Some r \<Rightarrow> [r])"
      using assms(1) clash_free_at_most_one [of SOURCE_CURSORS_TABLE "cursors s" "cursor_key (cu_scope_id r) b"]
      by (simp add: table_ok_def cursor_key_clash cursor_of_def)
    ultimately show ?thesis by (auto split: option.splits)
  qed
  have dec: "\<forall>r \<in> set ?rows. cu_cursor r \<noteq> Corrupt"
    using uniq Cons.prems by auto
  have dist: "distinct (map cu_scope_id ?rows)"
    using assms(1) by (intro distinct_cursor_scopes) (simp add: table_ok_def)
  obtain m1 where m1: "collect_cursors ?rows m s = (Inr m1, s)"
    "\<And>i. m1 i = (case List.find (\<lambda>r. cu_scope_id r = i) ?rows of
        Some r \<Rightarrow> Some (decoded_cursor r) | None \<Rightarrow> m i)"
    using collect_cursors_run [OF dec dist, of m s] by blast
  have look: "List.find (\<lambda>r. cu_scope_id r = i) ?rows =
      (if i \<in> set batch then cursor_of s i b else None)" for i
    by (cases "i \<in> set batch")
       (auto simp: find_in_filter cursor_of_def cursor_key_def intro!: find_never find_cong_set)
  from Cons.IH [of m1] Cons.prems obtain m2 where m2: "load_batches b bs m1 s = (Inr m2, s)"
    "\<And>i. m2 i = (if i \<in> set (concat bs) \<and> cursor_of s i b \<noteq> None
       then map_option decoded_cursor (cursor_of s i b) else m1 i)"
    by auto
  with m1 look show ?case
    by (intro exI [of _ m2]) (auto simp: bind_run split: option.splits)
qed

section \<open>Properties\<close>

text \<open>
  C24: a cursor save is a compare-and-swap. It succeeds exactly when the stored generation is
  the expected one (none stored, for a first save). Then the key reads back the new
  position at the next generation and every other cursor is unchanged; otherwise it
  raises and changes nothing.
\<close>

theorem cursor_save_compare_and_swap:
  assumes "cursors_ok s" and "valid_identifier i MAX_SCOPE_ID_LENGTH"
    and "valid_identifier b MAX_BINDING_NAME_LENGTH"
    and "case e of None \<Rightarrow> dialect s \<in> {''sqlite'', ''mysql''} | Some g \<Rightarrow> 1 \<le> g"
  shows "case cursor_save i b c e s of
      (Inr sc, t) \<Rightarrow> cursor_generation i b s = e
        \<and> cursor_load i b t = (Inr (Some sc), t)
        \<and> sc_cursor sc = c \<and> cursor_generation i b t = Some (case e of None \<Rightarrow> 1 | Some g \<Rightarrow> g + 1)
        \<and> (\<forall>i' b'. (i', b') \<noteq> (i, b) \<longrightarrow> cursor_of t i' b' = cursor_of s i' b')
        \<and> cursors_ok t
    | (Inl err, t) \<Rightarrow> cursor_generation i b s \<noteq> e \<and> t = s
        \<and> err \<in> {GenerationConflict b e (cursor_generation i b s), InvalidStoredPayload ''source-cursor'' b}"
proof (cases "cursor_generation i b s = e")
  case True
  note hit = cursor_save_hit [OF assms True] and look = cursor_of_put_cursor [OF True]
  have "cursors_ok (put_cursor i b c e s)"
    using preservesD [OF preserves_cursor_save_ok assms(1), of i b c e] hit by simp
  with hit look True show ?thesis
    by (simp add: cursor_load_run assms cursor_generation_def)
next
  case False
  with cursor_save_miss [OF assms False, of c] show ?thesis by auto
qed

theorem cursor_save_compare_and_swap_witness:
  "case cursor_save ''s1'' ''b1'' 7 None (empty_db ''sqlite'' (\<lambda>_. 0)) of
      (Inr sc, t) \<Rightarrow> cursor_load ''s1'' ''b1'' t = (Inr (Some sc), t)
        \<and> cursor_generation ''s1'' ''b1'' t = Some 1
    | (Inl err, t) \<Rightarrow> False"
proof -
  let ?s = "empty_db ''sqlite'' (\<lambda>_. 0)"
  have ok: "cursors_ok ?s" and d: "case None of None \<Rightarrow> dialect ?s \<in> {''sqlite'', ''mysql''} | Some g \<Rightarrow> 1 \<le> g"
    and g: "cursor_generation ''s1'' ''b1'' ?s = None"
    by (simp_all add: table_ok_def empty_db_def cursor_generation_def cursor_of_def)
  have i: "valid_identifier ''s1'' MAX_SCOPE_ID_LENGTH" and b: "valid_identifier ''b1'' MAX_BINDING_NAME_LENGTH"
    by code_simp+
  show ?thesis
    using cursor_save_compare_and_swap [OF ok i b d, of 7] g by (auto split: prod.splits sum.splits)
qed

text \<open>
  Batched loading equals loading one scope at a time: where the selected cursors
  decode, \<open>load_many\<close> returns exactly the cursors stored for the requested scopes,
  whatever the number of batches and the repetitions in the request.
\<close>

theorem cursor_load_many_pointwise:
  assumes "cursors_ok s" and "valid_identifier b MAX_BINDING_NAME_LENGTH"
    and "\<forall>i \<in> set ids. valid_identifier i MAX_SCOPE_ID_LENGTH"
    and "\<forall>i \<in> set ids. \<forall>r. cursor_of s i b = Some r \<longrightarrow> cu_cursor r \<noteq> Corrupt"
  shows "\<exists>m. cursor_load_many ids b s = (Inr m, s) \<and>
    (\<forall>i \<in> set ids. cursor_load i b s = (Inr (m i), s)) \<and> dom m \<subseteq> set ids"
proof -
  have "for_each ids (\<lambda>i. require_identifier ''scope_id'' i MAX_SCOPE_ID_LENGTH) s = (Inr (), s)"
    using assms(3) by (induction ids) (auto simp: andThen_run)
  moreover have "concat (batches SELECTION_BATCH_SIZE (from_keys ids)) = from_keys ids"
    by (rule concat_batches) simp
  ultimately show ?thesis
    using load_batches_run [OF assms(1), of "batches SELECTION_BATCH_SIZE (from_keys ids)" b Map.empty]
      assms cursor_load_run [OF assms(1) _ assms(2)] find_SomeD
    by (fastforce simp: cursor_load_many_def andThen_run cursor_of_def decoded_cursor_def cursor_key_def
        split: option.splits payload.splits if_splits)
qed


theorem cursor_load_many_pointwise_witness:
  "\<exists>m. cursor_load_many [''s1'', ''s2'', ''s1''] ''b1''
      ((empty_db ''sqlite'' (\<lambda>_. 0))\<lparr>cursors := [\<lparr>cu_scope_id = ''s2'', cu_binding_name = ''b1'',
         cu_cursor = Canonical 4, cu_generation = 2\<rparr>]\<rparr>) =
      (Inr m, (empty_db ''sqlite'' (\<lambda>_. 0))\<lparr>cursors := [\<lparr>cu_scope_id = ''s2'', cu_binding_name = ''b1'',
         cu_cursor = Canonical 4, cu_generation = 2\<rparr>]\<rparr>)
    \<and> dom m \<subseteq> {''s1'', ''s2''}"
proof -
  let ?s = "(empty_db ''sqlite'' (\<lambda>_. 0))\<lparr>cursors := [\<lparr>cu_scope_id = ''s2'', cu_binding_name = ''b1'',
         cu_cursor = Canonical 4, cu_generation = 2\<rparr>]\<rparr>"
  have ok: "cursors_ok ?s"
    by (simp add: table_ok_def clash_free_def handle_admits)
  have b: "valid_identifier ''b1'' MAX_BINDING_NAME_LENGTH"
    and i: "\<forall>i \<in> set [''s1'', ''s2'', ''s1'']. valid_identifier i MAX_SCOPE_ID_LENGTH"
    by code_simp+
  have dec: "\<forall>i \<in> set [''s1'', ''s2'', ''s1'']. \<forall>r. cursor_of ?s i ''b1'' = Some r \<longrightarrow> cu_cursor r \<noteq> Corrupt"
    by (auto simp: cursor_of_def cursor_key_def split: if_splits)
  from cursor_load_many_pointwise [OF ok b i dec] show ?thesis by auto
qed

end
