(* ===== verification/Work_Budget.thy ===== *)
theory Work_Budget
  imports Supervision Cursors
begin

text \<open>
  The durable work budget of one unadvanced topic-memory frontier, from
  \<^verbatim>\<open>src/src/powercontext/builtin/persistence/topic_memory_budget.py\<close>: provider requests
  and tokens are reserved before they are spent, a failure marker is committed before the
  exception that reports it, and a fresh attempt supersedes the earlier one.

  The fields of a \<^verbatim>\<open>TopicMemoryWorkBudget\<close> object are the record \<open>work_budget\<close>; its
  \<^verbatim>\<open>uuid4\<close> attempt id is a field of it. Python's \<^verbatim>\<open>x or y\<close> on an optional string
  takes \<^verbatim>\<open>y\<close> for the empty string too.

  The lemmas give the ceilings as an invariant of every operation, the exact effect of a
  reservation, and the exclusion of superseded attempts.
\<close>

abbreviation (input) MAX_TOPIC_MEMORY_WORK_ATTEMPTS :: int where "MAX_TOPIC_MEMORY_WORK_ATTEMPTS \<equiv> 3"
abbreviation (input) MAX_TOPIC_MEMORY_WORK_REQUESTS :: int where "MAX_TOPIC_MEMORY_WORK_REQUESTS \<equiv> 512"
abbreviation (input) MAX_TOPIC_MEMORY_WORK_TOKENS :: int where "MAX_TOPIC_MEMORY_WORK_TOKENS \<equiv> 64000000"

definition RECOVERABLE_TOPIC_MEMORY_REJECTIONS :: "string list" where
  "RECOVERABLE_TOPIC_MEMORY_REJECTIONS =
     [''related_history_limit'', ''invalid_topic_placeholder'', ''invalid_topic_coordination_content'']"

definition exhausted_reason :: "budget_row \<Rightarrow> string" where
  "exhausted_reason row =
     (let code = bu_failure_code row in
      if code \<noteq> [] \<and> code \<notin> set RECOVERABLE_TOPIC_MEMORY_REJECTIONS then code
      else if bu_attempts row \<ge> MAX_TOPIC_MEMORY_WORK_ATTEMPTS
      then (if code \<noteq> [] then code else ''window_attempt_limit'')
      else if bu_requests row \<ge> MAX_TOPIC_MEMORY_WORK_REQUESTS \<or> bu_tokens row \<ge> MAX_TOPIC_MEMORY_WORK_TOKENS
      then ''window_provider_budget_exceeded''
      else [])"

definition budget_key :: "string \<Rightarrow> string \<Rightarrow> int \<Rightarrow> budget_row \<Rightarrow> bool" where
  "budget_key scope_id binding_name source_after r \<longleftrightarrow> bu_scope_id r = scope_id
     \<and> bu_binding_name r = binding_name \<and> bu_source_after r = source_after"

definition load_topic_memory_work_budget :: "string \<Rightarrow> string \<Rightarrow> int \<Rightarrow> (db, budget_row option) exec" where
  "load_topic_memory_work_budget scope_id binding_name source_after =
     sql_one_or_none TOPIC_MEMORY_WORK_BUDGETS_TABLE (budget_key scope_id binding_name source_after)"

definition ceiling_dimension :: "int \<Rightarrow> int \<Rightarrow> bool option" where
  "ceiling_dimension requests tokens =
     (if requests < MAX_TOPIC_MEMORY_WORK_REQUESTS \<and> tokens \<ge> MAX_TOPIC_MEMORY_WORK_TOKENS then Some True
      else if requests \<ge> MAX_TOPIC_MEMORY_WORK_REQUESTS \<and> tokens < MAX_TOPIC_MEMORY_WORK_TOKENS then Some False
      else None)"

definition topic_memory_budget_error :: "string \<Rightarrow> int option \<Rightarrow> bool option \<Rightarrow> error" where
  "topic_memory_budget_error reason tokens token_ceiling =
     (if reason = ''window_attempt_limit'' then TopicMemoryGeneration reason (Some (None, None))
      else if reason = ''window_provider_budget_exceeded''
      then TopicMemoryGeneration reason
             (Some (if token_ceiling = Some True then tokens else None,
                    if token_ceiling = Some True then Some MAX_TOPIC_MEMORY_WORK_TOKENS else None))
      else TopicMemoryGeneration reason None)"

definition require_topic_memory_work_available :: "string \<Rightarrow> string \<Rightarrow> int \<Rightarrow> (db, unit) exec" where
  "require_topic_memory_work_available scope_id binding_name source_after =
     bind (load_topic_memory_work_budget scope_id binding_name source_after) (\<lambda>row.
     case row of
       None \<Rightarrow> return ()
     | Some r \<Rightarrow>
         if exhausted_reason r \<noteq> []
         then raise (topic_memory_budget_error (exhausted_reason r) (Some (bu_tokens r))
                (ceiling_dimension (bu_requests r) (bu_tokens r)))
         else return ())"

definition record_topic_memory_work_failure ::
  "string \<Rightarrow> string \<Rightarrow> string \<Rightarrow> string option \<Rightarrow> (db, unit) exec" where
  "record_topic_memory_work_failure scope_id binding_name error_code attempt_id =
     bind (cursor_load scope_id binding_name) (\<lambda>cursor.
     bind (load_topic_memory_work_budget scope_id binding_name
             (case cursor of None \<Rightarrow> 0 | Some c \<Rightarrow> sc_cursor c)) (\<lambda>row.
     case row of
       None \<Rightarrow> return ()
     | Some r \<Rightarrow>
         if (case attempt_id of None \<Rightarrow> False | Some a \<Rightarrow> bu_attempt_id r \<noteq> a) then return ()
         else
           bind (sql_scalar TOPIC_MEMORY_WORK_BLOCKS_TABLE (\<lambda>b. bl_scope_id b = scope_id
                   \<and> bl_binding_name b = binding_name \<and> bl_source_after b = bu_source_after r
                   \<and> bl_attempt_id b = bu_attempt_id r) bl_block_id) (\<lambda>block.
           if (case block of None \<Rightarrow> False | Some i \<Rightarrow> i \<noteq> []) then return ()
           else
             bind (case bu_finished_at r of Some t \<Rightarrow> return t | None \<Rightarrow> database_utc_now) (\<lambda>finished.
             andThen (sql_update TOPIC_MEMORY_WORK_BUDGETS_TABLE
                        (\<lambda>x. budget_key scope_id binding_name (bu_source_after r) x
                           \<and> bu_attempt_id x = bu_attempt_id r)
                        (\<lambda>x. x\<lparr>bu_finished_at := Some finished,
                               bu_last_error_code := (case bu_last_error_code r of
                                  None \<Rightarrow> Some error_code
                                | Some c \<Rightarrow> if c = [] then Some error_code else Some c)\<rparr>))
               (return ())))))"

section \<open>One attempt on a frontier\<close>

record work_budget =
  wb_scope_id :: string
  wb_binding_name :: string
  wb_source_after :: int
  wb_source_through :: int
  wb_cursor_generation :: "int option"
  wb_fence :: processing_fence
  wb_attempt_id :: string

definition wb_key :: "work_budget \<Rightarrow> budget_row \<Rightarrow> bool" where
  "wb_key self = budget_key (wb_scope_id self) (wb_binding_name self) (wb_source_after self)"

definition wb_lock :: "work_budget \<Rightarrow> (db, unit) exec" where
  "wb_lock self =
     andThen (require_fence (wb_fence self))
    (bind (cursor_load (wb_scope_id self) (wb_binding_name self)) (\<lambda>cursor.
     require ((case cursor of None \<Rightarrow> 0 | Some c \<Rightarrow> sc_cursor c) = wb_source_after self
        \<and> map_option sc_generation cursor = wb_cursor_generation self)
       (GenerationConflict (wb_binding_name self) (wb_cursor_generation self) (map_option sc_generation cursor))))"

text \<open>A first row of the frontier, with the columns the insert leaves out as NULL.\<close>

definition first_budget :: "work_budget \<Rightarrow> budget_row" where
  "first_budget self =
     \<lparr>bu_scope_id = wb_scope_id self, bu_binding_name = wb_binding_name self,
      bu_source_after = wb_source_after self, bu_source_through = wb_source_through self,
      bu_attempt_id = wb_attempt_id self, bu_attempts = 1, bu_requests = 0, bu_tokens = 0,
      bu_failure_code = [], bu_attempt_source_through = None, bu_started_at = None, bu_finished_at = None,
      bu_supervisor_group = None, bu_supervisor_generation = None, bu_holder_id = None,
      bu_last_error_code = None\<rparr>"

definition started_row :: "work_budget \<Rightarrow> int \<Rightarrow> budget_row \<Rightarrow> budget_row" where
  "started_row self now r = r\<lparr>bu_attempt_source_through := Some (wb_source_through self),
     bu_started_at := Some now, bu_finished_at := None, bu_last_error_code := None,
     bu_supervisor_group := Some (fe_supervisor_group (wb_fence self)),
     bu_supervisor_generation := Some (fe_supervisor_generation (wb_fence self)),
     bu_holder_id := Some (fe_holder_id (wb_fence self))\<rparr>"

definition wb_begin :: "work_budget \<Rightarrow> (db, unit) exec" where
  "wb_begin self =
     bind (db_transaction
       (andThen (wb_lock self)
       (bind (sql_one_or_none TOPIC_MEMORY_WORK_BUDGETS_TABLE (wb_key self)) (\<lambda>row.
        bind (case row of
                None \<Rightarrow> andThen (sql_insert TOPIC_MEMORY_WORK_BUDGETS_TABLE (first_budget self)) (return [])
              | Some r \<Rightarrow>
                  if exhausted_reason r \<noteq> []
                  then andThen (sql_update TOPIC_MEMORY_WORK_BUDGETS_TABLE (wb_key self)
                                  (\<lambda>x. x\<lparr>bu_failure_code := exhausted_reason r\<rparr>))
                         (return (exhausted_reason r))
                  else andThen (sql_update TOPIC_MEMORY_WORK_BUDGETS_TABLE (wb_key self)
                                  (\<lambda>x. x\<lparr>bu_attempts := bu_attempts r + 1,
                                         bu_attempt_id := wb_attempt_id self,
                                         bu_source_through := max (wb_source_through self) (bu_source_through r)\<rparr>))
                         (return [])) (\<lambda>reason.
        andThen
          (if reason = []
           then bind database_utc_now (\<lambda>now.
                  andThen (sql_update TOPIC_MEMORY_WORK_BUDGETS_TABLE (wb_key self) (started_row self now))
                    (return ()))
           else return ())
          (return (reason, row)))))))
     (\<lambda>(reason, row).
       if reason \<noteq> []
       then raise (topic_memory_budget_error reason (map_option bu_tokens row)
              (case row of None \<Rightarrow> None | Some r \<Rightarrow> ceiling_dimension (bu_requests r) (bu_tokens r)))
       else return ())"

definition wb_current :: "work_budget \<Rightarrow> (db, budget_row) exec" where
  "wb_current self =
     bind (sql_one_or_none TOPIC_MEMORY_WORK_BUDGETS_TABLE (wb_key self)) (\<lambda>row.
     case row of
       None \<Rightarrow> raise (TopicMemoryGeneration ''window_attempt_superseded'' None)
     | Some r \<Rightarrow>
         if bu_attempt_id r \<noteq> wb_attempt_id self
         then raise (TopicMemoryGeneration ''window_attempt_superseded'' None)
         else return r)"

text \<open>
  The decision of \<^verbatim>\<open>reserve\<close> on the current row: the reason to refuse (empty to accept)
  and the request and token counts its diagnostics quote.
\<close>

definition reserve_decision :: "budget_row \<Rightarrow> int \<Rightarrow> int \<Rightarrow> string \<times> int \<times> int" where
  "reserve_decision row requests tokens =
     (let code = bu_failure_code row;
          reason = (if code \<in> set RECOVERABLE_TOPIC_MEMORY_REJECTIONS then [] else code);
          requests_after = bu_requests row + requests;
          tokens_after = bu_tokens row + tokens in
      if reason = [] \<and> (requests_after > MAX_TOPIC_MEMORY_WORK_REQUESTS
                        \<or> tokens_after > MAX_TOPIC_MEMORY_WORK_TOKENS)
      then (''window_provider_budget_exceeded'', requests_after, tokens_after)
      else (reason, bu_requests row, bu_tokens row))"

definition wb_reserve :: "work_budget \<Rightarrow> int \<Rightarrow> int \<Rightarrow> (db, unit) exec" where
  "wb_reserve self requests tokens =
     andThen (require (\<not> (requests < 1 \<or> tokens < 1)) (TopicMemoryGeneration ''invalid_work_reservation'' None))
    (bind (db_transaction
       (andThen (wb_lock self)
       (bind (wb_current self) (\<lambda>row.
        case reserve_decision row requests tokens of (reason, dr, dt) \<Rightarrow>
        andThen (sql_update TOPIC_MEMORY_WORK_BUDGETS_TABLE (wb_key self)
                   (\<lambda>x. if reason \<noteq> [] then x\<lparr>bu_failure_code := reason\<rparr>
                        else x\<lparr>bu_requests := bu_requests row + requests,
                               bu_tokens := bu_tokens row + tokens\<rparr>))
          (return (reason, dr, dt))))))
     (\<lambda>(reason, dr, dt).
       if reason \<noteq> [] then raise (topic_memory_budget_error reason (Some dt) (ceiling_dimension dr dt))
       else return ()))"

definition wb_fail :: "work_budget \<Rightarrow> string \<Rightarrow> (db, unit) exec" where
  "wb_fail self reason = db_transaction
     (andThen (wb_lock self)
     (andThen (wb_current self)
     (andThen (sql_update TOPIC_MEMORY_WORK_BUDGETS_TABLE (wb_key self) (\<lambda>x. x\<lparr>bu_failure_code := reason\<rparr>))
        (record_topic_memory_work_failure (wb_scope_id self) (wb_binding_name self) reason
           (Some (wb_attempt_id self))))))"

definition wb_record_failure :: "work_budget \<Rightarrow> string \<Rightarrow> (db, unit) exec" where
  "wb_record_failure self code = db_transaction
     (andThen (wb_lock self)
        (record_topic_memory_work_failure (wb_scope_id self) (wb_binding_name self) code
           (Some (wb_attempt_id self))))"

text \<open>\<^verbatim>\<open>complete\<close> runs inside the publisher's transaction.\<close>

definition wb_complete :: "work_budget \<Rightarrow> (db, unit) exec" where
  "wb_complete self =
     bind (wb_current self) (\<lambda>row.
     if bu_failure_code row \<noteq> [] \<and> bu_failure_code row \<notin> set RECOVERABLE_TOPIC_MEMORY_REJECTIONS
     then raise (topic_memory_budget_error (bu_failure_code row) (Some (bu_tokens row))
            (ceiling_dimension (bu_requests row) (bu_tokens row)))
     else andThen (sql_delete TOPIC_MEMORY_WORK_BUDGETS_TABLE (wb_key self)) (return ()))"

section \<open>What the operations do to the frontier's row\<close>

abbreviation budgets_ok :: "db \<Rightarrow> bool" where
  "budgets_ok \<equiv> table_ok TOPIC_MEMORY_WORK_BUDGETS_TABLE"

abbreviation budget_of :: "db \<Rightarrow> string \<Rightarrow> string \<Rightarrow> int \<Rightarrow> budget_row option" where
  "budget_of s i b a \<equiv> lookup_row TOPIC_MEMORY_WORK_BUDGETS_TABLE budget_pk s (i, b, a)"

abbreviation wb_row :: "db \<Rightarrow> work_budget \<Rightarrow> budget_row option" where
  "wb_row s self \<equiv> budget_of s (wb_scope_id self) (wb_binding_name self) (wb_source_after self)"

abbreviation put_budget :: "budget_row \<Rightarrow> db \<Rightarrow> db" where
  "put_budget \<equiv> store_row TOPIC_MEMORY_WORK_BUDGETS_TABLE budget_pk"

definition wb_pk :: "work_budget \<Rightarrow> string \<times> string \<times> int" where
  "wb_pk self = (wb_scope_id self, wb_binding_name self, wb_source_after self)"

lemma budget_key_pk: "budget_key i b a r \<longleftrightarrow> budget_pk r = (i, b, a)"
  by (auto simp: budget_key_def)

lemma wb_key_pk: "wb_key self r \<longleftrightarrow> budget_pk r = wb_pk self"
  by (auto simp: wb_key_def budget_key_def wb_pk_def)

lemma tick_frame [simp]:
  "lookup_row TOPIC_MEMORY_WORK_BUDGETS_TABLE budget_pk (s\<lparr>ticks := n\<rparr>) k =
     lookup_row TOPIC_MEMORY_WORK_BUDGETS_TABLE budget_pk s k"
  "budgets_ok (s\<lparr>ticks := n\<rparr>) = budgets_ok s"
  by (simp_all add: lookup_row_def table_ok_def handle_admits)

lemma load_budget_run:
  "budgets_ok s \<Longrightarrow> load_topic_memory_work_budget i b a s = (Inr (budget_of s i b a), s)"
  by (simp add: load_topic_memory_work_budget_def budgets_t.load_run [of s _ "(i, b, a)"] budget_key_pk)

lemma wb_load_run:
  "budgets_ok s \<Longrightarrow> sql_one_or_none TOPIC_MEMORY_WORK_BUDGETS_TABLE (wb_key self) s = (Inr (wb_row s self), s)"
  by (simp add: budgets_t.load_run [of s _ "wb_pk self"] wb_key_pk) (simp add: wb_pk_def)

lemma budget_update_run:
  assumes "budgets_ok s" and "wb_row s self = Some r" and "budget_pk (f r) = wb_pk self"
    and "admits TOPIC_MEMORY_WORK_BUDGETS_TABLE s (f r)"
  shows "sql_update TOPIC_MEMORY_WORK_BUDGETS_TABLE (wb_key self) f s = (Inr 1, put_budget (f r) s)"
  using assms budgets_t.lookup_key [OF assms(2)]
  by (subst budgets_t.update_store [OF assms(1), where k = "wb_pk self"])
     (auto simp: wb_key_pk wb_pk_def)

lemma wb_row_pk: "wb_row s self = Some r \<Longrightarrow> budget_pk r = wb_pk self"
  using budgets_t.lookup_key by (simp add: wb_pk_def)

lemma wb_row_put: "budget_pk r = wb_pk self \<Longrightarrow> wb_row (put_budget r s) self = Some r"
  by (simp add: budgets_t.lookup_store wb_pk_def)

text \<open>Taking the lock changes at most the clock.\<close>

lemma require_fence_state: "leases_ok s \<Longrightarrow> snd (require_fence f s) \<in> {s, tick s}"
  using effect_require_fence [of s f] require_fence_run(2) [of s f] lease_load_invalid [of "fe_supervisor_group f" s]
  by (cases "valid_identifier (fe_supervisor_group f) 64") (auto simp: require_fence_def bind_run)

lemma wb_lock_state:
  assumes "leases_ok s" and "wb_lock self s = (res, u)"
  shows "u = s \<or> u = tick s"
proof -
  have "snd (wb_lock self s) \<in> {s, tick s}"
    using require_fence_state [OF assms(1), of "wb_fence self"]
      reads_onlyD [OF reads_only_cursor_load, of "wb_scope_id self" "wb_binding_name self"]
    by (auto simp: wb_lock_def andThen_run bind_run split: prod.splits sum.splits)
  with assms(2) show ?thesis by simp
qed

definition window_ok :: "work_budget \<Rightarrow> bool" where
  "window_ok self \<longleftrightarrow> 0 \<le> wb_source_after self \<and> wb_source_after self < wb_source_through self"

text \<open>The row a successful \<^verbatim>\<open>begin\<close> leaves behind.\<close>

definition begun_row :: "work_budget \<Rightarrow> int \<Rightarrow> budget_row option \<Rightarrow> budget_row" where
  "begun_row self now old = started_row self now (case old of
     None \<Rightarrow> first_budget self
   | Some r \<Rightarrow> r\<lparr>bu_attempts := bu_attempts r + 1, bu_attempt_id := wb_attempt_id self,
                 bu_source_through := max (wb_source_through self) (bu_source_through r)\<rparr>)"

lemma begun_row_pk: "(\<And>r. old = Some r \<Longrightarrow> budget_pk r = wb_pk self) \<Longrightarrow> budget_pk (begun_row self now old) = wb_pk self"
  by (cases old) (simp_all add: begun_row_def started_row_def first_budget_def wb_pk_def)

lemma wb_begin_ok:
  assumes "budgets_ok s" and "leases_ok s" and "window_ok self" and "wb_lock self s = (Inr (), u)"
    and "case wb_row s self of None \<Rightarrow> True | Some r \<Rightarrow> exhausted_reason r = []"
  shows "wb_begin self s = (Inr (), put_budget (begun_row self (db_now u) (wb_row s self)) (tick u))"
    and "budgets_ok (put_budget (begun_row self (db_now u) (wb_row s self)) (tick u))"
proof -
  have u: "wb_row u self = wb_row s self" "budgets_ok u"
    using wb_lock_state [OF assms(2,4)] assms(1) by auto
  let ?old = "case wb_row s self of None \<Rightarrow> first_budget self
    | Some r \<Rightarrow> r\<lparr>bu_attempts := bu_attempts r + 1, bu_attempt_id := wb_attempt_id self,
                 bu_source_through := max (wb_source_through self) (bu_source_through r)\<rparr>"
  have pk: "budget_pk ?old = wb_pk self"
    using wb_row_pk [of s self] by (cases "wb_row s self") (simp_all add: first_budget_def wb_pk_def)
  have adm: "admits TOPIC_MEMORY_WORK_BUDGETS_TABLE v ?old \<and>
      admits TOPIC_MEMORY_WORK_BUDGETS_TABLE v (started_row self now ?old)" for v now
  proof (cases "wb_row s self")
    case None
    with assms(3) show ?thesis
      by (simp add: handle_admits first_budget_def started_row_def window_ok_def)
  next
    case (Some r)
    with assms(3) budgets_t.lookup_admits [OF assms(1) Some] wb_row_pk [OF Some] show ?thesis
      by (auto simp: handle_admits started_row_def window_ok_def wb_pk_def split: option.splits)
  qed
  have st: "begun_row self (db_now u) (wb_row s self) = started_row self (db_now u) ?old"
    by (simp add: begun_row_def)
  have pk': "budget_pk (started_row self now ?old) = wb_pk self" for now
    using pk by (simp add: started_row_def)
  have ok1: "budgets_ok (put_budget ?old u)"
    using u(2) adm by (intro budgets_t.table_ok_store) blast+
  have first: "(case wb_row s self of
       None \<Rightarrow> andThen (sql_insert TOPIC_MEMORY_WORK_BUDGETS_TABLE (first_budget self)) (return [])
     | Some r \<Rightarrow> if exhausted_reason r \<noteq> []
         then andThen (sql_update TOPIC_MEMORY_WORK_BUDGETS_TABLE (wb_key self)
                (\<lambda>x. x\<lparr>bu_failure_code := exhausted_reason r\<rparr>)) (return (exhausted_reason r))
         else andThen (sql_update TOPIC_MEMORY_WORK_BUDGETS_TABLE (wb_key self)
                (\<lambda>x. x\<lparr>bu_attempts := bu_attempts r + 1, bu_attempt_id := wb_attempt_id self,
                       bu_source_through := max (wb_source_through self) (bu_source_through r)\<rparr>)) (return [])) u =
      (Inr [], put_budget ?old u)"
  proof (cases "wb_row s self")
    case None
    have "lookup_row TOPIC_MEMORY_WORK_BUDGETS_TABLE budget_pk u (budget_pk (first_budget self)) = None"
      using None u(1) by (simp add: first_budget_def)
    with None adm [of u] show ?thesis
      by (simp add: andThen_run budgets_t.insert_store)
  next
    case (Some r)
    with assms(5) u pk adm [of u] show ?thesis
      by (simp add: andThen_run budget_update_run)
  qed
  have row1: "wb_row (tick (put_budget ?old u)) self = Some ?old"
    using wb_row_put [OF pk, of u] by simp
  have second: "sql_update TOPIC_MEMORY_WORK_BUDGETS_TABLE (wb_key self) (started_row self (db_now u))
      (tick (put_budget ?old u)) = (Inr 1, put_budget (started_row self (db_now u) ?old) (tick (put_budget ?old u)))"
    using ok1 row1 pk' adm by (intro budget_update_run) simp_all
  have now: "db_now (put_budget ?old u) = db_now u" by (simp add: store_row_def)
  have merge: "put_budget (started_row self (db_now u) ?old) (tick (put_budget ?old u)) =
      put_budget (started_row self (db_now u) ?old) (tick u)"
  proof -
    have "tick (put_budget ?old u) = put_budget ?old (tick u)"
      by (simp add: store_row_def)
    then show ?thesis using pk pk' by (simp add: budgets_t.store_store)
  qed
  show "budgets_ok (put_budget (begun_row self (db_now u) (wb_row s self)) (tick u))"
    unfolding st using u(2) adm by (intro budgets_t.table_ok_store) simp_all
  show "wb_begin self s = (Inr (), put_budget (begun_row self (db_now u) (wb_row s self)) (tick u))"
    unfolding st wb_begin_def
    using first second now merge assms(4) u
    by (simp add: bind_run andThen_run db_transaction_run wb_load_run)
qed

lemma wb_begin_exhausted:
  assumes "budgets_ok s" and "leases_ok s" and "wb_lock self s = (Inr (), u)"
    and "wb_row s self = Some r" and "exhausted_reason r \<noteq> []"
  shows "wb_begin self s = (Inl (topic_memory_budget_error (exhausted_reason r) (Some (bu_tokens r))
      (ceiling_dimension (bu_requests r) (bu_tokens r))), put_budget (r\<lparr>bu_failure_code := exhausted_reason r\<rparr>) u)"
    and "budgets_ok (put_budget (r\<lparr>bu_failure_code := exhausted_reason r\<rparr>) u)"
proof -
  have u: "wb_row u self = Some r" "budgets_ok u"
    using wb_lock_state [OF assms(2,3)] assms(1,4) by auto
  have adm: "admits TOPIC_MEMORY_WORK_BUDGETS_TABLE u (r\<lparr>bu_failure_code := exhausted_reason r\<rparr>)"
    using budgets_t.lookup_admits [OF u(2,1)] by (simp add: handle_admits split: option.splits)
  then show "budgets_ok (put_budget (r\<lparr>bu_failure_code := exhausted_reason r\<rparr>) u)"
    using u(2) by (intro budgets_t.table_ok_store)
  have "sql_update TOPIC_MEMORY_WORK_BUDGETS_TABLE (wb_key self) (\<lambda>x. x\<lparr>bu_failure_code := exhausted_reason r\<rparr>) u =
      (Inr 1, put_budget (r\<lparr>bu_failure_code := exhausted_reason r\<rparr>) u)"
    using u adm wb_row_pk [OF u(1)] by (intro budget_update_run) simp_all
  with assms(3,5) u show "wb_begin self s = (Inl (topic_memory_budget_error (exhausted_reason r) (Some (bu_tokens r))
      (ceiling_dimension (bu_requests r) (bu_tokens r))), put_budget (r\<lparr>bu_failure_code := exhausted_reason r\<rparr>) u)"
    by (simp add: wb_begin_def bind_run andThen_run db_transaction_run wb_load_run)
qed

lemma wb_begin_refused:
  assumes "leases_ok s" and "wb_lock self s = (Inl e, u)"
  shows "wb_begin self s = (Inl e, s\<lparr>ticks := ticks u\<rparr>)"
  using assms by (simp add: wb_begin_def bind_run andThen_run db_transaction_run)

lemma wb_current_run:
  "budgets_ok s \<Longrightarrow> wb_current self s = (case wb_row s self of
     Some r \<Rightarrow> if bu_attempt_id r = wb_attempt_id self then (Inr r, s)
              else (Inl (TopicMemoryGeneration ''window_attempt_superseded'' None), s)
   | None \<Rightarrow> (Inl (TopicMemoryGeneration ''window_attempt_superseded'' None), s))"
  by (simp add: wb_current_def bind_run wb_load_run split: option.split)

text \<open>The row a reservation leaves behind.\<close>

definition reserved_row :: "budget_row \<Rightarrow> int \<Rightarrow> int \<Rightarrow> budget_row" where
  "reserved_row r requests tokens = (case reserve_decision r requests tokens of (reason, _) \<Rightarrow>
     if reason \<noteq> [] then r\<lparr>bu_failure_code := reason\<rparr>
     else r\<lparr>bu_requests := bu_requests r + requests, bu_tokens := bu_tokens r + tokens\<rparr>)"

lemma reserved_row_ok:
  assumes "admits TOPIC_MEMORY_WORK_BUDGETS_TABLE s r" and "1 \<le> requests" and "1 \<le> tokens"
  shows "admits TOPIC_MEMORY_WORK_BUDGETS_TABLE s' (reserved_row r requests tokens)"
    and "budget_pk (reserved_row r requests tokens) = budget_pk r"
  using assms by (auto simp: reserved_row_def handle_admits split: prod.split option.splits)

lemma wb_reserve_current:
  assumes "budgets_ok s" and "leases_ok s" and "wb_lock self s = (Inr (), u)"
    and "wb_row s self = Some r" and "bu_attempt_id r = wb_attempt_id self" and "1 \<le> requests" and "1 \<le> tokens"
  shows "wb_reserve self requests tokens s = (case reserve_decision r requests tokens of (reason, dr, dt) \<Rightarrow>
      (if reason \<noteq> [] then Inl (topic_memory_budget_error reason (Some dt) (ceiling_dimension dr dt)) else Inr (),
       put_budget (reserved_row r requests tokens) u))"
    and "budgets_ok (put_budget (reserved_row r requests tokens) u)"
proof -
  have u: "wb_row u self = Some r" "budgets_ok u"
    using wb_lock_state [OF assms(2,3)] assms(1,4) by auto
  note ok = reserved_row_ok [OF budgets_t.lookup_admits [OF u(2,1)] assms(6,7)]
  show "budgets_ok (put_budget (reserved_row r requests tokens) u)"
    using u(2) ok(1) by (intro budgets_t.table_ok_store)
  obtain reason dr dt where d: "reserve_decision r requests tokens = (reason, dr, dt)" by (metis prod_cases3)
  let ?f = "\<lambda>x. if reason \<noteq> [] then x\<lparr>bu_failure_code := reason\<rparr>
                else x\<lparr>bu_requests := bu_requests r + requests, bu_tokens := bu_tokens r + tokens\<rparr>"
  have f: "?f r = reserved_row r requests tokens" by (simp add: reserved_row_def d)
  have "sql_update TOPIC_MEMORY_WORK_BUDGETS_TABLE (wb_key self) ?f u =
      (Inr 1, put_budget (reserved_row r requests tokens) u)"
    using budget_update_run [OF u(2,1), of ?f] ok wb_row_pk [OF u(1)] unfolding f by simp
  with assms(3,5-7) u d show "wb_reserve self requests tokens s = (case reserve_decision r requests tokens of (reason, dr, dt) \<Rightarrow>
      (if reason \<noteq> [] then Inl (topic_memory_budget_error reason (Some dt) (ceiling_dimension dr dt)) else Inr (),
       put_budget (reserved_row r requests tokens) u))"
    by (simp add: wb_reserve_def bind_run andThen_run db_transaction_run wb_current_run)
qed

lemma wb_reserve_superseded:
  assumes "budgets_ok s" and "leases_ok s" and "wb_lock self s = (Inr (), u)"
    and "\<forall>r. wb_row s self = Some r \<longrightarrow> bu_attempt_id r \<noteq> wb_attempt_id self" and "1 \<le> requests" and "1 \<le> tokens"
  shows "wb_reserve self requests tokens s =
    (Inl (TopicMemoryGeneration ''window_attempt_superseded'' None), s\<lparr>ticks := ticks u\<rparr>)"
proof -
  have u: "wb_row u self = wb_row s self" "budgets_ok u"
    using wb_lock_state [OF assms(2,3)] assms(1) by auto
  with assms(3-6) show ?thesis
    by (cases "wb_row s self")
       (simp_all add: wb_reserve_def bind_run andThen_run db_transaction_run wb_current_run)
qed

lemma wb_reserve_refused:
  assumes "wb_lock self s = (Inl e, u)" and "1 \<le> requests" and "1 \<le> tokens"
  shows "wb_reserve self requests tokens s = (Inl e, s\<lparr>ticks := ticks u\<rparr>)"
  using assms by (simp add: wb_reserve_def bind_run andThen_run db_transaction_run)

section \<open>Failures and completion\<close>

text \<open>Settling an attempt touches only its end time and its last error.\<close>

definition settled :: "budget_row \<Rightarrow> budget_row \<Rightarrow> bool" where
  "settled r r' \<longleftrightarrow> (\<exists>x y. r' = r\<lparr>bu_finished_at := x, bu_last_error_code := y\<rparr>)"

lemma settled_admits:
  "settled r r' \<Longrightarrow> admits TOPIC_MEMORY_WORK_BUDGETS_TABLE s r \<Longrightarrow> admits TOPIC_MEMORY_WORK_BUDGETS_TABLE s' r'"
  by (auto simp: settled_def handle_admits split: option.splits)

lemma settled_pk: "settled r r' \<Longrightarrow> budget_pk r' = budget_pk r"
  by (auto simp: settled_def)

lemma record_failure_effect:
  assumes "budgets_ok s"
  shows "snd (record_topic_memory_work_failure i b code a s) \<in> {s, tick s} \<or>
    (\<exists>r r' u. u \<in> {s, tick s} \<and> budget_of s i b (cursor_position s i b) = Some r \<and> settled r r'
       \<and> (case a of None \<Rightarrow> True | Some x \<Rightarrow> bu_attempt_id r = x)
       \<and> record_topic_memory_work_failure i b code a s = (Inr (), put_budget r' u))"
proof -
  obtain res v where res: "cursor_load i b s = (res, v)" by fastforce
  have v: "v = s" using res by (rule reads_onlyD [OF reads_only_cursor_load])
  show ?thesis
  proof (cases res)
    case (Inl e)
    with res v show ?thesis by (simp add: record_topic_memory_work_failure_def bind_run)
  next
    case (Inr x)
    have pos: "(case x of None \<Rightarrow> 0 | Some c \<Rightarrow> sc_cursor c) = cursor_position s i b"
      using cursor_load_position [of i b s x v] res Inr by simp
    show ?thesis
    proof (cases "budget_of s i b (cursor_position s i b)")
      case None
      with res v Inr pos show ?thesis
        by (simp add: record_topic_memory_work_failure_def bind_run load_budget_run assms)
    next
      case (Some r)
      let ?pk = "(i, b, cursor_position s i b)"
      have rpk: "budget_pk r = ?pk" using budgets_t.lookup_key [OF Some] by simp
      have upd: "sql_update TOPIC_MEMORY_WORK_BUDGETS_TABLE
          (\<lambda>x. budget_key i b (bu_source_after r) x \<and> bu_attempt_id x = bu_attempt_id r) f u =
          (Inr 1, put_budget (f r) u)" if "settled r (f r)" and "u \<in> {s, tick s}" for f u
      proof -
        have "budgets_ok u" "lookup_row TOPIC_MEMORY_WORK_BUDGETS_TABLE budget_pk u ?pk = Some r"
          using that(2) assms Some by auto
        with settled_admits [OF that(1) budgets_t.lookup_admits] settled_pk [OF that(1)] rpk show ?thesis
          by (subst budgets_t.update_store [where k = ?pk]) (auto simp: budget_key_def)
      qed
      have st: "settled r (r\<lparr>bu_finished_at := z, bu_last_error_code := y\<rparr>)" for z y
        by (auto simp: settled_def)
      let ?stale = "case a of None \<Rightarrow> False | Some a \<Rightarrow> bu_attempt_id r \<noteq> a"
      let ?blocked = "case map_option bl_block_id (List.find (\<lambda>x. bl_scope_id x = i \<and> bl_binding_name x = b
          \<and> bl_source_after x = bu_source_after r \<and> bl_attempt_id x = bu_attempt_id r) (blocks s)) of
        None \<Rightarrow> False | Some i \<Rightarrow> i \<noteq> []"
      obtain fin u where fin: "(case bu_finished_at r of Some t \<Rightarrow> return t | None \<Rightarrow> database_utc_now) s = (Inr fin, u)"
        and u: "u \<in> {s, tick s}"
        by (cases "bu_finished_at r") simp_all
      let ?f = "\<lambda>x. x\<lparr>bu_finished_at := Some fin, bu_last_error_code := (case bu_last_error_code r of
          None \<Rightarrow> Some code | Some c \<Rightarrow> if c = [] then Some code else Some c)\<rparr>"
      have run: "record_topic_memory_work_failure i b code a s =
          (if ?stale \<or> ?blocked then (Inr (), s) else (Inr (), put_budget (?f r) u))"
        using res v Inr pos Some fin upd [of ?f u, OF st u]
        by (simp add: record_topic_memory_work_failure_def bind_run load_budget_run assms andThen_run)
      show ?thesis
      proof (cases "?stale \<or> ?blocked")
        case True
        with run show ?thesis by simp
      next
        case False
        then have "case a of None \<Rightarrow> True | Some x \<Rightarrow> bu_attempt_id r = x"
          by (simp split: option.splits)
        with False run u Some st show ?thesis by auto
      qed
    qed
  qed
qed

definition ceilings :: "budget_row \<Rightarrow> bool" where
  "ceilings r \<longleftrightarrow> bu_attempts r \<le> MAX_TOPIC_MEMORY_WORK_ATTEMPTS
     \<and> bu_requests r \<le> MAX_TOPIC_MEMORY_WORK_REQUESTS \<and> bu_tokens r \<le> MAX_TOPIC_MEMORY_WORK_TOKENS"

definition budgets_inv :: "db \<Rightarrow> bool" where
  "budgets_inv s \<longleftrightarrow> budgets_ok s \<and> leases_ok s
     \<and> (\<forall>k r. lookup_row TOPIC_MEMORY_WORK_BUDGETS_TABLE budget_pk s k = Some r \<longrightarrow> ceilings r)"

lemma budgets_inv_ticks [simp]: "budgets_inv (s\<lparr>ticks := n\<rparr>) = budgets_inv s"
  by (simp add: budgets_inv_def) (simp add: table_ok_def handle_admits)

lemma budgets_inv_put:
  assumes "budgets_inv s" and "admits TOPIC_MEMORY_WORK_BUDGETS_TABLE s r" and "ceilings r"
  shows "budgets_inv (put_budget r s)"
proof -
  have "leases_ok (put_budget r s) = leases_ok s"
    by (simp add: table_ok_def handle_admits store_row_def)
  with assms show ?thesis
    by (auto simp: budgets_inv_def budgets_t.table_ok_store budgets_t.lookup_store)
qed

lemma budgets_inv_remove: "budgets_inv s \<Longrightarrow> budgets_inv (remove_row TOPIC_MEMORY_WORK_BUDGETS_TABLE budget_pk k s)"
proof -
  have "leases_ok (remove_row TOPIC_MEMORY_WORK_BUDGETS_TABLE budget_pk k s) = leases_ok s"
    by (simp add: table_ok_def handle_admits remove_row_def)
  then show "budgets_inv s \<Longrightarrow> ?thesis"
    by (auto simp: budgets_inv_def budgets_t.table_ok_remove budgets_t.lookup_remove)
qed

lemma budgets_inv_row:
  "budgets_inv s \<Longrightarrow> lookup_row TOPIC_MEMORY_WORK_BUDGETS_TABLE budget_pk s k = Some r \<Longrightarrow>
     admits TOPIC_MEMORY_WORK_BUDGETS_TABLE s r \<and> ceilings r"
  using budgets_t.lookup_admits [of s k r] unfolding budgets_inv_def by blast

lemma inv_record_failure:
  assumes "budgets_inv s"
  shows "budgets_inv (snd (record_topic_memory_work_failure i b code a s))"
proof -
  have ok: "budgets_ok s" using assms by (simp add: budgets_inv_def)
  have "budgets_inv (put_budget r' u)"
    if "u \<in> {s, tick s}" "budget_of s i b c = Some r" "settled r r'" for r r' u c
  proof -
    have "budgets_inv u" using that(1) assms by auto
    moreover have "admits TOPIC_MEMORY_WORK_BUDGETS_TABLE u r'" "ceilings r'"
      using budgets_inv_row [OF assms that(2)] settled_admits [OF that(3)] that(3)
      by (auto simp: settled_def ceilings_def)
    ultimately show ?thesis by (rule budgets_inv_put)
  qed
  with record_failure_effect [OF ok, of i b code a] assms show ?thesis by (auto 0 3)
qed

section \<open>The ceilings over every run\<close>

lemma exhausted_empty:
  "exhausted_reason r = [] \<Longrightarrow> bu_attempts r < MAX_TOPIC_MEMORY_WORK_ATTEMPTS
     \<and> bu_requests r < MAX_TOPIC_MEMORY_WORK_REQUESTS \<and> bu_tokens r < MAX_TOPIC_MEMORY_WORK_TOKENS"
  by (auto simp: exhausted_reason_def Let_def split: if_splits)

lemma lock_inv:
  assumes "budgets_inv s" and "wb_lock self s = (res, u)"
  shows "budgets_inv u" and "wb_row u self = wb_row s self" and "budgets_ok s" and "leases_ok s"
proof -
  show ok: "budgets_ok s" "leases_ok s" using assms(1) by (simp_all add: budgets_inv_def)
  from wb_lock_state [OF ok(2) assms(2)] assms(1) show "budgets_inv u" "wb_row u self = wb_row s self" by auto
qed

lemma begun_row_ok:
  assumes "budgets_inv s" and "window_ok self"
    and "case wb_row s self of None \<Rightarrow> True | Some r \<Rightarrow> exhausted_reason r = []"
  shows "admits TOPIC_MEMORY_WORK_BUDGETS_TABLE s' (begun_row self now (wb_row s self))
    \<and> ceilings (begun_row self now (wb_row s self))"
proof (cases "wb_row s self")
  case None
  with assms(2) show ?thesis
    by (simp add: begun_row_def handle_admits first_budget_def started_row_def window_ok_def ceilings_def)
next
  case (Some r)
  with assms(2,3) budgets_inv_row [OF assms(1) Some] wb_row_pk [OF Some] exhausted_empty [of r] show ?thesis
    by (auto simp: begun_row_def handle_admits started_row_def window_ok_def wb_pk_def ceilings_def)
qed

lemma inv_begin:
  assumes "budgets_inv s" and "window_ok self"
  shows "budgets_inv (snd (wb_begin self s))"
proof -
  obtain res u where lock: "wb_lock self s = (res, u)" by fastforce
  note l = lock_inv [OF assms(1) lock]
  show ?thesis
  proof (cases res)
    case (Inl e)
    with lock assms(1) l show ?thesis by (simp add: wb_begin_refused)
  next
    case (Inr x)
    with lock have ul: "wb_lock self s = (Inr (), u)" by simp
    show ?thesis
    proof (cases "case wb_row s self of None \<Rightarrow> True | Some r \<Rightarrow> exhausted_reason r = []")
      case True
      with begun_row_ok [OF assms True] budgets_inv_put [of "tick u"] l(1) show ?thesis
        by (simp add: wb_begin_ok(1) [OF l(3,4) assms(2) ul True])
    next
      case False
      then obtain r where r: "wb_row s self = Some r" "exhausted_reason r \<noteq> []"
        by (auto split: option.splits)
      have "admits TOPIC_MEMORY_WORK_BUDGETS_TABLE u (r\<lparr>bu_failure_code := exhausted_reason r\<rparr>)"
        "ceilings (r\<lparr>bu_failure_code := exhausted_reason r\<rparr>)"
        using budgets_inv_row [OF assms(1) r(1)] by (auto simp: handle_admits ceilings_def split: option.splits)
      with l(1) budgets_inv_put show ?thesis
        by (simp add: wb_begin_exhausted(1) [OF l(3,4) ul r])
    qed
  qed
qed

lemma reserved_row_ceilings:
  "ceilings r \<Longrightarrow> ceilings (reserved_row r requests tokens)"
  by (auto simp: ceilings_def reserved_row_def reserve_decision_def Let_def)

lemma inv_reserve:
  assumes "budgets_inv s"
  shows "budgets_inv (snd (wb_reserve self requests tokens s))"
proof (cases "1 \<le> requests \<and> 1 \<le> tokens")
  case False
  with assms show ?thesis by (auto simp: wb_reserve_def andThen_run)
next
  case True
  then have pos: "1 \<le> requests" "1 \<le> tokens" by simp_all
  obtain res u where lock: "wb_lock self s = (res, u)" by fastforce
  note l = lock_inv [OF assms lock]
  show ?thesis
  proof (cases res)
    case (Inl e)
    with lock assms pos show ?thesis by (simp add: wb_reserve_refused)
  next
    case (Inr x)
    with lock have ul: "wb_lock self s = (Inr (), u)" by simp
    show ?thesis
    proof (cases "\<exists>r. wb_row s self = Some r \<and> bu_attempt_id r = wb_attempt_id self")
      case True
      then obtain r where r: "wb_row s self = Some r" "bu_attempt_id r = wb_attempt_id self" by blast
      have "budgets_inv (put_budget (reserved_row r requests tokens) u)"
        using l(1) budgets_inv_row [OF assms r(1)] reserved_row_ok(1) [OF _ pos] reserved_row_ceilings
        by (intro budgets_inv_put) blast+
      then show ?thesis
        by (simp add: wb_reserve_current(1) [OF l(3,4) ul r pos] split: prod.split)
    next
      case False
      with assms wb_reserve_superseded [OF l(3,4) ul _ pos] show ?thesis by simp
    qed
  qed
qed

lemma inv_fail:
  assumes "budgets_inv s"
  shows "budgets_inv (snd (wb_fail self reason s))"
proof -
  obtain res u where lock: "wb_lock self s = (res, u)" by fastforce
  note l = lock_inv [OF assms lock]
  have okU: "budgets_ok u" using l(1) by (simp add: budgets_inv_def)
  let ?f = "\<lambda>x. x\<lparr>bu_failure_code := reason\<rparr>"
  have rec: "budgets_inv (snd (record_topic_memory_work_failure (wb_scope_id self) (wb_binding_name self) reason
      (Some (wb_attempt_id self)) (put_budget (?f r) u)))"
    and upd: "sql_update TOPIC_MEMORY_WORK_BUDGETS_TABLE (wb_key self) ?f u = (Inr 1, put_budget (?f r) u)"
    if r: "wb_row s self = Some r" for r
  proof -
    have "admits TOPIC_MEMORY_WORK_BUDGETS_TABLE u (?f r)" "ceilings (?f r)"
      using budgets_inv_row [OF assms r] by (auto simp: handle_admits ceilings_def split: option.splits)
    then show "budgets_inv (snd (record_topic_memory_work_failure (wb_scope_id self) (wb_binding_name self) reason
      (Some (wb_attempt_id self)) (put_budget (?f r) u)))"
      "sql_update TOPIC_MEMORY_WORK_BUDGETS_TABLE (wb_key self) ?f u = (Inr 1, put_budget (?f r) u)"
      using l r okU wb_row_pk [OF r] budget_update_run [of u self r ?f]
      by (auto intro!: inv_record_failure budgets_inv_put)
  qed
  show ?thesis
  proof (cases "\<exists>r. wb_row s self = Some r \<and> bu_attempt_id r = wb_attempt_id self \<and> res = Inr ()")
    case True
    then obtain r where r: "wb_row s self = Some r" "bu_attempt_id r = wb_attempt_id self" "res = Inr ()" by blast
    with lock upd [OF r(1)] rec [OF r(1)] okU l assms show ?thesis
      by (auto simp: wb_fail_def db_transaction_run andThen_run wb_current_run split: prod.splits sum.splits)
  next
    case False
    with lock okU l assms show ?thesis
      by (cases res) (auto simp: wb_fail_def db_transaction_run andThen_run wb_current_run split: option.split)
  qed
qed

lemma inv_record:
  assumes "budgets_inv s"
  shows "budgets_inv (snd (wb_record_failure self code s))"
proof -
  obtain res u where lock: "wb_lock self s = (res, u)" by fastforce
  with lock_inv(1) [OF assms lock] inv_record_failure [of u "wb_scope_id self" "wb_binding_name self" code "Some (wb_attempt_id self)"] assms
  show ?thesis
    by (auto simp: wb_record_failure_def db_transaction_run andThen_run split: prod.splits sum.splits)
qed

lemma wb_complete_run:
  assumes "budgets_ok s"
  shows "wb_complete self s = (case wb_row s self of
      None \<Rightarrow> (Inl (TopicMemoryGeneration ''window_attempt_superseded'' None), s)
    | Some r \<Rightarrow>
        if bu_attempt_id r \<noteq> wb_attempt_id self then (Inl (TopicMemoryGeneration ''window_attempt_superseded'' None), s)
        else if bu_failure_code r \<noteq> [] \<and> bu_failure_code r \<notin> set RECOVERABLE_TOPIC_MEMORY_REJECTIONS
        then (Inl (topic_memory_budget_error (bu_failure_code r) (Some (bu_tokens r))
                (ceiling_dimension (bu_requests r) (bu_tokens r))), s)
        else (Inr (), remove_row TOPIC_MEMORY_WORK_BUDGETS_TABLE budget_pk (wb_pk self) s))"
proof (cases "wb_row s self")
  case None
  with assms show ?thesis by (simp add: wb_complete_def bind_run wb_current_run)
next
  case (Some r)
  have "sql_delete TOPIC_MEMORY_WORK_BUDGETS_TABLE (wb_key self) s =
      (Inr 1, remove_row TOPIC_MEMORY_WORK_BUDGETS_TABLE budget_pk (wb_pk self) s)"
    using Some wb_row_pk [OF Some]
    by (subst budgets_t.delete_run [OF assms, where k = "wb_pk self"]) (simp_all add: wb_key_pk wb_pk_def)
  with Some assms show ?thesis
    by (simp add: wb_complete_def bind_run wb_current_run andThen_run)
qed

lemma inv_complete: "budgets_inv s \<Longrightarrow> budgets_inv (snd (wb_complete self s))"
  using budgets_inv_remove [of s "wb_pk self"] wb_complete_run [of s self]
  by (auto simp: budgets_inv_def split: option.splits)

text \<open>Any call on a work budget by any worker, with the lease and cursor moving in between.\<close>

inductive budget_step :: "db \<Rightarrow> db \<Rightarrow> bool" where
  step_begin: "window_ok self \<Longrightarrow> budget_step s (snd (wb_begin self s))"
| step_reserve: "budget_step s (snd (wb_reserve self requests tokens s))"
| step_fail: "budget_step s (snd (wb_fail self reason s))"
| step_record_failure: "budget_step s (snd (wb_record_failure self code s))"
| step_complete: "budget_step s (snd (wb_complete self s))"
| step_settle: "budget_step s (snd (record_topic_memory_work_failure i b code a s))"
| step_lease: "lease_step s t \<Longrightarrow> budget_step s t"
| step_cursor: "budget_step s (snd (cursor_save i b c e s))"

inductive_cases budget_stepE: "budget_step s t"

lemma budgets_inv_lease_step: "lease_step s t \<Longrightarrow> budgets_inv s \<Longrightarrow> budgets_inv t"
proof -
  assume step: "lease_step s t" and inv: "budgets_inv s"
  then have "lease_effect s t" by (simp add: lease_step_effect budgets_inv_def)
  then have "budgets t = budgets s"
    by (auto simp: lease_effect_def store_row_def)
  moreover have "leases_ok s" using inv by (simp add: budgets_inv_def)
  then have "leases_ok t" by (rule terms.ok_step) (rule step)
  ultimately show ?thesis
    using inv by (simp add: budgets_inv_def lookup_row_def table_ok_def handle_admits)
qed

lemma budgets_inv_cursor_save: "budgets_inv s \<Longrightarrow> budgets_inv (snd (cursor_save i b c e s))"
  by (rule preservesD [OF preserves_cursor_save_frame])
     (simp_all add: budgets_inv_def lookup_row_def table_ok_def handle_admits)

lemma budget_step_inv: "budget_step s t \<Longrightarrow> budgets_inv s \<Longrightarrow> budgets_inv t"
  by (erule budget_stepE)
     (simp_all add: inv_begin inv_reserve inv_fail inv_record inv_complete inv_record_failure
       budgets_inv_lease_step budgets_inv_cursor_save)

lemma reserve_decision_cases:
  assumes "reserve_decision r requests tokens = (reason, dr, dt)"
  shows "if reason = []
    then (bu_failure_code r = [] \<or> bu_failure_code r \<in> set RECOVERABLE_TOPIC_MEMORY_REJECTIONS)
      \<and> bu_requests r + requests \<le> MAX_TOPIC_MEMORY_WORK_REQUESTS \<and> bu_tokens r + tokens \<le> MAX_TOPIC_MEMORY_WORK_TOKENS
    else reason \<notin> set RECOVERABLE_TOPIC_MEMORY_REJECTIONS
      \<and> (reason = bu_failure_code r \<or> reason = ''window_provider_budget_exceeded''
          \<and> (MAX_TOPIC_MEMORY_WORK_REQUESTS < bu_requests r + requests
              \<or> MAX_TOPIC_MEMORY_WORK_TOKENS < bu_tokens r + tokens))"
proof -
  have "''window_provider_budget_exceeded'' \<notin> set RECOVERABLE_TOPIC_MEMORY_REJECTIONS"
    by (simp add: RECOVERABLE_TOPIC_MEMORY_REJECTIONS_def)
  with assms show ?thesis
    by (auto simp: reserve_decision_def Let_def split: if_splits)
qed

lemma budget_error_code: "\<exists>d. topic_memory_budget_error reason x y = TopicMemoryGeneration reason d"
  by (simp add: topic_memory_budget_error_def)

section \<open>Properties\<close>

text \<open>
  C11: the server-owned ceilings hold in every reachable state: whatever workers do, in
  whatever order, and whatever fails, no frontier has more than three attempts, 512
  reserved requests or 64,000,000 reserved tokens on it.
\<close>

theorem work_ceilings_never_exceeded:
  assumes "budget_step\<^sup>*\<^sup>* s t" and "budgets_inv s" and "budget_of t i b a = Some r"
  shows "1 \<le> bu_attempts r \<and> bu_attempts r \<le> MAX_TOPIC_MEMORY_WORK_ATTEMPTS
    \<and> 0 \<le> bu_requests r \<and> bu_requests r \<le> MAX_TOPIC_MEMORY_WORK_REQUESTS
    \<and> 0 \<le> bu_tokens r \<and> bu_tokens r \<le> MAX_TOPIC_MEMORY_WORK_TOKENS"
proof -
  have "budgets_inv t"
    using assms(1,2) by (induction rule: rtranclp_induct) (auto intro: budget_step_inv)
  from budgets_inv_row [OF this assms(3)] show ?thesis
    by (auto simp: ceilings_def handle_admits)
qed

text \<open>
  C31: a reservation by the current attempt under a valid lock charges exactly what it
  reserves when the row carries no terminal failure and both ceilings allow it. Otherwise
  it raises, but only after the reason has been committed as the row's failure code, with
  the counters unchanged. No other frontier is touched.
\<close>

theorem reserve_charges_or_marks:
  assumes "budgets_ok s" and "leases_ok s" and "fst (wb_lock self s) = Inr ()"
    and "wb_row s self = Some r" and "bu_attempt_id r = wb_attempt_id self" and "1 \<le> requests" and "1 \<le> tokens"
  shows "case wb_reserve self requests tokens s of
      (Inr _, t) \<Rightarrow> (bu_failure_code r = [] \<or> bu_failure_code r \<in> set RECOVERABLE_TOPIC_MEMORY_REJECTIONS)
        \<and> bu_requests r + requests \<le> MAX_TOPIC_MEMORY_WORK_REQUESTS
        \<and> bu_tokens r + tokens \<le> MAX_TOPIC_MEMORY_WORK_TOKENS
        \<and> wb_row t self = Some (r\<lparr>bu_requests := bu_requests r + requests, bu_tokens := bu_tokens r + tokens\<rparr>)
        \<and> (\<forall>i b a. (i, b, a) \<noteq> wb_pk self \<longrightarrow> budget_of t i b a = budget_of s i b a)
    | (Inl e, t) \<Rightarrow>
        (\<exists>reason d. reason \<noteq> [] \<and> reason \<notin> set RECOVERABLE_TOPIC_MEMORY_REJECTIONS
           \<and> e = TopicMemoryGeneration reason d \<and> wb_row t self = Some (r\<lparr>bu_failure_code := reason\<rparr>)
           \<and> (reason = bu_failure_code r \<or> reason = ''window_provider_budget_exceeded''
                \<and> (MAX_TOPIC_MEMORY_WORK_REQUESTS < bu_requests r + requests
                    \<or> MAX_TOPIC_MEMORY_WORK_TOKENS < bu_tokens r + tokens)))
        \<and> (\<forall>i b a. (i, b, a) \<noteq> wb_pk self \<longrightarrow> budget_of t i b a = budget_of s i b a)"
proof -
  obtain u where u: "wb_lock self s = (Inr (), u)" using assms(3) by (metis prod.collapse)
  have frame: "budget_of (put_budget x u) i b a = (if (i, b, a) = wb_pk self then Some x else budget_of s i b a)"
    if "budget_pk x = wb_pk self" for x i b a
    using that wb_lock_state [OF assms(2) u] by (auto simp: budgets_t.lookup_store)
  have pk: "budget_pk (reserved_row r requests tokens) = wb_pk self"
    using reserved_row_ok(2) [OF budgets_t.lookup_admits [OF assms(1,4)] assms(6,7)] wb_row_pk [OF assms(4)] by simp
  define t where "t = put_budget (reserved_row r requests tokens) u"
  have row: "wb_row t self = Some (reserved_row r requests tokens)"
    and others: "\<forall>i b a. (i, b, a) \<noteq> wb_pk self \<longrightarrow> budget_of t i b a = budget_of s i b a"
    unfolding t_def using wb_row_put [OF pk, of u] frame [OF pk] by simp_all
  obtain reason dr dt where d: "reserve_decision r requests tokens = (reason, dr, dt)" by (metis prod_cases3)
  have run: "wb_reserve self requests tokens s =
      (if reason \<noteq> [] then Inl (topic_memory_budget_error reason (Some dt) (ceiling_dimension dr dt)) else Inr (), t)"
    using wb_reserve_current(1) [OF assms(1,2) u assms(4-7)] by (simp add: d t_def)
  obtain diag where "topic_memory_budget_error reason (Some dt) (ceiling_dimension dr dt) = TopicMemoryGeneration reason diag"
    using budget_error_code by blast
  with run row others reserve_decision_cases [OF d] show ?thesis
    by (cases "reason = []") (simp_all add: reserved_row_def d)
qed

text \<open>
  C26: a superseded attempt is excluded. Once the row of the frontier belongs to another
  attempt, or is gone, the earlier attempt can neither charge nor mark nor complete the
  frontier: each of these calls raises and leaves the budgets as they were.
\<close>

theorem superseded_attempt_is_excluded:
  assumes "budgets_inv s" and "\<forall>r. wb_row s self = Some r \<longrightarrow> bu_attempt_id r \<noteq> wb_attempt_id self"
    and "1 \<le> requests" and "1 \<le> tokens"
  shows "(\<exists>e. fst (wb_reserve self requests tokens s) = Inl e)
    \<and> budgets (snd (wb_reserve self requests tokens s)) = budgets s
    \<and> (\<exists>e. fst (wb_fail self reason s) = Inl e) \<and> budgets (snd (wb_fail self reason s)) = budgets s
    \<and> wb_complete self s = (Inl (TopicMemoryGeneration ''window_attempt_superseded'' None), s)"
proof -
  obtain res u where lock: "wb_lock self s = (res, u)" by fastforce
  note l = lock_inv [OF assms(1) lock]
  have okU: "budgets_ok u" using l(1) by (simp add: budgets_inv_def)
  have "wb_complete self s = (Inl (TopicMemoryGeneration ''window_attempt_superseded'' None), s)"
    using assms(2) wb_complete_run [OF l(3), of self] by (auto split: option.split)
  moreover have "(\<exists>e. fst (wb_reserve self requests tokens s) = Inl e)
      \<and> budgets (snd (wb_reserve self requests tokens s)) = budgets s"
    using lock wb_reserve_superseded [OF l(3,4) _ assms(2-4)] wb_reserve_refused [OF _ assms(3,4)]
    by (cases res) auto
  moreover have "(\<exists>e. fst (wb_fail self reason s) = Inl e) \<and> budgets (snd (wb_fail self reason s)) = budgets s"
    using lock l(2) assms(2) okU
    by (cases res; cases "wb_row s self") (auto simp: wb_fail_def db_transaction_run andThen_run wb_current_run)
  ultimately show ?thesis by simp
qed

text \<open>
  A new attempt inherits the frontier's charges. A successful \<open>begin\<close> takes the row
  over under its own attempt id with one attempt more and the requests and tokens already
  charged; an exhausted frontier is refused with the reason, which is committed, and gains
  no attempt.
\<close>

theorem begin_inherits_charges:
  assumes "budgets_ok s" and "leases_ok s" and "window_ok self" and "fst (wb_lock self s) = Inr ()"
  shows "case wb_begin self s of
      (Inr _, t) \<Rightarrow> \<exists>r'. wb_row t self = Some r' \<and> bu_attempt_id r' = wb_attempt_id self
        \<and> (case wb_row s self of
             None \<Rightarrow> bu_attempts r' = 1 \<and> bu_requests r' = 0 \<and> bu_tokens r' = 0
           | Some r \<Rightarrow> exhausted_reason r = [] \<and> bu_attempts r' = bu_attempts r + 1
               \<and> bu_attempts r' \<le> MAX_TOPIC_MEMORY_WORK_ATTEMPTS
               \<and> bu_requests r' = bu_requests r \<and> bu_tokens r' = bu_tokens r
               \<and> bu_failure_code r' = bu_failure_code r)
    | (Inl e, t) \<Rightarrow> \<exists>r d. wb_row s self = Some r \<and> exhausted_reason r \<noteq> []
        \<and> e = TopicMemoryGeneration (exhausted_reason r) d
        \<and> wb_row t self = Some (r\<lparr>bu_failure_code := exhausted_reason r\<rparr>)"
proof -
  obtain u where u: "wb_lock self s = (Inr (), u)" using assms(4) by (metis prod.collapse)
  show ?thesis
  proof (cases "case wb_row s self of None \<Rightarrow> True | Some r \<Rightarrow> exhausted_reason r = []")
    case True
    have "budget_pk (begun_row self (db_now u) (wb_row s self)) = wb_pk self"
      using wb_row_pk by (rule begun_row_pk)
    from wb_row_put [OF this, of "tick u"] True show ?thesis
      unfolding wb_begin_ok(1) [OF assms(1-3) u True]
      by (cases "wb_row s self")
         (auto simp: begun_row_def started_row_def first_budget_def dest: exhausted_empty)
  next
    case False
    then obtain r where r: "wb_row s self = Some r" "exhausted_reason r \<noteq> []"
      by (auto split: option.splits)
    have "budget_pk (r\<lparr>bu_failure_code := exhausted_reason r\<rparr>) = wb_pk self"
      using wb_row_pk [OF r(1)] by simp
    from wb_row_put [OF this, of u] r show ?thesis
      unfolding wb_begin_exhausted(1) [OF assms(1,2) u r]
      by (auto simp: topic_memory_budget_error_def)
  qed
qed

section \<open>Examples\<close>

definition example_attempt :: "string \<Rightarrow> work_budget" where
  "example_attempt a = \<lparr>wb_scope_id = ''scope'', wb_binding_name = ''memory'', wb_source_after = 0,
     wb_source_through = 5, wb_cursor_generation = None, wb_fence = example_fence ''node-2'' 2,
     wb_attempt_id = a\<rparr>"

definition example_budgets :: db where
  "example_budgets = example_leases\<lparr>budgets := [(first_budget (example_attempt ''a1''))\<lparr>bu_requests := 500\<rparr>]\<rparr>"

lemma example_budgets_facts:
  "budgets_ok example_budgets" "leases_ok example_budgets" "budgets_inv example_budgets"
  "wb_row example_budgets (example_attempt a) = Some ((first_budget (example_attempt ''a1''))\<lparr>bu_requests := 500\<rparr>)"
  "window_ok (example_attempt a)"
proof -
  show row: "wb_row example_budgets (example_attempt a) = Some ((first_budget (example_attempt ''a1''))\<lparr>bu_requests := 500\<rparr>)" for a
    by (simp add: example_budgets_def lookup_row_def example_attempt_def first_budget_def)
  show ok: "budgets_ok example_budgets"
    by (simp add: example_budgets_def table_ok_def clash_free_def handle_admits first_budget_def example_attempt_def)
  show lo: "leases_ok example_budgets"
    using example_leases_facts(1) by (simp add: example_budgets_def table_ok_def handle_admits)
  have "ceilings r" if "lookup_row TOPIC_MEMORY_WORK_BUDGETS_TABLE budget_pk example_budgets k = Some r" for k r
    using budgets_t.lookup_key [OF that]
    by (simp add: example_budgets_def first_budget_def example_attempt_def ceilings_def)
  with ok lo show "budgets_inv example_budgets" unfolding budgets_inv_def by blast
  show "window_ok (example_attempt a)" by (simp add: window_ok_def example_attempt_def)
qed

lemma example_lock: "fst (wb_lock (example_attempt a) example_budgets) = Inr ()"
proof -
  have "lease_of example_budgets ''global'' = Some example_lease"
    using example_leases_facts(2) by (simp add: example_budgets_def lookup_row_def)
  then have "fst (require_fence (example_fence ''node-2'' 2) example_budgets) = Inr example_lease"
    using require_fence_run(1) [OF example_budgets_facts(2), of "example_fence ''node-2'' 2"] example_identifiers(1)
    by (simp add: example_fence_def holds_term_def example_lease_def)
       (simp add: example_budgets_def example_leases_def empty_db_def)
  moreover have "snd (require_fence (example_fence ''node-2'' 2) example_budgets) \<in> {example_budgets, tick example_budgets}"
    by (rule require_fence_state [OF example_budgets_facts(2)])
  moreover have "cursor_load ''scope'' ''memory'' v = (Inr None, v)"
    if "v \<in> {example_budgets, tick example_budgets}" for v
    using that cursor_load_run [of v "''scope''" "''memory''"] valid_keys_example(1)
    by (auto simp: valid_key_def cursor_of_def example_budgets_def example_leases_def empty_db_def table_ok_def)
  ultimately show ?thesis
    by (cases "require_fence (example_fence ''node-2'' 2) example_budgets")
       (simp add: wb_lock_def example_attempt_def andThen_run bind_run)
qed

theorem work_ceilings_never_exceeded_witness:
  "bu_requests ((first_budget (example_attempt ''a1''))\<lparr>bu_requests := 500\<rparr>) \<le> MAX_TOPIC_MEMORY_WORK_REQUESTS"
  using work_ceilings_never_exceeded [OF rtranclp.rtrancl_refl example_budgets_facts(3,4)] by blast

theorem reserve_charges_or_marks_witness:
  "\<exists>e t. wb_reserve (example_attempt ''a1'') 13 7 example_budgets = (Inl e, t)
     \<and> map_option bu_failure_code (wb_row t (example_attempt ''a1'')) = Some ''window_provider_budget_exceeded''"
proof -
  have a: "bu_attempt_id ((first_budget (example_attempt ''a1''))\<lparr>bu_requests := 500\<rparr>) = wb_attempt_id (example_attempt ''a1'')"
    by (simp add: first_budget_def example_attempt_def)
  from reserve_charges_or_marks [OF example_budgets_facts(1,2) example_lock example_budgets_facts(4) a, of 13 7]
  show ?thesis
    by (cases "wb_reserve (example_attempt ''a1'') 13 7 example_budgets"; cases "fst (wb_reserve (example_attempt ''a1'') 13 7 example_budgets)")
       (auto simp: first_budget_def)
qed

theorem superseded_attempt_is_excluded_witness:
  "wb_complete (example_attempt ''a0'') example_budgets =
     (Inl (TopicMemoryGeneration ''window_attempt_superseded'' None), example_budgets)
   \<and> budgets (snd (wb_reserve (example_attempt ''a0'') 1 1 example_budgets)) = budgets example_budgets"
proof -
  have "\<forall>r. wb_row example_budgets (example_attempt ''a0'') = Some r \<longrightarrow>
      bu_attempt_id r \<noteq> wb_attempt_id (example_attempt ''a0'')"
    unfolding example_budgets_facts(4) by (simp add: first_budget_def example_attempt_def)
  from superseded_attempt_is_excluded [OF example_budgets_facts(3) this, of 1 1] show ?thesis by simp
qed

theorem begin_inherits_charges_witness:
  "\<exists>t r'. wb_begin (example_attempt ''a2'') example_budgets = (Inr (), t)
     \<and> wb_row t (example_attempt ''a2'') = Some r' \<and> bu_attempts r' = 2 \<and> bu_requests r' = 500"
proof -
  have "exhausted_reason ((first_budget (example_attempt ''a1''))\<lparr>bu_requests := 500\<rparr>) = []"
    by (simp add: exhausted_reason_def first_budget_def)
  with begin_inherits_charges [OF example_budgets_facts(1,2,5) example_lock, of "''a2''"] show ?thesis
    unfolding example_budgets_facts(4)
    by (cases "wb_begin (example_attempt ''a2'') example_budgets"; cases "fst (wb_begin (example_attempt ''a2'') example_budgets)")
       (auto simp: first_budget_def)
qed

end
