(* ===== verification/Pending.thy ===== *)
theory Pending
  imports Cursors Supervision
begin

text \<open>
  The processing watermarks and automatic-wave snapshots of
  \<^verbatim>\<open>src/src/powercontext/builtin/persistence/processing.py\<close>.

  A pending row says up to which source position a binding has work in a scope, and
  counts explicit flushes with what was handled. A wave freezes the pending rows of a
  binding as targets and deletes them when they are covered. Strings compare by code
  point, as a binary collation does.

  The lemmas show that pending work is deleted only when the cursor or a completed wave
  covers its watermark and every flush was handled, and that watermarks only grow.
\<close>

section \<open>Pending rows\<close>

definition pending_key :: "string \<Rightarrow> string \<Rightarrow> pending_row \<Rightarrow> bool" where
  "pending_key scope_id binding_name r \<longleftrightarrow> pe_scope_id r = scope_id \<and> pe_binding_name r = binding_name"

definition pending_load :: "string \<Rightarrow> string \<Rightarrow> (db, pending_row option) exec" where
  "pending_load scope_id binding_name =
     andThen (require_identifier ''scope_id'' scope_id MAX_SCOPE_ID_LENGTH)
    (andThen (require_identifier ''binding_name'' binding_name MAX_BINDING_NAME_LENGTH)
       (sql_one_or_none ARTIFACT_PROCESSING_PENDING_TABLE (pending_key scope_id binding_name)))"

definition require_position :: "string \<Rightarrow> int \<Rightarrow> ('s, unit) exec" where
  "require_position field value = require (1 \<le> value) (InvalidRepositoryArgument field ''must be positive'')"

definition upsert_pending :: "string \<Rightarrow> string \<Rightarrow> int \<Rightarrow> bool \<Rightarrow> (db, unit) exec" where
  "upsert_pending scope_id binding_name source_through increment_flush =
     bind (gets dialect) (\<lambda>d.
     if d = ''sqlite'' \<or> d = ''mysql''
     then sql_upsert ARTIFACT_PROCESSING_PENDING_TABLE
            \<lparr>pe_binding_name = binding_name, pe_scope_id = scope_id, pe_source_through = source_through,
             pe_flush_generation = (if increment_flush then 1 else 0), pe_handled_flush_generation = 0\<rparr>
            (\<lambda>r. r\<lparr>pe_source_through :=
                    (if pe_source_through r < source_through then source_through else pe_source_through r),
                  pe_flush_generation :=
                    (if increment_flush then pe_flush_generation r + 1 else pe_flush_generation r)\<rparr>)
     else raise (InvalidRepositoryArgument ''dialect'' (''unsupported database dialect: '' @ d)))"

definition note_source :: "string \<Rightarrow> string \<Rightarrow> int \<Rightarrow> (db, unit) exec" where
  "note_source scope_id binding_name source_position =
     andThen (require_position ''source_position'' source_position)
       (upsert_pending scope_id binding_name source_position False)"

definition raise_source :: "string \<Rightarrow> string \<Rightarrow> int \<Rightarrow> (db, pending_row) exec" where
  "raise_source scope_id binding_name source_position =
     andThen (note_source scope_id binding_name source_position)
       (bind (pending_load scope_id binding_name) cast_some)"

definition pending_scan ::
  "string option \<Rightarrow> (string \<times> string) option \<Rightarrow> int option \<Rightarrow> (db, pending_row list) exec" where
  "pending_scan binding_name after limit =
     andThen (case binding_name of None \<Rightarrow> return ()
              | Some b \<Rightarrow> require_identifier ''binding_name'' b MAX_BINDING_NAME_LENGTH)
    (andThen (case after of None \<Rightarrow> return ()
              | Some (b, i) \<Rightarrow>
                  andThen (require_identifier ''after.binding_name'' b MAX_BINDING_NAME_LENGTH)
                    (require_identifier ''after.scope_id'' i MAX_SCOPE_ID_LENGTH))
    (andThen (case limit of None \<Rightarrow> return ()
              | Some n \<Rightarrow> require (1 \<le> n) (InvalidRepositoryArgument ''limit'' ''must be a positive integer''))
    (bind (sql_select ARTIFACT_PROCESSING_PENDING_TABLE (\<lambda>r.
             (case binding_name of None \<Rightarrow> True | Some b \<Rightarrow> pe_binding_name r = b)
             \<and> (case after of None \<Rightarrow> True
                | Some (b, i) \<Rightarrow> pe_binding_name r > b \<or> (pe_binding_name r = b \<and> pe_scope_id r > i)))) (\<lambda>rows.
     let page = sort_key (\<lambda>r. (pe_binding_name r, pe_scope_id r)) rows in
     return (case limit of None \<Rightarrow> page | Some n \<Rightarrow> take (nat n) page)))))"

definition has_unhandled_flush :: "string \<Rightarrow> (db, bool) exec" where
  "has_unhandled_flush binding_name =
     andThen (require_identifier ''binding_name'' binding_name MAX_BINDING_NAME_LENGTH)
    (bind (sql_select ARTIFACT_PROCESSING_PENDING_TABLE (\<lambda>r. pe_binding_name r = binding_name
             \<and> pe_flush_generation r > pe_handled_flush_generation r)) (\<lambda>rows.
     return (rows \<noteq> [])))"

definition request_flush :: "string \<Rightarrow> string \<Rightarrow> (db, pending_row option) exec" where
  "request_flush scope_id binding_name =
     andThen (require_identifier ''scope_id'' scope_id MAX_SCOPE_ID_LENGTH)
    (andThen (require_identifier ''binding_name'' binding_name MAX_BINDING_NAME_LENGTH)
    (bind (sql_scalar SOURCE_JOURNAL_HEADS_TABLE (\<lambda>r. jh_scope_id r = scope_id) jh_position) (\<lambda>head.
     let source_head = (case head of None \<Rightarrow> 0 | Some h \<Rightarrow> h) in
     bind (cursor_load scope_id binding_name) (\<lambda>cursor.
     if (case cursor of None \<Rightarrow> 0 | Some c \<Rightarrow> sc_cursor c) \<ge> source_head then return None
     else andThen (upsert_pending scope_id binding_name source_head True)
            (pending_load scope_id binding_name)))))"

definition mark_flush_handled :: "string \<Rightarrow> string \<Rightarrow> int \<Rightarrow> (db, pending_row option) exec" where
  "mark_flush_handled scope_id binding_name claimed =
     andThen (require (0 \<le> claimed)
                (InvalidRepositoryArgument ''claimed_flush_generation'' ''must be non-negative''))
    (bind (pending_load scope_id binding_name) (\<lambda>current.
     case current of
       None \<Rightarrow> return None
     | Some cur \<Rightarrow>
         let handled = max (pe_handled_flush_generation cur) (min claimed (pe_flush_generation cur)) in
         andThen (sql_update ARTIFACT_PROCESSING_PENDING_TABLE (pending_key scope_id binding_name)
                    (\<lambda>r. r\<lparr>pe_handled_flush_generation := handled\<rparr>))
           (pending_load scope_id binding_name)))"

definition delete_if_covered :: "string \<Rightarrow> string \<Rightarrow> int option \<Rightarrow> int option \<Rightarrow> (db, bool) exec" where
  "delete_if_covered scope_id binding_name cursor source_through_limit =
     bind (case cursor of
             Some c \<Rightarrow> return c
           | None \<Rightarrow> bind (cursor_load scope_id binding_name) (\<lambda>stored.
               return (case stored of None \<Rightarrow> 0 | Some sc \<Rightarrow> sc_cursor sc))) (\<lambda>c.
     andThen (require (0 \<le> c) (InvalidRepositoryArgument ''cursor'' ''must be non-negative''))
    (andThen (case source_through_limit of None \<Rightarrow> return ()
              | Some l \<Rightarrow> require (1 \<le> l) (InvalidRepositoryArgument ''source_through_limit'' ''must be positive''))
    (let covered_through = (case source_through_limit of None \<Rightarrow> c | Some l \<Rightarrow> min c l) in
     bind (sql_delete ARTIFACT_PROCESSING_PENDING_TABLE (\<lambda>r. pending_key scope_id binding_name r
             \<and> (pe_source_through r \<le> covered_through
             \<and> pe_handled_flush_generation r = pe_flush_generation r))) (\<lambda>rowcount.
     return (rowcount = 1)))))"

section \<open>Automatic-wave targets\<close>

definition clear_all :: "(db, unit) exec" where
  "clear_all = andThen (sql_delete ARTIFACT_PROCESSING_AUTO_WAVE_TARGETS_TABLE (\<lambda>_. True)) (return ())"

text \<open>\<^verbatim>\<open>INSERT ... FROM SELECT\<close> is one statement: it inserts all the rows or none.\<close>

definition frozen_target :: "string \<Rightarrow> pending_row \<Rightarrow> wave_target_row" where
  "frozen_target wave_id r = \<lparr>wt_wave_id = wave_id, wt_binding_name = pe_binding_name r,
     wt_scope_id = pe_scope_id r, wt_source_through = pe_source_through r, wt_completed = False\<rparr>"

definition freeze_pending :: "string \<Rightarrow> string \<Rightarrow> (db, unit) exec" where
  "freeze_pending wave_id binding_name =
     andThen (require_identifier ''wave_id'' wave_id 36)
    (andThen (require_identifier ''binding_name'' binding_name MAX_BINDING_NAME_LENGTH)
    (bind (sql_select ARTIFACT_PROCESSING_PENDING_TABLE (\<lambda>r. pe_binding_name r = binding_name)) (\<lambda>rows.
     transaction (for_each (map (frozen_target wave_id) rows)
       (sql_insert ARTIFACT_PROCESSING_AUTO_WAVE_TARGETS_TABLE)))))"

definition target_scan :: "string \<Rightarrow> string \<Rightarrow> string option \<Rightarrow> int \<Rightarrow> (db, wave_target_row list) exec" where
  "target_scan wave_id binding_name after_scope_id limit =
     andThen (require_identifier ''wave_id'' wave_id 36)
    (andThen (require_identifier ''binding_name'' binding_name MAX_BINDING_NAME_LENGTH)
    (andThen (case after_scope_id of None \<Rightarrow> return ()
              | Some i \<Rightarrow> require_identifier ''after_scope_id'' i MAX_SCOPE_ID_LENGTH)
    (andThen (require (1 \<le> limit) (InvalidRepositoryArgument ''limit'' ''must be a positive integer''))
    (bind (sql_select ARTIFACT_PROCESSING_AUTO_WAVE_TARGETS_TABLE (\<lambda>r. wt_wave_id r = wave_id
             \<and> wt_binding_name r = binding_name
             \<and> (case after_scope_id of None \<Rightarrow> True | Some i \<Rightarrow> wt_scope_id r > i))) (\<lambda>rows.
     return (take (nat limit) (sort_key wt_scope_id rows)))))))"

definition existing_scope_ids :: "string \<Rightarrow> string \<Rightarrow> string list \<Rightarrow> (db, string set) exec" where
  "existing_scope_ids wave_id binding_name scope_ids =
     andThen (require_identifier ''wave_id'' wave_id 36)
    (andThen (require_identifier ''binding_name'' binding_name MAX_BINDING_NAME_LENGTH)
    (andThen (for_each scope_ids (\<lambda>i. require_identifier ''scope_id'' i MAX_SCOPE_ID_LENGTH))
    (if scope_ids = [] then return {}
     else bind (sql_select ARTIFACT_PROCESSING_AUTO_WAVE_TARGETS_TABLE (\<lambda>r. wt_wave_id r = wave_id
             \<and> wt_binding_name r = binding_name \<and> wt_scope_id r \<in> set scope_ids)) (\<lambda>rows.
           return (set (map wt_scope_id rows))))))"

definition mark_completed :: "string \<Rightarrow> string \<Rightarrow> (db, bool) exec" where
  "mark_completed wave_id scope_id =
     andThen (require_identifier ''wave_id'' wave_id 36)
    (andThen (require_identifier ''scope_id'' scope_id MAX_SCOPE_ID_LENGTH)
    (bind (sql_update ARTIFACT_PROCESSING_AUTO_WAVE_TARGETS_TABLE
             (\<lambda>r. wt_wave_id r = wave_id \<and> wt_scope_id r = scope_id)
             (\<lambda>r. r\<lparr>wt_completed := True\<rparr>)) (\<lambda>rowcount.
     return (rowcount = 1))))"

definition all_completed :: "string \<Rightarrow> (db, bool) exec" where
  "all_completed wave_id =
     andThen (require_identifier ''wave_id'' wave_id 36)
    (bind (sql_select ARTIFACT_PROCESSING_AUTO_WAVE_TARGETS_TABLE
             (\<lambda>r. wt_wave_id r = wave_id \<and> \<not> wt_completed r)) (\<lambda>rows.
     return (rows = [])))"

definition covered_by :: "string \<Rightarrow> wave_target_row list \<Rightarrow> pending_row \<Rightarrow> bool" where
  "covered_by wave_id targets p \<longleftrightarrow> (\<exists>r \<in> set targets. wt_wave_id r = wave_id
     \<and> wt_binding_name r = pe_binding_name p \<and> wt_scope_id r = pe_scope_id p
     \<and> wt_completed r \<and> pe_source_through p \<le> wt_source_through r)"

definition delete_covered_pending :: "string \<Rightarrow> string \<Rightarrow> (db, nat) exec" where
  "delete_covered_pending wave_id binding_name =
     andThen (require_identifier ''wave_id'' wave_id 36)
    (andThen (require_identifier ''binding_name'' binding_name MAX_BINDING_NAME_LENGTH)
    (bind (gets wave_targets) (\<lambda>targets.
     sql_delete ARTIFACT_PROCESSING_PENDING_TABLE (\<lambda>p. pe_binding_name p = binding_name
       \<and> pe_handled_flush_generation p = pe_flush_generation p \<and> covered_by wave_id targets p))))"

definition clear_wave :: "string \<Rightarrow> (db, unit) exec" where
  "clear_wave wave_id =
     andThen (require_identifier ''wave_id'' wave_id 36)
    (andThen (sql_delete ARTIFACT_PROCESSING_AUTO_WAVE_TARGETS_TABLE (\<lambda>r. wt_wave_id r = wave_id))
       (return ()))"

section \<open>What the operations do to a pending row\<close>

abbreviation pendings_ok :: "db \<Rightarrow> bool" where
  "pendings_ok \<equiv> table_ok ARTIFACT_PROCESSING_PENDING_TABLE"

abbreviation pending_of :: "db \<Rightarrow> string \<Rightarrow> string \<Rightarrow> pending_row option" where
  "pending_of s i b \<equiv> lookup_row ARTIFACT_PROCESSING_PENDING_TABLE pending_pk s (b, i)"

abbreviation put_pending :: "pending_row \<Rightarrow> db \<Rightarrow> db" where
  "put_pending \<equiv> store_row ARTIFACT_PROCESSING_PENDING_TABLE pending_pk"

lemma pending_key_pk: "pending_key i b r \<longleftrightarrow> pending_pk r = (b, i)"
  by (auto simp: pending_key_def)

lemma pending_load_run:
  "pendings_ok s \<Longrightarrow> valid_key i b \<Longrightarrow> pending_load i b s = (Inr (pending_of s i b), s)"
  by (simp add: pending_load_def valid_key_def andThen_run pending_t.load_run [of s _ "(b, i)"] pending_key_pk)

text \<open>The row an upsert leaves behind.\<close>

definition raised :: "string \<Rightarrow> string \<Rightarrow> int \<Rightarrow> bool \<Rightarrow> pending_row option \<Rightarrow> pending_row" where
  "raised i b pos flush old = (case old of
     None \<Rightarrow> \<lparr>pe_binding_name = b, pe_scope_id = i, pe_source_through = pos,
              pe_flush_generation = (if flush then 1 else 0), pe_handled_flush_generation = 0\<rparr>
   | Some r \<Rightarrow> r\<lparr>pe_source_through := max (pe_source_through r) pos,
                 pe_flush_generation := (if flush then pe_flush_generation r + 1 else pe_flush_generation r)\<rparr>)"

lemma raised_pk: "pending_of s i b = old \<Longrightarrow> pending_pk (raised i b pos flush old) = (b, i)"
  using pending_t.lookup_key [of s "(b, i)" "the old"] by (cases old) (simp_all add: raised_def)

lemma raised_admits:
  assumes "pendings_ok s" and "pending_of s i b = old" and "1 \<le> pos \<or> old \<noteq> None"
  shows "admits ARTIFACT_PROCESSING_PENDING_TABLE s' (raised i b pos flush old)"
proof (cases old)
  case None
  with assms(3) show ?thesis by (simp add: raised_def handle_admits)
next
  case (Some r)
  with assms pending_t.lookup_admits [of s "(b, i)" r] show ?thesis
    by (auto simp: raised_def handle_admits)
qed

lemma upsert_pending_run:
  assumes "pendings_ok s" and "supported_dialect s" and "1 \<le> pos \<or> pending_of s i b \<noteq> None"
  shows "upsert_pending i b pos flush s = (Inr (), put_pending (raised i b pos flush (pending_of s i b)) s)"
proof (cases "pending_of s i b")
  case None
  then have "\<not> (\<exists>r \<in> set (pendings s). pe_binding_name r = b \<and> pe_scope_id r = i)"
    using pending_t.lookup_None [of s "(b, i)"] by auto
  with None assms show ?thesis
    by (auto simp: upsert_pending_def bind_run supported_dialect_def sql_upsert_def handle_clash
        pending_t.insert_store handle_admits raised_def)
next
  case (Some c)
  let ?f = "\<lambda>r. r\<lparr>pe_source_through := (if pe_source_through r < pos then pos else pe_source_through r),
     pe_flush_generation := (if flush then pe_flush_generation r + 1 else pe_flush_generation r)\<rparr>"
  have fc: "?f c = raised i b pos flush (Some c)" by (simp add: raised_def max_def)
  have adm: "admits ARTIFACT_PROCESSING_PENDING_TABLE s (?f c)" and pk: "pending_pk (?f c) = (b, i)"
    unfolding fc using raised_admits [OF assms(1) Some] raised_pk [OF Some] by simp_all
  have taken: "\<exists>r \<in> set (pendings s). b = pe_binding_name r \<and> i = pe_scope_id r"
    using pending_t.lookup_key [OF Some] by auto
  have "sql_update ARTIFACT_PROCESSING_PENDING_TABLE (\<lambda>r. b = pe_binding_name r \<and> i = pe_scope_id r) ?f s =
      (Inr 1, put_pending (?f c) s)"
    using Some adm pk pending_t.lookup_key [OF Some]
    by (subst pending_t.update_store [OF assms(1), where k = "(b, i)"]) auto
  with Some taken assms(2) show ?thesis
    by (auto simp: upsert_pending_def bind_run supported_dialect_def sql_upsert_def handle_clash andThen_run
        fc [symmetric])
qed

definition handled_row :: "int \<Rightarrow> pending_row \<Rightarrow> pending_row" where
  "handled_row claimed r = r\<lparr>pe_handled_flush_generation :=
     max (pe_handled_flush_generation r) (min claimed (pe_flush_generation r))\<rparr>"

lemma mark_flush_handled_run:
  assumes "pendings_ok s" and "valid_key i b" and "0 \<le> claimed"
  shows "mark_flush_handled i b claimed s = (case pending_of s i b of
      None \<Rightarrow> (Inr None, s)
    | Some r \<Rightarrow> (Inr (Some (handled_row claimed r)), put_pending (handled_row claimed r) s))"
    and "pending_of s i b = Some r \<Longrightarrow> pendings_ok (put_pending (handled_row claimed r) s)"
proof -
  have adm: "admits ARTIFACT_PROCESSING_PENDING_TABLE s (handled_row claimed r)"
    and pk: "pending_pk (handled_row claimed r) = (b, i)" if "pending_of s i b = Some r" for r
    using pending_t.lookup_admits [OF assms(1) that] pending_t.lookup_key [OF that] assms(3)
    by (auto simp: handle_admits handled_row_def)
  show ok: "pendings_ok (put_pending (handled_row claimed r) s)" if "pending_of s i b = Some r" for r
    using assms(1) adm [OF that] by (rule pending_t.table_ok_store)
  show "mark_flush_handled i b claimed s = (case pending_of s i b of
      None \<Rightarrow> (Inr None, s)
    | Some r \<Rightarrow> (Inr (Some (handled_row claimed r)), put_pending (handled_row claimed r) s))"
  proof (cases "pending_of s i b")
    case None
    with assms show ?thesis
      by (simp add: mark_flush_handled_def andThen_run bind_run pending_load_run)
  next
    case (Some r)
    have "sql_update ARTIFACT_PROCESSING_PENDING_TABLE (pending_key i b)
        (\<lambda>x. x\<lparr>pe_handled_flush_generation :=
           max (pe_handled_flush_generation r) (min claimed (pe_flush_generation r))\<rparr>) s =
        (Inr 1, put_pending (handled_row claimed r) s)"
      using Some adm [OF Some] pk [OF Some] pending_t.lookup_key [OF Some]
      by (subst pending_t.update_store [OF assms(1), where k = "(b, i)"])
         (auto simp: pending_key_pk handled_row_def)
    with Some assms ok [OF Some] pk [OF Some] show ?thesis
      by (simp add: mark_flush_handled_def andThen_run bind_run pending_load_run pending_t.lookup_store)
  qed
qed

text \<open>What a deletion by the cursor may remove.\<close>

definition removable :: "int \<Rightarrow> pending_row \<Rightarrow> bool" where
  "removable through r \<longleftrightarrow> pe_source_through r \<le> through \<and> pe_handled_flush_generation r = pe_flush_generation r"

abbreviation drop_pending :: "string \<Rightarrow> string \<Rightarrow> db \<Rightarrow> db" where
  "drop_pending i b \<equiv> remove_row ARTIFACT_PROCESSING_PENDING_TABLE pending_pk (b, i)"

lemma delete_if_covered_effect:
  assumes "pendings_ok s"
  shows "\<exists>through. through \<le> (case c of None \<Rightarrow> cursor_position s i b | Some p \<Rightarrow> p) \<and>
    (snd (delete_if_covered i b c lim s) = s \<or>
     (\<exists>r. pending_of s i b = Some r \<and> removable through r
        \<and> delete_if_covered i b c lim s = (Inr True, drop_pending i b s)))"
proof -
  let ?load = "case c of Some c \<Rightarrow> return c
     | None \<Rightarrow> bind (cursor_load i b) (\<lambda>stored. return (case stored of None \<Rightarrow> 0 | Some sc \<Rightarrow> sc_cursor sc))"
  let ?pos = "case c of None \<Rightarrow> cursor_position s i b | Some p \<Rightarrow> p"
  consider e where "?load s = (Inl e, s)" | "?load s = (Inr ?pos, s)"
  proof (cases c)
    case None
    obtain res u where res: "cursor_load i b s = (res, u)" by fastforce
    moreover from res have "u = s" by (rule reads_onlyD [OF reads_only_cursor_load])
    ultimately show ?thesis
      using None that cursor_load_position [of i b s] by (cases res) (auto simp: bind_run)
  qed (simp add: that)
  then show ?thesis
  proof cases
    case 1
    then show ?thesis by (intro exI [of _ ?pos]) (simp add: delete_if_covered_def bind_run)
  next
    case 2
    let ?through = "case lim of None \<Rightarrow> ?pos | Some l \<Rightarrow> min ?pos l"
    have del: "sql_delete ARTIFACT_PROCESSING_PENDING_TABLE (\<lambda>r. pending_key i b r
        \<and> (pe_source_through r \<le> ?through \<and> pe_handled_flush_generation r = pe_flush_generation r)) s =
      (case pending_of s i b of None \<Rightarrow> (Inr 0, s)
       | Some r \<Rightarrow> if removable ?through r then (Inr 1, drop_pending i b s) else (Inr 0, s))"
    proof (cases "pending_of s i b")
      case None
      then show ?thesis
        by (subst pending_t.delete_run [OF assms, where k = "(b, i)"]) (simp_all add: pending_key_pk)
    next
      case (Some r)
      then show ?thesis
        using pending_t.lookup_key [OF Some]
        by (subst pending_t.delete_run [OF assms, where k = "(b, i)"]) (simp_all add: pending_key_pk removable_def)
    qed
    have "snd (delete_if_covered i b c lim s) = s \<or>
     (\<exists>r. pending_of s i b = Some r \<and> removable ?through r
        \<and> delete_if_covered i b c lim s = (Inr True, drop_pending i b s))"
      using 2 del
      by (auto simp: delete_if_covered_def bind_run [of ?load] andThen_run bind_run [of "sql_delete T p" for T p]
          Let_def split: option.splits)
    then show ?thesis by (intro exI [of _ ?through]) (auto split: option.split)
  qed
qed

lemma delete_covered_pending_run:
  "valid_identifier w 36 \<Longrightarrow> valid_identifier b MAX_BINDING_NAME_LENGTH \<Longrightarrow>
   snd (delete_covered_pending w b s) = s\<lparr>pendings := filter (\<lambda>p. \<not> (pe_binding_name p = b
     \<and> pe_handled_flush_generation p = pe_flush_generation p \<and> covered_by w (wave_targets s) p)) (pendings s)\<rparr>"
  by (simp add: delete_covered_pending_def andThen_run bind_run sql_delete_def Let_def)

lemma delete_covered_pending_invalid:
  "\<not> (valid_identifier w 36 \<and> valid_identifier b MAX_BINDING_NAME_LENGTH) \<Longrightarrow>
     snd (delete_covered_pending w b s) = s"
  by (auto simp: delete_covered_pending_def andThen_run require_identifier_run)

lemma pending_of_filtered:
  assumes "pendings_ok s"
  shows "pending_of (s\<lparr>pendings := filter (\<lambda>r. \<not> q r) (pendings s)\<rparr>) i b =
    (case pending_of s i b of None \<Rightarrow> None | Some r \<Rightarrow> if q r then None else Some r)"
  using pending_t.find_key_delete [OF assms, of "\<lambda>r. pending_pk r = (b, i)" q]
  by (simp add: lookup_row_def handle_clash)


section \<open>Runs over the pending rows\<close>

text \<open>
  Any call on the two repositories, and cursor saves in between. A deletion that is given a
  cursor instead of reading it is given one that the stored cursor has reached.
\<close>

inductive pending_step :: "db \<Rightarrow> db \<Rightarrow> bool" where
  step_note_source: "pending_step s (snd (note_source i b pos s))"
| step_request_flush: "pending_step s (snd (request_flush i b s))"
| step_mark_flush_handled: "pending_step s (snd (mark_flush_handled i b claimed s))"
| step_delete_if_covered:
    "(case c of None \<Rightarrow> True | Some p \<Rightarrow> p \<le> cursor_position s i b) \<Longrightarrow>
       pending_step s (snd (delete_if_covered i b c lim s))"
| step_delete_covered_pending: "pending_step s (snd (delete_covered_pending w b s))"
| step_freeze_pending: "pending_step s (snd (freeze_pending w b s))"
| step_mark_completed: "pending_step s (snd (mark_completed w i s))"
| step_clear_all: "pending_step s (snd (clear_all s))"
| step_clear_wave: "pending_step s (snd (clear_wave w s))"
| step_cursor_save: "pending_step s (snd (cursor_save i b c e s))"

inductive_cases pending_stepE: "pending_step s t"

definition row_grows :: "pending_row \<Rightarrow> pending_row \<Rightarrow> bool" where
  "row_grows r r' \<longleftrightarrow> pe_source_through r \<le> pe_source_through r' \<and> pe_flush_generation r \<le> pe_flush_generation r'
     \<and> pe_handled_flush_generation r \<le> pe_handled_flush_generation r'"

text \<open>The work of a row is done: its flushes handled, its watermark reached by the cursor or by a wave.\<close>

definition work_done :: "db \<Rightarrow> pending_row \<Rightarrow> bool" where
  "work_done s r \<longleftrightarrow> pe_handled_flush_generation r = pe_flush_generation r
     \<and> (pe_source_through r \<le> cursor_position s (pe_scope_id r) (pe_binding_name r)
        \<or> (\<exists>w. covered_by w (wave_targets s) r))"

definition pending_env :: "db \<Rightarrow> bool" where
  "pending_env s \<longleftrightarrow> pendings_ok s \<and> supported_dialect s"

definition pendings_kept :: "db \<Rightarrow> db \<Rightarrow> bool" where
  "pendings_kept s t \<longleftrightarrow> (\<forall>i b r. pending_of s i b = Some r \<longrightarrow>
     (\<exists>r'. pending_of t i b = Some r' \<and> row_grows r r') \<or> (work_done s r \<and> pending_of t i b = None))"

lemma pendings_keptD:
  "pendings_kept s t \<Longrightarrow> pending_of s i b = Some r \<Longrightarrow>
     (\<exists>r'. pending_of t i b = Some r' \<and> row_grows r r') \<or> (work_done s r \<and> pending_of t i b = None)"
  by (simp add: pendings_kept_def)

lemma row_grows_refl [simp]: "row_grows r r"
  by (simp add: row_grows_def)

lemma row_grows_trans: "row_grows r x \<Longrightarrow> row_grows x y \<Longrightarrow> row_grows r y"
  by (auto simp: row_grows_def)

lemma pending_frame:
  assumes "pending_env s" and "pendings t = pendings s" and "dialect t = dialect s"
  shows "pending_env t \<and> pendings_kept s t"
  using assms
  by (auto simp: pending_env_def pendings_kept_def supported_dialect_def lookup_row_def table_ok_def handle_admits)

lemma pending_store_effect:
  assumes "pending_env s" and "admits ARTIFACT_PROCESSING_PENDING_TABLE s r'"
    and "\<And>r. lookup_row ARTIFACT_PROCESSING_PENDING_TABLE pending_pk s (pending_pk r') = Some r \<Longrightarrow> row_grows r r'"
  shows "pending_env (put_pending r' s) \<and> pendings_kept s (put_pending r' s)"
proof -
  have "supported_dialect (put_pending r' s) = supported_dialect s"
    by (simp add: supported_dialect_def store_row_def)
  with assms show ?thesis
    by (auto simp: pending_env_def pendings_kept_def pending_t.table_ok_store pending_t.lookup_store)
qed

lemma upsert_pending_effect:
  assumes "pending_env s"
  shows "pending_env (snd (upsert_pending i b pos flush s)) \<and> pendings_kept s (snd (upsert_pending i b pos flush s))"
proof (cases "1 \<le> pos \<or> pending_of s i b \<noteq> None")
  case True
  let ?r = "raised i b pos flush (pending_of s i b)"
  have ok: "pendings_ok s" "supported_dialect s" using assms by (simp_all add: pending_env_def)
  have "row_grows r ?r" if "pending_of s i b = Some r" for r
    using that by (simp add: row_grows_def raised_def)
  then show ?thesis
    using pending_store_effect [OF assms, of ?r] raised_admits [OF ok(1) refl True] raised_pk [where s = s and i = i and b = b and pos = pos and flush = flush, OF refl]
      upsert_pending_run [OF ok True, of flush] by simp
next
  case False
  then have "\<not> (\<exists>r \<in> set (pendings s). pe_binding_name r = b \<and> pe_scope_id r = i)"
    using pending_t.lookup_None [of s "(b, i)"] by auto
  with False have "snd (upsert_pending i b pos flush s) = s"
    by (auto simp: upsert_pending_def bind_run sql_upsert_def handle_clash sql_insert_def handle_admits)
  with pending_frame [OF assms] show ?thesis by simp
qed

lemma pending_load_only [simp]: "reads_only (pending_load i b)"
  by (auto simp: pending_load_def intro!: reads_only_andThen)

lemma snd_andThen_reads:
  "reads_only n \<Longrightarrow> snd (andThen m n s) = snd (m s)"
  by (auto simp: andThen_run reads_only_def split: prod.splits sum.splits)

lemma note_source_effect:
  assumes "pending_env s"
  shows "pending_env (snd (note_source i b pos s)) \<and> pendings_kept s (snd (note_source i b pos s))"
  using upsert_pending_effect [OF assms, of i b pos False] pending_frame [OF assms]
  by (auto simp: note_source_def require_position_def andThen_run)

lemma request_flush_effect:
  assumes "pending_env s"
  shows "pending_env (snd (request_flush i b s)) \<and> pendings_kept s (snd (request_flush i b s))"
proof -
  define head where "head = (case List.find (\<lambda>r. jh_scope_id r = i) (journal_heads s) of
     None \<Rightarrow> 0 | Some r \<Rightarrow> jh_position r)"
  have "snd (request_flush i b s) \<in> {s, snd (upsert_pending i b head True s)}"
  proof (cases "valid_key i b")
    case False
    then show ?thesis
      by (auto simp: request_flush_def valid_key_def andThen_run require_identifier_run)
  next
    case True
    obtain res u where res: "cursor_load i b s = (res, u)" by fastforce
    then have "u = s" by (rule reads_onlyD [OF reads_only_cursor_load])
    with res True show ?thesis
      by (cases res)
         (auto simp: request_flush_def valid_key_def andThen_run [of "require_identifier f v m" for f v m]
           bind_run snd_andThen_reads head_def option.case_eq_if map_option_case Let_def)
  qed
  with upsert_pending_effect [OF assms, of i b head True] pending_frame [OF assms] show ?thesis by auto
qed

lemma mark_flush_handled_effect:
  assumes "pending_env s"
  shows "pending_env (snd (mark_flush_handled i b claimed s))
    \<and> pendings_kept s (snd (mark_flush_handled i b claimed s))"
proof (cases "valid_key i b \<and> 0 \<le> claimed")
  case True
  have ok: "pendings_ok s" using assms by (simp add: pending_env_def)
  show ?thesis
  proof (cases "pending_of s i b")
    case None
    with True ok pending_frame [OF assms] show ?thesis by (simp add: mark_flush_handled_run)
  next
    case (Some r)
    have "pending_pk (handled_row claimed r) = (b, i)" "row_grows r (handled_row claimed r)"
      "admits ARTIFACT_PROCESSING_PENDING_TABLE s (handled_row claimed r)"
      using pending_t.lookup_key [OF Some] pending_t.lookup_admits [OF ok Some] True
      by (auto simp: handled_row_def row_grows_def handle_admits)
    with Some True ok show ?thesis
      using pending_store_effect [OF assms, of "handled_row claimed r"] by (simp add: mark_flush_handled_run)
  qed
next
  case False
  then have "snd (mark_flush_handled i b claimed s) = s"
    by (auto simp: mark_flush_handled_def pending_load_def valid_key_def andThen_run bind_run require_identifier_run)
  with pending_frame [OF assms] show ?thesis by simp
qed

lemma delete_if_covered_step_effect:
  assumes "pending_env s" and "case c of None \<Rightarrow> True | Some p \<Rightarrow> p \<le> cursor_position s i b"
  shows "pending_env (snd (delete_if_covered i b c lim s)) \<and> pendings_kept s (snd (delete_if_covered i b c lim s))"
proof -
  have ok: "pendings_ok s" using assms(1) by (simp add: pending_env_def)
  from delete_if_covered_effect [OF ok, where c = c and i = i and b = b and lim = lim]
  consider "snd (delete_if_covered i b c lim s) = s"
    | r where "pending_of s i b = Some r" "removable (cursor_position s i b) r"
        "snd (delete_if_covered i b c lim s) = drop_pending i b s"
    using assms(2) by (auto simp: removable_def split: option.splits)
  then show ?thesis
  proof cases
    case 1
    then show ?thesis using pending_frame [OF assms(1)] by simp
  next
    case (2 r)
    then have "work_done s r"
      using pending_t.lookup_key [OF 2(1)] by (auto simp: work_done_def removable_def)
    moreover have "supported_dialect (drop_pending i b s) = supported_dialect s"
      by (simp add: supported_dialect_def remove_row_def)
    ultimately show ?thesis
      using 2 assms(1) pending_t.table_ok_remove [OF ok]
      by (auto simp: pending_env_def pendings_kept_def pending_t.lookup_remove)
  qed
qed

lemma delete_covered_pending_effect:
  assumes "pending_env s"
  shows "pending_env (snd (delete_covered_pending w b s)) \<and> pendings_kept s (snd (delete_covered_pending w b s))"
proof (cases "valid_identifier w 36 \<and> valid_identifier b MAX_BINDING_NAME_LENGTH")
  case True
  let ?q = "\<lambda>p. pe_binding_name p = b \<and> pe_handled_flush_generation p = pe_flush_generation p
     \<and> covered_by w (wave_targets s) p"
  let ?t = "s\<lparr>pendings := filter (\<lambda>p. \<not> ?q p) (pendings s)\<rparr>"
  have ok: "pendings_ok s" using assms by (simp add: pending_env_def)
  then have "pendings_ok ?t"
    by (auto simp: table_ok_def clash_free_filter handle_admits)
  moreover have "pendings_kept s ?t"
    unfolding pendings_kept_def pending_of_filtered [OF ok] by (auto simp: work_done_def)
  ultimately show ?thesis
    using True assms delete_covered_pending_run [of w b s]
    by (simp add: pending_env_def supported_dialect_def)
next
  case False
  with delete_covered_pending_invalid pending_frame [OF assms] show ?thesis by simp
qed


abbreviation pending_parts :: "db \<Rightarrow> pending_row list \<times> string" where
  "pending_parts s \<equiv> (pendings s, dialect s)"

lemma preserves_pending_parts:
  "preserves (\<lambda>s. pending_parts s = x) (freeze_pending w b)"
  "preserves (\<lambda>s. pending_parts s = x) (mark_completed w i)"
  "preserves (\<lambda>s. pending_parts s = x) clear_all"
  "preserves (\<lambda>s. pending_parts s = x) (clear_wave w)"
  "preserves (\<lambda>s. pending_parts s = x) (cursor_save i b c e)"
  unfolding freeze_pending_def mark_completed_def clear_all_def clear_wave_def
  by (intro preserves_rules preserves_frame preserves_cursor_save_frame; simp)+

lemma pending_frame_op:
  assumes "\<And>x. preserves (\<lambda>s. pending_parts s = x) m" and "pending_env s"
  shows "pending_env (snd (m s)) \<and> pendings_kept s (snd (m s))"
  using pending_frame [OF assms(2), of "snd (m s)"] preservesD [OF assms(1), of s "pending_parts s"] by auto

lemma pending_step_effect: "pending_step s t \<Longrightarrow> pending_env s \<Longrightarrow> pending_env t \<and> pendings_kept s t"
  by (erule pending_stepE)
     (simp_all add: note_source_effect request_flush_effect mark_flush_handled_effect
       delete_if_covered_step_effect delete_covered_pending_effect
       preserves_pending_parts [THEN pending_frame_op])

lemma pending_run_env:
  assumes "pending_env (run 0)"
  shows "\<forall>k < n. pending_step (run k) (run (Suc k)) \<Longrightarrow> pending_env (run n)"
proof (induction n)
  case (Suc n)
  then have "pending_env (run n)" and "pending_step (run n) (run (Suc n))" by simp_all
  then show ?case using pending_step_effect by blast
qed (use assms in simp)

section \<open>Properties\<close>

text \<open>
  C1: pending work is never lost. Take any run, state by state, and a row that is pending at its
  start. Either at the end the row is still there with watermark, flush and handled counters no
  smaller, or there is a step of this very run that deleted it, and in the state before that step
  the row, so grown, had all its flushes handled and its watermark reached by the stored cursor
  or by a completed wave.
\<close>

theorem pending_lost_only_when_done:
  assumes "\<forall>k < n. pending_step (run k) (run (Suc k))" and "pending_env (run 0)" and "pending_of (run 0) i b = Some r"
  shows "(\<exists>r'. pending_of (run n) i b = Some r' \<and> row_grows r r') \<or>
    (\<exists>k < n. \<exists>r'. pending_of (run k) i b = Some r' \<and> row_grows r r' \<and> work_done (run k) r' \<and> pending_of (run (Suc k)) i b = None)"
  using assms(1)
proof (induction n)
  case 0
  show ?case using assms(3) by auto
next
  case (Suc n)
  then consider r' where "pending_of (run n) i b = Some r'" "row_grows r r'"
    | k r' where "k < n" "pending_of (run k) i b = Some r'" "row_grows r r'" "work_done (run k) r'" "pending_of (run (Suc k)) i b = None"
    by auto
  then show ?case
  proof cases
    case (1 r')
    have "pending_env (run n)"
      using pending_run_env [where run = run, OF assms(2), of n] Suc.prems by simp
    then have "pendings_kept (run n) (run (Suc n))"
      using pending_step_effect [of "run n" "run (Suc n)"] Suc.prems by simp
    from pendings_keptD [OF this 1(1)] consider x where "pending_of (run (Suc n)) i b = Some x" "row_grows r' x"
      | "work_done (run n) r'" "pending_of (run (Suc n)) i b = None"
      by (elim disjE exE conjE)
    then show ?thesis
    proof cases
      case (1 x)
      with \<open>row_grows r r'\<close> show ?thesis by (blast intro: row_grows_trans)
    next
      case 2
      with 1 show ?thesis by blast
    qed
  next
    case (2 k r')
    then show ?thesis by (blast intro: less_SucI)
  qed
qed

text \<open>
  Requesting a flush. With nothing beyond the cursor it answers None and changes nothing;
  otherwise the stored row reaches the journal head and carries one more flush, which is
  unhandled. Handling a generation claimed before that request leaves the new flush open.
\<close>

theorem request_flush_opens_a_flush:
  assumes "pending_env s" and "cursors_ok s" and "table_ok SOURCE_JOURNAL_HEADS_TABLE s" and "valid_key i b"
    and "\<forall>r. cursor_of s i b = Some r \<longrightarrow> cu_cursor r \<noteq> Corrupt" and "0 \<le> cursor_position s i b"
    and "head = (case lookup_row SOURCE_JOURNAL_HEADS_TABLE jh_scope_id s i of None \<Rightarrow> 0 | Some h \<Rightarrow> jh_position h)"
  shows "if head \<le> cursor_position s i b then request_flush i b s = (Inr None, s)
    else \<exists>r t. request_flush i b s = (Inr (Some r), t) \<and> pending_of t i b = Some r \<and> head \<le> pe_source_through r
      \<and> pe_flush_generation r = (case pending_of s i b of None \<Rightarrow> 1 | Some old \<Rightarrow> pe_flush_generation old + 1)
      \<and> (\<forall>claimed r' u. claimed < pe_flush_generation r \<longrightarrow> mark_flush_handled i b claimed t = (Inr (Some r'), u)
            \<longrightarrow> pe_handled_flush_generation r' < pe_flush_generation r')"
proof -
  have ok: "pendings_ok s" "supported_dialect s" using assms(1) by (simp_all add: pending_env_def)
  let ?c = "cursor_load i b s"
  obtain x where x: "?c = (Inr x, s)"
    using assms(5) cursor_load_run [OF assms(2), of i b] assms(4)
    by (auto simp: valid_key_def split: option.splits payload.splits)
  have pos: "(case x of None \<Rightarrow> 0 | Some c \<Rightarrow> sc_cursor c) = cursor_position s i b"
    using cursor_load_position [OF x] by simp
  have head: "(case map_option jh_position (List.find (\<lambda>r. jh_scope_id r = i) (journal_heads s)) of
      None \<Rightarrow> 0 | Some h \<Rightarrow> h) = head"
    by (simp add: assms(7) lookup_row_def split: option.split)
  have run: "request_flush i b s = (if head \<le> cursor_position s i b then (Inr None, s)
      else andThen (upsert_pending i b head True) (pending_load i b) s)"
    using assms(4) x pos head
    by (simp add: request_flush_def valid_key_def andThen_run [of "require_identifier f v m" for f v m] bind_run
        Let_def)
  show ?thesis
  proof (cases "head \<le> cursor_position s i b")
    case True
    with run show ?thesis by simp
  next
    case False
    with assms(6) have "1 \<le> head" by simp
    let ?r = "raised i b head True (pending_of s i b)" and ?t = "put_pending (raised i b head True (pending_of s i b)) s"
    have up: "upsert_pending i b head True s = (Inr (), ?t)"
      using upsert_pending_run [OF ok] \<open>1 \<le> head\<close> by simp
    have okt: "pendings_ok ?t"
      using upsert_pending_effect [OF assms(1), of i b head True] up by (simp add: pending_env_def)
    have pk: "pending_pk ?r = (b, i)" by (rule raised_pk) (rule refl)
    then have of_t: "pending_of ?t i b = Some ?r" by (simp add: pending_t.lookup_store)
    have "pe_handled_flush_generation ?r < pe_flush_generation ?r"
      using pending_t.lookup_admits [OF ok(1), of "(b, i)"]
      by (auto simp: raised_def handle_admits split: option.split)
    then have "pe_handled_flush_generation r' < pe_flush_generation r'"
      if "claimed < pe_flush_generation ?r" "mark_flush_handled i b claimed ?t = (Inr (Some r'), u)" for claimed r' u
      using that mark_flush_handled_run(1) [OF okt assms(4), of claimed] of_t
      by (cases "0 \<le> claimed") (auto simp: handled_row_def mark_flush_handled_def andThen_run)
    moreover have "head \<le> pe_source_through ?r"
      "pe_flush_generation ?r = (case pending_of s i b of None \<Rightarrow> 1 | Some old \<Rightarrow> pe_flush_generation old + 1)"
      by (auto simp: raised_def split: option.split)
    ultimately show ?thesis
      using False run up of_t okt assms(4) by (simp add: andThen_run pending_load_run) blast
  qed
qed


abbreviation wave_targets_ok :: "db \<Rightarrow> bool" where
  "wave_targets_ok \<equiv> table_ok ARTIFACT_PROCESSING_AUTO_WAVE_TARGETS_TABLE"

abbreviation target_of :: "db \<Rightarrow> string \<Rightarrow> string \<Rightarrow> string \<Rightarrow> wave_target_row option" where
  "target_of s w b i \<equiv> lookup_row ARTIFACT_PROCESSING_AUTO_WAVE_TARGETS_TABLE wave_target_pk s (w, b, i)"

lemma frozen_targets_clash_free:
  assumes "clash_free ARTIFACT_PROCESSING_AUTO_WAVE_TARGETS_TABLE ts" and "\<forall>x \<in> set ts. wt_wave_id x \<noteq> w"
    and "clash_free ARTIFACT_PROCESSING_PENDING_TABLE ps"
  shows "clash_free ARTIFACT_PROCESSING_AUTO_WAVE_TARGETS_TABLE (ts @ map (frozen_target w) ps)"
proof -
  have "sorted_wrt (\<lambda>x y. \<not> clash ARTIFACT_PROCESSING_AUTO_WAVE_TARGETS_TABLE (frozen_target w x) (frozen_target w y)) ps"
    using assms(3) unfolding clash_free_def
    by (rule sorted_wrt_mono_rel [rotated]) (simp add: handle_clash frozen_target_def)
  with assms(1,2) show ?thesis
    by (auto simp: clash_free_def sorted_wrt_append sorted_wrt_map handle_clash frozen_target_def)
qed

text \<open>
  Freezing a wave is an exact snapshot: on a fresh wave id it succeeds and gives every
  pending scope of the binding one open target with the watermark of that moment, and no
  other scope; the pending rows stay as they are.
\<close>

theorem freeze_pending_snapshot:
  assumes "pendings_ok s" and "wave_targets_ok s" and "valid_identifier w 36"
    and "valid_identifier b MAX_BINDING_NAME_LENGTH" and "\<forall>x \<in> set (wave_targets s). wt_wave_id x \<noteq> w"
  shows "\<exists>t. freeze_pending w b s = (Inr (), t) \<and> pendings t = pendings s \<and> wave_targets_ok t
    \<and> (\<forall>i. target_of t w b i = map_option (frozen_target w) (pending_of s i b))
    \<and> (\<forall>w' b' i. (w', b') \<noteq> (w, b) \<longrightarrow> target_of t w' b' i = target_of s w' b' i)"
proof -
  let ?ps = "filter (\<lambda>r. pe_binding_name r = b) (pendings s)"
  let ?t = "s\<lparr>wave_targets := wave_targets s @ map (frozen_target w) ?ps\<rparr>"
  have cf: "clash_free ARTIFACT_PROCESSING_AUTO_WAVE_TARGETS_TABLE (wave_targets s @ map (frozen_target w) ?ps)"
    using assms(1,2,5) by (intro frozen_targets_clash_free clash_free_filter) (simp_all add: table_ok_def)
  have adm: "\<forall>x \<in> set (map (frozen_target w) ?ps). admits ARTIFACT_PROCESSING_AUTO_WAVE_TARGETS_TABLE s x"
    using assms(1) by (auto simp: table_ok_def handle_admits frozen_target_def)
  have "for_each (map (frozen_target w) ?ps) (sql_insert ARTIFACT_PROCESSING_AUTO_WAVE_TARGETS_TABLE) s = (Inr (), ?t)"
    using wave_targets_t.insert_many_run [of s "map (frozen_target w) ?ps"] cf adm by simp
  then have run: "freeze_pending w b s = (Inr (), ?t)"
    using assms(3,4) by (simp add: freeze_pending_def andThen_run bind_run transaction_run)
  have ok: "wave_targets_ok ?t"
    using cf adm assms(2) by (auto simp: table_ok_def handle_admits)
  have mine: "target_of ?t w b i = map_option (frozen_target w) (pending_of s i b)" for i
  proof -
    have "List.find (\<lambda>r. wave_target_pk r = (w, b, i)) (wave_targets s) = None"
      using assms(5) by (intro find_never) auto
    moreover have "List.find (\<lambda>r. wave_target_pk r = (w, b, i)) (map (frozen_target w) ps) =
        map_option (frozen_target w) (List.find (\<lambda>r. pe_binding_name r = b \<and> pe_scope_id r = i) ps)" for ps
      by (induction ps) (auto simp: frozen_target_def)
    ultimately show ?thesis
      by (simp add: lookup_row_def find_append find_in_filter)
  qed
  have other: "target_of ?t w' b' i = target_of s w' b' i" if "(w', b') \<noteq> (w, b)" for w' b' i
  proof -
    have "List.find (\<lambda>r. wave_target_pk r = (w', b', i)) (map (frozen_target w) ?ps) = None"
      using that by (intro find_never) (auto simp: frozen_target_def)
    then show ?thesis by (simp add: lookup_row_def find_append split: option.split)
  qed
  show ?thesis using run ok mine other by (intro exI [of _ ?t]) simp
qed

lemma covered_by_target:
  assumes "wave_targets_ok s"
  shows "covered_by w (wave_targets s) p \<longleftrightarrow> (\<exists>x. target_of s w (pe_binding_name p) (pe_scope_id p) = Some x
     \<and> wt_completed x \<and> pe_source_through p \<le> wt_source_through x)"
  using wave_targets_t.lookup_iff [OF assms] by (auto simp: covered_by_def)

text \<open>
  The cleanup after a wave removes exactly the pending rows of the binding whose frozen
  target is completed and still covers the watermark, with every flush handled. Work that
  arrived after the snapshot, and open flushes, stay pending.
\<close>

theorem delete_covered_pending_exact:
  assumes "pendings_ok s" and "wave_targets_ok s" and "valid_identifier w 36"
    and "valid_identifier b MAX_BINDING_NAME_LENGTH"
  shows "pending_of (snd (delete_covered_pending w b s)) i b' = (case pending_of s i b' of
      None \<Rightarrow> None
    | Some r \<Rightarrow>
        if b' = b \<and> pe_handled_flush_generation r = pe_flush_generation r
           \<and> (\<exists>x. target_of s w b i = Some x \<and> wt_completed x \<and> pe_source_through r \<le> wt_source_through x)
        then None else Some r)"
proof (cases "pending_of s i b'")
  case None
  then show ?thesis
    unfolding delete_covered_pending_run [OF assms(3,4)] pending_of_filtered [OF assms(1)] by simp
next
  case (Some r)
  then have "pe_binding_name r = b'" "pe_scope_id r = i"
    using pending_t.lookup_key [OF Some] by auto
  with Some show ?thesis
    unfolding delete_covered_pending_run [OF assms(3,4)] pending_of_filtered [OF assms(1)]
      covered_by_target [OF assms(2)]
    by auto
qed


section \<open>Paging\<close>

lemma distinct_pending_pks:
  "clash_free ARTIFACT_PROCESSING_PENDING_TABLE t \<Longrightarrow> distinct (map pending_pk t)"
  by (induction t) (auto simp: clash_free_def handle_clash)

definition pending_list :: "string option \<Rightarrow> db \<Rightarrow> pending_row list" where
  "pending_list bn s = sort_key pending_pk
     (filter (\<lambda>r. case bn of None \<Rightarrow> True | Some b \<Rightarrow> pe_binding_name r = b) (pendings s))"

definition valid_scan :: "string option \<Rightarrow> (string \<times> string) option \<Rightarrow> bool" where
  "valid_scan bn after \<longleftrightarrow> (case bn of None \<Rightarrow> True | Some b \<Rightarrow> valid_identifier b MAX_BINDING_NAME_LENGTH)
     \<and> (case after of None \<Rightarrow> True | Some (b, i) \<Rightarrow> valid_identifier b MAX_BINDING_NAME_LENGTH
          \<and> valid_identifier i MAX_SCOPE_ID_LENGTH)"

lemma pending_scan_run:
  assumes "valid_scan bn after" and "1 \<le> n"
  shows "pending_scan bn after (Some n) s =
    (Inr (take (nat n) (filter (\<lambda>r. case after of None \<Rightarrow> True | Some k \<Rightarrow> k < pending_pk r) (pending_list bn s))), s)"
proof -
  have "filter (\<lambda>r. (case bn of None \<Rightarrow> True | Some b \<Rightarrow> pe_binding_name r = b)
      \<and> (case after of None \<Rightarrow> True
         | Some (b, i) \<Rightarrow> pe_binding_name r > b \<or> (pe_binding_name r = b \<and> pe_scope_id r > i))) t =
    filter (\<lambda>r. case after of None \<Rightarrow> True | Some k \<Rightarrow> k < pending_pk r)
      (filter (\<lambda>r. case bn of None \<Rightarrow> True | Some b \<Rightarrow> pe_binding_name r = b) t)" for t
    by (auto simp: less_prod_def' split: option.split intro!: filter_cong)
  with assms show ?thesis
    by (auto simp: pending_scan_def andThen_run bind_run valid_scan_def pending_list_def filter_sort
        simp del: filter_filter split: option.splits)
qed

text \<open>
  The scan of the pending rows is ordered by binding and scope, and continuing after the
  last row of a page gives exactly the following rows: two pages together are one larger
  page.
\<close>

theorem pending_scan_pages:
  assumes "pendings_ok s" and "valid_scan bn after" and "1 \<le> m" and "1 \<le> n"
    and "pending_scan bn after (Some m) s = (Inr page, s)" and "page \<noteq> []"
    and "valid_scan bn (Some (pending_pk (last page)))"
  shows "\<exists>next. pending_scan bn (Some (pending_pk (last page))) (Some n) s = (Inr next, s)
    \<and> pending_scan bn after (Some (m + n)) s = (Inr (page @ next), s)
    \<and> sorted_wrt (\<lambda>x y. pending_pk x < pending_pk y) (page @ next)"
proof -
  let ?p = "\<lambda>r. case after of None \<Rightarrow> True | Some k \<Rightarrow> k < pending_pk r"
  let ?all = "filter ?p (pending_list bn s)"
  have "distinct (map pending_pk (filter (\<lambda>r. case bn of None \<Rightarrow> True | Some b \<Rightarrow> pe_binding_name r = b) (pendings s)))"
    using assms(1) by (intro distinct_map_filter distinct_pending_pks) (simp add: table_ok_def)
  then have "sorted_wrt (\<lambda>x y. pending_pk x < pending_pk y) (pending_list bn s)"
    unfolding pending_list_def by (rule sorted_key_distinct)
  then have sorted: "sorted_wrt (\<lambda>x y. pending_pk x < pending_pk y) ?all"
    by (rule sorted_wrt_filter)
  have page: "page = take (nat m) ?all"
    using assms(5) pending_scan_run [OF assms(2,3)] by simp
  have "last page \<in> set page" using assms(6) by simp
  then have "last page \<in> set ?all" unfolding page by (rule in_set_takeD)
  then have "?p (last page)" by simp
  then have "filter (\<lambda>r. pending_pk (last page) < pending_pk r) ?all =
    filter (\<lambda>r. pending_pk (last page) < pending_pk r) (pending_list bn s)"
    using filter_after [of _ pending_pk "last page" "pending_list bn s"]
    by (cases after) (simp_all del: filter_filter less_prod_simp)
  moreover have "take (nat m + nat n) ?all = page @
      take (nat n) (filter (\<lambda>r. pending_pk (last page) < pending_pk r) ?all)"
    using keyset_page [OF sorted, of "nat m" "nat n"] page assms(6) by simp
  ultimately show ?thesis
    using pending_scan_run [OF assms(7,4), of s] pending_scan_run [OF assms(2), of "m + n" s] assms(3,4)
      sorted_wrt_take [OF sorted, of "nat m + nat n"]
    by (simp add: nat_add_distrib)
qed


section \<open>Examples\<close>

definition example_row :: pending_row where
  "example_row = \<lparr>pe_binding_name = ''memory'', pe_scope_id = ''scope'', pe_source_through = 5,
     pe_flush_generation = 1, pe_handled_flush_generation = 1\<rparr>"

definition example_pending :: db where
  "example_pending = (empty_db ''sqlite'' int)\<lparr>pendings := [example_row],
     journal_heads := [\<lparr>jh_scope_id = ''scope'', jh_position = 7\<rparr>]\<rparr>"

lemma example_pending_facts:
  "pending_env example_pending" "pendings_ok example_pending" "wave_targets_ok example_pending"
  "cursors_ok example_pending" "table_ok SOURCE_JOURNAL_HEADS_TABLE example_pending"
  "pending_of example_pending ''scope'' ''memory'' = Some example_row"
  "cursor_position example_pending ''scope'' ''memory'' = 0"
  "wave_targets example_pending = []"
  by (simp_all add: example_pending_def example_row_def pending_env_def table_ok_def clash_free_def
      handle_admits supported_dialect_def empty_db_def lookup_row_def cursor_position_def cursor_of_def)

lemma example_wave: "valid_identifier ''wave'' 36"
  by code_simp

text \<open>A run in which the cursor reaches the watermark and the row is deleted.\<close>

definition example_run :: "nat \<Rightarrow> db" where
  "example_run k = (case k of
     0 \<Rightarrow> example_pending
   | Suc 0 \<Rightarrow> snd (cursor_save ''scope'' ''memory'' 5 None example_pending)
   | _ \<Rightarrow> snd (delete_if_covered ''scope'' ''memory'' None None (snd (cursor_save ''scope'' ''memory'' 5 None example_pending))))"

theorem pending_lost_only_when_done_witness:
  "pending_of (example_run 2) ''scope'' ''memory'' = None
   \<and> (\<exists>k < 2. \<exists>r'. pending_of (example_run k) ''scope'' ''memory'' = Some r' \<and> row_grows example_row r'
        \<and> work_done (example_run k) r' \<and> pending_of (example_run (Suc k)) ''scope'' ''memory'' = None)"
proof -
  have gone: "pending_of (example_run 2) ''scope'' ''memory'' = None" by code_simp
  have "pending_step (example_run 0) (example_run (Suc 0))" "pending_step (example_run 1) (example_run (Suc 1))"
    unfolding example_run_def by (simp_all, rule step_cursor_save, rule step_delete_if_covered, simp)
  then have steps: "\<forall>k < 2. pending_step (example_run k) (example_run (Suc k))"
    by (auto simp: less_2_cases_iff)
  have start: "example_run 0 = example_pending" by (simp add: example_run_def)
  from pending_lost_only_when_done [OF steps, unfolded start, OF example_pending_facts(1,6)] gone show ?thesis by auto
qed

theorem request_flush_opens_a_flush_witness:
  "\<exists>r t. request_flush ''scope'' ''memory'' example_pending = (Inr (Some r), t)
     \<and> 7 \<le> pe_source_through r \<and> pe_flush_generation r = 2"
proof -
  have corrupt: "\<forall>r. cursor_of example_pending ''scope'' ''memory'' = Some r \<longrightarrow> cu_cursor r \<noteq> Corrupt"
    by (simp add: cursor_of_def example_pending_def empty_db_def)
  have head: "(7::int) = (case lookup_row SOURCE_JOURNAL_HEADS_TABLE jh_scope_id example_pending ''scope'' of
      None \<Rightarrow> 0 | Some h \<Rightarrow> jh_position h)"
    by (simp add: lookup_row_def example_pending_def)
  have pos: "0 \<le> cursor_position example_pending ''scope'' ''memory''"
    by (simp add: example_pending_facts)
  from request_flush_opens_a_flush [OF example_pending_facts(1,4,5) valid_keys_example(1) corrupt pos head]
  show ?thesis by (auto simp: example_pending_facts example_row_def)
qed

theorem freeze_pending_snapshot_witness:
  "\<exists>t. freeze_pending ''wave'' ''memory'' example_pending = (Inr (), t)
     \<and> target_of t ''wave'' ''memory'' ''scope'' = Some (frozen_target ''wave'' example_row)"
proof -
  have fresh: "\<forall>x \<in> set (wave_targets example_pending). wt_wave_id x \<noteq> ''wave''"
    by (simp add: example_pending_facts)
  from freeze_pending_snapshot [OF example_pending_facts(2,3) example_wave example_identifiers(3) fresh]
  show ?thesis by (auto simp: example_pending_facts)
qed

theorem delete_covered_pending_exact_witness:
  "pending_of (snd (delete_covered_pending ''wave'' ''memory'' example_pending)) ''scope'' ''memory'' = Some example_row"
  using delete_covered_pending_exact [OF example_pending_facts(2,3) example_wave example_identifiers(3),
      where i = "''scope''" and b' = "''memory''"] example_pending_facts(8)
  by (simp add: example_pending_facts(6)) (simp add: lookup_row_def)

theorem pending_scan_pages_witness:
  "\<exists>next. pending_scan None (Some (''memory'', ''scope'')) (Some 3) example_pending = (Inr next, example_pending)
     \<and> pending_scan None None (Some 4) example_pending = (Inr (example_row # next), example_pending)"
proof -
  have page: "pending_scan None None (Some 1) example_pending = (Inr [example_row], example_pending)"
    using pending_scan_run [of None None 1 example_pending]
    by (simp add: valid_scan_def pending_list_def example_pending_def)
  have v: "valid_scan None None" "valid_scan None (Some (pending_pk (last [example_row])))"
    using valid_keys_example(1) by (simp_all add: valid_scan_def example_row_def valid_key_def)
  from pending_scan_pages [OF example_pending_facts(2) v(1) _ _ page _ v(2), of 3] show ?thesis
    by (auto simp: example_row_def)
qed

end
