(* ===== verification/Recovery.thy ===== *)
theory Recovery
  imports Work_Budget Pending
begin

text \<open>
  Observing and retrying an exhausted frontier, from
  \<^verbatim>\<open>src/src/powercontext/builtin/persistence/topic_memory_recovery.py\<close>.

  A block row records that a frontier stopped; it carries the fields of
  \<^verbatim>\<open>TopicMemoryWorkBlock\<close>, so it also stands for that class. The \<^verbatim>\<open>uuid4\<close> of a new
  block is an argument. A retry grants a new allowance: it deletes the budget row, asks
  for a flush and an invocation, and keeps the block as an audit record.

  The lemmas show that observation and retry are idempotent, that a running attempt is
  not blocked, and what a retry leaves behind.
\<close>

definition block_of_attempt :: "string \<Rightarrow> string \<Rightarrow> int \<Rightarrow> string \<Rightarrow> block_row \<Rightarrow> bool" where
  "block_of_attempt scope_id binding_name after attempt_id r \<longleftrightarrow> bl_scope_id r = scope_id
     \<and> bl_binding_name r = binding_name \<and> bl_source_after r = after \<and> bl_attempt_id r = attempt_id"

definition block_key :: "string \<Rightarrow> string \<Rightarrow> string \<Rightarrow> block_row \<Rightarrow> bool" where
  "block_key scope_id binding_name block_id r \<longleftrightarrow> bl_block_id r = block_id
     \<and> bl_scope_id r = scope_id \<and> bl_binding_name r = binding_name"

definition get_topic_memory_block :: "string \<Rightarrow> string \<Rightarrow> string \<Rightarrow> (db, block_row) exec" where
  "get_topic_memory_block scope_id binding_name block_id =
     bind (sql_one_or_none TOPIC_MEMORY_WORK_BLOCKS_TABLE (block_key scope_id binding_name block_id)) (\<lambda>row.
     case row of None \<Rightarrow> raise TopicMemoryBlockNotFound | Some r \<Rightarrow> return r)"

definition new_block :: "string \<Rightarrow> budget_row \<Rightarrow> int \<Rightarrow> string \<Rightarrow> int \<Rightarrow> block_row" where
  "new_block block_id row through reason now =
     \<lparr>bl_block_id = block_id, bl_attempt_id = bu_attempt_id row, bl_scope_id = bu_scope_id row,
      bl_binding_name = bu_binding_name row, bl_source_after = bu_source_after row,
      bl_source_through = bu_attempt_source_through row, bl_budget_source_through = Some (bu_source_through row),
      bl_legacy_source_through = None, bl_target_source_through = through, bl_attempts = bu_attempts row,
      bl_requests = bu_requests row, bl_tokens = bu_tokens row, bl_last_error_code = bu_last_error_code row,
      bl_error_code = reason, bl_blocked_at = now, bl_retried_at = None, bl_retry_request_generation = None\<rparr>"

definition attempt_open :: "budget_row \<Rightarrow> bool" where
  "attempt_open row \<longleftrightarrow> bu_started_at row \<noteq> None \<and> bu_finished_at row = None"

text \<open>The lease of the term an attempt recorded; a legacy row may have recorded none.\<close>

definition attempt_lease :: "budget_row \<Rightarrow> (db, lease_row option) exec" where
  "attempt_lease row = (case bu_supervisor_group row of
     None \<Rightarrow> raise (InvalidRepositoryArgument ''supervisor_group'' ''must be a non-empty trimmed string'')
   | Some g \<Rightarrow> lease_load g)"

definition lease_live :: "budget_row \<Rightarrow> int \<Rightarrow> lease_row option \<Rightarrow> bool" where
  "lease_live row now lease = (case lease of
     None \<Rightarrow> False
   | Some l \<Rightarrow> Some (le_holder_id l) = bu_holder_id row
       \<and> Some (le_supervisor_generation l) = bu_supervisor_generation row
       \<and> (case le_lease_expires_at l of None \<Rightarrow> True | Some e \<Rightarrow> e > now))"

definition frontier_of :: "string \<Rightarrow> string \<Rightarrow> (db, int \<times> budget_row option) exec" where
  "frontier_of scope_id binding_name =
     bind (cursor_load scope_id binding_name) (\<lambda>cursor.
     let after = (case cursor of None \<Rightarrow> 0 | Some c \<Rightarrow> sc_cursor c) in
     bind (load_topic_memory_work_budget scope_id binding_name after) (\<lambda>row. return (after, row)))"

definition observe_topic_memory_block ::
  "string \<Rightarrow> string \<Rightarrow> bool \<Rightarrow> string \<Rightarrow> (db, block_row option) exec" where
  "observe_topic_memory_block scope_id binding_name worker_stopped block_id =
     bind (frontier_of scope_id binding_name) (\<lambda>(_, observed).
     case observed of
       None \<Rightarrow> return None
     | Some observed_attempt \<Rightarrow>
       if exhausted_reason observed_attempt = [] then return None
       else
       bind (if \<not> worker_stopped \<and> attempt_open observed_attempt
             then attempt_lease observed_attempt else return None) (\<lambda>lease.
       bind (frontier_of scope_id binding_name) (\<lambda>(after, row').
       case row' of
         None \<Rightarrow> return None
       | Some row \<Rightarrow>
         if exhausted_reason row = [] then return None
         else
         bind (sql_scalar TOPIC_MEMORY_PROCESSING_TARGETS_TABLE
                 (\<lambda>r. tt_scope_id r = scope_id \<and> tt_binding_name r = binding_name) tt_source_through) (\<lambda>target.
         bind (sql_scalar SOURCE_JOURNAL_HEADS_TABLE (\<lambda>r. jh_scope_id r = scope_id) jh_position) (\<lambda>head.
         case (case target of None \<Rightarrow> head | Some t \<Rightarrow> Some t) of
           None \<Rightarrow> return None
         | Some through \<Rightarrow>
           if through \<le> after then return None
           else
           bind (sql_one_or_none TOPIC_MEMORY_WORK_BLOCKS_TABLE
                   (block_of_attempt scope_id binding_name after (bu_attempt_id row))) (\<lambda>existing.
           case existing of
             Some e \<Rightarrow> return (Some e)
           | None \<Rightarrow>
             bind (if \<not> worker_stopped \<and> attempt_open row
                   then if bu_attempt_id observed_attempt \<noteq> bu_attempt_id row then return True
                        else bind database_utc_now (\<lambda>now. return (lease_live row now lease))
                   else return False) (\<lambda>still_running.
             if still_running then return None
             else
             bind database_utc_now (\<lambda>now.
             andThen (sql_insert TOPIC_MEMORY_WORK_BLOCKS_TABLE
                        (new_block block_id row through (exhausted_reason row) now))
            (bind (get_topic_memory_block scope_id binding_name block_id) (\<lambda>b. return (Some b)))))))))))"

definition retry_topic_memory_block :: "string \<Rightarrow> string \<Rightarrow> string \<Rightarrow> (db, block_row) exec" where
  "retry_topic_memory_block scope_id binding_name block_id =
     bind (get_topic_memory_block scope_id binding_name block_id) (\<lambda>first.
     if bl_retried_at first \<noteq> None then return first
     else
     bind (get_topic_memory_block scope_id binding_name block_id) (\<lambda>block.
     if bl_retried_at block \<noteq> None then return block
     else
     bind (frontier_of scope_id binding_name) (\<lambda>(after, row').
     case row' of
       None \<Rightarrow> raise TopicMemoryBlockConflict
     | Some row \<Rightarrow>
       if after \<noteq> bl_source_after block \<or> bu_attempt_id row \<noteq> bl_attempt_id block
          \<or> exhausted_reason row \<noteq> bl_error_code block
       then raise TopicMemoryBlockConflict
       else
       andThen (sql_delete TOPIC_MEMORY_WORK_BUDGETS_TABLE
                  (\<lambda>r. budget_key scope_id binding_name after r \<and> bu_attempt_id r = bl_attempt_id block))
      (bind (request_flush scope_id binding_name) (\<lambda>pending.
       case pending of
         None \<Rightarrow> raise TopicMemoryBlockConflict
       | Some _ \<Rightarrow>
         bind (intent_request scope_id binding_name) (\<lambda>intent.
         bind database_utc_now (\<lambda>now.
         andThen (sql_update TOPIC_MEMORY_WORK_BLOCKS_TABLE (\<lambda>r. bl_block_id r = block_id)
                    (\<lambda>r. r\<lparr>bl_retried_at := Some now,
                           bl_retry_request_generation := Some (in_requested_generation intent)\<rparr>))
           (get_topic_memory_block scope_id binding_name block_id))))))))"

section \<open>Looking things up\<close>

abbreviation blocks_ok :: "db \<Rightarrow> bool" where
  "blocks_ok \<equiv> table_ok TOPIC_MEMORY_WORK_BLOCKS_TABLE"

abbreviation block_at :: "db \<Rightarrow> string \<Rightarrow> string \<Rightarrow> string \<Rightarrow> block_row option" where
  "block_at s i b bid \<equiv> List.find (block_key i b bid) (blocks s)"

abbreviation attempt_block :: "db \<Rightarrow> string \<Rightarrow> string \<Rightarrow> int \<Rightarrow> string \<Rightarrow> block_row option" where
  "attempt_block s i b a att \<equiv> List.find (block_of_attempt i b a att) (blocks s)"

lemma get_block_run:
  "blocks_ok s \<Longrightarrow> get_topic_memory_block i b bid s =
     (case block_at s i b bid of None \<Rightarrow> (Inl TopicMemoryBlockNotFound, s) | Some r \<Rightarrow> (Inr r, s))"
  unfolding get_topic_memory_block_def bind_run
  by (subst blocks_t.one_or_none_run) (auto simp: block_key_def handle_clash split: option.split)

lemma attempt_block_run:
  "blocks_ok s \<Longrightarrow> sql_one_or_none TOPIC_MEMORY_WORK_BLOCKS_TABLE (block_of_attempt i b a att) s =
     (Inr (attempt_block s i b a att), s)"
  by (subst blocks_t.one_or_none_run) (auto simp: block_of_attempt_def handle_clash)

text \<open>The cursor of the frontier can be read.\<close>

definition frontier_readable :: "db \<Rightarrow> string \<Rightarrow> string \<Rightarrow> bool" where
  "frontier_readable s i b \<longleftrightarrow> cursors_ok s \<and> budgets_ok s \<and> valid_key i b
     \<and> (\<forall>r. cursor_of s i b = Some r \<longrightarrow> cu_cursor r \<noteq> Corrupt)"

lemma cursor_load_readable:
  assumes "frontier_readable s i b"
  shows "\<exists>x. cursor_load i b s = (Inr x, s) \<and> (case x of None \<Rightarrow> 0 | Some c \<Rightarrow> sc_cursor c) = cursor_position s i b"
proof -
  obtain x where "cursor_load i b s = (Inr x, s)"
    using assms cursor_load_run [of s i b]
    by (auto simp: frontier_readable_def valid_key_def split: option.splits payload.splits)
  with cursor_load_position show ?thesis by blast
qed

lemma frontier_run:
  assumes "frontier_readable s i b"
  shows "frontier_of i b s = (Inr (cursor_position s i b, budget_of s i b (cursor_position s i b)), s)"
proof -
  obtain x where x: "cursor_load i b s = (Inr x, s)"
      "(case x of None \<Rightarrow> 0 | Some c \<Rightarrow> sc_cursor c) = cursor_position s i b"
    using cursor_load_readable [OF assms] by blast
  have "budgets_ok s" using assms by (simp add: frontier_readable_def)
  with x show ?thesis by (simp add: frontier_of_def bind_run Let_def load_budget_run)
qed

lemma frontier_readable_frame:
  "cursors t = cursors s \<Longrightarrow> budgets t = budgets s \<Longrightarrow> frontier_readable t i b = frontier_readable s i b"
  "cursors t = cursors s \<Longrightarrow> cursor_position t i b = cursor_position s i b"
  by (simp_all add: frontier_readable_def table_ok_def handle_admits cursor_of_def cursor_position_def)

section \<open>Observation\<close>

definition observed_through :: "db \<Rightarrow> string \<Rightarrow> string \<Rightarrow> int option" where
  "observed_through s i b =
     (case map_option tt_source_through (List.find (\<lambda>r. tt_scope_id r = i \<and> tt_binding_name r = b) (topic_targets s)) of
        None \<Rightarrow> map_option jh_position (List.find (\<lambda>r. jh_scope_id r = i) (journal_heads s))
      | Some t \<Rightarrow> Some t)"

text \<open>The frontier is exhausted with work left: what an observation may block.\<close>

definition blockable :: "db \<Rightarrow> string \<Rightarrow> string \<Rightarrow> budget_row \<Rightarrow> int \<Rightarrow> bool" where
  "blockable s i b row through \<longleftrightarrow> budget_of s i b (cursor_position s i b) = Some row
     \<and> exhausted_reason row \<noteq> [] \<and> observed_through s i b = Some through \<and> cursor_position s i b < through"

definition term_readable :: "db \<Rightarrow> string \<Rightarrow> string \<Rightarrow> bool" where
  "term_readable s i b \<longleftrightarrow> leases_ok s \<and> (\<forall>row. budget_of s i b (cursor_position s i b) = Some row \<longrightarrow>
     attempt_open row \<longrightarrow> (\<exists>g. bu_supervisor_group row = Some g \<and> valid_identifier g 64))"

definition recorded_lease :: "db \<Rightarrow> budget_row \<Rightarrow> lease_row option" where
  "recorded_lease s row = (case bu_supervisor_group row of None \<Rightarrow> None | Some g \<Rightarrow> lease_of s g)"

definition still_running :: "db \<Rightarrow> bool \<Rightarrow> budget_row \<Rightarrow> bool" where
  "still_running s worker_stopped row \<longleftrightarrow> \<not> worker_stopped \<and> attempt_open row
     \<and> lease_live row (db_now s) (recorded_lease s row)"

lemma observe_not_blockable:
  assumes "frontier_readable s i b" and "term_readable s i b" and "\<nexists>row th. blockable s i b row th"
  shows "observe_topic_memory_block i b ws bid s = (Inr None, s)"
proof (cases "budget_of s i b (cursor_position s i b)")
  case None
  with assms(1) show ?thesis
    by (simp add: observe_topic_memory_block_def bind_run frontier_run)
next
  case (Some row)
  have lease: "\<exists>x. (if \<not> ws \<and> attempt_open row then attempt_lease row else return None) s = (Inr x, s)"
    using assms(2) Some by (auto simp: term_readable_def attempt_lease_def lease_load_run)
  then obtain x where x: "(if \<not> ws \<and> attempt_open row then attempt_lease row else return None) s = (Inr x, s)" by blast
  show ?thesis
  proof (cases "observed_through s i b")
    case None
    with Some x assms(1) show ?thesis
      by (simp add: observe_topic_memory_block_def bind_run frontier_run observed_through_def)
  next
    case th: (Some th)
    with Some x assms(1,3) show ?thesis
      by (simp add: observe_topic_memory_block_def bind_run frontier_run observed_through_def blockable_def)
         (auto split: option.splits)
  qed
qed

lemma observe_blockable:
  assumes "frontier_readable s i b" and "term_readable s i b" and "blocks_ok s" and "blockable s i b row th"
  shows "observe_topic_memory_block i b ws bid s =
    (case attempt_block s i b (cursor_position s i b) (bu_attempt_id row) of
       Some e \<Rightarrow> (Inr (Some e), s)
     | None \<Rightarrow>
         if still_running s ws row then (Inr None, tick s)
         else bind database_utc_now (\<lambda>now.
                andThen (sql_insert TOPIC_MEMORY_WORK_BLOCKS_TABLE
                           (new_block bid row th (exhausted_reason row) now))
               (bind (get_topic_memory_block i b bid) (\<lambda>b. return (Some b))))
              (if \<not> ws \<and> attempt_open row then tick s else s))"
proof -
  have row: "budget_of s i b (cursor_position s i b) = Some row" "exhausted_reason row \<noteq> []"
    and th: "observed_through s i b = Some th" "\<not> th \<le> cursor_position s i b"
    using assms(4) by (simp_all add: blockable_def)
  have lease: "(if \<not> ws \<and> attempt_open row then attempt_lease row else return None) s =
      (Inr (if \<not> ws \<and> attempt_open row then recorded_lease s row else None), s)"
    using assms(2) row by (auto simp: term_readable_def attempt_lease_def lease_load_run recorded_lease_def)
  have th': "(case map_option tt_source_through (List.find (\<lambda>r. tt_scope_id r = i \<and> tt_binding_name r = b) (topic_targets s)) of
        None \<Rightarrow> map_option jh_position (List.find (\<lambda>r. jh_scope_id r = i) (journal_heads s))
      | Some t \<Rightarrow> Some t) = Some th"
    using th(1) by (simp add: observed_through_def)
  show ?thesis
    using row th(2) th' lease assms(1,3)
    by (simp add: observe_topic_memory_block_def bind_run frontier_run attempt_block_run)
       (auto simp: still_running_def bind_run split: option.split)
qed

lemma observation_frame:
  assumes "cursors t = cursors s" and "budgets t = budgets s" and "topic_targets t = topic_targets s"
    and "journal_heads t = journal_heads s" and "leases t = leases s"
  shows "frontier_readable t i b = frontier_readable s i b" "term_readable t i b = term_readable s i b"
    "blockable t i b = blockable s i b" "cursor_position t i b = cursor_position s i b"
proof -
  show pos: "cursor_position t i b = cursor_position s i b"
    using assms(1) by (rule frontier_readable_frame(2))
  have row: "budget_of t x y z = budget_of s x y z" for x y z
    using assms(2) by (simp add: lookup_row_def)
  show "frontier_readable t i b = frontier_readable s i b"
    using assms(1,2) by (rule frontier_readable_frame(1))
  have "leases_ok t = leases_ok s"
    using assms(5) by (simp add: table_ok_def handle_admits)
  then show "term_readable t i b = term_readable s i b"
    by (simp add: term_readable_def pos row)
  have "observed_through t i b = observed_through s i b"
    unfolding observed_through_def assms(3,4) ..
  then show "blockable t i b = blockable s i b"
    by (intro ext) (simp add: blockable_def pos row)
qed

lemma new_block_created:
  assumes "blocks_ok u" and "budget_pk row = (i, b, a)"
    and "bind database_utc_now (\<lambda>now. andThen (sql_insert TOPIC_MEMORY_WORK_BLOCKS_TABLE
           (new_block bid row th reason now)) (bind (get_topic_memory_block i b bid) (\<lambda>b. return (Some b)))) u =
         (Inr (Some bl), t)"
  shows "bl = new_block bid row th reason (db_now u)" "t = (tick u)\<lparr>blocks := blocks u @ [bl]\<rparr>" "blocks_ok t"
proof -
  let ?new = "new_block bid row th reason (db_now u)"
  have ok: "blocks_ok (tick u)" using assms(1) by (simp add: table_ok_def handle_admits)
  let ?t = "(tick u)\<lparr>blocks := blocks u @ [?new]\<rparr>"
  from assms(3) have "fst (sql_insert TOPIC_MEMORY_WORK_BLOCKS_TABLE ?new (tick u)) \<noteq> Inl IntegrityError"
    by (auto simp: bind_run andThen_run split: prod.splits sum.splits)
  then have ins: "sql_insert TOPIC_MEMORY_WORK_BLOCKS_TABLE ?new (tick u) = (Inr (), ?t)"
    and fresh: "\<forall>r \<in> set (blocks u). \<not> clash TOPIC_MEMORY_WORK_BLOCKS_TABLE ?new r"
    by (cases rule: blocks_t.insert_cases [of ?new "tick u"]; simp)+
  have okt: "blocks_ok ?t"
    using blocks_t.table_ok_insert [OF ok, of ?new] ins by simp
  have "block_at u i b bid = None"
    using fresh by (intro find_never) (auto simp: handle_clash block_key_def new_block_def)
  then have "block_at ?t i b bid = Some ?new"
    using assms(2) by (simp add: find_append block_key_def new_block_def)
  with ins assms(3) okt show "bl = ?new" "t = (tick u)\<lparr>blocks := blocks u @ [bl]\<rparr>" "blocks_ok t"
    by (auto simp: bind_run andThen_run get_block_run)
qed

section \<open>Properties of observation\<close>

text \<open>
  Observing a stopped frontier is idempotent and never blocks a running attempt. A block
  that an observation returns belongs to the current attempt; it was recorded before, or
  it is recorded now for an attempt that is not running under a live lease. Observing
  again, as worker or as status reader, returns the same block and changes nothing.
\<close>

theorem observe_block_idempotent:
  assumes "frontier_readable s i b" and "term_readable s i b" and "blocks_ok s"
    and "observe_topic_memory_block i b ws bid s = (Inr (Some bl), t)"
  shows "observe_topic_memory_block i b ws' bid' t = (Inr (Some bl), t)
    \<and> (\<exists>row th. blockable s i b row th \<and> bl_attempt_id bl = bu_attempt_id row
         \<and> (t = s \<and> bl \<in> set (blocks s)
            \<or> blocks t = blocks s @ [bl] \<and> \<not> still_running s ws row
              \<and> bl_error_code bl = exhausted_reason row \<and> bl_retried_at bl = None))"
proof -
  obtain row th where bk: "blockable s i b row th"
    using observe_not_blockable [OF assms(1,2), of ws bid] assms(4) by (auto simp del: split_paired_Ex)
  let ?a = "cursor_position s i b"
  note run = observe_blockable [OF assms(1-3) bk]
  have pk: "budget_pk row = (i, b, ?a)"
    using bk budgets_t.lookup_key [of s "(i, b, ?a)" row] by (simp add: blockable_def)
  show ?thesis
  proof (cases "attempt_block s i b ?a (bu_attempt_id row)")
    case (Some e)
    then have e: "e \<in> set (blocks s)" "bl_attempt_id e = bu_attempt_id row"
      using find_SomeD [OF Some] by (simp_all add: block_of_attempt_def)
    from Some run [of ws bid] assms(4) have "bl = e" "t = s" by auto
    with Some run [of ws' bid'] e bk show ?thesis by auto
  next
    case None
    let ?u = "if \<not> ws \<and> attempt_open row then tick s else s"
    have nr: "\<not> still_running s ws row" using None run [of ws bid] assms(4) by (auto split: if_splits)
    have "blocks_ok ?u" using assms(3) by (simp add: table_ok_def handle_admits)
    note new = new_block_created [OF this pk, of bid th "exhausted_reason row" bl t]
    have bl: "bl = new_block bid row th (exhausted_reason row) (db_now ?u)"
      "t = (tick ?u)\<lparr>blocks := blocks ?u @ [bl]\<rparr>" "blocks_ok t"
      using new None nr run [of ws bid] assms(4) by simp_all
    have "frontier_readable t i b" "term_readable t i b" "blockable t i b row th" "cursor_position t i b = ?a"
      using observation_frame [of t s i b] bl(2) assms(1,2) bk by simp_all
    note run_t = observe_blockable [OF this(1,2) bl(3) this(3)] and pos_t = this(4)
    have blocks_t: "blocks t = blocks s @ [bl]" using bl(2) by simp
    have "block_of_attempt i b ?a (bu_attempt_id row) bl"
      using pk by (simp add: bl(1) new_block_def block_of_attempt_def)
    then have "attempt_block t i b (cursor_position t i b) (bu_attempt_id row) = Some bl"
      using None by (simp add: blocks_t find_append pos_t)
    with run_t [of ws' bid'] blocks_t nr bk show ?thesis
      by (auto simp: bl(1) new_block_def)
  qed
qed

section \<open>Retry\<close>

text \<open>What the retry relies on: the constraints of the tables it touches, and readable inputs.\<close>

definition retry_env :: "db \<Rightarrow> string \<Rightarrow> string \<Rightarrow> bool" where
  "retry_env s i b \<longleftrightarrow> frontier_readable s i b \<and> blocks_ok s \<and> pending_env s \<and> intents_env s
     \<and> table_ok SOURCE_JOURNAL_HEADS_TABLE s \<and> 0 \<le> cursor_position s i b"

definition journal_head :: "db \<Rightarrow> string \<Rightarrow> int" where
  "journal_head s i = (case lookup_row SOURCE_JOURNAL_HEADS_TABLE jh_scope_id s i of None \<Rightarrow> 0 | Some h \<Rightarrow> jh_position h)"

lemma request_flush_run:
  assumes "frontier_readable s i b" and "pending_env s" and "table_ok SOURCE_JOURNAL_HEADS_TABLE s"
    and "0 \<le> cursor_position s i b"
  shows "request_flush i b s = (if journal_head s i \<le> cursor_position s i b then (Inr None, s)
    else (Inr (Some (raised i b (journal_head s i) True (pending_of s i b))),
          put_pending (raised i b (journal_head s i) True (pending_of s i b)) s))"
proof -
  have ok: "pendings_ok s" "supported_dialect s" and vk: "valid_key i b"
    using assms(1,2) by (simp_all add: pending_env_def frontier_readable_def)
  obtain x where x: "cursor_load i b s = (Inr x, s)"
      "(case x of None \<Rightarrow> 0 | Some c \<Rightarrow> sc_cursor c) = cursor_position s i b"
    using cursor_load_readable [OF assms(1)] by blast
  have head: "(case map_option jh_position (List.find (\<lambda>r. jh_scope_id r = i) (journal_heads s)) of
      None \<Rightarrow> 0 | Some h \<Rightarrow> h) = journal_head s i"
    by (simp add: journal_head_def lookup_row_def split: option.split)
  have run: "request_flush i b s = (if journal_head s i \<le> cursor_position s i b then (Inr None, s)
      else andThen (upsert_pending i b (journal_head s i) True) (pending_load i b) s)"
    using vk x head
    by (simp add: request_flush_def valid_key_def andThen_run [of "require_identifier f v m" for f v m] bind_run Let_def)
  show ?thesis
  proof (cases "journal_head s i \<le> cursor_position s i b")
    case False
    let ?r = "raised i b (journal_head s i) True (pending_of s i b)"
    have up: "upsert_pending i b (journal_head s i) True s = (Inr (), put_pending ?r s)"
      using False assms(4) by (intro upsert_pending_run [OF ok]) simp
    have "pendings_ok (put_pending ?r s)"
      using upsert_pending_effect [OF assms(2), of i b "journal_head s i" True] up by (simp add: pending_env_def)
    moreover have "pending_pk ?r = (b, i)" by (rule raised_pk) (rule refl)
    ultimately show ?thesis
      using False run up vk by (simp add: andThen_run pending_load_run pending_t.lookup_store)
  qed (simp add: run)
qed

text \<open>The block is current: it still describes the frontier.\<close>

definition block_current :: "db \<Rightarrow> string \<Rightarrow> string \<Rightarrow> block_row \<Rightarrow> bool" where
  "block_current s i b bl \<longleftrightarrow> cursor_position s i b = bl_source_after bl
     \<and> (\<exists>row. budget_of s i b (bl_source_after bl) = Some row \<and> bu_attempt_id row = bl_attempt_id bl
          \<and> exhausted_reason row = bl_error_code bl)"

definition freed :: "db \<Rightarrow> string \<Rightarrow> string \<Rightarrow> db" where
  "freed s i b = remove_row TOPIC_MEMORY_WORK_BUDGETS_TABLE budget_pk (i, b, cursor_position s i b) s"

lemma freed_fields [simp]:
  "cursors (freed s i b) = cursors s" "pendings (freed s i b) = pendings s" "intents (freed s i b) = intents s"
  "sequences (freed s i b) = sequences s" "binding_states (freed s i b) = binding_states s"
  "dialect (freed s i b) = dialect s" "blocks (freed s i b) = blocks s" "journal_heads (freed s i b) = journal_heads s"
  by (simp_all add: freed_def remove_row_def)

lemma put_pending_fields [simp]:
  "intents (put_pending r s) = intents s" "sequences (put_pending r s) = sequences s"
  "binding_states (put_pending r s) = binding_states s" "dialect (put_pending r s) = dialect s"
  "blocks (put_pending r s) = blocks s" "budgets (put_pending r s) = budgets s"
  by (simp_all add: store_row_def)

lemma intents_env_frame:
  assumes "intents t = intents s" and "sequences t = sequences s" and "binding_states t = binding_states s"
    and "dialect t = dialect s"
  shows "intents_env t = intents_env s" "intent_of t = intent_of s"
  using assms
  by (simp_all add: intents_env_def intents_inv_def table_ok_def handle_admits supported_dialect_def seq_of_def
      intent_of_def fun_eq_iff del: intents_invD)

lemma intent_states_fields [simp]:
  "blocks (upd_intent i b f s) = blocks s" "blocks (ensured i b s) = blocks s"
  "budgets (upd_intent i b f s) = budgets s" "budgets (ensured i b s) = budgets s"
  "pendings (upd_intent i b f s) = pendings s" "pendings (ensured i b s) = pendings s"
  by (simp_all add: upd_intent_def ensured_def)

lemma freed_env:
  assumes "retry_env s i b"
  shows "frontier_readable (freed s i b) i b" "pending_env (freed s i b)"
    "table_ok SOURCE_JOURNAL_HEADS_TABLE (freed s i b)" "cursor_position (freed s i b) i b = cursor_position s i b"
    "journal_head (freed s i b) i = journal_head s i" "pending_of (freed s i b) i b = pending_of s i b"
    "intents_env (freed s i b)"
proof -
  have ok: "budgets_ok (freed s i b)"
    using assms unfolding freed_def by (intro budgets_t.table_ok_remove) (simp add: retry_env_def frontier_readable_def)
  with assms show "frontier_readable (freed s i b) i b"
    by (simp add: retry_env_def frontier_readable_def table_ok_def handle_admits cursor_of_def)
  show "pending_env (freed s i b)"
    using assms by (simp add: retry_env_def pending_env_def table_ok_def handle_admits supported_dialect_def)
  show "table_ok SOURCE_JOURNAL_HEADS_TABLE (freed s i b)"
    using assms by (simp add: retry_env_def table_ok_def handle_admits)
  show "cursor_position (freed s i b) i b = cursor_position s i b"
    by (rule frontier_readable_frame(2)) simp
  show "journal_head (freed s i b) i = journal_head s i" "pending_of (freed s i b) i b = pending_of s i b"
    by (simp_all add: journal_head_def lookup_row_def)
  show "intents_env (freed s i b)"
    using assms intents_env_frame(1) [of "freed s i b" s] by (simp add: retry_env_def)
qed

lemma block_by_id:
  assumes "blocks_ok s" and "block_at s i b bid = Some bl"
  shows "List.find (\<lambda>r. bl_block_id r = bid) (blocks s) = Some bl"
proof -
  have mem: "bl \<in> set (blocks s)" "bl_block_id bl = bid"
    using find_SomeD [OF assms(2)] by (simp_all add: block_key_def)
  have "filter (\<lambda>r. bl_block_id r = bid) (blocks s) =
      (case List.find (\<lambda>r. bl_block_id r = bid) (blocks s) of None \<Rightarrow> [] | Some r \<Rightarrow> [r])"
    using assms(1)
    by (intro clash_free_at_most_one [where T = TOPIC_MEMORY_WORK_BLOCKS_TABLE]) (auto simp: table_ok_def handle_clash)
  moreover have "bl \<in> set (filter (\<lambda>r. bl_block_id r = bid) (blocks s))" using mem by simp
  ultimately show ?thesis by (auto split: option.splits)
qed

definition retried :: "int \<Rightarrow> int \<Rightarrow> block_row \<Rightarrow> block_row" where
  "retried now g r = r\<lparr>bl_retried_at := Some now, bl_retry_request_generation := Some g\<rparr>"

lemma retried_update_run:
  assumes "blocks_ok s" and "block_at s i b bid = Some bl" and "0 < g"
  shows "sql_update TOPIC_MEMORY_WORK_BLOCKS_TABLE (\<lambda>r. bl_block_id r = bid) (retried now g) s =
      (Inr 1, s\<lparr>blocks := update_rows (\<lambda>r. bl_block_id r = bid) (retried now g) (blocks s)\<rparr>)" (is ?run)
    and "blocks_ok (s\<lparr>blocks := update_rows (\<lambda>r. bl_block_id r = bid) (retried now g) (blocks s)\<rparr>)"
    and "block_at (s\<lparr>blocks := update_rows (\<lambda>r. bl_block_id r = bid) (retried now g) (blocks s)\<rparr>) i b bid =
      Some (retried now g bl)"
proof -
  note found = block_by_id [OF assms(1,2)]
  have "admits TOPIC_MEMORY_WORK_BLOCKS_TABLE s bl"
    using assms(1) find_SomeD [OF assms(2)] by (auto simp: table_ok_def)
  then have adm: "admits TOPIC_MEMORY_WORK_BLOCKS_TABLE s (retried now g bl)"
    using assms(3) by (auto simp: handle_admits retried_def block_window_ok_def split: option.splits)
  show run: ?run
    using found adm
    by (subst blocks_t.key_update_run [OF assms(1)]) (auto simp: handle_clash retried_def)
  show "blocks_ok (s\<lparr>blocks := update_rows (\<lambda>r. bl_block_id r = bid) (retried now g) (blocks s)\<rparr>)"
    using blocks_t.table_ok_update [OF assms(1), of "\<lambda>r. bl_block_id r = bid" "retried now g"] run by simp
  show "block_at (s\<lparr>blocks := update_rows (\<lambda>r. bl_block_id r = bid) (retried now g) (blocks s)\<rparr>) i b bid =
      Some (retried now g bl)"
    using assms(2) find_SomeD [OF assms(2)]
    by (simp add: find_update_rows retried_def block_key_def)
qed

lemma retry_stale:
  assumes "retry_env s i b" and "block_at s i b bid = Some bl" and "bl_retried_at bl = None"
    and "\<not> block_current s i b bl"
  shows "retry_topic_memory_block i b bid s = (Inl TopicMemoryBlockConflict, s)"
proof -
  have e: "frontier_readable s i b" "blocks_ok s" using assms(1) by (simp_all add: retry_env_def)
  show ?thesis
    using assms(2-4)
    by (cases "budget_of s i b (cursor_position s i b)")
       (auto simp: retry_topic_memory_block_def bind_run get_block_run e frontier_run block_current_def)
qed

lemma retry_done:
  assumes "blocks_ok s" and "block_at s i b bid = Some bl" and "bl_retried_at bl \<noteq> None"
  shows "retry_topic_memory_block i b bid s = (Inr bl, s)"
  using assms by (simp add: retry_topic_memory_block_def bind_run get_block_run)

lemma retry_current:
  assumes "retry_env s i b" and "block_at s i b bid = Some bl" and "bl_retried_at bl = None"
    and "block_current s i b bl" and "cursor_position s i b < journal_head s i"
  shows "\<exists>r p now t. retry_topic_memory_block i b bid s = (Inr (retried now (in_requested_generation r) bl), t)
    \<and> blocks_ok t \<and> block_at t i b bid = Some (retried now (in_requested_generation r) bl)
    \<and> budget_of t i b (bl_source_after bl) = None
    \<and> intent_of t i b = Some r \<and> in_handled_generation r < in_requested_generation r
    \<and> pending_of t i b = Some p \<and> pe_handled_flush_generation p < pe_flush_generation p
    \<and> journal_head s i \<le> pe_source_through p"
proof -
  have e: "frontier_readable s i b" "blocks_ok s" and vk: "valid_key i b"
    using assms(1) by (simp_all add: retry_env_def frontier_readable_def)
  let ?a = "cursor_position s i b" and ?s1 = "freed s i b"
  note f = freed_env [OF assms(1)]
  from assms(4) obtain row where row: "budget_of s i b ?a = Some row" "bu_attempt_id row = bl_attempt_id bl"
    "exhausted_reason row = bl_error_code bl" "?a = bl_source_after bl"
    by (auto simp: block_current_def)
  have del: "sql_delete TOPIC_MEMORY_WORK_BUDGETS_TABLE
      (\<lambda>r. budget_key i b ?a r \<and> bu_attempt_id r = bl_attempt_id bl) s = (Inr 1, ?s1)"
    using row e(1) budgets_t.lookup_key [OF row(1)]
    by (subst budgets_t.delete_run [where k = "(i, b, ?a)"])
       (auto simp: frontier_readable_def budget_key_pk freed_def)
  let ?p = "raised i b (journal_head s i) True (pending_of s i b)"
  let ?s2 = "put_pending ?p ?s1"
  have flush: "request_flush i b ?s1 = (Inr (Some ?p), ?s2)"
    using request_flush_run [OF f(1,2,3)] f(4-6) assms(1,5) by (simp add: retry_env_def)
  have env2: "intents_env ?s2"
    using intents_env_frame(1) [of ?s2 ?s1] f(7) by simp
  obtain r0 where r0: "intent_of (ensured i b ?s2) i b = Some r0"
    and req: "intent_request i b ?s2 = (Inr (bump_requested r0), upd_intent i b bump_requested (ensured i b ?s2))"
    using intent_request_run [of ?s2 i b] env2 vk unfolding intents_env_def by blast
  let ?r = "bump_requested r0" and ?s3 = "upd_intent i b bump_requested (ensured i b ?s2)"
  have of3: "intent_of ?s3 i b = Some ?r" using r0 by (simp add: intent_of_upd)
  have "admits ARTIFACT_PROCESSING_INTENTS_TABLE (ensured i b ?s2) r0"
    using intent_of_admits [OF intents_invD(1) [OF intents_inv_ensured] r0] env2 by (simp add: intents_env_def)
  then have gen: "in_handled_generation ?r < in_requested_generation ?r" "0 < in_requested_generation ?r"
    by (auto simp: handle_admits bump_requested_def)
  have ok3: "blocks_ok (tick ?s3)" "block_at (tick ?s3) i b bid = Some bl"
    using e(2) assms(2) by (simp_all add: table_ok_def handle_admits)
  let ?now = "db_now ?s3"
  let ?t = "(tick ?s3)\<lparr>blocks := update_rows (\<lambda>r. bl_block_id r = bid)
      (retried ?now (in_requested_generation ?r)) (blocks (tick ?s3))\<rparr>"
  note upd = retried_update_run [OF ok3 gen(2), of ?now]
  have "(\<lambda>r. r\<lparr>bl_retried_at := Some ?now, bl_retry_request_generation := Some (in_requested_generation ?r)\<rparr>) =
      retried ?now (in_requested_generation ?r)"
    by (simp add: retried_def fun_eq_iff)
  then have run: "retry_topic_memory_block i b bid s = (Inr (retried ?now (in_requested_generation ?r) bl), ?t)"
    using assms(2,3) row del flush req upd
    by (simp add: retry_topic_memory_block_def bind_run get_block_run e frontier_run andThen_run)
  have "budget_of ?t i b ?a = budget_of ?s1 i b ?a" by (simp add: lookup_row_def)
  also have "\<dots> = None" by (simp add: freed_def budgets_t.lookup_remove)
  finally have gone: "budget_of ?t i b (bl_source_after bl) = None" using row(4) by simp
  have "pending_of ?t i b = pending_of ?s2 i b" by (simp add: lookup_row_def)
  also have "\<dots> = Some ?p"
    using raised_pk [where s = s and i = i and b = b and pos = "journal_head s i" and flush = True, OF refl] by (simp add: pending_t.lookup_store)
  finally have pend: "pending_of ?t i b = Some ?p" .
  have "intent_of ?t i b = intent_of ?s3 i b" by (simp add: intent_of_def)
  with of3 have int: "intent_of ?t i b = Some ?r" by simp
  have open_flush: "pe_handled_flush_generation ?p < pe_flush_generation ?p" "journal_head s i \<le> pe_source_through ?p"
  proof -
    have ok: "pendings_ok s" using assms(1) by (simp add: retry_env_def pending_env_def)
    show "pe_handled_flush_generation ?p < pe_flush_generation ?p" "journal_head s i \<le> pe_source_through ?p"
      using pending_t.lookup_admits [OF ok, of "(b, i)" "the (pending_of s i b)"]
      by (cases "pending_of s i b"; simp add: raised_def handle_admits)+
  qed
  show ?thesis
    using run upd(2,3) gone int gen(1) pend open_flush by blast
qed

section \<open>Properties of retry\<close>

text \<open>
  C32: a retry of a current block grants exactly one new allowance. It deletes the exhausted
  budget row, leaves an unhandled flush that reaches the journal head and an outstanding
  invocation whose generation the block records; retrying the same block again returns
  the recorded block and changes nothing.
\<close>

theorem retry_grants_once:
  assumes "retry_env s i b" and "block_at s i b bid = Some bl" and "bl_retried_at bl = None"
    and "block_current s i b bl" and "cursor_position s i b < journal_head s i"
  shows "\<exists>bl' t r p. retry_topic_memory_block i b bid s = (Inr bl', t)
    \<and> retry_topic_memory_block i b bid t = (Inr bl', t)
    \<and> budget_of t i b (bl_source_after bl) = None
    \<and> intent_of t i b = Some r \<and> in_handled_generation r < in_requested_generation r
    \<and> bl_retry_request_generation bl' = Some (in_requested_generation r)
    \<and> pending_of t i b = Some p \<and> pe_handled_flush_generation p < pe_flush_generation p
    \<and> journal_head s i \<le> pe_source_through p"
proof -
  obtain r p now t where t: "retry_topic_memory_block i b bid s = (Inr (retried now (in_requested_generation r) bl), t)"
    "blocks_ok t" "block_at t i b bid = Some (retried now (in_requested_generation r) bl)"
    "budget_of t i b (bl_source_after bl) = None"
    "intent_of t i b = Some r" "in_handled_generation r < in_requested_generation r"
    "pending_of t i b = Some p" "pe_handled_flush_generation p < pe_flush_generation p"
    "journal_head s i \<le> pe_source_through p"
    using retry_current [OF assms] by blast
  moreover have "retry_topic_memory_block i b bid t = (Inr (retried now (in_requested_generation r) bl), t)"
    using retry_done [OF t(2,3)] by (simp add: retried_def)
  ultimately show ?thesis by (auto simp: retried_def)
qed

text \<open>
  A stale block cannot be retried. When the cursor has moved on, another attempt owns the
  frontier, or it stopped for another reason, the retry raises a conflict and changes
  nothing.
\<close>

theorem stale_block_not_retried:
  assumes "retry_env s i b" and "block_at s i b bid = Some bl" and "bl_retried_at bl = None"
    and "cursor_position s i b \<noteq> bl_source_after bl
      \<or> (\<forall>row. budget_of s i b (cursor_position s i b) = Some row \<longrightarrow>
           bu_attempt_id row \<noteq> bl_attempt_id bl \<or> exhausted_reason row \<noteq> bl_error_code bl)"
  shows "retry_topic_memory_block i b bid s = (Inl TopicMemoryBlockConflict, s)"
  using assms by (intro retry_stale) (auto simp: block_current_def)

section \<open>Examples\<close>

definition example_exhausted :: budget_row where
  "example_exhausted = (first_budget (example_attempt ''a3''))\<lparr>bu_attempts := 3\<rparr>"

definition example_block :: block_row where
  "example_block = new_block ''block'' example_exhausted 7 ''window_attempt_limit'' 0"

definition example_stopped :: "block_row list \<Rightarrow> db" where
  "example_stopped bs = (empty_db ''sqlite'' int)\<lparr>budgets := [example_exhausted],
     journal_heads := [\<lparr>jh_scope_id = ''scope'', jh_position = 7\<rparr>], blocks := bs\<rparr>"

lemma example_stopped_tables:
  "cursors (example_stopped bs) = []" "budgets (example_stopped bs) = [example_exhausted]"
  "blocks (example_stopped bs) = bs" "leases (example_stopped bs) = []" "pendings (example_stopped bs) = []"
  "intents (example_stopped bs) = []" "sequences (example_stopped bs) = []" "binding_states (example_stopped bs) = []"
  "dialect (example_stopped bs) = ''sqlite''" "topic_targets (example_stopped bs) = []"
  "journal_heads (example_stopped bs) = [\<lparr>jh_scope_id = ''scope'', jh_position = 7\<rparr>]"
  "ticks (example_stopped bs) = 0" "clock (example_stopped bs) = int"
  by (simp_all add: example_stopped_def empty_db_def)

lemma example_exhausted_fields:
  "budget_pk example_exhausted = (''scope'', ''memory'', 0)" "exhausted_reason example_exhausted = ''window_attempt_limit''"
  "\<not> attempt_open example_exhausted" "bu_attempt_id example_exhausted = ''a3''"
  by (simp_all add: example_exhausted_def first_budget_def example_attempt_def exhausted_reason_def attempt_open_def)

lemma example_stopped_facts:
  "frontier_readable (example_stopped bs) ''scope'' ''memory''" "term_readable (example_stopped bs) ''scope'' ''memory''"
  "cursor_position (example_stopped bs) ''scope'' ''memory'' = 0"
  "budget_of (example_stopped bs) ''scope'' ''memory'' 0 = Some example_exhausted"
  "journal_head (example_stopped bs) ''scope'' = 7"
  "blockable (example_stopped bs) ''scope'' ''memory'' example_exhausted 7"
proof -
  show pos: "cursor_position (example_stopped bs) ''scope'' ''memory'' = 0"
    by (simp add: cursor_position_def cursor_of_def example_stopped_tables)
  show row: "budget_of (example_stopped bs) ''scope'' ''memory'' 0 = Some example_exhausted"
    using example_exhausted_fields(1) by (simp add: lookup_row_def example_stopped_tables)
  have "budgets_ok (example_stopped bs)"
    by (simp add: table_ok_def example_stopped_tables clash_free_def handle_admits example_exhausted_def
        first_budget_def example_attempt_def)
  then show "frontier_readable (example_stopped bs) ''scope'' ''memory''"
    using valid_keys_example(1)
    by (simp add: frontier_readable_def table_ok_def example_stopped_tables cursor_of_def)
  show "term_readable (example_stopped bs) ''scope'' ''memory''"
    using row example_exhausted_fields(3)
    by (simp add: term_readable_def pos table_ok_def [of ARTIFACT_PROCESSING_LEASES_TABLE] example_stopped_tables)
  show "journal_head (example_stopped bs) ''scope'' = 7"
    by (simp add: journal_head_def lookup_row_def example_stopped_tables)
  show "blockable (example_stopped bs) ''scope'' ''memory'' example_exhausted 7"
    using row by (simp add: blockable_def pos example_exhausted_fields observed_through_def example_stopped_tables)
qed

lemma example_block_fields:
  "block_key ''scope'' ''memory'' ''block'' example_block" "bl_retried_at example_block = None"
  "bl_source_after example_block = 0" "bl_attempt_id example_block = ''a3''"
  "bl_error_code example_block = ''window_attempt_limit''"
  "admits TOPIC_MEMORY_WORK_BLOCKS_TABLE s example_block"
  by (simp_all add: example_block_def new_block_def block_key_def handle_admits block_window_ok_def
      example_exhausted_def first_budget_def example_attempt_def)

lemma example_retry_env: "retry_env (example_stopped [example_block]) ''scope'' ''memory''"
  using example_stopped_facts(1,3) [of "[example_block]"] example_block_fields(6)
  by (simp add: retry_env_def pending_env_def intents_env_def intents_inv_def supported_dialect_def
      table_ok_def clash_free_def handle_admits(1) example_stopped_tables del: intents_invD)

lemma example_block_at: "block_at (example_stopped [example_block]) ''scope'' ''memory'' ''block'' = Some example_block"
  using example_block_fields(1) by (simp add: example_stopped_tables)

theorem observe_block_idempotent_witness:
  "\<exists>t. observe_topic_memory_block ''scope'' ''memory'' False ''block'' (example_stopped []) = (Inr (Some example_block), t)
     \<and> observe_topic_memory_block ''scope'' ''memory'' True ''other'' t = (Inr (Some example_block), t)"
proof -
  have ok: "blocks_ok (example_stopped [])" by (simp add: table_ok_def example_stopped_tables)
  have "\<exists>t. observe_topic_memory_block ''scope'' ''memory'' False ''block'' (example_stopped []) =
      (Inr (Some example_block), t)"
    using observe_blockable [OF example_stopped_facts(1,2) ok example_stopped_facts(6), of False "''block''"]
      example_block_fields(1,6)
    by (simp add: example_stopped_tables example_exhausted_fields still_running_def bind_run andThen_run
        sql_insert_def get_block_run table_ok_def clash_free_def example_block_def [symmetric])
  then show ?thesis
    using observe_block_idempotent [OF example_stopped_facts(1,2) ok] by blast
qed

theorem retry_grants_once_witness:
  "\<exists>bl t. retry_topic_memory_block ''scope'' ''memory'' ''block'' (example_stopped [example_block]) = (Inr bl, t)
     \<and> budget_of t ''scope'' ''memory'' 0 = None
     \<and> retry_topic_memory_block ''scope'' ''memory'' ''block'' t = (Inr bl, t)"
proof -
  have cur: "block_current (example_stopped [example_block]) ''scope'' ''memory'' example_block"
    by (simp add: block_current_def example_stopped_facts example_block_fields example_exhausted_fields)
  have head: "cursor_position (example_stopped [example_block]) ''scope'' ''memory'' <
      journal_head (example_stopped [example_block]) ''scope''"
    by (simp add: example_stopped_facts)
  show ?thesis
    using retry_grants_once [OF example_retry_env example_block_at example_block_fields(2) cur head]
    unfolding example_block_fields(3) by blast
qed

theorem stale_block_not_retried_witness:
  "\<exists>s. block_at s ''scope'' ''memory'' ''block'' = Some (example_block\<lparr>bl_attempt_id := ''a2''\<rparr>)
     \<and> retry_topic_memory_block ''scope'' ''memory'' ''block'' s = (Inl TopicMemoryBlockConflict, s)"
proof -
  let ?bl = "example_block\<lparr>bl_attempt_id := ''a2''\<rparr>"
  have "admits TOPIC_MEMORY_WORK_BLOCKS_TABLE (example_stopped []) ?bl"
    by (simp add: example_block_def new_block_def handle_admits block_window_ok_def
        example_exhausted_def first_budget_def example_attempt_def)
  then have env: "retry_env (example_stopped [?bl]) ''scope'' ''memory''"
    using example_stopped_facts(1,3) [of "[?bl]"]
    by (simp add: retry_env_def pending_env_def intents_env_def intents_inv_def supported_dialect_def
        table_ok_def clash_free_def handle_admits example_stopped_tables del: intents_invD)
  have at: "block_at (example_stopped [?bl]) ''scope'' ''memory'' ''block'' = Some ?bl"
    using example_block_fields(1) by (simp add: example_stopped_tables block_key_def)
  have "bl_retried_at ?bl = None" using example_block_fields(2) by simp
  moreover have "\<forall>row. budget_of (example_stopped [?bl]) ''scope'' ''memory''
      (cursor_position (example_stopped [?bl]) ''scope'' ''memory'') = Some row \<longrightarrow>
      bu_attempt_id row \<noteq> bl_attempt_id ?bl \<or> exhausted_reason row \<noteq> bl_error_code ?bl"
    by (simp add: example_stopped_facts example_exhausted_fields)
  ultimately show ?thesis
    using stale_block_not_retried [OF env at] at by blast
qed

end
