(* ===== verification/Scope_Processor.thy ===== *)
theory Scope_Processor
  imports Recovery
begin

text \<open>
  The processor of one accepted scope invocation, from
  \<^verbatim>\<open>src/src/powercontext/builtin/runtime/topic_memory_scope.py\<close>, with the contract
  types of \<^verbatim>\<open>processing_contracts.py\<close> and \<^verbatim>\<open>topic_memory_processing.py\<close> it uses.

  A worker freezes a finite target once per invocation, drives the window processor until
  the cursor reaches it, and retires target, flush and invocation in one transaction. The
  window processor, the window selector and the commit authorizer are constructor
  arguments in the code and arguments here; the query for pending Dream requests is an
  argument as well. The loop over windows takes fuel; \<open>None\<close> is running out of it.

  The lemmas show that a target is captured once and never extended, what finishing a
  target acknowledges and what it leaves outstanding, and that the loop ends.
\<close>

section \<open>Contract types\<close>

record work_assignment =
  wa_binding_name :: string
  wa_scope_id :: string
  wa_artifact_family :: string
  wa_claimed_request_generation :: int
  wa_fence :: processing_fence
  wa_worker_id :: string

datatype worker_outcome = SUCCEEDED | CURSOR_CONFLICT | HEAD_CONFLICT | LEADERSHIP_LOST

record worker_completion =
  co_outcome :: worker_outcome
  co_held_count :: int
  co_hold_codes :: "string list"
  co_noop :: bool

definition completion :: "worker_outcome \<Rightarrow> bool \<Rightarrow> worker_completion" where
  "completion outcome noop = \<lparr>co_outcome = outcome, co_held_count = 0, co_hold_codes = [], co_noop = noop\<rparr>"

record processing_block =
  pb_key :: string
  pb_stage :: string
  pb_error_code :: string
  pb_details :: "(string \<times> int) list"

datatype wave_kind = EXPLICIT | AUTOMATIC

record window_assignment =
  wi_binding_name :: string
  wi_scope_id :: string
  wi_source_after :: int
  wi_source_through :: int
  wi_wave_target :: int
  wi_claimed_flush_generation :: int
  wi_cursor_generation :: "int option"
  wi_wave_kind :: wave_kind
  wi_fence :: processing_fence
  wi_worker_id :: string

record processing_target =
  pt_target_request_generation :: int
  pt_source_through :: int
  pt_captured_flush_generation :: int
  pt_observed_dirty_generation :: int

abbreviation (input) MAX_TOPIC_MEMORY_WINDOW_SOURCES :: int where "MAX_TOPIC_MEMORY_WINDOW_SOURCES \<equiv> 100"

definition TOPIC_MEMORY_SOURCE_WINDOW_BINDING :: string where
  "TOPIC_MEMORY_SOURCE_WINDOW_BINDING = ''topic-memory-source-window''"

section \<open>The admission check\<close>

definition block_details :: "block_row \<Rightarrow> (string \<times> int) list" where
  "block_details b = [(''source_after'', bl_source_after b)]
     @ (case bl_source_through b of None \<Rightarrow> [] | Some v \<Rightarrow> [(''source_through'', v)])
     @ [(''attempts'', bl_attempts b), (''requests'', bl_requests b), (''tokens'', bl_tokens b)]"

text \<open>
  \<open>dream\<close> is \<^verbatim>\<open>None\<close> when Dream is disabled, and otherwise the query whether a
  Dream request of the binding is pending.
\<close>

definition topic_memory_processing_block ::
  "string \<Rightarrow> string \<Rightarrow> (db, bool) exec option \<Rightarrow> string \<Rightarrow> (db, processing_block option) exec" where
  "topic_memory_processing_block scope_id binding_name dream block_id =
     bind (case dream of None \<Rightarrow> return False | Some pending \<Rightarrow> pending) (\<lambda>pending.
     if pending then return None
     else
     bind (observe_topic_memory_block scope_id binding_name True block_id) (\<lambda>block.
     return (map_option (\<lambda>b. \<lparr>pb_key = bl_block_id b, pb_stage = ''topic_memory'',
       pb_error_code = bl_error_code b, pb_details = block_details b\<rparr>) block)))"

section \<open>Targets\<close>

definition target_key :: "work_assignment \<Rightarrow> processing_target \<Rightarrow> topic_target_row \<Rightarrow> bool" where
  "target_key a target r \<longleftrightarrow> tt_binding_name r = wa_binding_name a \<and> tt_scope_id r = wa_scope_id a
     \<and> tt_target_request_generation r = pt_target_request_generation target
     \<and> tt_source_through r = pt_source_through target
     \<and> tt_captured_flush_generation r = pt_captured_flush_generation target
     \<and> tt_observed_dirty_generation r = pt_observed_dirty_generation target"

definition scope_head :: "string \<Rightarrow> (db, int) exec" where
  "scope_head scope_id =
     bind (sql_scalar SOURCE_JOURNAL_HEADS_TABLE (\<lambda>r. jh_scope_id r = scope_id) jh_position) (\<lambda>head.
     return (case head of None \<Rightarrow> 0 | Some h \<Rightarrow> h))"

text \<open>The no-op update that takes the write lock of the journal head.\<close>

definition lock_source_head :: "string \<Rightarrow> (db, unit) exec" where
  "lock_source_head scope_id =
     andThen (sql_update SOURCE_JOURNAL_HEADS_TABLE (\<lambda>r. jh_scope_id r = scope_id)
                (\<lambda>r. r\<lparr>jh_position := jh_position r\<rparr>)) (return ())"

definition require_target :: "work_assignment \<Rightarrow> processing_target \<Rightarrow> (db, unit) exec" where
  "require_target a target =
     bind (sql_scalar TOPIC_MEMORY_PROCESSING_TARGETS_TABLE (target_key a target) tt_target_request_generation) (\<lambda>current.
     require (current \<noteq> None)
       (GenerationConflict (wa_binding_name a) (Some (pt_target_request_generation target)) None))"

definition stored_target :: "topic_target_row \<Rightarrow> processing_target" where
  "stored_target r = \<lparr>pt_target_request_generation = tt_target_request_generation r,
     pt_source_through = tt_source_through r,
     pt_captured_flush_generation = tt_captured_flush_generation r,
     pt_observed_dirty_generation = tt_observed_dirty_generation r\<rparr>"

definition target_row :: "work_assignment \<Rightarrow> processing_target \<Rightarrow> topic_target_row" where
  "target_row a target = \<lparr>tt_binding_name = wa_binding_name a, tt_scope_id = wa_scope_id a,
     tt_target_request_generation = pt_target_request_generation target,
     tt_source_through = pt_source_through target,
     tt_captured_flush_generation = pt_captured_flush_generation target,
     tt_observed_dirty_generation = pt_observed_dirty_generation target\<rparr>"

definition capture_target :: "work_assignment \<Rightarrow> intent_row \<Rightarrow> (db, processing_target) exec" where
  "capture_target a intent =
     bind (scope_head (wa_scope_id a)) (\<lambda>head.
     bind (pending_load (wa_scope_id a) (wa_binding_name a)) (\<lambda>pending.
     let target = \<lparr>pt_target_request_generation = wa_claimed_request_generation a,
                   pt_source_through = head,
                   pt_captured_flush_generation = (case pending of None \<Rightarrow> 0 | Some p \<Rightarrow> pe_flush_generation p),
                   pt_observed_dirty_generation = in_dirty_generation intent\<rparr> in
     andThen (sql_insert TOPIC_MEMORY_PROCESSING_TARGETS_TABLE (target_row a target)) (return target)))"

definition scope_target :: "work_assignment \<Rightarrow> (db, processing_target option) exec" where
  "scope_target a = db_transaction (
     andThen (require_fence (wa_fence a))
    (andThen (lock_source_head (wa_scope_id a))
    (bind (intent_load (wa_scope_id a) (wa_binding_name a)) (\<lambda>loaded.
     case loaded of
       None \<Rightarrow> raise (TopicMemoryGeneration ''unaccepted_invocation'' None)
     | Some intent \<Rightarrow>
       if wa_claimed_request_generation a > in_requested_generation intent
       then raise (TopicMemoryGeneration ''unaccepted_invocation'' None)
       else if in_handled_generation intent \<ge> wa_claimed_request_generation a then return None
       else
       bind (sql_one_or_none TOPIC_MEMORY_PROCESSING_TARGETS_TABLE
               (\<lambda>r. tt_scope_id r = wa_scope_id a \<and> tt_binding_name r = wa_binding_name a)) (\<lambda>row.
       case row of
         Some r \<Rightarrow>
           if tt_target_request_generation r > wa_claimed_request_generation a
           then raise (GenerationConflict (wa_binding_name a) (Some (wa_claimed_request_generation a))
                         (Some (tt_target_request_generation r)))
           else return (Some (stored_target r))
       | None \<Rightarrow> bind (capture_target a intent) (\<lambda>target. return (Some target)))))))"

definition finish_target :: "work_assignment \<Rightarrow> processing_target \<Rightarrow> (db, unit) exec" where
  "finish_target a target =
     andThen (require_target a target)
    (bind (cursor_load (wa_scope_id a) (wa_binding_name a)) (\<lambda>cursor.
     let position = (case cursor of None \<Rightarrow> 0 | Some c \<Rightarrow> sc_cursor c) in
     if position < pt_source_through target then raise (TopicMemoryGeneration ''incomplete_target'' None)
     else
     bind (mark_flush_handled (wa_scope_id a) (wa_binding_name a) (pt_captured_flush_generation target)) (\<lambda>pending.
     let covered = (case pending of None \<Rightarrow> True
                    | Some p \<Rightarrow> pe_source_through p \<le> pt_source_through target
                        \<and> pe_flush_generation p \<le> pt_captured_flush_generation target) in
     andThen (if pt_source_through target > 0
              then andThen (delete_if_covered (wa_scope_id a) (wa_binding_name a) (Some position)
                              (Some (pt_source_through target))) (return ())
              else return ())
    (bind (if covered then bind (scope_head (wa_scope_id a)) (\<lambda>h. return (h \<le> pt_source_through target))
           else return False) (\<lambda>clean.
     andThen (acknowledge (wa_scope_id a) (wa_binding_name a) (pt_target_request_generation target)
                (if clean then Some (pt_observed_dirty_generation target) else None) False)
    (bind (sql_delete TOPIC_MEMORY_PROCESSING_TARGETS_TABLE (target_key a target)) (\<lambda>rowcount.
     require (rowcount = 1)
       (GenerationConflict (wa_binding_name a) (Some (pt_target_request_generation target)) None)))))))) "

section \<open>Driving the windows of a target\<close>

type_synonym window_processor = "window_assignment \<Rightarrow> (db, unit) exec \<Rightarrow> (db, worker_completion) exec"
type_synonym window_selector = "string \<Rightarrow> int \<Rightarrow> int \<Rightarrow> (db, int) exec"
type_synonym commit_authorizer = "string \<Rightarrow> (db, unit) exec"

record scope_processor =
  sp_processor :: window_processor
  sp_selector :: window_selector
  sp_commit_authorizer :: "commit_authorizer option"
  sp_source_window_limit :: int

definition scope_processor_init ::
  "window_processor \<Rightarrow> window_selector \<Rightarrow> commit_authorizer option \<Rightarrow> int \<Rightarrow> error + scope_processor" where
  "scope_processor_init proc sel auth limit =
     (if limit < 1 then Inl (TopicMemoryGeneration ''invalid_window'' None)
      else Inr \<lparr>sp_processor = proc, sp_selector = sel, sp_commit_authorizer = auth,
                sp_source_window_limit = min limit MAX_TOPIC_MEMORY_WINDOW_SOURCES\<rparr>)"

definition window_of ::
  "work_assignment \<Rightarrow> processing_target \<Rightarrow> stored_cursor option \<Rightarrow> int \<Rightarrow> int \<Rightarrow> window_assignment" where
  "window_of a target cursor source_after through =
     \<lparr>wi_binding_name = wa_binding_name a, wi_scope_id = wa_scope_id a, wi_source_after = source_after,
      wi_source_through = through, wi_wave_target = pt_source_through target,
      wi_claimed_flush_generation = pt_captured_flush_generation target,
      wi_cursor_generation = map_option sc_generation cursor, wi_wave_kind = EXPLICIT,
      wi_fence = wa_fence a, wi_worker_id = wa_worker_id a\<rparr>"

definition commit_hook :: "work_assignment \<Rightarrow> processing_target \<Rightarrow> int \<Rightarrow> (db, unit) exec" where
  "commit_hook a target through =
     (if through = pt_source_through target then finish_target a target else require_target a target)"

text \<open>
  The transaction that opens an iteration: \<^const>\<open>Inl\<close> when it retired the target,
  \<^const>\<open>Inr\<close> with the cursor it read when sources are left.
\<close>

definition open_iteration ::
  "scope_processor \<Rightarrow> work_assignment \<Rightarrow> processing_target \<Rightarrow> (db, unit + stored_cursor option) exec" where
  "open_iteration sp a target = db_transaction (
     andThen (require_fence (wa_fence a))
    (bind (cursor_load (wa_scope_id a) (wa_binding_name a)) (\<lambda>cursor.
     if (case cursor of None \<Rightarrow> 0 | Some c \<Rightarrow> sc_cursor c) \<ge> pt_source_through target
     then
       andThen (lock_source_head (wa_scope_id a))
      (andThen (case sp_commit_authorizer sp of None \<Rightarrow> return () | Some auth \<Rightarrow> auth (wa_scope_id a))
      (andThen (finish_target a target)
      (andThen (require_fence (wa_fence a))
         (return (Inl ())))))
     else return (Inr cursor))))"

text \<open>One turn of the loop: \<^const>\<open>Inl\<close> is the completion it returns, \<^const>\<open>Inr\<close> goes round again.\<close>

definition window_iteration ::
  "scope_processor \<Rightarrow> work_assignment \<Rightarrow> processing_target \<Rightarrow> bool \<Rightarrow> (db, worker_completion + bool) exec" where
  "window_iteration sp a target did_work =
     bind (open_iteration sp a target) (\<lambda>opened.
     case opened of
       Inl _ \<Rightarrow> return (Inl (completion SUCCEEDED (\<not> did_work)))
     | Inr cursor \<Rightarrow>
       let source_after = (case cursor of None \<Rightarrow> 0 | Some c \<Rightarrow> sc_cursor c);
           ceiling = min (pt_source_through target) (source_after + sp_source_window_limit sp) in
       bind (sp_selector sp (wa_scope_id a) source_after ceiling) (\<lambda>through.
       if \<not> (source_after < through \<and> through \<le> ceiling)
       then raise (TopicMemoryGeneration ''invalid_window'' None)
       else
       bind (sp_processor sp (window_of a target cursor source_after through) (commit_hook a target through)) (\<lambda>result.
       let did_work' = (did_work \<or> \<not> co_noop result) in
       if co_outcome result \<noteq> SUCCEEDED then return (Inl result)
       else if through = pt_source_through target then return (Inl (result\<lparr>co_noop := \<not> did_work'\<rparr>))
       else return (Inr did_work'))))"

fun process_target ::
  "nat \<Rightarrow> scope_processor \<Rightarrow> work_assignment \<Rightarrow> processing_target \<Rightarrow> bool \<Rightarrow> (db, worker_completion option) exec" where
  "process_target 0 sp a target did_work = return None"
| "process_target (Suc n) sp a target did_work =
     bind (window_iteration sp a target did_work) (\<lambda>turn. case turn of
       Inl result \<Rightarrow> return (Some result)
     | Inr did_work' \<Rightarrow> process_target n sp a target did_work')"

section \<open>Processing an invocation\<close>

definition is_leadership_lost :: "error \<Rightarrow> bool" where
  "is_leadership_lost e = (case e of LeadershipLost _ _ _ \<Rightarrow> True | _ \<Rightarrow> False)"

definition is_generation_conflict :: "error \<Rightarrow> bool" where
  "is_generation_conflict e = (case e of GenerationConflict _ _ _ \<Rightarrow> True | _ \<Rightarrow> False)"

definition is_topic_generation :: "error \<Rightarrow> bool" where
  "is_topic_generation e = (case e of TopicMemoryGeneration _ _ \<Rightarrow> True | _ \<Rightarrow> False)"

text \<open>
  The diagnostics of the blocked error are those of the original one; the classification
  the code falls back to when the original has none is left out.
\<close>

definition generation_failure :: "work_assignment \<Rightarrow> string \<Rightarrow> error \<Rightarrow> (db, worker_completion) exec" where
  "generation_failure a block_id e =
     bind (db_transaction (
       bind (catch (andThen (require_fence (wa_fence a)) (return True)) is_leadership_lost (\<lambda>_. return False)) (\<lambda>leading.
       if \<not> leading then return None
       else bind (topic_memory_processing_block (wa_scope_id a) (wa_binding_name a) None block_id)
              (\<lambda>block. return (Some block))))) (\<lambda>checked.
     case checked of
       None \<Rightarrow> return (completion LEADERSHIP_LOST False)
     | Some None \<Rightarrow> raise e
     | Some (Some b) \<Rightarrow>
         (case e of
            TopicMemoryGeneration code diag \<Rightarrow>
              if pb_error_code b = code
              then raise (ArtifactProcessingBlocked (pb_key b) (pb_stage b) (pb_error_code b) (pb_details b) diag)
              else raise e
          | _ \<Rightarrow> raise e))"

text \<open>
  \<^verbatim>\<open>for _ in range(2)\<close>: \<open>Inl\<close> is falling out of the loop, \<open>Inr\<close> the value
  returned from inside it, where \<open>None\<close> is running out of fuel.
\<close>

fun process_rounds ::
  "nat \<Rightarrow> nat \<Rightarrow> scope_processor \<Rightarrow> work_assignment \<Rightarrow> bool \<Rightarrow> (db, unit + worker_completion option) exec" where
  "process_rounds 0 fuel sp a did_work = return (Inl ())"
| "process_rounds (Suc n) fuel sp a did_work =
     bind (scope_target a) (\<lambda>loaded.
     case loaded of
       None \<Rightarrow> return (Inr (Some (completion SUCCEEDED (\<not> did_work))))
     | Some target \<Rightarrow>
       bind (process_target fuel sp a target False) (\<lambda>processed.
       case processed of
         None \<Rightarrow> return (Inr None)
       | Some result \<Rightarrow>
         if co_outcome result \<noteq> SUCCEEDED then return (Inr (Some result))
         else
         let did_work' = (did_work \<or> \<not> co_noop result) in
         if pt_target_request_generation target = wa_claimed_request_generation a
         then return (Inr (Some (result\<lparr>co_noop := \<not> did_work'\<rparr>)))
         else process_rounds n fuel sp a did_work'))"

definition valid_invocation :: "work_assignment \<Rightarrow> bool" where
  "valid_invocation a \<longleftrightarrow> wa_binding_name a = TOPIC_MEMORY_SOURCE_WINDOW_BINDING
     \<and> wa_artifact_family a = ''topic-memory'' \<and> 1 \<le> wa_claimed_request_generation a
     \<and> fe_supervisor_group (wa_fence a) \<in> set [''global'', ''artifact:topic-memory'']"

definition scope_process ::
  "nat \<Rightarrow> scope_processor \<Rightarrow> work_assignment \<Rightarrow> string \<Rightarrow> (db, worker_completion option) exec" where
  "scope_process fuel sp a block_id =
     (if \<not> valid_invocation a then raise (TopicMemoryGeneration ''invalid_invocation'' None)
      else
      bind (catch (catch (catch (process_rounds 2 fuel sp a False)
          is_leadership_lost (\<lambda>_. return (Inr (Some (completion LEADERSHIP_LOST False)))))
          is_generation_conflict (\<lambda>_. return (Inr (Some (completion CURSOR_CONFLICT False)))))
          is_topic_generation (\<lambda>e. bind (generation_failure a block_id e) (\<lambda>c. return (Inr (Some c))))) (\<lambda>looped.
      case looped of
        Inl _ \<Rightarrow> raise (TopicMemoryGeneration ''target_did_not_converge'' None)
      | Inr result \<Rightarrow> return result))"

section \<open>Finishing a target\<close>

abbreviation targets_ok :: "db \<Rightarrow> bool" where
  "targets_ok \<equiv> table_ok TOPIC_MEMORY_PROCESSING_TARGETS_TABLE"

abbreviation target_of :: "db \<Rightarrow> work_assignment \<Rightarrow> topic_target_row option" where
  "target_of s a \<equiv> lookup_row TOPIC_MEMORY_PROCESSING_TARGETS_TABLE topic_target_pk s (wa_binding_name a, wa_scope_id a)"

abbreviation drop_target :: "work_assignment \<Rightarrow> db \<Rightarrow> db" where
  "drop_target a \<equiv> remove_row TOPIC_MEMORY_PROCESSING_TARGETS_TABLE topic_target_pk (wa_binding_name a, wa_scope_id a)"

text \<open>The tables a scope invocation works on are in order, and its cursor can be read.\<close>

definition scope_env :: "db \<Rightarrow> string \<Rightarrow> string \<Rightarrow> bool" where
  "scope_env s i b \<longleftrightarrow> frontier_readable s i b \<and> pendings_ok s \<and> intents_inv s \<and> targets_ok s
     \<and> table_ok SOURCE_JOURNAL_HEADS_TABLE s"

lemma scope_env_cursor:
  assumes "scope_env s i b"
  shows "\<exists>x. cursor_load i b s = (Inr x, s) \<and> (case x of None \<Rightarrow> 0 | Some c \<Rightarrow> sc_cursor c) = cursor_position s i b"
  using cursor_load_readable assms by (simp add: scope_env_def)

lemma scope_env_key: "scope_env s i b \<Longrightarrow> valid_key i b"
  by (simp add: scope_env_def frontier_readable_def)

lemma scope_head_run: "scope_head i s = (Inr (journal_head s i), s)"
  by (simp add: scope_head_def bind_run journal_head_def lookup_row_def option.case_eq_if map_option_case)

lemma lock_source_head_run:
  assumes "table_ok SOURCE_JOURNAL_HEADS_TABLE s"
  shows "lock_source_head i s = (Inr (), s)"
proof -
  have "update_rows (\<lambda>r. jh_scope_id r = i) (\<lambda>r. r\<lparr>jh_position := jh_position r\<rparr>) (journal_heads s) = journal_heads s"
    by (rule update_rows_id) simp
  with assms show ?thesis
    by (simp add: lock_source_head_def andThen_run sql_update_def table_ok_def)
qed

text \<open>What finishing leaves of a pending row: handled up to the captured flush, and gone when covered.\<close>

definition finished_pending :: "processing_target \<Rightarrow> pending_row \<Rightarrow> pending_row option" where
  "finished_pending tg p = (let p' = handled_row (pt_captured_flush_generation tg) p in
     if 0 < pt_source_through tg \<and> removable (pt_source_through tg) p' then None else Some p')"

definition finished_pendings :: "string \<Rightarrow> string \<Rightarrow> processing_target \<Rightarrow> db \<Rightarrow> db" where
  "finished_pendings i b tg s = (case pending_of s i b of
     None \<Rightarrow> s
   | Some p \<Rightarrow> (case finished_pending tg p of
       None \<Rightarrow> drop_pending i b (put_pending (handled_row (pt_captured_flush_generation tg) p) s)
     | Some p' \<Rightarrow> put_pending p' s))"

lemma finished_pendings_fields [simp]:
  "intents (finished_pendings i b tg s) = intents s" "sequences (finished_pendings i b tg s) = sequences s"
  "journal_heads (finished_pendings i b tg s) = journal_heads s" "cursors (finished_pendings i b tg s) = cursors s"
  "topic_targets (finished_pendings i b tg s) = topic_targets s"
  by (simp_all add: finished_pendings_def store_row_def remove_row_def split: option.split)

lemma pending_of_finished:
  assumes "pending_of s i b = Some p"
  shows "pending_of (finished_pendings i b tg s) i b = finished_pending tg p"
proof -
  have "pending_pk (handled_row c p) = (b, i)" for c
    using pending_t.lookup_key [OF assms] by (simp add: handled_row_def)
  with assms show ?thesis
    by (auto simp: finished_pendings_def finished_pending_def Let_def pending_t.lookup_store
        pending_t.lookup_remove split: option.splits if_splits)
qed

lemma delete_if_covered_run:
  assumes "pendings_ok s" and "0 \<le> p" and "1 \<le> l"
  shows "delete_if_covered i b (Some p) (Some l) s =
    (case pending_of s i b of None \<Rightarrow> (Inr False, s)
     | Some r \<Rightarrow> if removable (min p l) r then (Inr True, drop_pending i b s) else (Inr False, s))"
proof -
  let ?q = "\<lambda>r. pending_key i b r \<and> pe_source_through r \<le> min p l \<and> pe_handled_flush_generation r = pe_flush_generation r"
  have "sql_delete ARTIFACT_PROCESSING_PENDING_TABLE ?q s = (case pending_of s i b of None \<Rightarrow> (Inr 0, s)
     | Some r \<Rightarrow> if ?q r then (Inr 1, drop_pending i b s) else (Inr 0, s))"
    by (rule pending_t.delete_run [OF assms(1)]) (simp add: pending_key_pk)
  moreover have "pending_key i b r" if "pending_of s i b = Some r" for r
    using pending_t.lookup_key [OF that] by (simp add: pending_key_pk)
  ultimately show ?thesis
    using assms(2,3) unfolding delete_if_covered_def
    by (simp add: bind_run andThen_run Let_def removable_def split: option.split)
qed

text \<open>The two statements on the pending row, together.\<close>

lemma finish_pending_run:
  assumes "pendings_ok s" and "valid_key i b" and "0 \<le> pt_captured_flush_generation tg"
    and "pt_source_through tg \<le> p"
  shows "bind (mark_flush_handled i b (pt_captured_flush_generation tg)) (\<lambda>pending.
       andThen (if pt_source_through tg > 0
                then andThen (delete_if_covered i b (Some p) (Some (pt_source_through tg))) (return ())
                else return ()) (g pending)) s =
     g (map_option (handled_row (pt_captured_flush_generation tg)) (pending_of s i b)) (finished_pendings i b tg s)"
proof (cases "pending_of s i b")
  case None
  with assms show ?thesis
    by (simp add: bind_run andThen_run mark_flush_handled_run(1) delete_if_covered_run finished_pendings_def)
next
  case (Some r)
  let ?h = "handled_row (pt_captured_flush_generation tg) r"
  have "pending_pk ?h = (b, i)" using pending_t.lookup_key [OF Some] by (simp add: handled_row_def)
  then have look: "pending_of (put_pending ?h s) i b = Some ?h" by (simp add: pending_t.lookup_store)
  have "pendings_ok (put_pending ?h s)" using mark_flush_handled_run(2) [OF assms(1-3) Some] .
  from delete_if_covered_run [OF this, of p "pt_source_through tg" i b] look assms Some show ?thesis
    by (auto simp: bind_run andThen_run mark_flush_handled_run(1) finished_pendings_def finished_pending_def Let_def
        min_absorb2)
qed

text \<open>The target was taken from this intent: its request is open and its dirt was seen.\<close>

definition target_open :: "db \<Rightarrow> work_assignment \<Rightarrow> processing_target \<Rightarrow> intent_row \<Rightarrow> bool" where
  "target_open s a tg cur \<longleftrightarrow> (\<exists>r. target_of s a = Some r \<and> target_key a tg r)
     \<and> intent_of s (wa_scope_id a) (wa_binding_name a) = Some cur
     \<and> in_handled_generation cur < pt_target_request_generation tg
     \<and> pt_target_request_generation tg \<le> in_requested_generation cur
     \<and> pt_observed_dirty_generation tg \<le> in_dirty_generation cur"

text \<open>Nothing arrived after the snapshot: no source beyond it and no flush it did not capture.\<close>

definition snapshot_current :: "db \<Rightarrow> work_assignment \<Rightarrow> processing_target \<Rightarrow> bool" where
  "snapshot_current s a tg \<longleftrightarrow> journal_head s (wa_scope_id a) \<le> pt_source_through tg
     \<and> (\<forall>p. pending_of s (wa_scope_id a) (wa_binding_name a) = Some p \<longrightarrow>
          pe_source_through p \<le> pt_source_through tg \<and> pe_flush_generation p \<le> pt_captured_flush_generation tg)"

definition flush_uncaptured :: "processing_target \<Rightarrow> pending_row \<Rightarrow> bool" where
  "flush_uncaptured tg p \<longleftrightarrow> pt_captured_flush_generation tg < pe_flush_generation p
     \<and> pe_handled_flush_generation p < pe_flush_generation p"

lemma require_target_run:
  assumes "targets_ok s"
  shows "require_target a tg s = (if \<exists>r. target_of s a = Some r \<and> target_key a tg r then (Inr (), s)
     else (Inl (GenerationConflict (wa_binding_name a) (Some (pt_target_request_generation tg)) None), s))"
proof -
  have "List.find (target_key a tg) (topic_targets s) \<noteq> None \<longleftrightarrow> (\<exists>r \<in> set (topic_targets s). target_key a tg r)"
    by (auto simp: find_None_iff)
  also have "\<dots> \<longleftrightarrow> (\<exists>r. target_of s a = Some r \<and> target_key a tg r)"
    using topic_targets_t.lookup_iff [OF assms] by (auto simp: target_key_def)
  finally show ?thesis by (auto simp: require_target_def bind_run)
qed

lemma finish_target_run:
  assumes "scope_env s (wa_scope_id a) (wa_binding_name a)" and "target_open s a tg cur"
    and "pt_source_through tg \<le> cursor_position s (wa_scope_id a) (wa_binding_name a)"
  defines "clean \<equiv> if snapshot_current s a tg then Some (pt_observed_dirty_generation tg) else None"
  shows "finish_target a tg s = (Inr (), drop_target a (upd_intent (wa_scope_id a) (wa_binding_name a)
      (ack_row (pt_target_request_generation tg) clean False cur)
      (finished_pendings (wa_scope_id a) (wa_binding_name a) tg s)))"
proof -
  let ?i = "wa_scope_id a" and ?b = "wa_binding_name a"
  let ?s1 = "finished_pendings ?i ?b tg s"
  let ?s2 = "upd_intent ?i ?b (ack_row (pt_target_request_generation tg) clean False cur) ?s1"
  let ?p = "map_option (handled_row (pt_captured_flush_generation tg)) (pending_of s ?i ?b)"
  from assms(2) obtain r where r: "target_of s a = Some r" "target_key a tg r" by (auto simp: target_open_def)
  have ok: "targets_ok s" "pendings_ok s" "intents_inv s" "valid_key ?i ?b"
    using assms(1) by (simp_all add: scope_env_def frontier_readable_def)
  have adm: "0 < pt_target_request_generation tg" "0 \<le> pt_captured_flush_generation tg" "0 \<le> pt_observed_dirty_generation tg"
    using topic_targets_t.lookup_admits [OF ok(1) r(1)] r(2) by (simp_all add: handle_admits target_key_def)
  obtain x where x: "cursor_load ?i ?b s = (Inr x, s)"
      "(case x of None \<Rightarrow> 0 | Some c \<Rightarrow> sc_cursor c) = cursor_position s ?i ?b"
    using scope_env_cursor [OF assms(1)] by blast
  have inv1: "intents_inv ?s1" and of1: "intent_of ?s1 ?i ?b = Some cur"
    using ok(3) assms(2)
    by (simp_all add: target_open_def intents_inv_def table_ok_def handle_admits seq_of_def intent_of_def del: intents_invD)
  have ack: "acknowledge ?i ?b (pt_target_request_generation tg) clean False ?s1 =
      (Inr (ack_row (pt_target_request_generation tg) clean False cur cur), ?s2)"
    using acknowledge_accepted(1) [OF inv1 ok(4) of1] assms(2) adm
    by (auto simp: target_open_def ack_accepted_def clean_def)
  have "targets_ok ?s2" "target_of ?s2 a = Some r"
    using ok(1) r(1) by (simp_all add: upd_intent_def table_ok_def handle_admits lookup_row_def)
  then have del: "sql_delete TOPIC_MEMORY_PROCESSING_TARGETS_TABLE (target_key a tg) ?s2 = (Inr 1, drop_target a ?s2)"
    using r(2) by (subst topic_targets_t.delete_run [where k = "(?b, ?i)"]) (auto simp: target_key_def)
  have cov: "(case ?p of None \<Rightarrow> True | Some p \<Rightarrow> pe_source_through p \<le> pt_source_through tg
      \<and> pe_flush_generation p \<le> pt_captured_flush_generation tg) \<and> journal_head ?s1 ?i \<le> pt_source_through tg
      \<longleftrightarrow> snapshot_current s a tg"
    by (auto simp: snapshot_current_def journal_head_def lookup_row_def handled_row_def split: option.split)
  let ?g = "\<lambda>pending. bind (if (case pending of None \<Rightarrow> True | Some p \<Rightarrow> pe_source_through p \<le> pt_source_through tg
          \<and> pe_flush_generation p \<le> pt_captured_flush_generation tg)
        then bind (scope_head ?i) (\<lambda>h. return (h \<le> pt_source_through tg)) else return False) (\<lambda>clean.
     andThen (acknowledge ?i ?b (pt_target_request_generation tg)
                (if clean then Some (pt_observed_dirty_generation tg) else None) False)
    (bind (sql_delete TOPIC_MEMORY_PROCESSING_TARGETS_TABLE (target_key a tg)) (\<lambda>rowcount.
     require (rowcount = 1) (GenerationConflict ?b (Some (pt_target_request_generation tg)) None))))"
  have "finish_target a tg s = bind (mark_flush_handled ?i ?b (pt_captured_flush_generation tg)) (\<lambda>pending.
       andThen (if pt_source_through tg > 0
                then andThen (delete_if_covered ?i ?b (Some (cursor_position s ?i ?b)) (Some (pt_source_through tg))) (return ())
                else return ()) (?g pending)) s"
    unfolding finish_target_def andThen_run [of "require_target a tg"] bind_run [of "cursor_load i b" for i b]
    using r ok(1) x assms(3) by (simp add: require_target_run Let_def)
  also have "\<dots> = ?g ?p ?s1"
    by (rule finish_pending_run [OF ok(2,4) adm(2) assms(3)])
  also have "\<dots> = (Inr (), drop_target a ?s2)"
    using cov ack del
    by (cases "snapshot_current s a tg") (auto simp: bind_run andThen_run scope_head_run clean_def)
  finally show ?thesis .
qed

section \<open>Properties of targets\<close>

text \<open>
  C8: finishing a target retires exactly the work its snapshot covered. The target row is gone
  and the invocation it was taken for is handled; the observed dirty generation counts as
  clean only if no source and no flush arrived after the snapshot. A pending row whose
  watermark passed the snapshot, or that has an open flush the snapshot did not capture,
  stays with its watermark and flush counter, and that flush stays open.
\<close>

theorem finish_target_keeps_new_work:
  assumes "scope_env s (wa_scope_id a) (wa_binding_name a)" and "target_open s a tg cur"
    and "pt_source_through tg \<le> cursor_position s (wa_scope_id a) (wa_binding_name a)"
  shows "\<exists>t cur'. finish_target a tg s = (Inr (), t) \<and> target_of t a = None
    \<and> intent_of t (wa_scope_id a) (wa_binding_name a) = Some cur'
    \<and> in_handled_generation cur' = pt_target_request_generation tg
    \<and> in_requested_generation cur' = in_requested_generation cur
    \<and> in_dirty_generation cur' = in_dirty_generation cur
    \<and> in_clean_generation cur' = (if snapshot_current s a tg
         then max (in_clean_generation cur) (pt_observed_dirty_generation tg) else in_clean_generation cur)
    \<and> (\<forall>p. pending_of s (wa_scope_id a) (wa_binding_name a) = Some p \<and> flush_uncaptured tg p \<longrightarrow>
         (\<exists>p'. pending_of t (wa_scope_id a) (wa_binding_name a) = Some p'
            \<and> pe_source_through p' = pe_source_through p \<and> pe_flush_generation p' = pe_flush_generation p
            \<and> pe_handled_flush_generation p' < pe_flush_generation p'))
    \<and> (\<forall>p. pending_of s (wa_scope_id a) (wa_binding_name a) = Some p \<and> pt_source_through tg < pe_source_through p \<longrightarrow>
         (\<exists>p'. pending_of t (wa_scope_id a) (wa_binding_name a) = Some p'
            \<and> pe_source_through p' = pe_source_through p \<and> pe_flush_generation p' = pe_flush_generation p))"
proof -
  let ?i = "wa_scope_id a" and ?b = "wa_binding_name a"
  let ?f = "ack_row (pt_target_request_generation tg)
      (if snapshot_current s a tg then Some (pt_observed_dirty_generation tg) else None) False cur"
  let ?t = "drop_target a (upd_intent ?i ?b ?f (finished_pendings ?i ?b tg s))"
  have cur: "intent_of s ?i ?b = Some cur" "in_handled_generation cur < pt_target_request_generation tg"
    using assms(2) by (simp_all add: target_open_def)
  have fields: "intents ?t = intents (upd_intent ?i ?b ?f s)" "pendings ?t = pendings (finished_pendings ?i ?b tg s)"
    by (simp_all add: remove_row_def upd_intent_def)
  have "keeps_intent_key ?f" by (simp add: keeps_intent_key_def ack_row_def)
  then have int: "intent_of ?t ?i ?b = Some (?f cur)"
    using intent_of_upd [of ?f ?i ?b s ?i ?b] cur(1) fields(1) by (simp add: intent_of_def)
  have pend: "pending_of ?t ?i ?b = finished_pending tg p" if "pending_of s ?i ?b = Some p" for p
    using pending_of_finished [OF that, of tg] fields(2) by (simp add: lookup_row_def)
  have "finish_target a tg s = (Inr (), ?t)" "target_of ?t a = None"
    using finish_target_run [OF assms] by (simp_all add: topic_targets_t.lookup_remove)
  moreover have "in_handled_generation (?f cur) = pt_target_request_generation tg"
    "in_requested_generation (?f cur) = in_requested_generation cur" "in_dirty_generation (?f cur) = in_dirty_generation cur"
    "in_clean_generation (?f cur) = (if snapshot_current s a tg
         then max (in_clean_generation cur) (pt_observed_dirty_generation tg) else in_clean_generation cur)"
    using cur(2) by (simp_all add: ack_row_def)
  moreover have "\<exists>p'. pending_of ?t ?i ?b = Some p' \<and> pe_source_through p' = pe_source_through p
      \<and> pe_flush_generation p' = pe_flush_generation p \<and> pe_handled_flush_generation p' < pe_flush_generation p'"
    if "pending_of s ?i ?b = Some p \<and> flush_uncaptured tg p" for p
    using that pend [of p]
    by (auto simp: finished_pending_def handled_row_def removable_def flush_uncaptured_def Let_def max_def min_def)
  moreover have "\<exists>p'. pending_of ?t ?i ?b = Some p' \<and> pe_source_through p' = pe_source_through p
      \<and> pe_flush_generation p' = pe_flush_generation p"
    if "pending_of s ?i ?b = Some p \<and> pt_source_through tg < pe_source_through p" for p
    using that pend by (simp add: finished_pending_def handled_row_def removable_def Let_def)
  ultimately show ?thesis using int by blast
qed

lemma preserves_require_fence:
  assumes "\<And>s n. P (s\<lparr>ticks := n\<rparr>) = P s"
  shows "preserves P (require_fence f)"
  unfolding require_fence_def lease_load_def
  by (intro preserves_rules preserves_database_utc_now assms)

lemma require_fence_ticks:
  assumes "require_fence f s = (r, t)"
  shows "\<exists>n. t = s\<lparr>ticks := n\<rparr>"
proof (rule preservesE [OF preserves_require_fence _ assms])
  show "(\<exists>n. x\<lparr>ticks := k\<rparr> = s\<lparr>ticks := n\<rparr>) = (\<exists>n. x = s\<lparr>ticks := n\<rparr>)" for x k
    by (cases x; cases s) auto
  show "\<exists>n. s = s\<lparr>ticks := n\<rparr>" by (intro exI [of _ "ticks s"]) simp
qed

lemma scope_env_ticks [simp]: "scope_env (s\<lparr>ticks := n\<rparr>) i b = scope_env s i b"
  by (simp add: scope_env_def frontier_readable_def table_ok_def handle_admits cursor_of_def intents_inv_def seq_of_def
      del: intents_invD)

text \<open>Reading the row of a target that exists, whatever else changed.\<close>

lemma scope_target_existing:
  assumes "scope_env s (wa_scope_id a) (wa_binding_name a)" and "require_fence (wa_fence a) s = (Inr l, t)"
    and "intent_of s (wa_scope_id a) (wa_binding_name a) = Some cur"
    and "wa_claimed_request_generation a \<le> in_requested_generation cur"
    and "in_handled_generation cur < wa_claimed_request_generation a"
  shows "scope_target a s = db_transaction (\<lambda>_. case target_of t a of
      Some r \<Rightarrow> if tt_target_request_generation r > wa_claimed_request_generation a
        then (Inl (GenerationConflict (wa_binding_name a) (Some (wa_claimed_request_generation a))
                     (Some (tt_target_request_generation r))), t)
        else (Inr (Some (stored_target r)), t)
    | None \<Rightarrow> bind (capture_target a cur) (\<lambda>target. return (Some target)) t) s"
proof -
  let ?i = "wa_scope_id a" and ?b = "wa_binding_name a"
  obtain n where n: "t = s\<lparr>ticks := n\<rparr>" using require_fence_ticks [OF assms(2)] by blast
  with assms(1) have env: "scope_env t ?i ?b" by simp
  then have ok: "targets_ok t" "intents_ok t" "valid_key ?i ?b" "table_ok SOURCE_JOURNAL_HEADS_TABLE t"
    by (simp_all add: scope_env_def frontier_readable_def)
  have "intent_of t ?i ?b = Some cur" using assms(3) n by (simp add: intent_of_def)
  moreover have "sql_one_or_none TOPIC_MEMORY_PROCESSING_TARGETS_TABLE
      (\<lambda>r. tt_scope_id r = ?i \<and> tt_binding_name r = ?b) t = (Inr (target_of t a), t)"
    using ok(1) by (rule topic_targets_t.load_run) auto
  ultimately show ?thesis
    using assms(2,4,5) ok
    unfolding scope_target_def db_transaction_run
    by (simp add: andThen_run bind_run [of "intent_load i b" for i b] lock_source_head_run intent_load_run
        bind_run [of "sql_one_or_none T p" for T p] split: option.split)
qed

lemma scope_target_Some:
  assumes "scope_env s (wa_scope_id a) (wa_binding_name a)" and "scope_target a s = (Inr (Some tg), t)"
  shows "\<exists>r. target_of t a = Some r \<and> stored_target r = tg \<and> tt_target_request_generation r \<le> wa_claimed_request_generation a"
proof -
  let ?i = "wa_scope_id a" and ?b = "wa_binding_name a"
  have run: "andThen (require_fence (wa_fence a)) rest s = (Inr (Some tg), t) \<Longrightarrow>
      \<exists>l u. require_fence (wa_fence a) s = (Inr l, u) \<and> rest u = (Inr (Some tg), t)" for rest :: "(db, processing_target option) exec"
    by (simp add: exec_Inr_iffs)
  from assms(2) obtain l u where fence: "require_fence (wa_fence a) s = (Inr l, u)"
    by (auto simp: scope_target_def db_transaction_Inr_iff dest!: run)
  obtain n where n: "u = s\<lparr>ticks := n\<rparr>" using require_fence_ticks [OF fence] by blast
  with assms(1) have env: "scope_env u ?i ?b" by simp
  then have ok: "targets_ok u" "intents_ok u" "valid_key ?i ?b" "table_ok SOURCE_JOURNAL_HEADS_TABLE u" "pendings_ok u"
    by (simp_all add: scope_env_def frontier_readable_def)
  from assms(2) fence obtain cur where cur: "intent_of u ?i ?b = Some cur"
    "wa_claimed_request_generation a \<le> in_requested_generation cur" "in_handled_generation cur < wa_claimed_request_generation a"
    by (auto simp: scope_target_def db_transaction_Inr_iff andThen_run bind_run [of "intent_load i b" for i b]
        lock_source_head_run ok intent_load_run split: option.splits if_splits)
  then have "intent_of s ?i ?b = Some cur" using n by (simp add: intent_of_def)
  note ex = scope_target_existing [OF assms(1) fence this cur(2,3)]
  show ?thesis
  proof (cases "target_of u a")
    case (Some r)
    with ex assms(2) show ?thesis
      by (auto simp: db_transaction_run split: if_splits)
  next
    case None
    let ?tg = "\<lparr>pt_target_request_generation = wa_claimed_request_generation a, pt_source_through = journal_head u ?i,
        pt_captured_flush_generation = (case pending_of u ?i ?b of None \<Rightarrow> 0 | Some p \<Rightarrow> pe_flush_generation p),
        pt_observed_dirty_generation = in_dirty_generation cur\<rparr>"
    have "db_transaction (\<lambda>_. bind (capture_target a cur) (\<lambda>target. return (Some target)) u) s = (Inr (Some tg), t)"
      using ex assms(2) None by simp
    then have cap: "bind (capture_target a cur) (\<lambda>target. return (Some target)) u = (Inr (Some tg), t)"
      unfolding db_transaction_Inr_iff .
    then have tg: "tg = ?tg" and ins: "sql_insert TOPIC_MEMORY_PROCESSING_TARGETS_TABLE (target_row a ?tg) u = (Inr (), t)"
      using pending_load_run [OF ok(5,3)] by (auto simp: capture_target_def exec_Inr_iffs scope_head_run Let_def)
    have pk: "topic_target_pk (target_row a ?tg) = (?b, ?i)" by (simp add: target_row_def)
    have "admits TOPIC_MEMORY_PROCESSING_TARGETS_TABLE u (target_row a ?tg)"
      using ins by (auto simp: sql_insert_def split: if_splits)
    with topic_targets_t.insert_store [of u "target_row a ?tg"] None ins pk
    have "t = store_row TOPIC_MEMORY_PROCESSING_TARGETS_TABLE topic_target_pk (target_row a ?tg) u" by simp
    then have "target_of t a = Some (target_row a ?tg)" using pk by (simp add: topic_targets_t.lookup_store)
    then show ?thesis using tg by (simp add: target_row_def stored_target_def)
  qed
qed

text \<open>
  A target is captured once. As long as the worker still leads and the invocation is still
  open, reading the target again returns the same snapshot and writes no row, however far the
  journal, the cursor and the pending row have moved since.
\<close>

theorem target_captured_once:
  assumes "scope_env s (wa_scope_id a) (wa_binding_name a)" and "scope_target a s = (Inr (Some tg), t)"
    and "scope_env u (wa_scope_id a) (wa_binding_name a)" and "target_of u a = target_of t a"
    and "intent_of u (wa_scope_id a) (wa_binding_name a) = Some cur"
    and "in_handled_generation cur < wa_claimed_request_generation a"
    and "wa_claimed_request_generation a \<le> in_requested_generation cur"
    and "require_fence (wa_fence a) u = (Inr l, v)"
  shows "scope_target a u = (Inr (Some tg), v) \<and> (\<exists>n. v = u\<lparr>ticks := n\<rparr>)"
proof
  show n: "\<exists>n. v = u\<lparr>ticks := n\<rparr>" using require_fence_ticks [OF assms(8)] .
  then have "target_of v a = target_of u a" by (auto simp: lookup_row_def)
  with scope_target_Some [OF assms(1,2)] assms(4)
    scope_target_existing [OF assms(3) assms(8) assms(5,7,6)]
  show "scope_target a u = (Inr (Some tg), v)"
    by (auto simp: db_transaction_Inr_iff)
qed

section \<open>The window loop ends\<close>

text \<open>
  What the loop relies on: a window processor that reports success has published the window
  and moved the cursor of the scope to its end.
\<close>

definition advances_cursor :: "window_processor \<Rightarrow> bool" where
  "advances_cursor proc \<longleftrightarrow> (\<forall>w hook s result t. proc w hook s = (Inr result, t) \<longrightarrow> co_outcome result = SUCCEEDED \<longrightarrow>
     wi_source_through w \<le> cursor_position t (wi_scope_id w) (wi_binding_name w))"

lemma open_iteration_Inr:
  assumes "open_iteration sp a tg s = (Inr (Inr cursor), t)"
  shows "(case cursor of None \<Rightarrow> 0 | Some c \<Rightarrow> sc_cursor c) = cursor_position s (wa_scope_id a) (wa_binding_name a)"
    and "cursor_position s (wa_scope_id a) (wa_binding_name a) < pt_source_through tg"
proof -
  from assms obtain l u where fence: "require_fence (wa_fence a) s = (Inr l, u)"
    and load: "cursor_load (wa_scope_id a) (wa_binding_name a) u = (Inr cursor, t)"
    and less: "\<not> (case cursor of None \<Rightarrow> 0 | Some c \<Rightarrow> sc_cursor c) \<ge> pt_source_through tg"
    by (auto simp: open_iteration_def db_transaction_Inr_iff exec_Inr_iffs split: if_splits)
  have "cursor_position u (wa_scope_id a) (wa_binding_name a) = cursor_position s (wa_scope_id a) (wa_binding_name a)"
    using require_fence_ticks [OF fence] by (auto simp: cursor_position_def cursor_of_def)
  with cursor_load_position [OF load] less
  show "(case cursor of None \<Rightarrow> 0 | Some c \<Rightarrow> sc_cursor c) = cursor_position s (wa_scope_id a) (wa_binding_name a)"
    "cursor_position s (wa_scope_id a) (wa_binding_name a) < pt_source_through tg" by simp_all
qed

text \<open>The sources left between the cursor and the target: the fuel that is enough.\<close>

definition sources_left :: "db \<Rightarrow> work_assignment \<Rightarrow> processing_target \<Rightarrow> nat" where
  "sources_left s a tg = nat (pt_source_through tg - cursor_position s (wa_scope_id a) (wa_binding_name a))"

lemma window_iteration_progress:
  assumes "advances_cursor (sp_processor sp)" and "window_iteration sp a tg d s = (Inr (Inr d'), t)"
  shows "sources_left t a tg < sources_left s a tg"
proof -
  from assms(2) obtain op u where op: "open_iteration sp a tg s = (Inr op, u)"
    by (auto simp: window_iteration_def bind_Inr_iff)
  with assms(2) obtain cursor where "op = Inr cursor" by (cases op) (auto simp: window_iteration_def bind_run)
  with op have opened: "open_iteration sp a tg s = (Inr (Inr cursor), u)" by simp
  with assms(2) obtain through v result where
    less: "(case cursor of None \<Rightarrow> 0 | Some c \<Rightarrow> sc_cursor c) < through" "through \<le> pt_source_through tg"
    and proc: "sp_processor sp (window_of a tg cursor (case cursor of None \<Rightarrow> 0 | Some c \<Rightarrow> sc_cursor c) through)
        (commit_hook a tg through) v = (Inr result, t)" "co_outcome result = SUCCEEDED"
    by (auto simp: window_iteration_def bind_run [of "open_iteration sp a tg"] exec_Inr_iffs Let_def split: if_splits)
  have "through \<le> cursor_position t (wa_scope_id a) (wa_binding_name a)"
    using assms(1) proc by (fastforce simp: advances_cursor_def window_of_def)
  with less open_iteration_Inr [OF opened] show ?thesis by (auto simp: sources_left_def)
qed

lemma process_target_fuel:
  assumes "advances_cursor (sp_processor sp)" and "sources_left s a tg < n"
  shows "fst (process_target n sp a tg d s) \<noteq> Inr None"
  using assms(2)
proof (induction n arbitrary: d s)
  case (Suc n)
  obtain r t where turn: "window_iteration sp a tg d s = (r, t)" by fastforce
  consider e where "r = Inl e" | c where "r = Inr (Inl c)" | d' where "r = Inr (Inr d')"
    by (metis sum.exhaust)
  then show ?case
  proof cases
    case 3
    with turn Suc.prems window_iteration_progress [OF assms(1), of a tg d s d' t] have "sources_left t a tg < n" by simp
    from Suc.IH [OF this] 3 turn show ?thesis by (simp add: bind_run)
  qed (use turn in \<open>simp_all add: bind_run\<close>)
qed simp

lemma process_target_more_fuel:
  "fst (process_target n sp a tg d s) \<noteq> Inr None \<Longrightarrow>
     process_target (Suc n) sp a tg d s = process_target n sp a tg d s"
proof (induction n arbitrary: d s)
  case (Suc n)
  obtain r t where turn: "window_iteration sp a tg d s = (r, t)" by fastforce
  consider e where "r = Inl e" | c where "r = Inr (Inl c)" | d' where "r = Inr (Inr d')"
    by (metis sum.exhaust)
  then show ?case
  proof cases
    case 3
    with turn Suc.prems Suc.IH [of d' t] show ?thesis by (simp add: bind_run)
  qed (use turn in \<open>simp_all add: bind_run\<close>)
qed simp

lemma process_target_stable:
  assumes "fst (process_target n sp a tg d s) \<noteq> Inr None" and "n \<le> m"
  shows "process_target m sp a tg d s = process_target n sp a tg d s"
  using assms(2)
proof (induction m rule: dec_induct)
  case (step m)
  with process_target_more_fuel [of m sp a tg d s] assms(1) show ?case by simp
qed simp

lemma process_rounds_stable:
  assumes "advances_cursor (sp_processor sp)"
  shows "\<exists>n r. \<forall>m \<ge> n. process_rounds k m sp a d s = r \<and> fst r \<noteq> Inr (Inr None)"
proof (induction k arbitrary: d s)
  case 0
  show ?case by (intro exI [of _ 0] exI [of _ "(Inr (Inl ()), s)"]) simp
next
  case (Suc k)
  obtain r1 t where target: "scope_target a s = (r1, t)" by fastforce
  show ?case
  proof (cases "\<exists>tg. r1 = Inr (Some tg)")
    case False
    then consider e where "r1 = Inl e" | "r1 = Inr None" by (cases r1) auto
    then show ?thesis
    proof cases
      case 1
      with target show ?thesis by (intro exI [of _ 0] exI [of _ "(Inl e, t)"]) (simp add: bind_run)
    next
      case 2
      with target show ?thesis
        by (intro exI [of _ 0] exI [of _ "(Inr (Inr (Some (completion SUCCEEDED (\<not> d)))), t)"]) (simp add: bind_run)
    qed
  next
    case True
    then obtain tg where tg: "r1 = Inr (Some tg)" by blast
    define n0 where "n0 = Suc (sources_left t a tg)"
    have enough: "fst (process_target n0 sp a tg False t) \<noteq> Inr None"
      by (rule process_target_fuel [OF assms]) (simp add: n0_def)
    obtain r2 u where ran: "process_target n0 sp a tg False t = (r2, u)" by fastforce
    have same: "process_target m sp a tg False t = (r2, u)" if "n0 \<le> m" for m
      using process_target_stable [OF enough that] ran by simp
    show ?thesis
    proof (cases r2)
      case (Inl e)
      with target tg same show ?thesis
        by (intro exI [of _ n0] exI [of _ "(Inl e, u)"]) (simp add: bind_run)
    next
      case (Inr res)
      with enough ran obtain result where res: "res = Some result" by (cases res) auto
      obtain n1 r where rest: "\<forall>m \<ge> n1. process_rounds k m sp a (d \<or> \<not> co_noop result) u = r \<and> fst r \<noteq> Inr (Inr None)"
        using Suc.IH by blast
      let ?r = "if co_outcome result \<noteq> SUCCEEDED then (Inr (Inr (Some result)), u)
         else if pt_target_request_generation tg = wa_claimed_request_generation a
         then (Inr (Inr (Some (result\<lparr>co_noop := \<not> (d \<or> \<not> co_noop result)\<rparr>))), u) else r"
      have "process_rounds (Suc k) m sp a d s = ?r \<and> fst ?r \<noteq> Inr (Inr None)" if "max n0 n1 \<le> m" for m
        using target tg same [of m] Inr res rest [rule_format, of m] that by (simp add: bind_run Let_def)
      then show ?thesis by (intro exI [of _ "max n0 n1"] exI [of _ ?r]) blast
    qed
  qed
qed

text \<open>
  C17: every invocation ends. With a window processor that moves the cursor when it reports
  success, there is an amount of fuel from which on the run no longer depends on the fuel and
  returns a completion or raises; it never runs out. An iteration needs at most as many
  windows as sources were left.
\<close>

theorem invocation_ends:
  assumes "advances_cursor (sp_processor sp)"
  shows "(\<exists>n r. fst r \<noteq> Inr None \<and> (\<forall>m \<ge> n. scope_process m sp a block_id s = r))
    \<and> (\<forall>n tg d. sources_left s a tg < n \<longrightarrow> fst (process_target n sp a tg d s) \<noteq> Inr None)"
proof
  show "\<forall>n tg d. sources_left s a tg < n \<longrightarrow> fst (process_target n sp a tg d s) \<noteq> Inr None"
    using process_target_fuel [OF assms] by blast
  obtain n r where r: "\<forall>m \<ge> n. process_rounds 2 m sp a False s = r \<and> fst r \<noteq> Inr (Inr None)"
    using process_rounds_stable [OF assms] by blast
  then have never: "fst r \<noteq> Inr (Inr None)" by blast
  have same: "scope_process m sp a block_id s = scope_process n sp a block_id s" if "n \<le> m" for m
    using r that by (simp add: scope_process_def bind_run catch_run)
  have "fst (scope_process n sp a block_id s) \<noteq> Inr None"
    using r never
    by (cases r; cases "fst r")
       (auto simp: scope_process_def bind_run catch_run split: prod.splits sum.splits)
  with same show "\<exists>n r. fst r \<noteq> Inr None \<and> (\<forall>m \<ge> n. scope_process m sp a block_id s = r)" by blast
qed

section \<open>Examples\<close>

definition example_assignment :: work_assignment where
  "example_assignment = \<lparr>wa_binding_name = ''memory'', wa_scope_id = ''scope'', wa_artifact_family = ''topic-memory'',
     wa_claimed_request_generation = 1, wa_fence = example_fence ''node-2'' 2, wa_worker_id = ''worker''\<rparr>"

definition example_scope :: "int \<Rightarrow> topic_target_row list \<Rightarrow> db" where
  "example_scope head targets = example_leases\<lparr>
     journal_heads := [\<lparr>jh_scope_id = ''scope'', jh_position = head\<rparr>],
     cursors := [\<lparr>cu_scope_id = ''scope'', cu_binding_name = ''memory'', cu_cursor = Canonical 5, cu_generation = 1\<rparr>],
     pendings := [\<lparr>pe_binding_name = ''memory'', pe_scope_id = ''scope'', pe_source_through = head,
        pe_flush_generation = 1, pe_handled_flush_generation = 0\<rparr>],
     intents := [(new_intent ''scope'' ''memory'' 1)\<lparr>in_dirty_generation := 2, in_requested_generation := 1\<rparr>],
     sequences := [\<lparr>sq_singleton = 1, sq_sequence = 1\<rparr>],
     topic_targets := targets\<rparr>"

definition example_target :: "int \<Rightarrow> int \<Rightarrow> processing_target" where
  "example_target through flush = \<lparr>pt_target_request_generation = 1, pt_source_through = through,
     pt_captured_flush_generation = flush, pt_observed_dirty_generation = 2\<rparr>"

lemma example_assignment_fields [simp]:
  "wa_binding_name example_assignment = ''memory''" "wa_scope_id example_assignment = ''scope''"
  "wa_claimed_request_generation example_assignment = 1" "wa_fence example_assignment = example_fence ''node-2'' 2"
  by (simp_all add: example_assignment_def)

lemma example_scope_tables [simp]:
  "journal_heads (example_scope h ts) = [\<lparr>jh_scope_id = ''scope'', jh_position = h\<rparr>]"
  "cursors (example_scope h ts) = [\<lparr>cu_scope_id = ''scope'', cu_binding_name = ''memory'', cu_cursor = Canonical 5, cu_generation = 1\<rparr>]"
  "pendings (example_scope h ts) = [\<lparr>pe_binding_name = ''memory'', pe_scope_id = ''scope'', pe_source_through = h,
        pe_flush_generation = 1, pe_handled_flush_generation = 0\<rparr>]"
  "intents (example_scope h ts) = [(new_intent ''scope'' ''memory'' 1)\<lparr>in_dirty_generation := 2, in_requested_generation := 1\<rparr>]"
  "sequences (example_scope h ts) = [\<lparr>sq_singleton = 1, sq_sequence = 1\<rparr>]"
  "topic_targets (example_scope h ts) = ts" "leases (example_scope h ts) = [example_lease]" "budgets (example_scope h ts) = []"
  "ticks (example_scope h ts) = 0" "clock (example_scope h ts) = int"
  by (simp_all add: example_scope_def example_leases_def empty_db_def)

lemma example_scope_env:
  assumes "1 \<le> h" and "ts = [] \<or> (\<exists>p f. ts = [target_row example_assignment (example_target p f)] \<and> 0 \<le> p \<and> 0 \<le> f)"
  shows "scope_env (example_scope h ts) ''scope'' ''memory''"
  using assms valid_keys_example(1)
  by (auto simp: scope_env_def frontier_readable_def table_ok_def handle_admits clash_free_def cursor_of_def
      intents_inv_def seq_of_def new_intent_def target_row_def example_target_def simp del: intents_invD)

lemma example_scope_intent:
  "intent_of (example_scope h ts) ''scope'' ''memory'' =
     Some ((new_intent ''scope'' ''memory'' 1)\<lparr>in_dirty_generation := 2, in_requested_generation := 1\<rparr>)"
  by (simp add: intent_of_def intent_key_def new_intent_def)

lemma example_scope_fence: "require_fence (example_fence ''node-2'' 2) (example_scope h ts) = (Inr example_lease, tick (example_scope h ts))"
proof -
  have ok: "leases_ok (example_scope h ts)"
    by (simp add: table_ok_def handle_admits example_lease_def clash_free_def)
  have "lease_of (example_scope h ts) ''global'' = Some example_lease"
    by (simp add: lookup_row_def example_lease_def)
  then show ?thesis
    using example_identifiers(1) ok
    by (simp add: require_fence_def bind_run lease_load_run example_fence_def example_lease_def)
qed

theorem finish_target_keeps_new_work_witness:
  "\<exists>t cur'. finish_target example_assignment (example_target 5 1)
       (example_scope 9 [target_row example_assignment (example_target 5 1)]) = (Inr (), t)
     \<and> intent_of t ''scope'' ''memory'' = Some cur' \<and> in_handled_generation cur' = 1
     \<and> in_clean_generation cur' = 0 \<and> in_dirty_generation cur' = 2
     \<and> (\<exists>p. pending_of t ''scope'' ''memory'' = Some p \<and> pe_source_through p = 9)"
proof -
  let ?a = example_assignment and ?tg = "example_target 5 1"
  let ?s = "example_scope 9 [target_row ?a ?tg]"
  let ?cur = "(new_intent ''scope'' ''memory'' 1)\<lparr>in_dirty_generation := 2, in_requested_generation := 1\<rparr>"
  have env: "scope_env ?s (wa_scope_id ?a) (wa_binding_name ?a)"
    using example_scope_env [of 9 "[target_row ?a ?tg]"] by fastforce
  have opn: "target_open ?s ?a ?tg ?cur"
    using example_scope_intent [of 9 "[target_row ?a ?tg]"]
    by (simp add: target_open_def lookup_row_def target_row_def target_key_def example_target_def new_intent_def)
  have pos: "pt_source_through ?tg \<le> cursor_position ?s (wa_scope_id ?a) (wa_binding_name ?a)"
    by (simp add: cursor_position_def cursor_of_def cursor_key_def example_target_def)
  have pend: "\<exists>p. pending_of ?s ''scope'' ''memory'' = Some p \<and> pe_source_through p = 9"
    by (simp add: lookup_row_def)
  moreover have "\<not> snapshot_current ?s ?a ?tg"
    by (simp add: snapshot_current_def journal_head_def lookup_row_def example_target_def)
  ultimately show ?thesis
    using finish_target_keeps_new_work [OF env opn pos]
    by (force simp: example_target_def new_intent_def)
qed

theorem target_captured_once_witness:
  "\<exists>t. scope_target example_assignment (example_scope 7 []) = (Inr (Some (example_target 7 1)), t)
     \<and> scope_target example_assignment (example_scope 9 (topic_targets t)) =
         (Inr (Some (example_target 7 1)), tick (example_scope 9 (topic_targets t)))"
proof -
  let ?a = example_assignment
  let ?t = "(tick (example_scope 7 []))\<lparr>topic_targets := [target_row ?a (example_target 7 1)]\<rparr>"
  have env7: "scope_env (example_scope 7 []) (wa_scope_id ?a) (wa_binding_name ?a)"
    using example_scope_env [of 7 "[]"] by simp
  let ?s1 = "(example_scope 7 [])\<lparr>ticks := Suc 0\<rparr>"
  have "scope_env ?s1 ''scope'' ''memory''"
    using env7 by simp
  then have load: "pending_load ''scope'' ''memory'' ?s1 = (Inr (pending_of ?s1 ''scope'' ''memory''), ?s1)"
    using pending_load_run valid_keys_example(1) by (simp add: scope_env_def)
  have once: "scope_target ?a (example_scope 7 []) = (Inr (Some (example_target 7 1)), ?t)"
    by (subst scope_target_existing [OF env7 _ example_scope_intent [folded example_assignment_fields]])
       (auto simp: example_scope_fence new_intent_def lookup_row_def [of TOPIC_MEMORY_PROCESSING_TARGETS_TABLE]
         db_transaction_run bind_run andThen_run
         capture_target_def scope_head_run journal_head_def load sql_insert_def Let_def
         lookup_row_def handle_admits example_target_def target_row_def)
  let ?u = "example_scope 9 [target_row ?a (example_target 7 1)]"
  have env9: "scope_env ?u (wa_scope_id ?a) (wa_binding_name ?a)"
    using example_scope_env [of 9 "[target_row ?a (example_target 7 1)]"] by fastforce
  have same: "target_of ?u ?a = target_of ?t ?a" by (simp add: lookup_row_def)
  have "scope_target ?a ?u = (Inr (Some (example_target 7 1)), tick ?u)"
    by (rule target_captured_once [OF env7 once env9 same, THEN conjunct1])
       (simp_all add: example_scope_intent example_scope_fence new_intent_def, simp_all)
  with once show ?thesis by (intro exI [of _ ?t]) simp
qed

definition example_window_processor :: window_processor where
  "example_window_processor w hook =
     (let put = (\<lambda>s. (Inr (), s\<lparr>cursors := [\<lparr>cu_scope_id = wi_scope_id w, cu_binding_name = wi_binding_name w,
                    cu_cursor = Canonical (wi_source_through w), cu_generation = 1\<rparr>]\<rparr>)) in
      andThen put (andThen hook (andThen put (return (completion SUCCEEDED False)))))"

definition example_scope_processor :: scope_processor where
  "example_scope_processor = \<lparr>sp_processor = example_window_processor, sp_selector = (\<lambda>_ _ ceiling. return ceiling),
     sp_commit_authorizer = None, sp_source_window_limit = 2\<rparr>"

lemma example_advances: "advances_cursor (sp_processor example_scope_processor)"
  by (auto simp: advances_cursor_def example_scope_processor_def example_window_processor_def Let_def
      exec_Inr_iffs cursor_position_def cursor_of_def cursor_key_def)

theorem invocation_ends_witness:
  "\<exists>n r. fst r \<noteq> Inr None
     \<and> (\<forall>m \<ge> n. scope_process m example_scope_processor example_assignment ''block'' (example_scope 9 []) = r)"
  by (rule invocation_ends [THEN conjunct1]) (rule example_advances)

end
