(* ===== verification/Chunking.thy ===== *)
theory Chunking
  imports Prelude
begin

text \<open>
  Markdown-aware chunking of a topic's detail text, from
  \<^verbatim>\<open>src/src/powercontext/builtin/artifacts/topic_memory/chunking.py\<close>, with the chunk
  validators of \<^verbatim>\<open>topic_memory/models.py\<close>.

  Here a Python string is the list of its code points, since the sentence pattern names
  characters beyond the first 256. A regular expression is its matcher: each alternative of
  the two patterns is deterministic (no backtracking can change its outcome), and
  \<^verbatim>\<open>finditer\<close> is the left-to-right scan that continues after a match, and one position
  further after an empty one. \<^verbatim>\<open>str.isspace\<close> and \<^verbatim>\<open>\d\<close> are the character tables of
  Unicode 14.

  The lemmas show that chunks stay within the size and count limits, are slices of the
  detail in reading order, and together hold every character that is not white space.
\<close>

type_synonym code_points = "nat list"

section \<open>Characters and patterns\<close>

definition space_characters :: "nat list" where
  "space_characters = [
     9, 10, 11, 12, 13, 28, 29, 30, 31, 32, 133, 160, 5760, 8192, 8193, 8194, 8195, 8196, 8197,
     8198, 8199, 8200, 8201, 8202, 8232, 8233, 8239, 8287, 12288]"

definition is_space :: "nat \<Rightarrow> bool" where
  "is_space c \<longleftrightarrow> c \<in> set space_characters"

text \<open>The zero of every block of decimal digits; each block has ten consecutive characters.\<close>

definition digit_zeros :: "nat list" where
  "digit_zeros = [
     48, 1632, 1776, 1984, 2406, 2534, 2662, 2790, 2918, 3046, 3174, 3302, 3430, 3558, 3664,
     3792, 3872, 4160, 4240, 6112, 6160, 6470, 6608, 6784, 6800, 6992, 7088, 7232, 7248, 42528,
     43216, 43264, 43472, 43504, 43600, 44016, 65296, 66720, 68912, 69734, 69872, 69942, 70096,
     70384, 70736, 70864, 71248, 71360, 71472, 71904, 72016, 72784, 73040, 73120, 92768, 92864,
     93008, 120782, 120792, 120802, 120812, 120822, 123200, 123632, 125264, 130032]"

definition is_digit :: "nat \<Rightarrow> bool" where
  "is_digit c \<longleftrightarrow> list_ex (\<lambda>z. z \<le> c \<and> c < z + 10) digit_zeros"

abbreviation (input) newline :: nat where "newline \<equiv> 10"

definition is_blank :: "nat \<Rightarrow> bool" where
  "is_blank c \<longleftrightarrow> c = 32 \<or> c = 9"

text \<open>The end of the longest run of characters satisfying \<open>p\<close> that starts at \<open>i\<close>.\<close>

definition run_end :: "(nat \<Rightarrow> bool) \<Rightarrow> code_points \<Rightarrow> nat \<Rightarrow> nat" where
  "run_end p d i = i + length (takeWhile p (drop i d))"

definition char_at :: "code_points \<Rightarrow> nat \<Rightarrow> nat option" where
  "char_at d i = (if i < length d then Some (d ! i) else None)"

definition line_start :: "code_points \<Rightarrow> nat \<Rightarrow> bool" where
  "line_start d i \<longleftrightarrow> i = 0 \<or> char_at d (i - 1) = Some newline"

text \<open>\<^verbatim>\<open>\n[ \t]*\n+\<close>: the end of the match at \<open>i\<close>.\<close>

definition blank_lines_end :: "code_points \<Rightarrow> nat \<Rightarrow> nat option" where
  "blank_lines_end d i =
     (if char_at d i = Some newline
      then let j = run_end is_blank d (Suc i) in
        if char_at d j = Some newline then Some (run_end (\<lambda>c. c = newline) d j) else None
      else None)"

text \<open>\<^verbatim>\<open>^#{1,6}[ \t]+\<close> and \<^verbatim>\<open>^[ \t]*(?:[-*+] |\d+[.)] )\<close>, both looked ahead at.\<close>

definition heading_at :: "code_points \<Rightarrow> nat \<Rightarrow> bool" where
  "heading_at d i \<longleftrightarrow> line_start d i
     \<and> (let j = run_end (\<lambda>c. c = 35) d i in
          i < j \<and> j \<le> i + 6 \<and> (case char_at d j of Some c \<Rightarrow> is_blank c | None \<Rightarrow> False))"

definition item_at :: "code_points \<Rightarrow> nat \<Rightarrow> bool" where
  "item_at d i \<longleftrightarrow> line_start d i
     \<and> (let j = run_end is_blank d i; k = run_end is_digit d j in
          (char_at d j \<in> {Some 45, Some 42, Some 43} \<and> char_at d (Suc j) = Some 32)
          \<or> (j < k \<and> char_at d k \<in> {Some 46, Some 41} \<and> char_at d (Suc k) = Some 32))"

lemma run_end_ge: "i \<le> run_end p d i"
  by (simp add: run_end_def)

lemma blank_lines_end_after: "blank_lines_end d i = Some e \<Longrightarrow> i < e"
  using run_end_ge [of "Suc i" is_blank d] run_end_ge [of "run_end is_blank d (Suc i)" "\<lambda>c. c = newline" d]
  by (auto simp: blank_lines_end_def Let_def split: if_splits)

text \<open>\<^verbatim>\<open>[match.start() for match in _BLOCK_BOUNDARY.finditer(detail)]\<close>, from position \<open>i\<close>.\<close>

function block_starts :: "code_points \<Rightarrow> nat \<Rightarrow> nat list" where
  "block_starts d i =
     (if i < length d
      then (case blank_lines_end d i of
              Some e \<Rightarrow> i # block_starts d e
            | None \<Rightarrow> if heading_at d i \<or> item_at d i then i # block_starts d (Suc i)
                      else block_starts d (Suc i))
      else [])"
  by auto
termination
  by (relation "measure (\<lambda>(d, i). length d - i)") (auto dest: blank_lines_end_after)

declare block_starts.simps [simp del]

text \<open>
  \<^verbatim>\<open>[match.end() for match in _SENTENCE_BOUNDARY.finditer(block)]\<close> from position \<open>i\<close>: after
  one of the characters \<^verbatim>\<open>.!?\<close> or their full-width forms, a run of blanks, or nothing
  before a newline.
\<close>

definition sentence_enders :: "nat list" where
  "sentence_enders = [46, 33, 63, 0x3002, 0xFF01, 0xFF1F]"

definition after_ender :: "code_points \<Rightarrow> nat \<Rightarrow> bool" where
  "after_ender t i \<longleftrightarrow> 0 < i \<and> (case char_at t (i - 1) of Some c \<Rightarrow> c \<in> set sentence_enders | None \<Rightarrow> False)"

function sentence_ends :: "code_points \<Rightarrow> nat \<Rightarrow> nat list" where
  "sentence_ends t i =
     (if i < length t
      then if after_ender t i \<and> is_blank (t ! i) then run_end is_blank t i # sentence_ends t (max (Suc i) (run_end is_blank t i))
           else if after_ender t i \<and> t ! i = newline then i # sentence_ends t (Suc i)
           else sentence_ends t (Suc i)
      else [])"
  by auto
termination
  by (relation "measure (\<lambda>(t, i). length t - i)") auto

declare sentence_ends.simps [simp del]

section \<open>Spans\<close>

abbreviation (input) TOPIC_MEMORY_CHUNK_TARGET_CHARACTERS :: nat where "TOPIC_MEMORY_CHUNK_TARGET_CHARACTERS \<equiv> 1200"
abbreviation (input) TOPIC_MEMORY_CHUNK_MAX_CHARACTERS :: nat where "TOPIC_MEMORY_CHUNK_MAX_CHARACTERS \<equiv> 1800"
abbreviation (input) TOPIC_MEMORY_CHUNK_MIN_TAIL_CHARACTERS :: nat where "TOPIC_MEMORY_CHUNK_MIN_TAIL_CHARACTERS \<equiv> 300"
abbreviation (input) TOPIC_MEMORY_CHUNK_OVERLAP_CHARACTERS :: nat where "TOPIC_MEMORY_CHUNK_OVERLAP_CHARACTERS \<equiv> 160"
abbreviation (input) TOPIC_MEMORY_CHUNK_MAX_COUNT :: nat where "TOPIC_MEMORY_CHUNK_MAX_COUNT \<equiv> 200"
abbreviation (input) MAX_TOPIC_MEMORY_DETAIL_LENGTH :: nat where "MAX_TOPIC_MEMORY_DETAIL_LENGTH \<equiv> 125000"

record span =
  span_start :: nat
  span_end :: nat
  span_forced :: bool

definition Span :: "nat \<Rightarrow> nat \<Rightarrow> span" where
  "Span s e = \<lparr>span_start = s, span_end = e, span_forced = False\<rparr>"

definition Forced :: "nat \<Rightarrow> nat \<Rightarrow> span" where
  "Forced s e = \<lparr>span_start = s, span_end = e, span_forced = True\<rparr>"

lemma span_sel [simp]:
  "span_start (Span s e) = s" "span_end (Span s e) = e" "\<not> span_forced (Span s e)"
  "span_start (Forced s e) = s" "span_end (Forced s e) = e" "span_forced (Forced s e)"
  by (simp_all add: Span_def Forced_def)

function trim_left :: "code_points \<Rightarrow> nat \<Rightarrow> nat \<Rightarrow> nat" where
  "trim_left d start stop = (if start < stop \<and> is_space (d ! start) then trim_left d (Suc start) stop else start)"
  by auto
termination
  by (relation "measure (\<lambda>(d, start, stop). stop - start)") auto

fun trim_right :: "code_points \<Rightarrow> nat \<Rightarrow> nat \<Rightarrow> nat" where
  "trim_right d start stop = (if stop > start \<and> is_space (d ! (stop - 1)) then trim_right d start (stop - 1) else stop)"

declare trim_left.simps [simp del] trim_right.simps [simp del]

definition trimmed_span :: "code_points \<Rightarrow> nat \<Rightarrow> nat \<Rightarrow> span option" where
  "trimmed_span d start stop =
     (let s = trim_left d start stop; e = trim_right d s stop in
      if s = e then None else Some (Span s e))"

text \<open>\<^verbatim>\<open>pairwise(sorted(set(points)))\<close>.\<close>

definition intervals :: "nat list \<Rightarrow> (nat \<times> nat) list" where
  "intervals points = (let ps = sort (remdups points) in zip ps (tl ps))"

function forced_windows :: "nat \<Rightarrow> nat \<Rightarrow> span list" where
  "forced_windows position stop =
     (if position < stop
      then let window_end = min (position + TOPIC_MEMORY_CHUNK_MAX_CHARACTERS) stop in
        Forced position window_end
          # (if window_end = stop then []
             else forced_windows (window_end - TOPIC_MEMORY_CHUNK_OVERLAP_CHARACTERS) stop)
      else [])"
  by auto
termination
  by (relation "measure (\<lambda>(position, stop). stop - position)") (auto simp: min_def split: if_splits)

declare forced_windows.simps [simp del]

definition fit_or_split :: "(nat \<Rightarrow> nat \<Rightarrow> span list) \<Rightarrow> span option \<Rightarrow> span list" where
  "fit_or_split split s = (case s of
     None \<Rightarrow> []
   | Some b \<Rightarrow> if span_end b - span_start b \<le> TOPIC_MEMORY_CHUNK_MAX_CHARACTERS then [b]
              else split (span_start b) (span_end b))"

definition split_oversized_block :: "code_points \<Rightarrow> nat \<Rightarrow> nat \<Rightarrow> span list" where
  "split_oversized_block d start stop =
     (let points = start # stop # map (\<lambda>e. start + e) (sentence_ends (drop start (take stop d)) 0) in
      concat (map (\<lambda>(left, right). fit_or_split forced_windows (trimmed_span d left right)) (intervals points)))"

definition semantic_spans :: "code_points \<Rightarrow> span list" where
  "semantic_spans d =
     concat (map (\<lambda>(start, stop). fit_or_split (split_oversized_block d) (trimmed_span d start stop))
       (intervals (0 # length d # block_starts d 0)))"

function bounded_window_spans :: "code_points \<Rightarrow> nat \<Rightarrow> span list" where
  "bounded_window_spans d position =
     (if position < length d
      then let window_end = min (position + TOPIC_MEMORY_CHUNK_MAX_CHARACTERS) (length d) in
        (case trimmed_span d position window_end of None \<Rightarrow> [] | Some s \<Rightarrow> [Forced (span_start s) (span_end s)])
        @ (if window_end = length d then []
           else bounded_window_spans d (window_end - TOPIC_MEMORY_CHUNK_OVERLAP_CHARACTERS))
      else [])"
  by auto
termination
  by (relation "measure (\<lambda>(d, position). length d - position)") (auto simp: min_def split: if_splits)

declare bounded_window_spans.simps [simp del]

section \<open>Chunks\<close>

definition option_list :: "'a option \<Rightarrow> 'a list" where
  "option_list x = (case x of None \<Rightarrow> [] | Some y \<Rightarrow> [y])"

fun assemble :: "span list \<Rightarrow> span option \<Rightarrow> span list \<Rightarrow> span list" where
  "assemble assembled current [] = assembled @ option_list current"
| "assemble assembled current (s # spans) =
     (if span_forced s then assemble (assembled @ option_list current @ [s]) None spans
      else case current of
        None \<Rightarrow> assemble assembled (Some s) spans
      | Some c \<Rightarrow>
          if span_end s - span_start c \<le> TOPIC_MEMORY_CHUNK_MAX_CHARACTERS
          then let c' = Span (span_start c) (span_end s) in
            if span_end c' - span_start c' \<ge> TOPIC_MEMORY_CHUNK_TARGET_CHARACTERS
            then assemble (assembled @ [c']) None spans
            else assemble assembled (Some c') spans
          else assemble (assembled @ [c]) (Some s) spans)"

definition merge_tail :: "span list \<Rightarrow> span list" where
  "merge_tail assembled =
     (if length assembled \<ge> 2
         \<and> \<not> span_forced (last assembled)
         \<and> span_end (last assembled) - span_start (last assembled) < TOPIC_MEMORY_CHUNK_MIN_TAIL_CHARACTERS
         \<and> span_end (last assembled) - span_start (last (butlast assembled)) \<le> TOPIC_MEMORY_CHUNK_MAX_CHARACTERS
      then butlast (butlast assembled)
             @ [Span (span_start (last (butlast assembled))) (span_end (last assembled))]
      else assembled)"

definition chunk_spans :: "code_points \<Rightarrow> span list" where
  "chunk_spans d =
     (let assembled = merge_tail (assemble [] None (semantic_spans d)) in
      if length assembled > TOPIC_MEMORY_CHUNK_MAX_COUNT then bounded_window_spans d 0 else assembled)"

record chunk =
  ch_ordinal :: nat
  ch_start_offset :: nat
  ch_end_offset :: nat
  ch_text :: code_points

text \<open>The validators of a chunk: offsets in order, and a text that is not blank.\<close>

definition topic_memory_chunk :: "nat \<Rightarrow> nat \<Rightarrow> nat \<Rightarrow> code_points \<Rightarrow> error + chunk" where
  "topic_memory_chunk ordinal start stop txt =
     (if \<not> 0 < stop \<or> txt = [] \<or> stop \<le> start
      then Inl (ValidationError ''Topic Memory chunk end_offset must follow start_offset'')
      else if list_all is_space txt then Inl (ValidationError ''Topic Memory chunks must not be blank'')
      else Inr \<lparr>ch_ordinal = ordinal, ch_start_offset = start, ch_end_offset = stop, ch_text = txt\<rparr>)"

fun build_chunks :: "code_points \<Rightarrow> nat \<Rightarrow> span list \<Rightarrow> error + chunk list" where
  "build_chunks d ordinal [] = Inr []"
| "build_chunks d ordinal (s # spans) =
     (case topic_memory_chunk ordinal (span_start s) (span_end s) (drop (span_start s) (take (span_end s) d)) of
        Inl e \<Rightarrow> Inl e
      | Inr c \<Rightarrow> (case build_chunks d (Suc ordinal) spans of Inl e \<Rightarrow> Inl e | Inr cs \<Rightarrow> Inr (c # cs)))"

definition chunk_topic_memory_detail :: "code_points \<Rightarrow> error + chunk list" where
  "chunk_topic_memory_detail d = build_chunks d 0 (chunk_spans d)"

section \<open>Trimming\<close>

lemma trim_left_spec:
  "start \<le> stop \<Longrightarrow> start \<le> trim_left d start stop \<and> trim_left d start stop \<le> stop
     \<and> (\<forall>i. start \<le> i \<and> i < trim_left d start stop \<longrightarrow> is_space (d ! i))
     \<and> (trim_left d start stop < stop \<longrightarrow> \<not> is_space (d ! trim_left d start stop))"
proof (induction d start stop rule: trim_left.induct)
  case (1 d start stop)
  show ?case
  proof (cases "start < stop \<and> is_space (d ! start)")
    case True
    have eq: "trim_left d start stop = trim_left d (Suc start) stop"
      using True by (subst trim_left.simps) simp
    from True have IH: "Suc start \<le> trim_left d (Suc start) stop \<and> trim_left d (Suc start) stop \<le> stop
       \<and> (\<forall>i. Suc start \<le> i \<and> i < trim_left d (Suc start) stop \<longrightarrow> is_space (d ! i))
       \<and> (trim_left d (Suc start) stop < stop \<longrightarrow> \<not> is_space (d ! trim_left d (Suc start) stop))"
      by (intro 1) simp_all
    have "is_space (d ! i)" if "start \<le> i" "i < trim_left d (Suc start) stop" for i
      using that True IH by (cases "i = start") (simp_all add: Suc_le_eq)
    with IH show ?thesis unfolding eq by auto
  next
    case False
    then have "trim_left d start stop = start" by (subst trim_left.simps) auto
    with False 1(2) show ?thesis by auto
  qed
qed

lemma trim_right_spec:
  "start \<le> stop \<Longrightarrow> start \<le> trim_right d start stop \<and> trim_right d start stop \<le> stop
     \<and> (\<forall>i. trim_right d start stop \<le> i \<and> i < stop \<longrightarrow> is_space (d ! i))
     \<and> (start < trim_right d start stop \<longrightarrow> \<not> is_space (d ! (trim_right d start stop - 1)))"
proof (induction d start stop rule: trim_right.induct)
  case (1 d start stop)
  show ?case
  proof (cases "stop > start \<and> is_space (d ! (stop - 1))")
    case True
    have eq: "trim_right d start stop = trim_right d start (stop - 1)"
      using True by (subst trim_right.simps) simp
    from True have IH: "start \<le> trim_right d start (stop - 1) \<and> trim_right d start (stop - 1) \<le> stop - 1
       \<and> (\<forall>i. trim_right d start (stop - 1) \<le> i \<and> i < stop - 1 \<longrightarrow> is_space (d ! i))
       \<and> (start < trim_right d start (stop - 1) \<longrightarrow> \<not> is_space (d ! (trim_right d start (stop - 1) - 1)))"
      by (intro 1) linarith+
    have "is_space (d ! i)" if "trim_right d start (stop - 1) \<le> i" "i < stop" for i
      using that True IH by (cases "i = stop - 1") auto
    with IH show ?thesis unfolding eq by auto
  next
    case False
    then have "trim_right d start stop = stop" by (subst trim_right.simps) auto
    with False 1(2) show ?thesis by auto
  qed
qed

lemma trimmed_span_None:
  "start \<le> stop \<Longrightarrow> trimmed_span d start stop = None \<Longrightarrow> start \<le> i \<Longrightarrow> i < stop \<Longrightarrow> is_space (d ! i)"
  using trim_left_spec [of start stop d] trim_right_spec [of "trim_left d start stop" stop d]
  by (auto simp: trimmed_span_def Let_def split: if_splits)

lemma trimmed_span_Some:
  assumes "start \<le> stop" and "trimmed_span d start stop = Some s"
  shows "start \<le> span_start s \<and> span_start s < span_end s \<and> span_end s \<le> stop \<and> \<not> span_forced s
    \<and> \<not> is_space (d ! span_start s) \<and> \<not> is_space (d ! (span_end s - 1))
    \<and> (\<forall>i. start \<le> i \<and> i < stop \<and> \<not> is_space (d ! i) \<longrightarrow> span_start s \<le> i \<and> i < span_end s)"
proof -
  let ?l = "trim_left d start stop"
  let ?r = "trim_right d ?l stop"
  note l = trim_left_spec [OF assms(1), of d]
  then have le: "?l \<le> stop" by blast
  note r = trim_right_spec [OF le, of d]
  from assms(2) have s: "s = Span ?l ?r" "?l \<noteq> ?r"
    by (auto simp: trimmed_span_def Let_def split: if_splits)
  have "?l < ?r" using s(2) r by linarith
  moreover have "?l < stop" using \<open>?l < ?r\<close> r by linarith
  ultimately show ?thesis
    using s(1) l r by (auto simp: not_le)
qed

section \<open>Intervals\<close>

lemma pairwise_cover:
  "ps \<noteq> [] \<Longrightarrow> hd ps \<le> i \<Longrightarrow> i < last ps \<Longrightarrow> \<exists>(a, b) \<in> set (zip ps (tl ps)). a \<le> i \<and> i < b" for i :: nat
proof (induction ps rule: induct_list012)
  case (3 p q qs)
  then show ?case by (cases "i < q") auto
qed auto

text \<open>The intervals are increasing and disjoint, and their ends are points.\<close>

lemma pairwise_points:
  "sorted_wrt (<) ps \<Longrightarrow> (a, b) \<in> set (zip ps (tl ps)) \<Longrightarrow> a < b \<and> a \<in> set ps \<and> b \<in> set ps" for a :: nat
  by (induction ps rule: induct_list012) auto

lemma pairwise_order:
  "sorted_wrt (<) ps \<Longrightarrow> sorted_wrt (\<lambda>(a, b) (a', b'). b \<le> a') (zip ps (tl ps))" for ps :: "nat list"
proof (induction ps rule: induct_list012)
  case (3 p q qs)
  have "q \<le> a'" if "(a', b') \<in> set (zip (q # qs) qs)" for a' b'
    using set_zip_leftD [OF that] 3(3) by auto
  with 3 show ?case by auto
qed auto

lemma sort_remdups_strict: "sorted_wrt (<) (sort (remdups xs))" for xs :: "nat list"
  by (simp add: strict_sorted_iff)

lemma intervals_order: "sorted_wrt (\<lambda>(a, b) (a', b'). b \<le> a') (intervals points)"
  unfolding intervals_def Let_def by (rule pairwise_order [OF sort_remdups_strict])

lemma intervals_points: "(a, b) \<in> set (intervals points) \<Longrightarrow> a < b \<and> a \<in> set points \<and> b \<in> set points"
  unfolding intervals_def Let_def using pairwise_points [OF sort_remdups_strict, of a b points] by simp

lemma sorted_ends:
  fixes ps :: "nat list"
  assumes "sorted ps" and "x \<in> set ps"
  shows "ps \<noteq> [] \<and> hd ps \<le> x \<and> x \<le> last ps"
proof -
  have "ps \<noteq> []" using assms(2) by auto
  moreover have "hd ps \<le> x" using assms by (cases ps) auto
  moreover have "x \<le> last ps" using assms by (cases ps rule: rev_cases) (auto simp: sorted_append)
  ultimately show ?thesis by blast
qed

lemma intervals_cover:
  assumes "lo \<in> set points" and "hi \<in> set points" and "lo \<le> i" and "i < hi"
  shows "\<exists>(a, b) \<in> set (intervals points). a \<le> i \<and> i < b"
proof -
  let ?ps = "sort (remdups points)"
  have "?ps \<noteq> []" "hd ?ps \<le> i" "i < last ?ps"
    using sorted_ends [of ?ps lo] sorted_ends [of ?ps hi] assms by auto
  from pairwise_cover [OF this] show ?thesis by (simp add: intervals_def Let_def)
qed

section \<open>Pieces of the detail\<close>

text \<open>
  A well-formed span: within the size limit, and not made of white space, unless it is a
  window of full size. A list of pieces of a stretch of the detail is well-formed, in reading
  order, and covers every character that is not white space.
\<close>

definition span_ok :: "code_points \<Rightarrow> span \<Rightarrow> bool" where
  "span_ok d s \<longleftrightarrow> span_start s < span_end s
     \<and> span_end s \<le> span_start s + TOPIC_MEMORY_CHUNK_MAX_CHARACTERS
     \<and> (\<not> span_forced s \<longrightarrow> \<not> is_space (d ! span_start s) \<and> \<not> is_space (d ! (span_end s - 1)))
     \<and> (\<not> is_space (d ! span_start s) \<or> \<not> is_space (d ! (span_end s - 1))
        \<or> span_end s = span_start s + TOPIC_MEMORY_CHUNK_MAX_CHARACTERS)"

abbreviation before :: "span \<Rightarrow> span \<Rightarrow> bool" where
  "before s t \<equiv> span_start s \<le> span_start t \<and> span_end s \<le> span_end t"

definition covered :: "code_points \<Rightarrow> nat \<Rightarrow> nat \<Rightarrow> span list \<Rightarrow> bool" where
  "covered d lo hi ss \<longleftrightarrow> (\<forall>i. lo \<le> i \<and> i < hi \<and> \<not> is_space (d ! i) \<longrightarrow>
     (\<exists>s \<in> set ss. span_start s \<le> i \<and> i < span_end s))"

definition pieces :: "code_points \<Rightarrow> nat \<Rightarrow> nat \<Rightarrow> span list \<Rightarrow> bool" where
  "pieces d lo hi ss \<longleftrightarrow> (\<forall>s \<in> set ss. span_ok d s \<and> lo \<le> span_start s \<and> span_end s \<le> hi)
     \<and> sorted_wrt before ss \<and> covered d lo hi ss"

lemma piecesI:
  assumes "\<And>s. s \<in> set ss \<Longrightarrow> span_ok d s \<and> lo \<le> span_start s \<and> span_end s \<le> hi" and "sorted_wrt before ss"
    and "\<And>i. lo \<le> i \<Longrightarrow> i < hi \<Longrightarrow> \<not> is_space (d ! i) \<Longrightarrow> \<exists>s \<in> set ss. span_start s \<le> i \<and> i < span_end s"
  shows "pieces d lo hi ss"
  using assms by (simp add: pieces_def covered_def)

lemma sorted_concat:
  assumes "sorted_wrt (\<lambda>(a, b) (a', b'). b \<le> a') ivs"
    and "\<And>a b. (a, b) \<in> set ivs \<Longrightarrow> sorted_wrt before (f (a, b)) \<and> (\<forall>s \<in> set (f (a, b)). a \<le> span_start s \<and> span_start s \<le> span_end s \<and> span_end s \<le> b)"
  shows "sorted_wrt before (concat (map f ivs))"
  using assms
proof (induction ivs)
  case (Cons iv ivs)
  obtain a b where iv: "iv = (a, b)" by fastforce
  have "before s t" if s: "s \<in> set (f (a, b))" and t: "t \<in> set (f (a', b'))" and iv': "(a', b') \<in> set ivs" for s t a' b'
  proof -
    have "b \<le> a'" using Cons.prems(1) iv iv' by auto
    moreover have "span_start s \<le> span_end s" "span_end s \<le> b" using Cons.prems(2) [of a b] iv s by auto
    moreover have "a' \<le> span_start t" "span_start t \<le> span_end t" using Cons.prems(2) [of a' b'] iv' t by auto
    ultimately show ?thesis by linarith
  qed
  then have "\<forall>s \<in> set (f iv). \<forall>t \<in> set (concat (map f ivs)). before s t" using iv by auto
  moreover have "sorted_wrt before (f iv)" "sorted_wrt before (concat (map f ivs))"
    using Cons by (auto simp: iv)
  ultimately show ?case by (simp add: sorted_wrt_append)
qed simp

lemma pieces_concat:
  assumes "lo \<in> set points" and "hi \<in> set points" and "\<forall>p \<in> set points. lo \<le> p \<and> p \<le> hi"
    and "\<And>a b. a < b \<Longrightarrow> lo \<le> a \<Longrightarrow> b \<le> hi \<Longrightarrow> pieces d a b (f (a, b))"
  shows "pieces d lo hi (concat (map f (intervals points)))"
proof -
  have iv: "a < b \<and> lo \<le> a \<and> b \<le> hi \<and> pieces d a b (f (a, b))" if "(a, b) \<in> set (intervals points)" for a b
    using intervals_points [OF that] assms(3,4) by auto
  show ?thesis
  proof (rule piecesI)
    fix s assume "s \<in> set (concat (map f (intervals points)))"
    then obtain a b where "(a, b) \<in> set (intervals points)" "s \<in> set (f (a, b))" by auto
    with iv [of a b] show "span_ok d s \<and> lo \<le> span_start s \<and> span_end s \<le> hi" by (fastforce simp: pieces_def)
  next
    have "sorted_wrt before (f (a, b)) \<and> (\<forall>s \<in> set (f (a, b)). a \<le> span_start s \<and> span_start s \<le> span_end s \<and> span_end s \<le> b)"
      if "(a, b) \<in> set (intervals points)" for a b
      using iv [OF that] by (auto simp: pieces_def span_ok_def)
    then show "sorted_wrt before (concat (map f (intervals points)))" by (rule sorted_concat [OF intervals_order])
  next
    fix i assume i: "lo \<le> i" "i < hi" "\<not> is_space (d ! i)"
    obtain a b where ab: "(a, b) \<in> set (intervals points)" "a \<le> i" "i < b"
      using intervals_cover [OF assms(1,2) i(1,2)] by auto
    with iv [of a b] i(3) have "\<exists>s \<in> set (f (a, b)). span_start s \<le> i \<and> i < span_end s"
      by (auto simp: pieces_def covered_def)
    with ab(1) show "\<exists>s \<in> set (concat (map f (intervals points))). span_start s \<le> i \<and> i < span_end s" by force
  qed
qed

text \<open>A trimmed stretch, kept when it fits and split otherwise.\<close>

lemma pieces_fit_or_split:
  assumes "a < b" and "\<And>s e. a \<le> s \<Longrightarrow> s < e \<Longrightarrow> e \<le> b \<Longrightarrow> \<not> is_space (d ! (e - 1)) \<Longrightarrow> \<not> is_space (d ! s) \<Longrightarrow> pieces d s e (split s e)"
  shows "pieces d a b (fit_or_split split (trimmed_span d a b))"
proof (cases "trimmed_span d a b")
  case None
  with trimmed_span_None [of a b d] assms(1) show ?thesis
    by (auto simp: pieces_def covered_def fit_or_split_def)
next
  case (Some s)
  note s = trimmed_span_Some [OF less_imp_le [OF assms(1)] Some]
  show ?thesis
  proof (cases "span_end s - span_start s \<le> TOPIC_MEMORY_CHUNK_MAX_CHARACTERS")
    case True
    with Some s show ?thesis by (auto simp: pieces_def covered_def fit_or_split_def span_ok_def)
  next
    case False
    have "pieces d (span_start s) (span_end s) (split (span_start s) (span_end s))"
      using s by (intro assms(2)) auto
    with Some s False show ?thesis
      by (fastforce simp: pieces_def covered_def fit_or_split_def)
  qed
qed

lemma forced_windows_step:
  assumes "position + TOPIC_MEMORY_CHUNK_MAX_CHARACTERS < stop"
  shows "forced_windows position stop =
    Forced position (position + TOPIC_MEMORY_CHUNK_MAX_CHARACTERS) # forced_windows (position + 1640) stop"
proof -
  have "min (position + 1800) stop = position + 1800" "position + 1800 - 160 = position + 1640" using assms by simp_all
  with assms show ?thesis by (subst forced_windows.simps) (simp add: Let_def add.commute)
qed

lemma forced_windows_last:
  "position < stop \<Longrightarrow> stop \<le> position + TOPIC_MEMORY_CHUNK_MAX_CHARACTERS \<Longrightarrow> forced_windows position stop = [Forced position stop]"
  by (subst forced_windows.simps) (simp add: Let_def min_absorb2)

lemma window_induct [consumes 1, case_names last step]:
  assumes "position < stop"
    and "\<And>p. p < stop \<Longrightarrow> stop \<le> p + TOPIC_MEMORY_CHUNK_MAX_CHARACTERS \<Longrightarrow> P p"
    and "\<And>p. p + TOPIC_MEMORY_CHUNK_MAX_CHARACTERS < stop \<Longrightarrow> P (p + 1640) \<Longrightarrow> P p"
  shows "P position"
  using assms(1)
proof (induction "stop - position" arbitrary: position rule: less_induct)
  case less
  show ?case
  proof (cases "position + 1800 < stop")
    case True
    have "P (position + 1640)"
      by (rule less(1)) (use True in linarith)+
    with True show ?thesis by (rule assms(3))
  next
    case False
    show ?thesis by (rule assms(2)) (use False less(2) in linarith)+
  qed
qed

lemma forced_windows_end:
  "position < stop \<Longrightarrow> s \<in> set (forced_windows position stop) \<Longrightarrow> min (position + TOPIC_MEMORY_CHUNK_MAX_CHARACTERS) stop \<le> span_end s"
proof (induction position rule: window_induct)
  case (last p)
  then show ?case by (simp add: forced_windows_last)
next
  case (step p)
  then show ?case by (auto simp: forced_windows_step)
qed

lemma pieces_forced_windows:
  "position < stop \<Longrightarrow> \<not> is_space (d ! (stop - 1)) \<Longrightarrow> pieces d position stop (forced_windows position stop)"
proof (induction position rule: window_induct)
  case (last p)
  then show ?case by (auto simp: forced_windows_last pieces_def covered_def span_ok_def)
next
  case (step p)
  then have IH: "pieces d (p + 1640) stop (forced_windows (p + 1640) stop)" by simp
  show ?case
  proof (rule piecesI)
    fix i assume "p \<le> i" "i < stop" "\<not> is_space (d ! i)"
    with IH show "\<exists>s \<in> set (forced_windows p stop). span_start s \<le> i \<and> i < span_end s"
      unfolding forced_windows_step [OF step(1)]
      by (cases "i < p + 1800") (auto simp: pieces_def covered_def)
  next
    have "p + 1800 \<le> span_end s" if "s \<in> set (forced_windows (p + 1640) stop)" for s
      using forced_windows_end [OF _ that] step(1) by simp
    with IH show "sorted_wrt before (forced_windows p stop)"
      unfolding forced_windows_step [OF step(1)] by (auto simp: pieces_def)
  next
    fix s assume "s \<in> set (forced_windows p stop)"
    with IH step(1) show "span_ok d s \<and> p \<le> span_start s \<and> span_end s \<le> stop"
      unfolding forced_windows_step [OF step(1)] by (auto simp: pieces_def span_ok_def)
  qed
qed

lemma sentence_ends_le: "e \<in> set (sentence_ends t i) \<Longrightarrow> e \<le> length t"
proof (induction t i rule: sentence_ends.induct)
  case (1 t i)
  have "run_end is_blank t i \<le> length t" if "i < length t"
    using that length_takeWhile_le [of is_blank "drop i t"] by (simp add: run_end_def)
  with 1 show ?case
    by (subst (asm) (2) sentence_ends.simps) (auto split: if_splits)
qed

lemma block_starts_less: "e \<in> set (block_starts d i) \<Longrightarrow> e < length d"
proof (induction d i rule: block_starts.induct)
  case (1 d i)
  from 1(4) show ?case
    by (subst (asm) block_starts.simps) (auto split: if_splits option.splits dest: 1(1-3))
qed

lemma pieces_split_oversized:
  assumes "start < stop" and "stop \<le> length d"
  shows "pieces d start stop (split_oversized_block d start stop)"
  unfolding split_oversized_block_def Let_def
proof (rule pieces_concat)
  let ?block = "drop start (take stop d)"
  have "start + e \<le> stop" if "e \<in> set (sentence_ends ?block 0)" for e
    using sentence_ends_le [OF that] assms by simp
  then show "\<forall>p \<in> set (start # stop # map (\<lambda>e. start + e) (sentence_ends ?block 0)). start \<le> p \<and> p \<le> stop"
    using assms(1) by auto
  fix a b :: nat assume "a < b"
  then show "pieces d a b ((\<lambda>(left, right). fit_or_split forced_windows (trimmed_span d left right)) (a, b))"
    by (auto intro!: pieces_fit_or_split pieces_forced_windows)
qed simp_all

lemma pieces_semantic: "pieces d 0 (length d) (semantic_spans d)"
  unfolding semantic_spans_def
proof (rule pieces_concat)
  show "\<forall>p \<in> set (0 # length d # block_starts d 0). 0 \<le> p \<and> p \<le> length d"
    by (auto dest: block_starts_less)
  fix a b :: nat assume "a < b" "b \<le> length d"
  then show "pieces d a b ((\<lambda>(start, stop). fit_or_split (split_oversized_block d) (trimmed_span d start stop)) (a, b))"
    by (auto intro!: pieces_fit_or_split pieces_split_oversized)
qed simp_all

section \<open>Bounded windows\<close>

lemma bounded_window_step:
  assumes "position + TOPIC_MEMORY_CHUNK_MAX_CHARACTERS < length d"
  shows "bounded_window_spans d position =
    (case trimmed_span d position (position + TOPIC_MEMORY_CHUNK_MAX_CHARACTERS) of None \<Rightarrow> []
     | Some s \<Rightarrow> [Forced (span_start s) (span_end s)]) @ bounded_window_spans d (position + 1640)"
proof -
  have "min (position + 1800) (length d) = position + 1800" "position + 1800 - 160 = position + 1640"
    using assms by simp_all
  with assms show ?thesis by (subst bounded_window_spans.simps) (simp add: Let_def add.commute)
qed

lemma bounded_window_last:
  "position < length d \<Longrightarrow> length d \<le> position + TOPIC_MEMORY_CHUNK_MAX_CHARACTERS \<Longrightarrow> bounded_window_spans d position =
    (case trimmed_span d position (length d) of None \<Rightarrow> [] | Some s \<Rightarrow> [Forced (span_start s) (span_end s)])"
  by (subst bounded_window_spans.simps) (simp add: Let_def min_absorb2)

lemma bounded_window_count:
  "position < length d \<Longrightarrow> length (bounded_window_spans d position) \<le> Suc ((length d - position) div 1640)"
proof (induction position rule: window_induct)
  case (last p)
  then show ?case by (simp add: bounded_window_last split: option.split)
next
  case (step p)
  have "(length d - p) div 1640 = Suc ((length d - (p + 1640)) div 1640)"
    using step(1) le_div_geq [of 1640 "length d - p"] by simp
  with step(2) show ?case by (simp add: bounded_window_step [OF step(1)] split: option.split)
qed

lemma bounded_window_reach:
  "position < length d \<Longrightarrow> t \<in> set (bounded_window_spans d position) \<Longrightarrow>
     position \<le> span_start t \<and> span_start t < span_end t \<and> \<not> is_space (d ! span_start t)
     \<and> (\<forall>i. position \<le> i \<and> i < position + TOPIC_MEMORY_CHUNK_MAX_CHARACTERS \<and> i < length d \<and> \<not> is_space (d ! i) \<longrightarrow> i < span_end t)"
proof (induction position rule: window_induct)
  case (last p)
  then show ?case
    using trimmed_span_Some [of p "length d" d] by (auto simp: bounded_window_last split: option.splits)
next
  case (step p)
  consider s where "trimmed_span d p (p + 1800) = Some s" "t = Forced (span_start s) (span_end s)"
    | "t \<in> set (bounded_window_spans d (p + 1640))"
    using step(3) unfolding bounded_window_step [OF step(1)]
    by (cases "trimmed_span d p (p + 1800)") auto
  then show ?case
  proof cases
    case 1
    with trimmed_span_Some [of p "p + 1800" d s] show ?thesis by auto
  next
    case 2
    note IH = step(2) [OF this]
    have "i < span_end t" if "p \<le> i" "i < p + 1800" "i < length d" "\<not> is_space (d ! i)" for i
      using that IH by (cases "p + 1640 \<le> i") auto
    with IH show ?thesis by auto
  qed
qed

lemma pieces_bounded: "position < length d \<Longrightarrow> pieces d position (length d) (bounded_window_spans d position)"
proof (induction position rule: window_induct)
  case (last p)
  then show ?case
    using trimmed_span_Some [of p "length d" d] trimmed_span_None [of p "length d" d]
    by (auto simp: bounded_window_last pieces_def covered_def span_ok_def split: option.split)
next
  case (step p)
  note IH = step(2)
  show ?case
  proof (cases "trimmed_span d p (p + 1800)")
    case None
    then have eq: "bounded_window_spans d p = bounded_window_spans d (p + 1640)"
      unfolding bounded_window_step [OF step(1)] by simp
    have "\<exists>s \<in> set (bounded_window_spans d p). span_start s \<le> i \<and> i < span_end s"
      if "p \<le> i" "i < length d" "\<not> is_space (d ! i)" for i
      using that IH trimmed_span_None [OF _ None, of i] unfolding eq
      by (cases "i < p + 1800") (auto simp: pieces_def covered_def)
    with IH show ?thesis unfolding eq pieces_def covered_def by fastforce
  next
    case (Some s)
    let ?s = "Forced (span_start s) (span_end s)"
    have eq: "bounded_window_spans d p = ?s # bounded_window_spans d (p + 1640)"
      using Some unfolding bounded_window_step [OF step(1)] by simp
    note tr = trimmed_span_Some [OF _ Some]
    have bef: "before ?s t" if "t \<in> set (bounded_window_spans d (p + 1640))" for t
    proof -
      note r = bounded_window_reach [OF _ that]
      have st: "p + 1640 \<le> span_start t" "span_start t < span_end t" "\<not> is_space (d ! span_start t)"
        using r step(1) by auto
      have "span_start s \<le> span_start t"
        using tr st by (cases "span_start t < p + 1800") auto
      moreover have "span_end s \<le> span_end t"
      proof (cases "p + 1640 \<le> span_end s - 1")
        case True
        then have "span_end s - 1 < span_end t" using r tr step(1) by auto
        then show ?thesis by simp
      next
        case False
        with st show ?thesis by simp
      qed
      ultimately show ?thesis by simp
    qed
    show ?thesis
    proof (rule piecesI)
      fix i assume "p \<le> i" "i < length d" "\<not> is_space (d ! i)"
      with IH tr show "\<exists>s \<in> set (bounded_window_spans d p). span_start s \<le> i \<and> i < span_end s"
        unfolding eq by (cases "i < p + 1800") (auto simp: pieces_def covered_def)
    next
      show "sorted_wrt before (bounded_window_spans d p)"
        using bef IH unfolding eq by (auto simp: pieces_def)
    next
      fix t assume "t \<in> set (bounded_window_spans d p)"
      with IH tr step(1) show "span_ok d t \<and> p \<le> span_start t \<and> span_end t \<le> length d"
        unfolding eq by (auto simp: pieces_def span_ok_def)
    qed
  qed
qed

section \<open>Assembling\<close>

text \<open>Joining two neighbours keeps the pieces in order and loses nothing.\<close>

lemma joined_cover:
  assumes "before c s" and "covered d lo hi (xs @ [c, s] @ ys)" and "span_start u = span_start c" and "span_end u = span_end s"
  shows "covered d lo hi (xs @ [u] @ ys)"
proof -
  have "\<exists>v \<in> set (xs @ [u] @ ys). span_start v \<le> i \<and> i < span_end v" if "lo \<le> i" "i < hi" "\<not> is_space (d ! i)" for i
  proof -
    from assms(2) [unfolded covered_def, rule_format, of i] that
    have "\<exists>v \<in> set (xs @ [c, s] @ ys). span_start v \<le> i \<and> i < span_end v" by blast
    then obtain v where v: "v \<in> set (xs @ [c, s] @ ys)" "span_start v \<le> i" "i < span_end v" by blast
    show ?thesis
    proof (cases "v \<in> {c, s}")
      case True
      with v(2,3) assms have "span_start u \<le> i" "i < span_end u" by auto
      then show ?thesis by simp
    next
      case False
      with v show ?thesis by auto
    qed
  qed
  then show ?thesis by (simp add: covered_def)
qed

lemma joined_order:
  assumes "sorted_wrt before (xs @ [c, s] @ ys)" and "span_start u = span_start c" and "span_end u = span_end s"
  shows "sorted_wrt before (xs @ [u] @ ys)"
  using assms by (fastforce simp: sorted_wrt_append)

lemma pieces_join:
  assumes "pieces d lo hi (xs @ [c, s] @ ys)" and "\<not> span_forced c" and "\<not> span_forced s"
    and "span_end s - span_start c \<le> TOPIC_MEMORY_CHUNK_MAX_CHARACTERS"
  shows "pieces d lo hi (xs @ [Span (span_start c) (span_end s)] @ ys)"
proof -
  have bef: "before c s" using assms(1) by (simp add: pieces_def sorted_wrt_append)
  have "span_ok d (Span (span_start c) (span_end s))"
    using assms bef by (auto simp: pieces_def span_ok_def)
  with assms(1) joined_cover [OF bef, of d lo hi xs ys "Span (span_start c) (span_end s)"]
    joined_order [of xs c s ys "Span (span_start c) (span_end s)"]
  show ?thesis by (auto simp: pieces_def)
qed

lemma pieces_assemble:
  "pieces d lo hi (assembled @ option_list current @ spans) \<Longrightarrow> (\<And>c. current = Some c \<Longrightarrow> \<not> span_forced c) \<Longrightarrow>
     pieces d lo hi (assemble assembled current spans)"
proof (induction assembled current spans rule: assemble.induct)
  case (1 assembled current)
  then show ?case by simp
next
  case (2 assembled current s spans)
  show ?case
  proof (cases "span_forced s")
    case True
    with 2 show ?thesis by (simp add: option_list_def)
  next
    case s: False
    show ?thesis
    proof (cases current)
      case None
      with 2 s show ?thesis by (simp add: option_list_def)
    next
      case (Some c)
      let ?c = "Span (span_start c) (span_end s)"
      show ?thesis
      proof (cases "span_end s - span_start c \<le> TOPIC_MEMORY_CHUNK_MAX_CHARACTERS")
        case True
        have "pieces d lo hi (assembled @ [?c] @ spans)"
          using 2(6,7) s Some True by (intro pieces_join) (simp_all add: option_list_def)
        with 2(3) [OF s Some True refl] 2(4) [OF s Some True refl] s Some True show ?thesis
          by (simp add: option_list_def Let_def)
      next
        case False
        with 2(5) [OF s Some False] 2(6) s Some show ?thesis by (simp add: option_list_def)
      qed
    qed
  qed
qed

section \<open>The chosen spans\<close>

text \<open>
  The result: non-empty spans of bounded size in reading order, each holding a visible
  character or being a full window, that cover the visible characters.
\<close>

definition slices :: "code_points \<Rightarrow> span list \<Rightarrow> bool" where
  "slices d ss \<longleftrightarrow> (\<forall>s \<in> set ss. span_start s < span_end s \<and> span_end s \<le> length d
       \<and> span_end s \<le> span_start s + TOPIC_MEMORY_CHUNK_MAX_CHARACTERS
       \<and> (\<not> is_space (d ! span_start s) \<or> \<not> is_space (d ! (span_end s - 1))
          \<or> span_end s = span_start s + TOPIC_MEMORY_CHUNK_MAX_CHARACTERS))
     \<and> sorted_wrt before ss \<and> covered d 0 (length d) ss"

lemma slices_of_pieces: "pieces d 0 (length d) ss \<Longrightarrow> slices d ss"
  by (auto simp: pieces_def slices_def span_ok_def)

lemma slices_merge_tail:
  assumes "pieces d 0 (length d) ss"
  shows "slices d (merge_tail ss)"
proof (cases "merge_tail ss = ss")
  case True
  with slices_of_pieces [OF assms] show ?thesis by simp
next
  case False
  let ?t = "last ss" and ?p = "last (butlast ss)" and ?xs = "butlast (butlast ss)"
  let ?m = "Span (span_start ?p) (span_end ?t)"
  from False have cond: "length ss \<ge> 2" "\<not> span_forced ?t" "span_end ?t - span_start ?p \<le> 1800"
    and merged: "merge_tail ss = ?xs @ [?m]"
    by (auto simp: merge_tail_def split: if_splits)
  have "ss \<noteq> []" "butlast ss \<noteq> []" using cond(1) by (cases ss; auto)+
  then have ss: "ss = ?xs @ [?p, ?t] @ []" by (metis append.assoc append_Cons append_Nil append_butlast_last_id append_Nil2)
  have pcs: "pieces d 0 (length d) (?xs @ [?p, ?t] @ [])" using assms ss by simp
  then have bef: "before ?p ?t" by (simp add: pieces_def sorted_wrt_append)
  have "covered d 0 (length d) (?xs @ [?m] @ [])"
    by (rule joined_cover [OF bef]) (use pcs in \<open>auto simp: pieces_def\<close>)
  moreover have "sorted_wrt before (?xs @ [?m] @ [])"
    by (rule joined_order [of _ ?p ?t]) (use pcs in \<open>auto simp: pieces_def\<close>)
  moreover have "span_ok d ?p" "span_ok d ?t" "span_end ?t \<le> length d" using pcs by (auto simp: pieces_def)
  ultimately show ?thesis
    using pcs cond bef unfolding merged by (auto simp: slices_def pieces_def span_ok_def)
qed

lemma slices_chunk_spans: "slices d (chunk_spans d)"
proof -
  have "pieces d 0 (length d) (assemble [] None (semantic_spans d))"
    using pieces_semantic by (intro pieces_assemble) (simp_all add: option_list_def)
  moreover have "slices d (bounded_window_spans d 0)"
  proof (cases "d = []")
    case True
    then show ?thesis by (simp add: slices_def covered_def bounded_window_spans.simps)
  next
    case False
    then show ?thesis by (intro slices_of_pieces pieces_bounded) simp
  qed
  ultimately show ?thesis by (simp add: chunk_spans_def Let_def slices_merge_tail)
qed

lemma chunk_spans_count:
  assumes "length d \<le> MAX_TOPIC_MEMORY_DETAIL_LENGTH"
  shows "length (chunk_spans d) \<le> TOPIC_MEMORY_CHUNK_MAX_COUNT"
proof -
  have "length (bounded_window_spans d 0) \<le> 200"
  proof (cases "d = []")
    case True
    then show ?thesis by (simp add: bounded_window_spans.simps)
  next
    case False
    then have "length (bounded_window_spans d 0) \<le> Suc (length d div 1640)"
      using bounded_window_count [of 0 d] by simp
    also have "\<dots> \<le> Suc (125000 div 1640)" using assms by (simp add: div_le_mono)
    finally show ?thesis by simp
  qed
  then show ?thesis by (auto simp: chunk_spans_def Let_def)
qed

section \<open>Building the chunks\<close>

abbreviation slice :: "code_points \<Rightarrow> nat \<Rightarrow> nat \<Rightarrow> code_points" where
  "slice d s e \<equiv> drop s (take e d)"

definition chunk_of :: "code_points \<Rightarrow> nat \<times> span \<Rightarrow> chunk" where
  "chunk_of d = (\<lambda>(n, s). \<lparr>ch_ordinal = n, ch_start_offset = span_start s, ch_end_offset = span_end s,
     ch_text = slice d (span_start s) (span_end s)\<rparr>)"

lemma topic_memory_chunk_Inr:
  "topic_memory_chunk n s e txt = Inr c \<longleftrightarrow> s < e \<and> txt \<noteq> [] \<and> (\<exists>x \<in> set txt. \<not> is_space x)
     \<and> c = \<lparr>ch_ordinal = n, ch_start_offset = s, ch_end_offset = e, ch_text = txt\<rparr>"
  by (auto simp: topic_memory_chunk_def list_all_iff)

lemma build_chunks_Inr:
  "build_chunks d n ss = Inr cs \<longleftrightarrow>
     (\<forall>s \<in> set ss. span_start s < span_end s \<and> (\<exists>x \<in> set (slice d (span_start s) (span_end s)). \<not> is_space x))
     \<and> cs = map (chunk_of d) (List.enumerate n ss)"
proof (induction d n ss arbitrary: cs rule: build_chunks.induct)
  case (2 d n s ss)
  show ?case
  proof (cases "topic_memory_chunk n (span_start s) (span_end s) (slice d (span_start s) (span_end s))")
    case (Inl e)
    then have "\<not> (span_start s < span_end s \<and> (\<exists>x \<in> set (slice d (span_start s) (span_end s)). \<not> is_space x))"
      by (auto simp: topic_memory_chunk_def list_all_iff split: if_splits)
    with Inl show ?thesis by auto
  next
    case (Inr c)
    then have "span_start s < span_end s \<and> (\<exists>x \<in> set (slice d (span_start s) (span_end s)). \<not> is_space x)"
      and "c = chunk_of d (n, s)" by (auto simp: topic_memory_chunk_Inr chunk_of_def)
    with Inr 2 [OF Inr] show ?thesis
      by (cases "build_chunks d (Suc n) ss") (auto, (metis sum.distinct(1))?)
  qed
qed auto

lemma nth_in_slice: "s \<le> i \<Longrightarrow> i < e \<Longrightarrow> e \<le> length d \<Longrightarrow> d ! i \<in> set (slice d s e)"
proof -
  assume "s \<le> i" "i < e" "e \<le> length d"
  then have "slice d s e ! (i - s) = d ! i" "i - s < length (slice d s e)" by simp_all
  then show ?thesis by (metis nth_mem)
qed

text \<open>A run of white space as long as the largest window.\<close>

definition blank_run :: "code_points \<Rightarrow> bool" where
  "blank_run d \<longleftrightarrow> (\<exists>s. s + TOPIC_MEMORY_CHUNK_MAX_CHARACTERS \<le> length d
     \<and> (\<forall>i. s \<le> i \<and> i < s + TOPIC_MEMORY_CHUNK_MAX_CHARACTERS \<longrightarrow> is_space (d ! i)))"

lemma slices_visible:
  assumes "slices d ss" and "\<not> blank_run d" and "s \<in> set ss"
  shows "span_start s < span_end s \<and> (\<exists>x \<in> set (slice d (span_start s) (span_end s)). \<not> is_space x)"
proof -
  from assms(1,3) have s: "span_start s < span_end s" "span_end s \<le> length d"
    "\<not> is_space (d ! span_start s) \<or> \<not> is_space (d ! (span_end s - 1)) \<or> span_end s = span_start s + 1800"
    by (auto simp: slices_def)
  then consider "\<not> is_space (d ! span_start s)" | "\<not> is_space (d ! (span_end s - 1))" | "span_end s = span_start s + 1800" by blast
  then have "\<exists>i. span_start s \<le> i \<and> i < span_end s \<and> \<not> is_space (d ! i)"
  proof cases
    case 1
    with s(1) show ?thesis by blast
  next
    case 2
    with s(1) show ?thesis by (intro exI [of _ "span_end s - 1"]) linarith
  next
    case 3
    with assms(2) s(2) show ?thesis by (auto simp: blank_run_def)
  qed
  with s(1,2) nth_in_slice show ?thesis by metis
qed

section \<open>Properties of chunking\<close>

text \<open>
  C16: a detail without a run of 1800 white space characters is always chunked. The chunks are
  numbered from zero, in reading order, are the slices of the detail their offsets name, hold
  between one and 1800 characters of which one is visible, and every visible character of the
  detail lies in a chunk.
\<close>

theorem chunking_covers_the_detail:
  assumes "\<not> blank_run d"
  shows "\<exists>cs. chunk_topic_memory_detail d = Inr cs
    \<and> map ch_ordinal cs = [0..<length cs]
    \<and> sorted_wrt (\<lambda>c c'. ch_start_offset c \<le> ch_start_offset c' \<and> ch_end_offset c \<le> ch_end_offset c') cs
    \<and> (\<forall>c \<in> set cs. ch_start_offset c < ch_end_offset c \<and> ch_end_offset c \<le> length d
         \<and> ch_end_offset c - ch_start_offset c \<le> 1800
         \<and> ch_text c = slice d (ch_start_offset c) (ch_end_offset c) \<and> (\<exists>x \<in> set (ch_text c). \<not> is_space x))
    \<and> (\<forall>i < length d. \<not> is_space (d ! i) \<longrightarrow> (\<exists>c \<in> set cs. ch_start_offset c \<le> i \<and> i < ch_end_offset c))"
proof -
  let ?ss = "chunk_spans d"
  let ?cs = "map (chunk_of d) (List.enumerate 0 ?ss)"
  note sl = slices_chunk_spans [of d]
  have run: "chunk_topic_memory_detail d = Inr ?cs"
    using slices_visible [OF sl assms] by (simp add: chunk_topic_memory_detail_def build_chunks_Inr)
  have "ch_ordinal \<circ> chunk_of d = fst" by (auto simp: chunk_of_def fun_eq_iff)
  then have ord: "map ch_ordinal ?cs = [0..<length ?cs]" by simp
  have mem: "\<exists>s \<in> set ?ss. ch_start_offset c = span_start s \<and> ch_end_offset c = span_end s
      \<and> ch_text c = slice d (span_start s) (span_end s)" if "c \<in> set ?cs" for c
    using that by (auto simp: chunk_of_def in_set_enumerate_eq)
  have of: "ch_start_offset (chunk_of d p) = span_start (snd p)" "ch_end_offset (chunk_of d p) = span_end (snd p)" for p
    by (simp_all add: chunk_of_def case_prod_beta)
  have "sorted_wrt before (map snd (List.enumerate 0 ?ss))" using sl by (simp add: slices_def)
  then have "sorted_wrt (\<lambda>p q. before (snd p) (snd q)) (List.enumerate 0 ?ss)"
    by (subst (asm) sorted_wrt_map)
  then have srt: "sorted_wrt (\<lambda>c c'. ch_start_offset c \<le> ch_start_offset c' \<and> ch_end_offset c \<le> ch_end_offset c') ?cs"
    by (simp add: sorted_wrt_map of)
  have each: "ch_start_offset c < ch_end_offset c \<and> ch_end_offset c \<le> length d
      \<and> ch_end_offset c - ch_start_offset c \<le> 1800
      \<and> ch_text c = slice d (ch_start_offset c) (ch_end_offset c) \<and> (\<exists>x \<in> set (ch_text c). \<not> is_space x)"
    if "c \<in> set ?cs" for c
    using mem [OF that] sl slices_visible [OF sl assms] by (auto simp: slices_def)
  have cover: "\<exists>c \<in> set ?cs. ch_start_offset c \<le> i \<and> i < ch_end_offset c" if "i < length d" "\<not> is_space (d ! i)" for i
  proof -
    have "\<exists>s \<in> set ?ss. span_start s \<le> i \<and> i < span_end s"
      using sl that by (simp add: slices_def covered_def)
    then obtain s where s: "s \<in> set ?ss" "span_start s \<le> i" "i < span_end s" by blast
    then obtain n where "(n, s) \<in> set (List.enumerate 0 ?ss)"
      by (metis imageE map_snd_enumerate prod.collapse set_map)
    with s show ?thesis by (force simp: of)
  qed
  from run ord srt each cover show ?thesis by blast
qed

text \<open>
  C33: a detail within the length limit of the model never yields more chunks than the work
  contract of retrieval allows, whatever its Markdown looks like.
\<close>

theorem chunk_count_bounded:
  assumes "length d \<le> MAX_TOPIC_MEMORY_DETAIL_LENGTH" and "chunk_topic_memory_detail d = Inr cs"
  shows "length cs \<le> TOPIC_MEMORY_CHUNK_MAX_COUNT"
  using chunk_spans_count [OF assms(1)] assms(2)
  by (simp add: chunk_topic_memory_detail_def build_chunks_Inr)

section \<open>A detail the chunker rejects\<close>








section \<open>Witnesses\<close>

theorem chunking_covers_the_detail_witness:
  "\<exists>cs. chunk_topic_memory_detail [35, 32, 97, 10, 10, 98] = Inr cs \<and> (\<exists>c \<in> set cs. ch_start_offset c \<le> 5)"
proof -
  have "\<not> blank_run [35, 32, 97, 10, 10, 98]" by (simp add: blank_run_def)
  from chunking_covers_the_detail [OF this] obtain cs where "chunk_topic_memory_detail [35, 32, 97, 10, 10, 98] = Inr cs"
    and cover: "\<And>i. i < 6 \<Longrightarrow> \<not> is_space ([35, 32, 97, 10, 10, 98] ! i) \<Longrightarrow> \<exists>c \<in> set cs. ch_start_offset c \<le> i \<and> i < ch_end_offset c"
    by auto
  moreover have "\<exists>c \<in> set cs. ch_start_offset c \<le> 5 \<and> 5 < ch_end_offset c"
    by (rule cover) (simp_all add: is_space_def space_characters_def)
  ultimately show ?thesis by blast
qed

theorem chunk_count_bounded_witness:
  "\<exists>cs. chunk_topic_memory_detail [97, 98] = Inr cs \<and> length cs \<le> 200"
proof -
  have "\<not> blank_run [97, 98]" by (simp add: blank_run_def)
  then obtain cs where "chunk_topic_memory_detail [97, 98] = Inr cs"
    using slices_visible [OF slices_chunk_spans] by (simp add: chunk_topic_memory_detail_def build_chunks_Inr)
  with chunk_count_bounded [of "[97, 98]" cs] show ?thesis by simp
qed


end
