(* ===== verification/Catalog.thy ===== *)
theory Catalog
  imports Sql Register
begin

text \<open>
  The artifact and review tables of
  \<^verbatim>\<open>src/src/powercontext/builtin/persistence/tables.py\<close>: artifact revisions, heads,
  lineage, publications, and candidate versions and heads. They are the part of the database
  the artifact, governance and candidate repositories work on, kept in a state of its own
  since no statement of those repositories touches the processing tables.

  \<open>'c\<close> is the type of the values of family content models: a model instance is its class
  and its value, as Pydantic distinguishes them. A payload column holds the decoded model or
  \<open>Corrupt\<close>; \<^verbatim>\<open>load_model\<close> accepts it when it is of the requested class.

  The rows of \<^verbatim>\<open>pc_scopes\<close> and \<^verbatim>\<open>pc_sources\<close> appear only as the targets of
  foreign keys. Foreign keys are enforced, as the SQLite profile's default and MySQL do; a
  composite key with a null column is not checked, and a check constraint that evaluates to
  null passes. The state also holds the wall clock of the
  process and the rollback stamp bound to the current task
  (\<^verbatim>\<open>revision_meta.py\<close>).
\<close>

datatype 'c model = Model (model_class: string) (model_value: 'c)

datatype 'a stored = Encoded 'a | Corrupted

lemma list_all2_right: "list_all2 P xs ys \<Longrightarrow> y \<in> set ys \<Longrightarrow> \<exists>x \<in> set xs. P x y"
  by (induction rule: list_all2_induct) auto

lemma list_all2_left: "list_all2 P xs ys \<Longrightarrow> x \<in> set xs \<Longrightarrow> \<exists>y \<in> set ys. P x y"
  by (induction rule: list_all2_induct) auto

section \<open>Row types\<close>

record source_ref =
  sr_source_type :: string
  sr_source_id :: string

record 'c artifact_row =
  ar_scope_id :: string
  ar_family :: string
  ar_artifact_id :: string
  ar_revision :: int
  ar_content :: "'c model stored"
  ar_created_at :: "int option"
  ar_created_by :: "(string \<times> string) option"
  ar_restored_from_revision :: "int option"
  ar_rollback_reason :: "string option"

record head_row =
  ah_scope_id :: string
  ah_family :: string
  ah_artifact_id :: string
  ah_revision :: int
  ah_lifecycle_state :: string
  ah_replacement_artifact_id :: "string option"
  ah_merged_into_id :: "string option"
  ah_governance_generation :: int

record lineage_source_row =
  ls_scope_id :: string
  ls_family :: string
  ls_artifact_id :: string
  ls_revision :: int
  ls_ordinal :: nat
  ls_source_type :: string
  ls_source_id :: string

record lineage_artifact_row =
  la_scope_id :: string
  la_family :: string
  la_artifact_id :: string
  la_revision :: int
  la_ordinal :: nat
  la_upstream_family :: string
  la_upstream_artifact_id :: string
  la_upstream_revision :: int
  la_is_merge_input :: bool

record publication_row =
  pu_target_scope_id :: string
  pu_target_family :: string
  pu_target_artifact_id :: string
  pu_target_revision :: int
  pu_source_scope_id :: string
  pu_source_family :: string
  pu_source_artifact_id :: string
  pu_source_revision :: int
  pu_content_digest :: string
  pu_idempotency_key :: string

record audit =
  au_origin :: string
  au_operation :: string
  au_dream_run_id :: string
  au_spec_version :: string
  au_proposal_digest :: string
  au_evidence_manifest_ref :: string
  au_validation_policy_digest :: string
  au_proposal_fingerprint :: "string option"

record 'c candidate_version_row =
  cv_scope_id :: string
  cv_candidate_id :: string
  cv_version :: int
  cv_family :: string
  cv_proposal :: "('c model \<times> audit option) stored"
  cv_source_refs :: "source_ref list stored"
  cv_artifact_refs :: "artifact_ref list stored"
  cv_target_family :: "string option"
  cv_target_artifact_id :: "string option"
  cv_target_revision :: "int option"
  cv_reason :: "string option"

record candidate_head_row =
  ch_scope_id :: string
  ch_candidate_id :: string
  ch_family :: string
  ch_version :: int
  ch_status :: string
  ch_candidate_kind :: string
  ch_result_payload :: "string option"
  ch_result_family :: "string option"
  ch_result_artifact_id :: "string option"
  ch_result_revision :: "int option"
  ch_decision_reason :: "string option"

record rollback_stamp =
  rb_family :: string
  rb_artifact_id :: string
  rb_revision :: int
  rb_restored_from_revision :: int
  rb_reason :: string
  rb_created_by_type :: "string option"
  rb_created_by_id :: "string option"

section \<open>The state\<close>

record 'c catalog =
  ca_dialect :: string
  wall_clock :: "nat \<Rightarrow> int"
  wall_ticks :: nat
  stamp :: "rollback_stamp option"
  scope_ids :: "string list"
  source_ids :: "(string \<times> string \<times> string) list"
  artifacts :: "'c artifact_row list"
  artifact_heads :: "head_row list"
  lineage_sources :: "lineage_source_row list"
  lineage_artifacts :: "lineage_artifact_row list"
  publications :: "publication_row list"
  candidate_versions :: "'c candidate_version_row list"
  candidate_heads :: "candidate_head_row list"

text \<open>\<^verbatim>\<open>datetime.now(UTC)\<close>.\<close>

definition utc_now :: "('c catalog, int) exec" where
  "utc_now = (\<lambda>s. (Inr (wall_clock s (wall_ticks s)), s\<lparr>wall_ticks := Suc (wall_ticks s)\<rparr>))"

lemma utc_now_run [simp, exec_simps]:
  "utc_now s = (Inr (wall_clock s (wall_ticks s)), s\<lparr>wall_ticks := Suc (wall_ticks s)\<rparr>)"
  by (simp add: utc_now_def)

section \<open>Table handles\<close>

type_synonym artifact_pk = "string \<times> string \<times> string \<times> int"

abbreviation (input) artifact_pk_of :: "'c artifact_row \<Rightarrow> artifact_pk" where
  "artifact_pk_of \<equiv> \<lambda>r. (ar_scope_id r, ar_family r, ar_artifact_id r, ar_revision r)"

definition revision_exists :: "'c catalog \<Rightarrow> artifact_pk \<Rightarrow> bool" where
  "revision_exists s k \<longleftrightarrow> k \<in> artifact_pk_of ` set (artifacts s)"

definition optional_revision_exists ::
  "'c catalog \<Rightarrow> string \<Rightarrow> string option \<Rightarrow> string option \<Rightarrow> int option \<Rightarrow> bool" where
  "optional_revision_exists s scope f a r = (case (f, a, r) of
     (Some f', Some a', Some r') \<Rightarrow> revision_exists s (scope, f', a', r') | _ \<Rightarrow> True)"

definition ARTIFACTS_TABLE :: "('c catalog, 'c artifact_row) sql_table" where
  "ARTIFACTS_TABLE = \<lparr>
     rows_of = artifacts, put_rows = (\<lambda>t s. s\<lparr>artifacts := t\<rparr>),
     clash = (\<lambda>a b. artifact_pk_of a = artifact_pk_of b),
     admits = (\<lambda>_ r. True)\<rparr>"

definition head_constraints :: "head_row \<Rightarrow> bool" where
  "head_constraints r \<longleftrightarrow> 0 < ah_revision r
     \<and> ah_lifecycle_state r \<in> set [''active'', ''deprecated'', ''retired'']
     \<and> 0 \<le> ah_governance_generation r
     \<and> (ah_replacement_artifact_id r = None \<or> ah_lifecycle_state r = ''deprecated'')
     \<and> (ah_merged_into_id r = None \<or> (ah_lifecycle_state r = ''deprecated''
          \<and> ah_merged_into_id r \<noteq> Some (ah_artifact_id r) \<and> ah_replacement_artifact_id r = None))"

definition ARTIFACT_HEADS_TABLE :: "('c catalog, head_row) sql_table" where
  "ARTIFACT_HEADS_TABLE = \<lparr>
     rows_of = artifact_heads, put_rows = (\<lambda>t s. s\<lparr>artifact_heads := t\<rparr>),
     clash = (\<lambda>a b. ah_scope_id a = ah_scope_id b \<and> ah_family a = ah_family b \<and> ah_artifact_id a = ah_artifact_id b),
     admits = (\<lambda>s r. revision_exists s (ah_scope_id r, ah_family r, ah_artifact_id r, ah_revision r)
        \<and> head_constraints r)\<rparr>"

definition ARTIFACT_LINEAGE_SOURCES_TABLE :: "('c catalog, lineage_source_row) sql_table" where
  "ARTIFACT_LINEAGE_SOURCES_TABLE = \<lparr>
     rows_of = lineage_sources, put_rows = (\<lambda>t s. s\<lparr>lineage_sources := t\<rparr>),
     clash = (\<lambda>a b. (ls_scope_id a, ls_family a, ls_artifact_id a, ls_revision a, ls_ordinal a)
        = (ls_scope_id b, ls_family b, ls_artifact_id b, ls_revision b, ls_ordinal b)),
     admits = (\<lambda>s r. revision_exists s (ls_scope_id r, ls_family r, ls_artifact_id r, ls_revision r)
        \<and> (ls_scope_id r, ls_source_type r, ls_source_id r) \<in> set (source_ids s))\<rparr>"

definition ARTIFACT_LINEAGE_ARTIFACTS_TABLE :: "('c catalog, lineage_artifact_row) sql_table" where
  "ARTIFACT_LINEAGE_ARTIFACTS_TABLE = \<lparr>
     rows_of = lineage_artifacts, put_rows = (\<lambda>t s. s\<lparr>lineage_artifacts := t\<rparr>),
     clash = (\<lambda>a b. (la_scope_id a, la_family a, la_artifact_id a, la_revision a, la_ordinal a)
        = (la_scope_id b, la_family b, la_artifact_id b, la_revision b, la_ordinal b)),
     admits = (\<lambda>s r. revision_exists s (la_scope_id r, la_family r, la_artifact_id r, la_revision r)
        \<and> revision_exists s (la_scope_id r, la_upstream_family r, la_upstream_artifact_id r, la_upstream_revision r))\<rparr>"

definition ARTIFACT_PUBLICATIONS_TABLE :: "('c catalog, publication_row) sql_table" where
  "ARTIFACT_PUBLICATIONS_TABLE = \<lparr>
     rows_of = publications, put_rows = (\<lambda>t s. s\<lparr>publications := t\<rparr>),
     clash = (\<lambda>a b. (pu_target_scope_id a, pu_target_family a, pu_target_artifact_id a, pu_target_revision a)
          = (pu_target_scope_id b, pu_target_family b, pu_target_artifact_id b, pu_target_revision b)
        \<or> (pu_target_scope_id a = pu_target_scope_id b \<and> pu_idempotency_key a = pu_idempotency_key b)),
     admits = (\<lambda>s r. revision_exists s (pu_target_scope_id r, pu_target_family r, pu_target_artifact_id r, pu_target_revision r)
        \<and> revision_exists s (pu_source_scope_id r, pu_source_family r, pu_source_artifact_id r, pu_source_revision r))\<rparr>"

definition CANDIDATE_VERSIONS_TABLE :: "('c catalog, 'c candidate_version_row) sql_table" where
  "CANDIDATE_VERSIONS_TABLE = \<lparr>
     rows_of = candidate_versions, put_rows = (\<lambda>t s. s\<lparr>candidate_versions := t\<rparr>),
     clash = (\<lambda>a b. cv_scope_id a = cv_scope_id b \<and> cv_candidate_id a = cv_candidate_id b \<and> cv_version a = cv_version b),
     admits = (\<lambda>s r. cv_scope_id r \<in> set (scope_ids s) \<and> 0 < cv_version r
        \<and> optional_revision_exists s (cv_scope_id r) (cv_target_family r) (cv_target_artifact_id r) (cv_target_revision r)
        \<and> (case (cv_target_family r, cv_target_artifact_id r, cv_target_revision r) of
             (None, None, None) \<Rightarrow> True | (Some _, Some _, None) \<Rightarrow> True
           | (Some _, Some _, Some n) \<Rightarrow> 0 < n | _ \<Rightarrow> False))\<rparr>"

definition candidate_result_ok :: "candidate_head_row \<Rightarrow> bool" where
  "candidate_result_ok r \<longleftrightarrow>
     (ch_status r = ''approved'' \<and> ch_candidate_kind r = ''artifact'' \<and> ch_result_payload r = None
        \<and> ch_result_family r \<noteq> None \<and> ch_result_artifact_id r \<noteq> None
        \<and> (case ch_result_revision r of None \<Rightarrow> False | Some n \<Rightarrow> 0 < n) \<and> ch_decision_reason r = None)
     \<or> (ch_status r = ''approved'' \<and> ch_candidate_kind r = ''tag'' \<and> ch_result_payload r \<noteq> None
        \<and> ch_result_family r = None \<and> ch_result_artifact_id r = None \<and> ch_result_revision r = None
        \<and> ch_decision_reason r = None)
     \<or> (ch_status r = ''rejected'' \<and> ch_result_payload r = None \<and> ch_result_family r = None
        \<and> ch_result_artifact_id r = None \<and> ch_result_revision r = None \<and> ch_decision_reason r \<noteq> None)
     \<or> (ch_status r = ''pending'' \<and> ch_result_payload r = None \<and> ch_result_family r = None
        \<and> ch_result_artifact_id r = None \<and> ch_result_revision r = None \<and> ch_decision_reason r = None)"

definition CANDIDATE_HEADS_TABLE :: "('c catalog, candidate_head_row) sql_table" where
  "CANDIDATE_HEADS_TABLE = \<lparr>
     rows_of = candidate_heads, put_rows = (\<lambda>t s. s\<lparr>candidate_heads := t\<rparr>),
     clash = (\<lambda>a b. ch_scope_id a = ch_scope_id b \<and> ch_candidate_id a = ch_candidate_id b),
     admits = (\<lambda>s r. ch_scope_id r \<in> set (scope_ids s)
        \<and> (\<exists>v \<in> set (candidate_versions s). cv_scope_id v = ch_scope_id r
             \<and> cv_candidate_id v = ch_candidate_id r \<and> cv_version v = ch_version r)
        \<and> optional_revision_exists s (ch_scope_id r) (ch_result_family r) (ch_result_artifact_id r) (ch_result_revision r)
        \<and> ch_candidate_kind r \<in> set [''artifact'', ''tag'']
        \<and> ch_status r \<in> set [''pending'', ''approved'', ''rejected''] \<and> candidate_result_ok r)\<rparr>"

lemmas catalog_handle_defs =
  ARTIFACTS_TABLE_def ARTIFACT_HEADS_TABLE_def ARTIFACT_LINEAGE_SOURCES_TABLE_def
  ARTIFACT_LINEAGE_ARTIFACTS_TABLE_def ARTIFACT_PUBLICATIONS_TABLE_def
  CANDIDATE_VERSIONS_TABLE_def CANDIDATE_HEADS_TABLE_def

lemma catalog_rows [simp]:
  "rows_of ARTIFACTS_TABLE = artifacts" "rows_of ARTIFACT_HEADS_TABLE = artifact_heads"
  "rows_of ARTIFACT_LINEAGE_SOURCES_TABLE = lineage_sources"
  "rows_of ARTIFACT_LINEAGE_ARTIFACTS_TABLE = lineage_artifacts"
  "rows_of ARTIFACT_PUBLICATIONS_TABLE = publications"
  "rows_of CANDIDATE_VERSIONS_TABLE = candidate_versions" "rows_of CANDIDATE_HEADS_TABLE = candidate_heads"
  by (simp_all add: catalog_handle_defs)

lemma catalog_put [simp]:
  "put_rows ARTIFACTS_TABLE t1 s = s\<lparr>artifacts := t1\<rparr>" "put_rows ARTIFACT_HEADS_TABLE t2 s = s\<lparr>artifact_heads := t2\<rparr>"
  "put_rows ARTIFACT_LINEAGE_SOURCES_TABLE t3 s = s\<lparr>lineage_sources := t3\<rparr>"
  "put_rows ARTIFACT_LINEAGE_ARTIFACTS_TABLE t4 s = s\<lparr>lineage_artifacts := t4\<rparr>"
  "put_rows ARTIFACT_PUBLICATIONS_TABLE t5 s = s\<lparr>publications := t5\<rparr>"
  "put_rows CANDIDATE_VERSIONS_TABLE t6 s = s\<lparr>candidate_versions := t6\<rparr>"
  "put_rows CANDIDATE_HEADS_TABLE t7 s = s\<lparr>candidate_heads := t7\<rparr>"
  by (simp_all add: catalog_handle_defs)

lemmas catalog_admits = catalog_handle_defs [THEN arg_cong, where f = admits, simplified]
lemmas catalog_clash = catalog_handle_defs [THEN arg_cong, where f = clash, simplified]

lemma exists_frame [simp]:
  "revision_exists (s\<lparr>artifact_heads := h\<rparr>) k = revision_exists s k"
  "revision_exists (s\<lparr>lineage_sources := ls\<rparr>) k = revision_exists s k"
  "revision_exists (s\<lparr>lineage_artifacts := la\<rparr>) k = revision_exists s k"
  "revision_exists (s\<lparr>publications := pu\<rparr>) k = revision_exists s k"
  "revision_exists (s\<lparr>candidate_versions := cv\<rparr>) k = revision_exists s k"
  "revision_exists (s\<lparr>candidate_heads := ch\<rparr>) k = revision_exists s k"
  "revision_exists (s\<lparr>wall_ticks := n\<rparr>) k = revision_exists s k"
  by (simp_all add: revision_exists_def)

lemma optional_exists_frame [simp]:
  "optional_revision_exists (s\<lparr>artifact_heads := h\<rparr>) = optional_revision_exists s"
  "optional_revision_exists (s\<lparr>lineage_sources := ls\<rparr>) = optional_revision_exists s"
  "optional_revision_exists (s\<lparr>lineage_artifacts := la\<rparr>) = optional_revision_exists s"
  "optional_revision_exists (s\<lparr>publications := pu\<rparr>) = optional_revision_exists s"
  "optional_revision_exists (s\<lparr>candidate_versions := cv\<rparr>) = optional_revision_exists s"
  "optional_revision_exists (s\<lparr>candidate_heads := ch\<rparr>) = optional_revision_exists s"
  "optional_revision_exists (s\<lparr>wall_ticks := n\<rparr>) = optional_revision_exists s"
  by (auto simp: optional_revision_exists_def fun_eq_iff split: option.split)

lemma clash_free_distinct:
  "clash_free T rs \<Longrightarrow> (\<And>a b. a \<in> set rs \<Longrightarrow> b \<in> set rs \<Longrightarrow> key a = key b \<Longrightarrow> clash T a b) \<Longrightarrow> distinct (map key rs)"
  by (induction rs) (auto simp: clash_free_def)

abbreviation head_pk :: "head_row \<Rightarrow> string \<times> string \<times> string" where
  "head_pk \<equiv> \<lambda>r. (ah_scope_id r, ah_family r, ah_artifact_id r)"

abbreviation candidate_version_pk :: "'c candidate_version_row \<Rightarrow> string \<times> string \<times> int" where
  "candidate_version_pk \<equiv> \<lambda>r. (cv_scope_id r, cv_candidate_id r, cv_version r)"

abbreviation candidate_head_pk :: "candidate_head_row \<Rightarrow> string \<times> string" where
  "candidate_head_pk \<equiv> \<lambda>r. (ch_scope_id r, ch_candidate_id r)"

interpretation artifacts_t: keyed_table ARTIFACTS_TABLE artifact_pk_of
  by unfold_locales (auto simp: ARTIFACTS_TABLE_def)

interpretation artifact_heads_t: keyed_table ARTIFACT_HEADS_TABLE head_pk
  by unfold_locales (auto simp: ARTIFACT_HEADS_TABLE_def)

interpretation lineage_sources_t: keyed_table ARTIFACT_LINEAGE_SOURCES_TABLE
  "\<lambda>r. (ls_scope_id r, ls_family r, ls_artifact_id r, ls_revision r, ls_ordinal r)"
  by unfold_locales (auto simp: ARTIFACT_LINEAGE_SOURCES_TABLE_def)

interpretation lineage_artifacts_t: keyed_table ARTIFACT_LINEAGE_ARTIFACTS_TABLE
  "\<lambda>r. (la_scope_id r, la_family r, la_artifact_id r, la_revision r, la_ordinal r)"
  by unfold_locales (auto simp: ARTIFACT_LINEAGE_ARTIFACTS_TABLE_def)

interpretation publications_t: stored_table ARTIFACT_PUBLICATIONS_TABLE
  by unfold_locales (auto simp: ARTIFACT_PUBLICATIONS_TABLE_def)

interpretation candidate_versions_t: keyed_table CANDIDATE_VERSIONS_TABLE candidate_version_pk
  by unfold_locales (auto simp: CANDIDATE_VERSIONS_TABLE_def)

interpretation candidate_heads_t: keyed_table CANDIDATE_HEADS_TABLE candidate_head_pk
  by unfold_locales (auto simp: CANDIDATE_HEADS_TABLE_def)

definition empty_catalog :: "string \<Rightarrow> (nat \<Rightarrow> int) \<Rightarrow> string list \<Rightarrow> (string \<times> string \<times> string) list \<Rightarrow> 'c catalog" where
  "empty_catalog d c scopes sources = \<lparr>ca_dialect = d, wall_clock = c, wall_ticks = 0, stamp = None,
     scope_ids = scopes, source_ids = sources, artifacts = [], artifact_heads = [], lineage_sources = [],
     lineage_artifacts = [], publications = [], candidate_versions = [], candidate_heads = []\<rparr>"

section \<open>Checks and codecs the repositories share\<close>

text \<open>\<^verbatim>\<open>load_model\<close> of a family's content class.\<close>

definition load_model :: "string \<Rightarrow> 'c model stored \<Rightarrow> string \<Rightarrow> string \<Rightarrow> error + 'c model" where
  "load_model expected payload kind name = (case payload of
     Corrupted \<Rightarrow> Inl (InvalidStoredPayload kind name)
   | Encoded m \<Rightarrow> if model_class m = expected then Inr m else Inl (InvalidStoredPayload kind name))"

text \<open>A validated \<^verbatim>\<open>ArtifactRef\<close>.\<close>

definition reference_part_ok :: "string \<Rightarrow> bool" where
  "reference_part_ok v \<longleftrightarrow> trimmed v"

definition artifact_ref_ok :: "artifact_ref \<Rightarrow> bool" where
  "artifact_ref_ok r \<longleftrightarrow> reference_part_ok (ref_family r) \<and> ref_family r \<noteq> ''memory''
     \<and> length (ref_family r) \<le> MAX_ARTIFACT_FAMILY_LENGTH
     \<and> reference_part_ok (ref_artifact_id r) \<and> length (ref_artifact_id r) \<le> MAX_ARTIFACT_ID_LENGTH
     \<and> 1 \<le> ref_revision r"

definition make_artifact_ref :: "string \<Rightarrow> string \<Rightarrow> int \<Rightarrow> error + artifact_ref" where
  "make_artifact_ref f a n =
     (let r = \<lparr>ref_family = f, ref_artifact_id = a, ref_revision = n\<rparr> in
      if artifact_ref_ok r then Inr r else Inl (ValidationError ''ArtifactRef''))"

lemma make_artifact_ref_self [simp]:
  "artifact_ref_ok r \<Longrightarrow> make_artifact_ref (ref_family r) (ref_artifact_id r) (ref_revision r) = Inr r"
  by (cases r) (simp add: make_artifact_ref_def)

lemma make_artifact_ref_Inr [simp]:
  "make_artifact_ref f a n = Inr r \<longleftrightarrow> r = \<lparr>ref_family = f, ref_artifact_id = a, ref_revision = n\<rparr> \<and> artifact_ref_ok r"
  by (auto simp: make_artifact_ref_def Let_def)

end
