(* ===== verification/Candidates.thy ===== *)
theory Candidates
  imports Catalog
begin

text \<open>
  The review inbox: immutable candidate versions and their mutable heads, from
  \<^verbatim>\<open>src/src/powercontext/builtin/persistence/candidates.py\<close> and the candidate value of
  \<^verbatim>\<open>src/src/powercontext/builtin/review/models.py\<close>.

  A stored proposal is the proposal model with its audit, or a payload that does not parse;
  the envelope JSON that \<open>_encode_proposal\<close> writes around an audited proposal is that
  pair. \<open>proposal_digest\<close> and the decoder of tag candidates
  (\<^verbatim>\<open>catalog_changes.py\<close>) are arguments of the operations that call them.

  The lemmas show that a candidate created in a transaction is the one read back, that a
  decision is made at most once and is final, that a decision or a revision takes effect
  only at the version its author saw, and that pages of the inbox join.
\<close>

section \<open>Values\<close>

abbreviation (input) MAX_CANDIDATE_EVIDENCE :: nat where "MAX_CANDIDATE_EVIDENCE \<equiv> 32"
abbreviation (input) MAX_CANDIDATE_PAGE_SIZE :: nat where "MAX_CANDIDATE_PAGE_SIZE \<equiv> 100"
abbreviation (input) MAX_CANDIDATE_REASON_LENGTH :: nat where "MAX_CANDIDATE_REASON_LENGTH \<equiv> 2000"

datatype candidate_status = PENDING | APPROVED | REJECTED

fun status_value :: "candidate_status \<Rightarrow> string" where
  "status_value PENDING = ''pending''"
| "status_value APPROVED = ''approved''"
| "status_value REJECTED = ''rejected''"

definition parse_status :: "string \<Rightarrow> error + candidate_status" where
  "parse_status v =
     (if v = ''pending'' then Inr PENDING
      else if v = ''approved'' then Inr APPROVED
      else if v = ''rejected'' then Inr REJECTED
      else Inl (ValidationError ''CandidateStatus''))"

lemma parse_status_value [simp]: "parse_status (status_value x) = Inr x"
  by (cases x) (simp_all add: parse_status_def)

lemma status_value_inject [simp]: "status_value x = status_value y \<longleftrightarrow> x = y"
  by (cases x; cases y) simp_all

record 'c candidate =
  ca_candidate_id :: string
  ca_version :: int
  ca_family :: string
  ca_status :: candidate_status
  ca_proposal :: "'c model"
  ca_sources :: "source_ref list"
  ca_artifacts :: "artifact_ref list"
  ca_target :: "artifact_ref option"
  ca_reason :: "string option"
  ca_result_artifact :: "artifact_ref option"
  ca_decision_reason :: "string option"
  ca_audit :: "audit option"

definition candidate_text_ok :: "string option \<Rightarrow> bool" where
  "candidate_text_ok v = (case v of None \<Rightarrow> True
     | Some x \<Rightarrow> 1 \<le> length x \<and> length x \<le> MAX_CANDIDATE_REASON_LENGTH \<and> trimmed x)"

definition candidate_ok :: "'c candidate \<Rightarrow> bool" where
  "candidate_ok c \<longleftrightarrow>
     1 \<le> length (ca_candidate_id c) \<and> length (ca_candidate_id c) \<le> MAX_ARTIFACT_ID_LENGTH
     \<and> trimmed (ca_candidate_id c) \<and> 1 \<le> ca_version c \<and> trimmed (ca_family c)
     \<and> length (ca_sources c) \<le> MAX_CANDIDATE_EVIDENCE \<and> length (ca_artifacts c) \<le> MAX_CANDIDATE_EVIDENCE
     \<and> candidate_text_ok (ca_reason c) \<and> candidate_text_ok (ca_decision_reason c)
     \<and> (ca_sources c \<noteq> [] \<or> ca_artifacts c \<noteq> [])
     \<and> length (ca_sources c) + length (ca_artifacts c) \<le> MAX_CANDIDATE_EVIDENCE
     \<and> (case ca_target c of None \<Rightarrow> True | Some t \<Rightarrow> ref_family t = ca_family c)
     \<and> (ca_status c = APPROVED \<longleftrightarrow> ca_result_artifact c \<noteq> None)
     \<and> (ca_status c = REJECTED \<longleftrightarrow> ca_decision_reason c \<noteq> None)"

definition validated_candidate :: "'c candidate \<Rightarrow> error + 'c candidate" where
  "validated_candidate c = (if candidate_ok c then Inr c else Inl (ValidationError ''Candidate''))"

record catalog_item =
  ci_candidate_id :: string
  ci_candidate_kind :: string
  ci_family :: string
  ci_version :: int
  ci_status :: candidate_status
  ci_reason :: "string option"

datatype ('c, 't) inbox_item =
    Tag_Change 't
  | Catalog_Item catalog_item
  | Full_Candidate "'c candidate"

record 'c candidate_page =
  cp_candidates :: "'c list"
  cp_next_cursor :: "string option"

section \<open>Stored form\<close>

type_synonym proposal_types = "string \<Rightarrow> string option"

type_synonym 'c candidate_join = "candidate_head_row \<times> 'c candidate_version_row"

definition encode_proposal :: "'c candidate \<Rightarrow> ('c model \<times> audit option) stored" where
  "encode_proposal c = Encoded (ca_proposal c, ca_audit c)"

definition decode_candidate_proposal_envelope ::
  "('c model \<times> audit option) stored \<Rightarrow> error + ('c model stored \<times> audit option)" where
  "decode_candidate_proposal_envelope payload = (case payload of
     Corrupted \<Rightarrow> Inl (InvalidStoredPayload ''candidate-proposal'' ''envelope'')
   | Encoded (m, a) \<Rightarrow> Inr (Encoded m, a))"

definition load_refs :: "'a list stored \<Rightarrow> string \<Rightarrow> error + 'a list" where
  "load_refs payload name = (case payload of
     Corrupted \<Rightarrow> Inl (InvalidStoredPayload ''candidate'' name) | Encoded xs \<Rightarrow> Inr xs)"

text \<open>A reference in three nullable columns; \<^verbatim>\<open>str(None)\<close> is \<^verbatim>\<open>'None'\<close>, \<^verbatim>\<open>int(None)\<close> raises.\<close>

definition column_text :: "string option \<Rightarrow> string" where
  "column_text v = (case v of None \<Rightarrow> ''None'' | Some x \<Rightarrow> x)"

definition optional_ref :: "string option \<Rightarrow> string option \<Rightarrow> int option \<Rightarrow> error + artifact_ref option" where
  "optional_ref family artifact_id revision = (case family of
     None \<Rightarrow> Inr None
   | Some f \<Rightarrow> (case revision of
       None \<Rightarrow> Inl TypeError
     | Some n \<Rightarrow> map_sum id Some (make_artifact_ref f (column_text artifact_id) n)))"

definition version_row :: "string \<Rightarrow> 'c candidate \<Rightarrow> 'c candidate_version_row" where
  "version_row scope_id c = \<lparr>
     cv_scope_id = scope_id, cv_candidate_id = ca_candidate_id c, cv_version = ca_version c,
     cv_family = ca_family c, cv_proposal = encode_proposal c,
     cv_source_refs = Encoded (ca_sources c), cv_artifact_refs = Encoded (ca_artifacts c),
     cv_target_family = map_option ref_family (ca_target c),
     cv_target_artifact_id = map_option ref_artifact_id (ca_target c),
     cv_target_revision = map_option ref_revision (ca_target c), cv_reason = ca_reason c\<rparr>"

definition decode_candidate :: "proposal_types \<Rightarrow> 'c candidate_join \<Rightarrow> error + 'c candidate" where
  "decode_candidate types row = (let h = fst row; v = snd row; family = ch_family h in
     case types family of
       None \<Rightarrow> Inl (InvalidCandidate ''family'' family)
     | Some proposal_type \<Rightarrow>
     (case decode_candidate_proposal_envelope (cv_proposal v) of
       Inl e \<Rightarrow> Inl e
     | Inr (payload, candidate_audit) \<Rightarrow>
     (case load_model proposal_type payload ''candidate-proposal'' family of
       Inl e \<Rightarrow> Inl e
     | Inr proposal \<Rightarrow>
     (case parse_status (ch_status h) of
       Inl e \<Rightarrow> Inl e
     | Inr status \<Rightarrow>
     (case load_refs (cv_source_refs v) ''source-refs'' of
       Inl e \<Rightarrow> Inl e
     | Inr sources \<Rightarrow>
     (case load_refs (cv_artifact_refs v) ''artifact-refs'' of
       Inl e \<Rightarrow> Inl e
     | Inr cited \<Rightarrow>
     (case optional_ref (cv_target_family v) (cv_target_artifact_id v) (cv_target_revision v) of
       Inl e \<Rightarrow> Inl e
     | Inr target \<Rightarrow>
     (case optional_ref (ch_result_family h) (ch_result_artifact_id h) (ch_result_revision h) of
       Inl e \<Rightarrow> Inl e
     | Inr result \<Rightarrow> validated_candidate \<lparr>
         ca_candidate_id = ch_candidate_id h, ca_version = ch_version h, ca_family = family, ca_status = status,
         ca_proposal = proposal, ca_sources = sources, ca_artifacts = cited, ca_target = target,
         ca_reason = cv_reason v, ca_result_artifact = result, ca_decision_reason = ch_decision_reason h,
         ca_audit = candidate_audit\<rparr>))))))))"

section \<open>Operations\<close>

definition require_scope :: "string \<Rightarrow> ('s, unit) exec" where
  "require_scope scope_id = require_identifier ''scope_id'' scope_id MAX_SCOPE_ID_LENGTH"

definition require_proposal :: "proposal_types \<Rightarrow> string \<Rightarrow> 'c model \<Rightarrow> ('s, unit) exec" where
  "require_proposal types family proposal = (case types family of
     None \<Rightarrow> raise (InvalidCandidate ''family'' family)
   | Some expected \<Rightarrow> require (model_class proposal = expected)
       (InvalidCandidate ''proposal'' (''expected '' @ expected)))"

definition candidate_key :: "string \<Rightarrow> string \<Rightarrow> candidate_head_row \<Rightarrow> bool" where
  "candidate_key scope_id candidate_id h \<longleftrightarrow> ch_scope_id h = scope_id \<and> ch_candidate_id h = candidate_id"

definition find_candidate_head :: "string \<Rightarrow> string \<Rightarrow> ('c catalog, candidate_head_row option) exec" where
  "find_candidate_head scope_id candidate_id = sql_one_or_none CANDIDATE_HEADS_TABLE
     (\<lambda>h. candidate_key scope_id candidate_id h \<and> ch_candidate_kind h = ''artifact'')"

text \<open>The rows of \<^verbatim>\<open>heads JOIN versions\<close> on scope, candidate and version.\<close>

definition join_versions :: "'c catalog \<Rightarrow> 'c candidate_join list" where
  "join_versions s = [(h, v). h \<leftarrow> candidate_heads s, v \<leftarrow> candidate_versions s,
     cv_scope_id v = ch_scope_id h \<and> cv_candidate_id v = ch_candidate_id h \<and> cv_version v = ch_version h]"

definition find_current :: "string \<Rightarrow> string \<Rightarrow> ('c catalog, 'c candidate_join option) exec" where
  "find_current scope_id candidate_id =
     bind (gets (\<lambda>s. filter (\<lambda>(h, v). candidate_key scope_id candidate_id h
        \<and> ch_candidate_kind h = ''artifact'') (join_versions s))) (\<lambda>rows.
     case rows of [] \<Rightarrow> return None | [r] \<Rightarrow> return (Some r) | _ \<Rightarrow> raise MultipleResultsFound)"

definition candidate_get :: "proposal_types \<Rightarrow> string \<Rightarrow> string \<Rightarrow> ('c catalog, 'c candidate) exec" where
  "candidate_get types scope_id candidate_id =
     andThen (require_scope scope_id)
    (bind (find_current scope_id candidate_id) (\<lambda>row.
     case row of
       None \<Rightarrow> raise (CandidateNotFound candidate_id)
     | Some r \<Rightarrow> lift_result (decode_candidate types r)))"

fun prepare_new :: "proposal_types \<Rightarrow> string list \<Rightarrow> 'c candidate list \<Rightarrow> ('s, unit) exec" where
  "prepare_new types seen [] = return ()"
| "prepare_new types seen (c # cs) =
     andThen (require_proposal types (ca_family c) (ca_proposal c))
    (andThen (require (ca_version c = 1 \<and> ca_status c = PENDING)
                (InvalidCandidate ''candidate'' ''bulk creation requires pending first versions''))
    (andThen (require (ca_candidate_id c \<notin> set seen) (CandidateConflict (ca_candidate_id c) 1 1))
       (prepare_new types (ca_candidate_id c # seen) cs)))"

definition new_candidate_head :: "string \<Rightarrow> 'c candidate \<Rightarrow> candidate_head_row" where
  "new_candidate_head scope_id c = \<lparr>
     ch_scope_id = scope_id, ch_candidate_id = ca_candidate_id c, ch_family = ca_family c, ch_version = 1,
     ch_status = status_value PENDING, ch_candidate_kind = ''artifact'', ch_result_payload = None,
     ch_result_family = None, ch_result_artifact_id = None, ch_result_revision = None,
     ch_decision_reason = None\<rparr>"

text \<open>The loop of the \<^verbatim>\<open>except\<close> clause: which existing candidate the insertion ran into.\<close>

fun classify_conflict :: "string \<Rightarrow> 'c candidate list \<Rightarrow> error \<Rightarrow> ('c catalog, 'a) exec" where
  "classify_conflict scope_id [] e = raise e"
| "classify_conflict scope_id (c # cs) e =
     bind (find_candidate_head scope_id (ca_candidate_id c)) (\<lambda>existing. case existing of
       Some h \<Rightarrow> raise (CandidateConflict (ca_candidate_id c) 1 (ch_version h))
     | None \<Rightarrow> classify_conflict scope_id cs e)"

definition candidate_create_many ::
  "proposal_types \<Rightarrow> string \<Rightarrow> 'c candidate list \<Rightarrow> ('c catalog, 'c candidate list) exec" where
  "candidate_create_many types scope_id cs =
     andThen (require_scope scope_id)
    (if cs = [] then return []
     else
     andThen (prepare_new types [] cs)
    (andThen (catch (andThen (for_each (map (version_row scope_id) cs) (sql_insert CANDIDATE_VERSIONS_TABLE))
                       (for_each (map (new_candidate_head scope_id) cs) (sql_insert CANDIDATE_HEADS_TABLE)))
                (\<lambda>e. e = IntegrityError) (classify_conflict scope_id cs))
       (return cs)))"

definition new_candidate ::
  "string \<Rightarrow> string \<Rightarrow> 'c model \<Rightarrow> source_ref list \<Rightarrow> artifact_ref list \<Rightarrow> artifact_ref option \<Rightarrow>
     string option \<Rightarrow> 'c candidate" where
  "new_candidate candidate_id family proposal sources artifact_refs target reason = \<lparr>
     ca_candidate_id = candidate_id, ca_version = 1, ca_family = family, ca_status = PENDING,
     ca_proposal = proposal, ca_sources = sources, ca_artifacts = artifact_refs, ca_target = target,
     ca_reason = reason, ca_result_artifact = None, ca_decision_reason = None, ca_audit = None\<rparr>"

definition candidate_create ::
  "proposal_types \<Rightarrow> string \<Rightarrow> string \<Rightarrow> string \<Rightarrow> 'c model \<Rightarrow> source_ref list \<Rightarrow> artifact_ref list \<Rightarrow>
     artifact_ref option \<Rightarrow> string option \<Rightarrow> ('c catalog, 'c candidate) exec" where
  "candidate_create types scope_id candidate_id family proposal sources artifact_refs target reason =
     andThen (require_scope scope_id)
    (andThen (require_proposal types family proposal)
    (bind (lift_result (validated_candidate (new_candidate candidate_id family proposal sources artifact_refs
             target reason))) (\<lambda>candidate.
     bind (candidate_create_many types scope_id [candidate]) (\<lambda>cs. return (cs ! 0)))))"

definition raise_stale_or_terminal :: "'c candidate \<Rightarrow> int \<Rightarrow> ('s, 'a) exec" where
  "raise_stale_or_terminal c expected_version =
     (if ca_status c \<noteq> PENDING then raise (CandidateTerminal (ca_candidate_id c) (status_value (ca_status c)))
      else raise (CandidateConflict (ca_candidate_id c) expected_version (ca_version c)))"

text \<open>The guard every lifecycle write shares: the head is pending at the expected version.\<close>

definition pending_at :: "string \<Rightarrow> string \<Rightarrow> int \<Rightarrow> candidate_head_row \<Rightarrow> bool" where
  "pending_at scope_id candidate_id expected_version h \<longleftrightarrow> candidate_key scope_id candidate_id h
     \<and> ch_candidate_kind h = ''artifact'' \<and> ch_version h = expected_version \<and> ch_status h = status_value PENDING"

definition lock_pending :: "proposal_types \<Rightarrow> string \<Rightarrow> string \<Rightarrow> int \<Rightarrow> ('c catalog, 'c candidate) exec" where
  "lock_pending types scope_id candidate_id expected_version =
     andThen (require_scope scope_id)
    (bind (sql_update CANDIDATE_HEADS_TABLE (pending_at scope_id candidate_id expected_version)
             (\<lambda>h. h\<lparr>ch_version := ch_version h\<rparr>)) (\<lambda>locked.
     bind (candidate_get types scope_id candidate_id) (\<lambda>current.
     if locked \<noteq> 1 then raise_stale_or_terminal current expected_version else return current)))"

text \<open>
  A guarded write of the head: when it matches no row, the current candidate says why.
\<close>

definition advance_head ::
  "proposal_types \<Rightarrow> string \<Rightarrow> string \<Rightarrow> int \<Rightarrow> (candidate_head_row \<Rightarrow> candidate_head_row) \<Rightarrow> ('c catalog, unit) exec" where
  "advance_head types scope_id candidate_id expected_version f =
     bind (sql_update CANDIDATE_HEADS_TABLE (pending_at scope_id candidate_id expected_version) f) (\<lambda>advanced.
     if advanced \<noteq> 1
     then bind (candidate_get types scope_id candidate_id) (\<lambda>latest. raise_stale_or_terminal latest expected_version)
     else return ())"

definition revised_candidate ::
  "('c model \<Rightarrow> string) \<Rightarrow> string \<Rightarrow> 'c candidate \<Rightarrow> 'c model \<Rightarrow> source_ref list \<Rightarrow> artifact_ref list \<Rightarrow>
     artifact_ref option \<Rightarrow> string option \<Rightarrow> 'c candidate" where
  "revised_candidate proposal_digest candidate_id current proposal sources artifact_refs target reason = \<lparr>
     ca_candidate_id = candidate_id, ca_version = ca_version current + 1,
     ca_family = ca_family current, ca_status = PENDING, ca_proposal = proposal, ca_sources = sources,
     ca_artifacts = artifact_refs, ca_target = target, ca_reason = reason, ca_result_artifact = None,
     ca_decision_reason = None,
     ca_audit = map_option (\<lambda>a. a\<lparr>au_proposal_digest := proposal_digest proposal,
       au_evidence_manifest_ref := ''candidate:'' @ candidate_id @ '':'' @ decimal (nat (ca_version current + 1)),
       au_proposal_fingerprint := None\<rparr>) (ca_audit current)\<rparr>"

definition candidate_revise ::
  "proposal_types \<Rightarrow> ('c model \<Rightarrow> string) \<Rightarrow> string \<Rightarrow> string \<Rightarrow> int \<Rightarrow> 'c model \<Rightarrow> source_ref list \<Rightarrow> artifact_ref list \<Rightarrow>
     artifact_ref option \<Rightarrow> string option \<Rightarrow> ('c catalog, 'c candidate) exec" where
  "candidate_revise types proposal_digest scope_id candidate_id expected_version proposal sources artifact_refs target reason =
     bind (lock_pending types scope_id candidate_id expected_version) (\<lambda>current.
     andThen (require_proposal types (ca_family current) proposal)
    (bind (lift_result (validated_candidate (revised_candidate proposal_digest candidate_id current proposal sources
             artifact_refs target reason))) (\<lambda>revised.
     andThen (sql_insert CANDIDATE_VERSIONS_TABLE (version_row scope_id revised))
    (andThen (advance_head types scope_id candidate_id expected_version (\<lambda>h. h\<lparr>ch_version := ca_version revised\<rparr>))
       (return revised)))))"

definition candidate_reject ::
  "proposal_types \<Rightarrow> string \<Rightarrow> string \<Rightarrow> int \<Rightarrow> string \<Rightarrow> ('c catalog, 'c candidate) exec" where
  "candidate_reject types scope_id candidate_id expected_version reason =
     bind (lock_pending types scope_id candidate_id expected_version) (\<lambda>current.
     andThen (advance_head types scope_id candidate_id expected_version
                (\<lambda>h. h\<lparr>ch_status := status_value REJECTED, ch_decision_reason := Some reason\<rparr>))
       (return (current\<lparr>ca_status := REJECTED, ca_decision_reason := Some reason\<rparr>)))"

definition mark_approved ::
  "proposal_types \<Rightarrow> string \<Rightarrow> string \<Rightarrow> int \<Rightarrow> artifact_ref \<Rightarrow> ('c catalog, 'c candidate) exec" where
  "mark_approved types scope_id candidate_id expected_version result =
     andThen (advance_head types scope_id candidate_id expected_version
                (\<lambda>h. h\<lparr>ch_status := status_value APPROVED, ch_result_family := Some (ref_family result),
                       ch_result_artifact_id := Some (ref_artifact_id result),
                       ch_result_revision := Some (ref_revision result)\<rparr>))
       (candidate_get types scope_id candidate_id)"

definition attach_candidate_audit :: "string \<Rightarrow> 'c candidate \<Rightarrow> audit \<Rightarrow> ('c catalog, unit) exec" where
  "attach_candidate_audit scope_id c a =
     andThen (require (ca_version c = 1 \<and> ca_audit c = None \<and> ca_status c = PENDING)
                (InvalidCandidate ''audit'' ''Dream audit must be assigned at proposal creation''))
    (andThen (sql_update CANDIDATE_VERSIONS_TABLE
               (\<lambda>v. cv_scope_id v = scope_id \<and> cv_candidate_id v = ca_candidate_id c \<and> cv_version v = 1)
               (\<lambda>v. v\<lparr>cv_proposal := encode_proposal (c\<lparr>ca_audit := Some a\<rparr>)\<rparr>))
       (return ()))"

text \<open>
  A page of the inbox. A metadata row leaves the body of an artifact candidate out, which
  no field of its item needs.
\<close>

definition metadata_item :: "'c candidate_join \<Rightarrow> error + catalog_item" where
  "metadata_item row = (case parse_status (ch_status (fst row)) of
     Inl e \<Rightarrow> Inl e
   | Inr st \<Rightarrow> if ch_candidate_kind (fst row) \<in> {''artifact'', ''tag''}
       then Inr \<lparr>ci_candidate_id = ch_candidate_id (fst row), ci_candidate_kind = ch_candidate_kind (fst row),
         ci_family = ch_family (fst row), ci_version = ch_version (fst row), ci_status = st,
         ci_reason = cv_reason (snd row)\<rparr>
       else Inl (ValidationError ''CandidateCatalogItem''))"

definition inbox_item ::
  "proposal_types \<Rightarrow> ('c candidate_join \<Rightarrow> error + 't) \<Rightarrow> bool \<Rightarrow> 'c candidate_join \<Rightarrow> error + ('c, 't) inbox_item" where
  "inbox_item types decode_tag metadata_only row =
     (if ch_candidate_kind (fst row) = ''tag'' then map_sum id Tag_Change (decode_tag row)
      else if metadata_only then map_sum id Catalog_Item (metadata_item row)
      else map_sum id Full_Candidate (decode_candidate types row))"

definition inbox_rows ::
  "string \<Rightarrow> candidate_status \<Rightarrow> string option \<Rightarrow> string option \<Rightarrow> string option \<Rightarrow> 'c catalog \<Rightarrow> 'c candidate_join list" where
  "inbox_rows scope_id status family candidate_kind cursor s =
     sort_key (\<lambda>(h, v). ch_candidate_id h) (filter (\<lambda>(h, v).
       ch_scope_id h = scope_id \<and> ch_status h = status_value status
       \<and> (family \<noteq> None \<longrightarrow> family = Some (ch_family h))
       \<and> (candidate_kind \<noteq> None \<longrightarrow> candidate_kind = Some (ch_candidate_kind h))
       \<and> (case cursor of None \<Rightarrow> True | Some k \<Rightarrow> k < ch_candidate_id h)) (join_versions s))"

definition inbox_page ::
  "proposal_types \<Rightarrow> ('c candidate_join \<Rightarrow> error + 't) \<Rightarrow> string \<Rightarrow> candidate_status \<Rightarrow> string option \<Rightarrow>
     string option \<Rightarrow> string option \<Rightarrow> int \<Rightarrow> bool \<Rightarrow> ('c catalog, ('c, 't) inbox_item list \<times> string option) exec" where
  "inbox_page types decode_tag scope_id status family candidate_kind cursor limit metadata_only =
     andThen (require_scope scope_id)
    (andThen (require (1 \<le> limit \<and> limit \<le> int MAX_CANDIDATE_PAGE_SIZE)
                (InvalidRepositoryArgument ''limit'' (''must be between 1 and '' @ decimal MAX_CANDIDATE_PAGE_SIZE)))
    (bind (gets (\<lambda>s. take (nat limit + 1) (inbox_rows scope_id status family candidate_kind cursor s))) (\<lambda>rows.
     bind (lift_result (each_result (inbox_item types decode_tag metadata_only) (take (nat limit) rows))) (\<lambda>items.
     return (items, if nat limit < length rows then Some (ch_candidate_id (fst (rows ! (nat limit - 1)))) else None)))))"

definition candidate_list ::
  "proposal_types \<Rightarrow> ('c candidate_join \<Rightarrow> error + 't) \<Rightarrow> string \<Rightarrow> candidate_status \<Rightarrow> string option \<Rightarrow>
     string option \<Rightarrow> int \<Rightarrow> ('c catalog, ('c, 't) inbox_item candidate_page) exec" where
  "candidate_list types decode_tag scope_id status family cursor limit =
     andThen (case family of None \<Rightarrow> return ()
        | Some f \<Rightarrow> require (types f \<noteq> None) (InvalidCandidate ''family'' f))
    (bind (inbox_page types decode_tag scope_id status family (Some ''artifact'') cursor limit False) (\<lambda>(items, next_cursor).
     return \<lparr>cp_candidates = items, cp_next_cursor = next_cursor\<rparr>))"

section \<open>What the operations do\<close>

abbreviation cheads_ok :: "'c catalog \<Rightarrow> bool" where "cheads_ok \<equiv> table_ok CANDIDATE_HEADS_TABLE"
abbreviation cversions_ok :: "'c catalog \<Rightarrow> bool" where "cversions_ok \<equiv> table_ok CANDIDATE_VERSIONS_TABLE"

definition candidates_ok :: "'c catalog \<Rightarrow> bool" where
  "candidates_ok s \<longleftrightarrow> cheads_ok s \<and> cversions_ok s"

lemma candidates_okD [dest]: "candidates_ok s \<Longrightarrow> cheads_ok s \<and> cversions_ok s"
  by (simp add: candidates_ok_def)

abbreviation chead :: "'c catalog \<Rightarrow> string \<Rightarrow> string \<Rightarrow> candidate_head_row option" where
  "chead s i c \<equiv> lookup_row CANDIDATE_HEADS_TABLE candidate_head_pk s (i, c)"

abbreviation cversion :: "'c catalog \<Rightarrow> string \<Rightarrow> string \<Rightarrow> int \<Rightarrow> 'c candidate_version_row option" where
  "cversion s i c n \<equiv> lookup_row CANDIDATE_VERSIONS_TABLE candidate_version_pk s (i, c, n)"

abbreviation put_chead :: "candidate_head_row \<Rightarrow> 'c catalog \<Rightarrow> 'c catalog" where
  "put_chead \<equiv> store_row CANDIDATE_HEADS_TABLE candidate_head_pk"

abbreviation put_cversion :: "'c candidate_version_row \<Rightarrow> 'c catalog \<Rightarrow> 'c catalog" where
  "put_cversion \<equiv> store_row CANDIDATE_VERSIONS_TABLE candidate_version_pk"

lemma require_proposal_Inr [simp]:
  "require_proposal types f p s = (Inr u, t) \<longleftrightarrow> types f = Some (model_class p) \<and> t = s"
  by (auto simp: require_proposal_def split: option.splits)

lemma candidate_key_pk: "candidate_key i c h \<longleftrightarrow> candidate_head_pk h = (i, c)"
  by (auto simp: candidate_key_def)

text \<open>The version a head points at exists, by the foreign key.\<close>

definition version_of :: "'c catalog \<Rightarrow> candidate_head_row \<Rightarrow> 'c candidate_version_row" where
  "version_of s h = the (cversion s (ch_scope_id h) (ch_candidate_id h) (ch_version h))"

lemma version_of_head:
  assumes "candidates_ok s" and "h \<in> set (candidate_heads s)"
  shows "cversion s (ch_scope_id h) (ch_candidate_id h) (ch_version h) = Some (version_of s h)"
proof -
  from assms have "admits CANDIDATE_HEADS_TABLE s h" by (auto simp: table_ok_def)
  then obtain v where v: "v \<in> set (candidate_versions s)" "candidate_version_pk v = (ch_scope_id h, ch_candidate_id h, ch_version h)"
    by (auto simp: catalog_admits)
  have "cversions_ok s" using assms(1) by blast
  from candidate_versions_t.lookup_mem [OF this, of v] v show ?thesis by (simp add: version_of_def)
qed

lemma join_versions_run:
  assumes "candidates_ok s"
  shows "join_versions s = map (\<lambda>h. (h, version_of s h)) (candidate_heads s)"
proof -
  have one: "filter (\<lambda>v. candidate_version_pk v = (ch_scope_id h, ch_candidate_id h, ch_version h)) (candidate_versions s) = [version_of s h]"
    if "h \<in> set (candidate_heads s)" for h
  proof -
    have "cversions_ok s" using assms by blast
    then have "filter (\<lambda>v. candidate_version_pk v = (ch_scope_id h, ch_candidate_id h, ch_version h)) (rows_of CANDIDATE_VERSIONS_TABLE s)
      = (case List.find (\<lambda>v. candidate_version_pk v = (ch_scope_id h, ch_candidate_id h, ch_version h)) (rows_of CANDIDATE_VERSIONS_TABLE s) of
          None \<Rightarrow> [] | Some r \<Rightarrow> [r])"
      by (intro clash_free_at_most_one [where T = CANDIDATE_VERSIONS_TABLE]) (auto simp: table_ok_def catalog_clash)
    with version_of_head [OF assms that] show ?thesis by (simp add: lookup_row_def)
  qed
  have "concat (map (\<lambda>h. concat (map (\<lambda>v. if cv_scope_id v = ch_scope_id h \<and> cv_candidate_id v = ch_candidate_id h \<and> cv_version v = ch_version h
        then [(h, v)] else []) (candidate_versions s))) hs)
      = map (\<lambda>h. (h, version_of s h)) hs" if "set hs \<subseteq> set (candidate_heads s)" for hs
    using that
  proof (induction hs)
    case (Cons h hs)
    have "concat (map (\<lambda>v. if cv_scope_id v = ch_scope_id h \<and> cv_candidate_id v = ch_candidate_id h \<and> cv_version v = ch_version h
        then [(h, v)] else []) vs) = map (Pair h) (filter (\<lambda>v. candidate_version_pk v = (ch_scope_id h, ch_candidate_id h, ch_version h)) vs)" for vs :: "'a candidate_version_row list"
      by (induction vs) auto
    with Cons one [of h] show ?case by simp
  qed simp
  then show ?thesis by (simp add: join_versions_def)
qed

lemma find_current_run:
  assumes "candidates_ok s"
  shows "find_current i c s = (Inr (case chead s i c of
      None \<Rightarrow> None
    | Some h \<Rightarrow> if ch_candidate_kind h = ''artifact'' then Some (h, version_of s h) else None), s)"
proof -
  have "cheads_ok s" using assms by blast
  then have "filter (\<lambda>h. candidate_key i c h \<and> ch_candidate_kind h = ''artifact'') (rows_of CANDIDATE_HEADS_TABLE s)
    = (case List.find (candidate_key i c) (rows_of CANDIDATE_HEADS_TABLE s) of
        None \<Rightarrow> [] | Some h \<Rightarrow> if ch_candidate_kind h = ''artifact'' then [h] else [])"
    by (intro candidate_heads_t.guarded_filter) (auto simp: candidate_key_def catalog_clash)
  moreover have "List.find (candidate_key i c) (candidate_heads s) = chead s i c"
    by (auto simp: lookup_row_def candidate_key_pk intro: find_cong_set)
  moreover have "filter (\<lambda>(h, v). candidate_key i c h \<and> ch_candidate_kind h = ''artifact'') (map (\<lambda>h. (h, version_of s h)) hs)
      = map (\<lambda>h. (h, version_of s h)) (filter (\<lambda>h. candidate_key i c h \<and> ch_candidate_kind h = ''artifact'') hs)" for hs
    by (induction hs) auto
  ultimately show ?thesis
    by (simp add: find_current_def bind_run join_versions_run [OF assms] split: option.split)
qed

lemma candidate_get_run:
  assumes "candidates_ok s" and "valid_identifier i MAX_SCOPE_ID_LENGTH"
  shows "candidate_get types i c s = (case chead s i c of
      None \<Rightarrow> (Inl (CandidateNotFound c), s)
    | Some h \<Rightarrow> if ch_candidate_kind h = ''artifact'' then (decode_candidate types (h, version_of s h), s)
        else (Inl (CandidateNotFound c), s))"
  using assms by (simp add: candidate_get_def require_scope_def andThen_run bind_run find_current_run split: option.split)

lemma reads_only_find_current [intro, simp]: "reads_only (find_current i c)"
  by (auto simp: find_current_def reads_only_def bind_run split: list.splits)

lemma reads_only_candidate_get [intro, simp]: "reads_only (candidate_get types i c)"
  unfolding candidate_get_def require_scope_def by (intro reads_only_andThen reads_only_bind) (auto split: option.splits)

lemma reads_only_find_candidate_head [intro, simp]: "reads_only (find_candidate_head i c)"
  by (simp add: find_candidate_head_def)

lemma decode_candidate_Inr:
  "decode_candidate types (h, v) = Inr x \<Longrightarrow> ca_version x = ch_version h \<and> ca_candidate_id x = ch_candidate_id h
     \<and> ca_family x = ch_family h \<and> status_value (ca_status x) = ch_status h \<and> candidate_ok x"
  by (auto simp: decode_candidate_def validated_candidate_def Let_def parse_status_def split: sum.splits option.splits if_splits)

text \<open>A guarded write of a head takes effect exactly on a pending head at the version it names.\<close>

definition chead_at :: "'c catalog \<Rightarrow> string \<Rightarrow> string \<Rightarrow> int \<Rightarrow> candidate_head_row option" where
  "chead_at s i c e = (case chead s i c of None \<Rightarrow> None | Some h \<Rightarrow> if pending_at i c e h then Some h else None)"

lemma guarded_write_run:
  assumes "candidates_ok s" and "\<And>h. candidate_head_pk (f h) = candidate_head_pk h"
  shows "sql_update CANDIDATE_HEADS_TABLE (pending_at i c e) f s = (case chead_at s i c e of
      None \<Rightarrow> (Inr 0, s)
    | Some h \<Rightarrow> if admits CANDIDATE_HEADS_TABLE s (f h) then (Inr 1, put_chead (f h) s) else (Inl IntegrityError, s))"
proof -
  have "cheads_ok s" using assms(1) by blast
  then show ?thesis
    using assms(2) by (subst candidate_heads_t.update_key [where k = "(i, c)"])
      (auto simp: chead_at_def pending_at_def candidate_key_pk split: option.split)
qed

lemma lock_rows:
  assumes "candidates_ok s"
  shows "length (filter (pending_at i c e) (candidate_heads s)) = (if chead_at s i c e = None then 0 else 1)"
proof -
  have "cheads_ok s" using assms by blast
  from candidate_heads_t.count_keyed [OF this, of "pending_at i c e" "(i, c)"] show ?thesis
    by (auto simp: chead_at_def pending_at_def candidate_key_pk split: option.split)
qed

lemma lock_pending_run:
  assumes "candidates_ok s" and "valid_identifier i MAX_SCOPE_ID_LENGTH"
  shows "lock_pending types i c e s = (case fst (candidate_get types i c s) of
      Inl err \<Rightarrow> (Inl err, s)
    | Inr x \<Rightarrow> if chead_at s i c e = None then raise_stale_or_terminal x e s else (Inr x, s))"
proof -
  have "cheads_ok s" using assms(1) by blast
  then have lock: "sql_update CANDIDATE_HEADS_TABLE (pending_at i c e) (\<lambda>h. h) s
      = (Inr (if chead_at s i c e = None then 0 else 1), s)"
    by (subst candidate_heads_t.update_same) (simp_all add: lock_rows [OF assms(1)])
  show ?thesis
    by (simp add: lock_pending_def require_scope_def andThen_run assms(2) bind_run [of "sql_update _ _ _"] lock
        bind_reads [OF reads_only_candidate_get] split: sum.split)
qed

lemma stale_or_terminal_state [simp]: "snd (raise_stale_or_terminal x e s) = s" "fst (raise_stale_or_terminal x e s) \<noteq> Inr y"
  by (simp_all add: raise_stale_or_terminal_def)

lemma stale_or_terminal_not [simp]: "raise_stale_or_terminal x e s \<noteq> (Inr y, t)"
  by (simp add: raise_stale_or_terminal_def)

lemma lock_pending_Inr:
  assumes "candidates_ok s" and "lock_pending types i c e s = (Inr x, t)"
  shows "t = s \<and> (\<exists>h. chead_at s i c e = Some h \<and> chead s i c = Some h \<and> decode_candidate types (h, version_of s h) = Inr x
    \<and> ca_version x = e \<and> valid_identifier i MAX_SCOPE_ID_LENGTH)"
proof -
  from assms(2) have v: "valid_identifier i MAX_SCOPE_ID_LENGTH"
    by (auto simp: lock_pending_def require_scope_def exec_Inr_iffs)
  with assms lock_pending_run [OF assms(1) v, of types c e] candidate_get_run [OF assms(1) v, of types c] show ?thesis
    by (auto simp: chead_at_def pending_at_def split: option.splits if_splits sum.splits dest: decode_candidate_Inr)
qed

section \<open>How candidates evolve\<close>

text \<open>
  What any sequence of review operations may do to a head: nothing, move a pending head to
  a higher version, or decide it. Stored versions stay as they are.
\<close>

definition head_evolves :: "candidate_head_row \<Rightarrow> candidate_head_row \<Rightarrow> bool" where
  "head_evolves h h' \<longleftrightarrow> h' = h \<or> (ch_status h = ''pending'' \<and> ch_version h \<le> ch_version h'
     \<and> (ch_status h' = ''pending'' \<longrightarrow> ch_version h < ch_version h'))"

definition heads_evolve :: "'c catalog \<Rightarrow> 'c catalog \<Rightarrow> bool" where
  "heads_evolve s t \<longleftrightarrow> (\<forall>i c h. chead s i c = Some h \<longrightarrow> (\<exists>h'. chead t i c = Some h' \<and> head_evolves h h'))"

definition versions_kept :: "'c catalog \<Rightarrow> 'c catalog \<Rightarrow> bool" where
  "versions_kept s t \<longleftrightarrow> (\<forall>i c n v. cversion s i c n = Some v \<longrightarrow> cversion t i c n = Some v)"

lemma head_evolves_trans: "head_evolves a b \<Longrightarrow> head_evolves b c \<Longrightarrow> head_evolves a c"
  by (auto simp: head_evolves_def)

lemma evolve_refl [simp]: "heads_evolve s s" "versions_kept s s"
  by (auto simp: heads_evolve_def versions_kept_def head_evolves_def)

lemma heads_evolve_trans: "heads_evolve r s \<Longrightarrow> heads_evolve s t \<Longrightarrow> heads_evolve r t"
  unfolding heads_evolve_def by (meson head_evolves_trans)

lemma versions_kept_trans: "versions_kept r s \<Longrightarrow> versions_kept s t \<Longrightarrow> versions_kept r t"
  by (simp add: versions_kept_def)

text \<open>\<open>reviewed s\<close>: reached from \<open>s\<close> by statements the repository issues.\<close>

definition reviewed :: "'c catalog \<Rightarrow> 'c catalog \<Rightarrow> bool" where
  "reviewed s t \<longleftrightarrow> candidates_ok t \<and> heads_evolve s t \<and> versions_kept s t"

lemma head_frame [simp]:
  "lookup_row CANDIDATE_HEADS_TABLE k (s\<lparr>candidate_versions := x\<rparr>) j = lookup_row CANDIDATE_HEADS_TABLE k s j"
  "lookup_row CANDIDATE_VERSIONS_TABLE k' (s\<lparr>candidate_heads := y\<rparr>) j' = lookup_row CANDIDATE_VERSIONS_TABLE k' s j'"
  by (simp_all add: lookup_row_def)

lemma versions_frame [simp]: "cversion (put_chead h s) i c n = cversion s i c n" "chead (put_cversion v s) i c = chead s i c"
  by (simp_all add: store_row_def)

lemma cversions_ok_frame [simp]: "cversions_ok (put_chead h s) = cversions_ok s"
  by (simp add: store_row_def table_ok_def catalog_admits)

lemma cheads_ok_grow: "cheads_ok s \<Longrightarrow> cheads_ok (s\<lparr>candidate_versions := candidate_versions s @ vs\<rparr>)"
  by (auto simp: table_ok_def catalog_admits)

lemma insert_version_reviewed:
  assumes "reviewed s0 s"
  shows "reviewed s0 (snd (sql_insert CANDIDATE_VERSIONS_TABLE v s))"
proof (cases "sql_insert CANDIDATE_VERSIONS_TABLE v s = (Inl IntegrityError, s)")
  case True
  with assms show ?thesis by simp
next
  case False
  then have new: "cversion s (cv_scope_id v) (cv_candidate_id v) (cv_version v) = None" "admits CANDIDATE_VERSIONS_TABLE s v"
    by (auto simp: candidate_versions_t.insert_run split: if_splits)
  then have "put_cversion v s = s\<lparr>candidate_versions := candidate_versions s @ [v]\<rparr>"
    by (simp add: store_row_def)
  moreover have "cversions_ok (put_cversion v s)"
    using assms new by (intro candidate_versions_t.table_ok_store) (auto simp: reviewed_def)
  moreover have "versions_kept s (put_cversion v s)" "heads_evolve s (put_cversion v s)"
    using new(1) by (auto simp: versions_kept_def heads_evolve_def candidate_versions_t.lookup_store head_evolves_def)
  ultimately show ?thesis
    using assms new cheads_ok_grow [of s "[v]"]
    by (auto simp: reviewed_def candidates_ok_def candidate_versions_t.insert_run intro: heads_evolve_trans versions_kept_trans)
qed

lemma put_head_reviewed:
  assumes "reviewed s0 s" and "admits CANDIDATE_HEADS_TABLE s h"
    and "\<And>g. chead s (ch_scope_id h) (ch_candidate_id h) = Some g \<Longrightarrow> head_evolves g h"
  shows "reviewed s0 (put_chead h s)"
proof -
  have "cheads_ok (put_chead h s)"
    using assms by (intro candidate_heads_t.table_ok_store) (auto simp: reviewed_def)
  moreover have "heads_evolve s (put_chead h s)" "versions_kept s (put_chead h s)"
    using assms(3) by (auto simp: heads_evolve_def versions_kept_def candidate_heads_t.lookup_store head_evolves_def)
  ultimately show ?thesis
    using assms(1) by (auto simp: reviewed_def candidates_ok_def intro: heads_evolve_trans versions_kept_trans)
qed

lemma insert_head_reviewed: "reviewed s0 s \<Longrightarrow> reviewed s0 (snd (sql_insert CANDIDATE_HEADS_TABLE h s))"
  by (auto simp: candidate_heads_t.insert_run intro!: put_head_reviewed)

lemma preserves_inserts [preserves_rules]:
  "preserves (reviewed s0) (sql_insert CANDIDATE_VERSIONS_TABLE v)"
  "preserves (reviewed s0) (sql_insert CANDIDATE_HEADS_TABLE h)"
  by (auto intro!: preservesI insert_version_reviewed insert_head_reviewed)

lemma preserves_guarded_write:
  assumes "\<And>h. candidate_head_pk (f h) = candidate_head_pk h"
    and "\<And>h. ch_status h = ''pending'' \<Longrightarrow> ch_version h = e \<Longrightarrow> head_evolves h (f h)"
  shows "preserves (reviewed s0) (sql_update CANDIDATE_HEADS_TABLE (pending_at i c e) f)"
proof (rule preservesI)
  fix s assume s: "reviewed s0 s"
  then have ok: "candidates_ok s" by (simp add: reviewed_def)
  show "reviewed s0 (snd (sql_update CANDIDATE_HEADS_TABLE (pending_at i c e) f s))"
    using s assms by (auto simp: guarded_write_run [OF ok] chead_at_def pending_at_def candidate_key_def split: option.split
        intro!: put_head_reviewed)
qed

lemma preserves_candidate_get [preserves_rules]: "preserves P (candidate_get types i c)"
  by (rule reads_only_preserves) simp

lemma preserves_find_candidate_head [preserves_rules]: "preserves P (find_candidate_head i c)"
  by (rule reads_only_preserves) simp

lemma preserves_stale_or_terminal [preserves_rules]: "preserves P (raise_stale_or_terminal x e)"
  by (simp add: raise_stale_or_terminal_def preserves_raise)

lemma preserves_advance_head:
  assumes "\<And>h. candidate_head_pk (f h) = candidate_head_pk h"
    and "\<And>h. ch_status h = ''pending'' \<Longrightarrow> ch_version h = e \<Longrightarrow> head_evolves h (f h)"
  shows "preserves (reviewed s0) (advance_head types i c e f)"
  unfolding advance_head_def by (intro preserves_rules preserves_guarded_write assms)

lemma preserves_lock_pending: "preserves (reviewed s0) (lock_pending types i c e)"
  unfolding lock_pending_def require_scope_def
  by (intro preserves_rules preserves_guarded_write) (auto simp: head_evolves_def)

lemma preserves_prepare_new [preserves_rules]: "preserves P (prepare_new types seen cs)"
  by (induction types seen cs rule: prepare_new.induct)
     (unfold prepare_new.simps require_proposal_def, (intro preserves_rules, assumption?)+)

lemma preserves_classify_conflict [preserves_rules]: "preserves P (classify_conflict i cs e)"
  by (induction i cs e rule: classify_conflict.induct)
     (unfold classify_conflict.simps, (intro preserves_rules, assumption?)+)

lemma preserves_create_many: "preserves (reviewed s0) (candidate_create_many types i cs)"
  unfolding candidate_create_many_def require_scope_def by (intro preserves_rules)

lemma preserves_create: "preserves (reviewed s0) (candidate_create types i c f p ss as tg r)"
  unfolding candidate_create_def require_scope_def require_proposal_def
  by (intro preserves_rules preserves_create_many)

lemma preserves_revise: "preserves (reviewed s0) (candidate_revise types digest i c e p ss as tg r)"
  unfolding candidate_revise_def
proof (intro preserves_bind_Inr preserves_lock_pending)
  fix s x t
  assume s: "reviewed s0 s" and "lock_pending types i c e s = (Inr x, t)"
  then have "ca_version x = e" using lock_pending_Inr [of s types i c e x t] by (auto simp: reviewed_def)
  then show "preserves (reviewed s0) (andThen (require_proposal types (ca_family x) p)
      (bind (lift_result (validated_candidate (revised_candidate digest c x p ss as tg r))) (\<lambda>revised.
     andThen (sql_insert CANDIDATE_VERSIONS_TABLE (version_row i revised))
    (andThen (advance_head types i c e (\<lambda>h. h\<lparr>ch_version := ca_version revised\<rparr>))
       (return revised)))))"
    unfolding require_proposal_def
    by (intro preserves_andThen preserves_bind_Inr preserves_rules preserves_advance_head)
       (auto simp: head_evolves_def validated_candidate_def revised_candidate_def split: if_splits)
qed

lemma preserves_reject: "preserves (reviewed s0) (candidate_reject types i c e r)"
  unfolding candidate_reject_def
  by (intro preserves_rules preserves_lock_pending preserves_advance_head) (auto simp: head_evolves_def)

lemma preserves_approve: "preserves (reviewed s0) (mark_approved types i c e r)"
  unfolding mark_approved_def
  by (intro preserves_rules preserves_advance_head) (auto simp: head_evolves_def)

section \<open>Outcomes\<close>

lemma reject_Inr:
  assumes "candidates_ok s" and "candidate_reject types i c e r s = (Inr x, t)"
  shows "\<exists>h. chead_at s i c e = Some h
    \<and> t = put_chead (h\<lparr>ch_status := ''rejected'', ch_decision_reason := Some r\<rparr>) s"
proof -
  from assms obtain y where l: "lock_pending types i c e s = (Inr y, s)"
    and a: "advance_head types i c e (\<lambda>h. h\<lparr>ch_status := status_value REJECTED, ch_decision_reason := Some r\<rparr>) s = (Inr (), t)"
    by (fastforce simp: candidate_reject_def exec_Inr_iffs dest: lock_pending_Inr)
  from a show ?thesis
    by (auto simp: advance_head_def bind_run guarded_write_run [OF assms(1)] split: option.splits if_splits sum.splits prod.splits)
qed

lemma approve_Inr:
  assumes "candidates_ok s" and "mark_approved types i c e ref s = (Inr x, t)"
  shows "\<exists>h. chead_at s i c e = Some h \<and> t = put_chead (h\<lparr>ch_status := ''approved'',
    ch_result_family := Some (ref_family ref), ch_result_artifact_id := Some (ref_artifact_id ref),
    ch_result_revision := Some (ref_revision ref)\<rparr>) s"
proof -
  let ?f = "\<lambda>h. h\<lparr>ch_status := status_value APPROVED, ch_result_family := Some (ref_family ref),
      ch_result_artifact_id := Some (ref_artifact_id ref), ch_result_revision := Some (ref_revision ref)\<rparr>"
  from assms(2) obtain u where a: "advance_head types i c e ?f s = (Inr (), u)" and "candidate_get types i c u = (Inr x, t)"
    by (auto simp: mark_approved_def exec_Inr_iffs)
  then have "t = u" using reads_only_candidate_get reads_onlyD by metis
  with a show ?thesis
    by (auto simp: advance_head_def bind_run guarded_write_run [OF assms(1)] split: option.splits if_splits sum.splits prod.splits)
qed

lemma chead_at_put_version [simp]: "chead_at (put_cversion v s) i c e = chead_at s i c e"
  by (simp add: chead_at_def)

lemma revise_Inr:
  assumes ok: "candidates_ok s" and run: "candidate_revise types digest i c e p ss as tg r s = (Inr x, t)"
  shows "\<exists>h. chead_at s i c e = Some h \<and> ca_version x = e + 1 \<and> chead t i c = Some (h\<lparr>ch_version := e + 1\<rparr>)
    \<and> cversion t i c (e + 1) = Some (version_row i x)"
proof -
  from run obtain y u w where l: "lock_pending types i c e s = (Inr y, w)"
    and xy: "x = revised_candidate digest c y p ss as tg r"
    and ins: "sql_insert CANDIDATE_VERSIONS_TABLE (version_row i x) w = (Inr (), u)"
    and a: "advance_head types i c e (\<lambda>h. h\<lparr>ch_version := ca_version x\<rparr>) u = (Inr (), t)"
    by (auto simp: candidate_revise_def exec_Inr_iffs validated_candidate_def split: if_splits)
  have w: "w = s" and x: "ca_version x = ca_version y + 1" "ca_candidate_id x = c"
    using lock_pending_Inr [OF ok l] xy by (simp_all add: revised_candidate_def)
  note ins = ins [unfolded w] and l = l [unfolded w]
  from lock_pending_Inr [OF ok l] obtain h where h: "chead_at s i c e = Some h" "ca_version y = e" by blast
  have u: "u = put_cversion (version_row i x) s"
    using ins by (simp add: candidate_versions_t.insert_run split: if_splits)
  have "candidates_ok u"
    using insert_version_reviewed [of s s "version_row i x"] ok ins by (simp add: reviewed_def)
  with a h x u have "t = put_chead (h\<lparr>ch_version := e + 1\<rparr>) u"
    by (auto simp: advance_head_def bind_run guarded_write_run split: option.splits if_splits sum.splits prod.splits)
  moreover have "candidate_head_pk h = (i, c)"
    using h(1) by (auto simp: chead_at_def pending_at_def candidate_key_def split: option.splits if_splits)
  ultimately show ?thesis
    using h x u by (auto simp: candidate_heads_t.lookup_store candidate_versions_t.lookup_store version_row_def)
qed

text \<open>An operation that names a version the head is not pending at is refused and changes nothing.\<close>

lemma lock_pending_refused:
  assumes "candidates_ok s" and "chead_at s i c e = None"
  shows "\<exists>err. lock_pending types i c e s = (Inl err, s)"
proof (cases "valid_identifier i MAX_SCOPE_ID_LENGTH")
  case True
  with lock_pending_run [OF assms(1) True, of types c e] assms(2) show ?thesis
    by (auto simp: raise_stale_or_terminal_def split: sum.splits)
qed (auto simp: lock_pending_def require_scope_def andThen_run require_identifier_run)

lemma advance_head_refused:
  assumes "candidates_ok s" and "chead_at s i c e = None" and "\<And>h. candidate_head_pk (f h) = candidate_head_pk h"
  shows "\<exists>err. advance_head types i c e f s = (Inl err, s)"
proof (cases "candidate_get types i c s")
  case (Pair r t)
  with reads_only_candidate_get have "t = s" by (metis reads_onlyD)
  with Pair guarded_write_run [OF assms(1,3), of i c e] assms(2) show ?thesis
    by (cases r) (simp_all add: advance_head_def bind_run raise_stale_or_terminal_def)
qed

lemma refused:
  assumes "candidates_ok s" and "chead_at s i c e = None"
  shows "(\<exists>err. candidate_reject types i c e r s = (Inl err, s))
    \<and> (\<exists>err. candidate_revise types digest i c e p ss as tg r' s = (Inl err, s))
    \<and> (\<exists>err. mark_approved types i c e ref s = (Inl err, s))"
proof -
  from lock_pending_refused [OF assms, of types] obtain err where l: "lock_pending types i c e s = (Inl err, s)" by blast
  let ?f = "\<lambda>h. h\<lparr>ch_status := status_value APPROVED, ch_result_family := Some (ref_family ref),
      ch_result_artifact_id := Some (ref_artifact_id ref), ch_result_revision := Some (ref_revision ref)\<rparr>"
  have "\<exists>err. advance_head types i c e ?f s = (Inl err, s)"
    by (rule advance_head_refused [OF assms]) simp
  then have "\<exists>err. mark_approved types i c e ref s = (Inl err, s)"
    by (auto simp: mark_approved_def andThen_run)
  with l show ?thesis by (simp add: candidate_reject_def candidate_revise_def bind_run)
qed

section \<open>Runs\<close>

inductive review_step :: "'c catalog \<Rightarrow> 'c catalog \<Rightarrow> bool" where
  creates: "review_step s (snd (candidate_create_many types i cs s))"
| create: "review_step s (snd (candidate_create types i c f p ss as tg r s))"
| revise: "review_step s (snd (candidate_revise types digest i c e p ss as tg r s))"
| reject: "review_step s (snd (candidate_reject types i c e reason s))"
| approve: "review_step s (snd (mark_approved types i c e ref s))"

inductive_cases review_stepE: "review_step s t"

lemma review_step_reviewed: "review_step s t \<Longrightarrow> reviewed s0 s \<Longrightarrow> reviewed s0 t"
  by (elim review_stepE)
     (auto intro: preservesD [OF preserves_create_many] preservesD [OF preserves_create]
        preservesD [OF preserves_revise] preservesD [OF preserves_reject] preservesD [OF preserves_approve])

lemma reviewed_refl: "candidates_ok s \<Longrightarrow> reviewed s s"
  by (simp add: reviewed_def)

abbreviation reviewed_version :: "string \<Rightarrow> string \<Rightarrow> 'c catalog \<Rightarrow> (int \<times> 'c candidate_version_row) option" where
  "reviewed_version i c s \<equiv> map_option (\<lambda>h. (ch_version h, version_of s h)) (chead s i c)"

lemma version_of_lookup:
  "candidates_ok s \<Longrightarrow> chead s i c = Some h \<Longrightarrow> cversion s i c (ch_version h) = Some (version_of s h)"
  using version_of_head [of s h] candidate_heads_t.lookup_key [of s "(i, c)" h] by auto

interpretation reviews: versioned_register candidates_ok review_step "reviewed_version i c" for i c
proof
  fix s t :: "'c catalog"
  assume "candidates_ok s" and "review_step s t"
  then show "candidates_ok t" using review_step_reviewed [OF _ reviewed_refl] by (auto simp: reviewed_def)
next
  fix s t :: "'c catalog" and n v
  assume ok: "candidates_ok s" and "review_step s t" and rv: "reviewed_version i c s = Some (n, v)"
  then have rev: "reviewed s t" using review_step_reviewed [OF _ reviewed_refl] by blast
  from rv obtain h where h: "chead s i c = Some h" "ch_version h = n" "version_of s h = v" by auto
  with rev obtain h' where h': "chead t i c = Some h'" "head_evolves h h'"
    unfolding reviewed_def heads_evolve_def by blast
  have "version_of t h' = v" if "ch_version h' = n"
    using version_of_lookup [OF ok h(1)] version_of_lookup [OF _ h'(1)] rev that h by (auto simp: reviewed_def versions_kept_def)
  with h h' show "reviewed_version i c t = Some (n, v) \<or> (\<exists>n' v'. reviewed_version i c t = Some (n', v') \<and> n < n')"
    by (auto simp: head_evolves_def)
qed

text \<open>The audit of a new version is completed apart from the review itself; no head changes.\<close>

definition audit_step :: "'c catalog \<Rightarrow> 'c catalog \<Rightarrow> bool" where
  "audit_step s t \<longleftrightarrow> (\<exists>i c a. t = snd (attach_candidate_audit i c a s))"

lemma update_keys:
  "(\<exists>v \<in> set (update_rows p (\<lambda>v. v\<lparr>cv_proposal := y\<rparr>) vs). cv_scope_id v = i \<and> cv_candidate_id v = c \<and> cv_version v = n)
    \<longleftrightarrow> (\<exists>v \<in> set vs. cv_scope_id v = i \<and> cv_candidate_id v = c \<and> cv_version v = n)"
  by (induction vs) auto

lemma audit_step_heads:
  assumes "candidates_ok s" and "audit_step s t"
  shows "candidates_ok t \<and> (\<forall>i c. chead t i c = chead s i c)"
proof -
  have upd: "candidates_ok u \<and> (\<forall>i c. chead u i c = chead s i c)"
    if "sql_update CANDIDATE_VERSIONS_TABLE p (\<lambda>v. v\<lparr>cv_proposal := y\<rparr>) s = (x, u)" for p y x u
  proof -
    have "cversions_ok u" using candidate_versions_t.table_ok_update [of s p "\<lambda>v. v\<lparr>cv_proposal := y\<rparr>"] that assms(1) by auto
    moreover have "u = s \<or> u = s\<lparr>candidate_versions := update_rows p (\<lambda>v. v\<lparr>cv_proposal := y\<rparr>) (candidate_versions s)\<rparr>"
      using that by (auto simp: sql_update_def Let_def split: if_splits)
    moreover have "cheads_ok (s\<lparr>candidate_versions := update_rows p (\<lambda>v. v\<lparr>cv_proposal := y\<rparr>) (candidate_versions s)\<rparr>)"
      using assms(1) by (auto simp: table_ok_def catalog_admits candidates_ok_def update_keys)
    ultimately show ?thesis using assms(1) by (auto simp: candidates_ok_def fun_eq_iff)
  qed
  from assms(2) obtain i c a where t: "t = snd (attach_candidate_audit i c a s)" by (auto simp: audit_step_def)
  show ?thesis
  proof (cases "ca_version c = 1 \<and> ca_audit c = None \<and> ca_status c = PENDING")
    case True
    then show ?thesis
      using upd t by (auto simp: attach_candidate_audit_def andThen_run split: prod.splits sum.splits)
  next
    case False
    then have "t = s" using t by (auto simp: attach_candidate_audit_def andThen_run)
    with assms(1) show ?thesis by simp
  qed
qed

section \<open>Pages\<close>

abbreviation inbox_key :: "'c candidate_join \<Rightarrow> string" where "inbox_key \<equiv> \<lambda>r. ch_candidate_id (fst r)"

lemma inbox_rows_key: "inbox_rows i st f k cur s = sort_key inbox_key (filter (\<lambda>(h, v).
       ch_scope_id h = i \<and> ch_status h = status_value st \<and> (f \<noteq> None \<longrightarrow> f = Some (ch_family h))
       \<and> (k \<noteq> None \<longrightarrow> k = Some (ch_candidate_kind h))
       \<and> (case cur of None \<Rightarrow> True | Some k \<Rightarrow> k < ch_candidate_id h)) (join_versions s))"
  unfolding inbox_rows_def by (rule arg_cong2 [where f = sort_key]) auto

lemma inbox_rows_sorted:
  fixes s :: "'c catalog"
  assumes "candidates_ok s"
  shows "sorted_wrt (\<lambda>a b. inbox_key a < inbox_key b) (inbox_rows i st f k cur s)"
  unfolding inbox_rows_key
proof (rule sorted_key_distinct)
  have "clash_free (CANDIDATE_HEADS_TABLE :: ('c catalog, _) sql_table) (candidate_heads s)"
    using assms by (auto simp: table_ok_def candidates_ok_def)
  then have "distinct (map ch_candidate_id (filter (\<lambda>h. ch_scope_id h = i \<and> Q h) (candidate_heads s)))" for Q
    by (intro clash_free_distinct [where T = "CANDIDATE_HEADS_TABLE :: ('c catalog, _) sql_table"] clash_free_filter) (auto simp: catalog_clash)
  moreover have "map inbox_key (filter (\<lambda>(h, v). ch_scope_id h = i \<and> Q h) (join_versions s))
      = map ch_candidate_id (filter (\<lambda>h. ch_scope_id h = i \<and> Q h) (candidate_heads s))" for Q
    by (simp add: join_versions_run [OF assms] filter_map o_def)
  ultimately have all: "distinct (map inbox_key (filter (\<lambda>(h, v). ch_scope_id h = i \<and> Q h) (join_versions s)))" for Q
    by simp
  show "distinct (map inbox_key (filter (\<lambda>(h, v). ch_scope_id h = i \<and> ch_status h = status_value st
       \<and> (f \<noteq> None \<longrightarrow> f = Some (ch_family h)) \<and> (k \<noteq> None \<longrightarrow> k = Some (ch_candidate_kind h))
       \<and> (case cur of None \<Rightarrow> True | Some k \<Rightarrow> k < ch_candidate_id h)) (join_versions s)))"
    by (rule all)
qed

lemma inbox_rows_cursor:
  "inbox_rows i st f k cur s = filter (\<lambda>r. case cur of None \<Rightarrow> True | Some c \<Rightarrow> c < inbox_key r) (inbox_rows i st f k None s)"
  unfolding inbox_rows_key filter_sort_key by (auto intro!: arg_cong2 [where f = sort_key] filter_cong split: option.split)

text \<open>The rows after the last row of a page are the rest of the rows.\<close>

lemma inbox_rows_next:
  assumes "candidates_ok s" and "0 < n" and "n < length (inbox_rows i st f k cur s)"
  shows "inbox_rows i st f k (Some (inbox_key (inbox_rows i st f k cur s ! (n - 1)))) s = drop n (inbox_rows i st f k cur s)"
proof -
  let ?R = "inbox_rows i st f k cur s"
  have ne: "take n ?R \<noteq> []" using assms(2,3) by auto
  then have la: "last (take n ?R) = ?R ! (n - 1)"
    using assms(2,3) by (simp add: last_conv_nth min_def)
  have "filter (\<lambda>r. inbox_key (?R ! (n - 1)) < inbox_key r) ?R = drop n ?R"
    using sorted_wrt_key_filter [of inbox_key "take n ?R" "drop n ?R"] inbox_rows_sorted [OF assms(1)] ne la by simp
  moreover have "inbox_rows i st f k (Some (inbox_key (?R ! (n - 1)))) s = filter (\<lambda>r. inbox_key (?R ! (n - 1)) < inbox_key r) ?R"
  proof (cases cur)
    case None
    then show ?thesis by (subst inbox_rows_cursor) simp
  next
    case (Some c)
    have "?R ! (n - 1) \<in> set ?R" using assms(3) by (intro nth_mem) simp
    then have "c < inbox_key (?R ! (n - 1))"
      using Some by (subst (asm) (2) inbox_rows_cursor) auto
    with Some show ?thesis
      by (subst inbox_rows_cursor, subst (3) inbox_rows_cursor) (auto intro: filter_cong)
  qed
  ultimately show ?thesis by simp
qed

text \<open>Following the cursors of the pages, from a given one to the end.\<close>

fun read_inbox ::
  "nat \<Rightarrow> proposal_types \<Rightarrow> ('c candidate_join \<Rightarrow> error + 't) \<Rightarrow> string \<Rightarrow> candidate_status \<Rightarrow> string option \<Rightarrow>
     string option \<Rightarrow> string option \<Rightarrow> int \<Rightarrow> bool \<Rightarrow> ('c catalog, ('c, 't) inbox_item list) exec" where
  "read_inbox 0 types tag i st f k cur limit md = raise StopIteration"
| "read_inbox (Suc n) types tag i st f k cur limit md =
     bind (inbox_page types tag i st f k cur limit md) (\<lambda>(items, next_cursor). case next_cursor of
       None \<Rightarrow> return items
     | Some c \<Rightarrow> bind (read_inbox n types tag i st f k (Some c) limit md) (\<lambda>rest. return (items @ rest)))"

lemma inbox_page_run:
  assumes "valid_identifier i MAX_SCOPE_ID_LENGTH" and "1 \<le> limit" and "limit \<le> 100"
    and "each_result (inbox_item types tag md) (take (nat limit) (inbox_rows i st f k cur s)) = Inr xs"
  shows "inbox_page types tag i st f k cur limit md s = (Inr (xs,
    if nat limit < length (inbox_rows i st f k cur s) then Some (inbox_key (inbox_rows i st f k cur s ! (nat limit - 1))) else None), s)"
  using assms by (auto simp: inbox_page_def require_scope_def andThen_run bind_run min_def)

lemma read_inbox_run:
  assumes ok: "candidates_ok s" and lim: "valid_identifier i MAX_SCOPE_ID_LENGTH" "1 \<le> limit" "limit \<le> 100"
    and "length (inbox_rows i st f k cur s) < n"
    and "each_result (inbox_item types tag md) (inbox_rows i st f k cur s) = Inr xs"
  shows "read_inbox n types tag i st f k cur limit md s = (Inr xs, s)"
  using assms(5,6)
proof (induction n arbitrary: cur xs)
  case (Suc n)
  let ?R = "inbox_rows i st f k cur s"
  from Suc.prems(2) each_result_append [of "inbox_item types tag md" "take (nat limit) ?R" "drop (nat limit) ?R"]
  obtain as bs where ab: "each_result (inbox_item types tag md) (take (nat limit) ?R) = Inr as"
    "each_result (inbox_item types tag md) (drop (nat limit) ?R) = Inr bs" "xs = as @ bs"
    by (auto split: sum.splits)
  note page = inbox_page_run [OF lim ab(1)]
  show ?case
  proof (cases "nat limit < length ?R")
    case True
    then have rest: "inbox_rows i st f k (Some (inbox_key (?R ! (nat limit - 1)))) s = drop (nat limit) ?R"
      using inbox_rows_next [OF ok, of "nat limit"] lim(2) by simp
    have "read_inbox n types tag i st f k (Some (inbox_key (?R ! (nat limit - 1)))) limit md s = (Inr bs, s)"
      using Suc.prems(1) True lim(2) ab(2) by (intro Suc.IH) (simp_all only: rest, auto)
    with True ab(3) page show ?thesis by (simp add: bind_run)
  next
    case False
    with ab page show ?thesis by (simp add: bind_run)
  qed
qed simp

text \<open>The stored form of a new candidate decodes to it.\<close>

lemma decode_new_candidate:
  assumes "types (ca_family x) = Some (model_class (ca_proposal x))" and "candidate_ok x"
    and "ca_status x = PENDING" and "ca_version x = 1" and "\<forall>t. ca_target x = Some t \<longrightarrow> artifact_ref_ok t"
  shows "decode_candidate types (new_candidate_head i x, version_row i x) = Inr x"
proof -
  have "optional_ref (map_option ref_family (ca_target x)) (map_option ref_artifact_id (ca_target x))
      (map_option ref_revision (ca_target x)) = Inr (ca_target x)"
    using assms(5) by (cases "ca_target x") (simp_all add: optional_ref_def column_text_def)
  moreover have "ca_result_artifact x = None" "ca_decision_reason x = None"
    using assms(2,3) by (auto simp: candidate_ok_def)
  ultimately show ?thesis
    using assms by (cases x) (simp add: decode_candidate_def new_candidate_head_def version_row_def encode_proposal_def
        decode_candidate_proposal_envelope_def load_model_def load_refs_def optional_ref_def validated_candidate_def parse_status_def)
qed

lemma new_head_admits:
  assumes "i \<in> set (scope_ids s)" and "ca_version x = 1"
  shows "admits CANDIDATE_HEADS_TABLE (put_cversion (version_row i x) s) (new_candidate_head i x)"
proof -
  let ?u = "put_cversion (version_row i x) s"
  have "cversion ?u i (ca_candidate_id x) 1 = Some (version_row i x)"
    using assms(2) by (simp add: candidate_versions_t.lookup_store version_row_def)
  from candidate_versions_t.lookup_key [OF this]
  have "version_row i x \<in> set (candidate_versions ?u)" "candidate_version_pk (version_row i x) = (i, ca_candidate_id x, 1)"
    by simp_all
  then have "\<exists>v \<in> set (candidate_versions ?u). candidate_version_pk v = (i, ca_candidate_id x, 1)"
    by (rule bexI [rotated])
  moreover have "scope_ids ?u = scope_ids s" by (simp add: store_row_def)
  ultimately show ?thesis
    using assms by (simp add: catalog_admits new_candidate_head_def candidate_result_ok_def optional_revision_exists_def)
qed

text \<open>A small inbox the properties are applied to: one candidate of a skill proposal.\<close>

definition sample_types :: proposal_types where
  "sample_types = [''skill'' \<mapsto> ''SkillProposal'']"

definition sample_candidate :: "unit candidate" where
  "sample_candidate = new_candidate ''c1'' ''skill'' (Model ''SkillProposal'' ())
     [\<lparr>sr_source_type = ''content'', sr_source_id = ''n1''\<rparr>] [] None (Some ''worth keeping'')"

definition inbox_of :: "string \<Rightarrow> string option \<Rightarrow> unit catalog" where
  "inbox_of st reason = (empty_catalog ''sqlite'' (\<lambda>n. int n) [''s1''] [])\<lparr>
     candidate_versions := [version_row ''s1'' sample_candidate],
     candidate_heads := [(new_candidate_head ''s1'' sample_candidate)\<lparr>ch_status := st, ch_decision_reason := reason\<rparr>]\<rparr>"

lemmas inbox_of_simps = inbox_of_def sample_candidate_def new_candidate_def version_row_def new_candidate_head_def
  empty_catalog_def candidates_ok_def table_ok_def clash_free_def catalog_admits catalog_clash candidate_result_ok_def
  optional_revision_exists_def lookup_row_def

section \<open>Properties\<close>

text \<open>
  C36: a candidate created for review is the one read back: with a registered family, a
  fresh identity and stored references, creation succeeds, and reading the candidate in the
  same transaction returns exactly the value created, as version one and pending.
\<close>

theorem created_candidate_reads_back:
  fixes s :: "'c catalog"
  assumes "candidates_ok s" and "valid_identifier i MAX_SCOPE_ID_LENGTH" and "i \<in> set (scope_ids s)"
    and "types f = Some (model_class p)" and "candidate_ok (new_candidate c f p ss as tg r)"
    and "\<forall>a. tg = Some a \<longrightarrow> artifact_ref_ok a \<and> revision_exists s (i, ref_family a, ref_artifact_id a, ref_revision a)"
    and "chead s i c = None" and "cversion s i c 1 = None"
  shows "\<exists>t. candidate_create types i c f p ss as tg r s = (Inr (new_candidate c f p ss as tg r), t)
    \<and> candidate_get types i c t = (Inr (new_candidate c f p ss as tg r), t) \<and> candidates_ok t"
proof -
  let ?x = "new_candidate c f p ss as tg r"
  let ?u = "put_cversion (version_row i ?x) s"
  let ?t = "put_chead (new_candidate_head i ?x) ?u"
  have x: "ca_version ?x = 1" "ca_status ?x = PENDING" "ca_family ?x = f" "ca_proposal ?x = p" "ca_candidate_id ?x = c" "ca_target ?x = tg"
    by (simp_all add: new_candidate_def)
  have adm: "admits CANDIDATE_VERSIONS_TABLE s (version_row i ?x)"
    using assms(3,6) by (auto simp: catalog_admits version_row_def x optional_revision_exists_def artifact_ref_ok_def split: option.split)
  have v: "sql_insert CANDIDATE_VERSIONS_TABLE (version_row i ?x) s = (Inr (), ?u)"
    using adm assms(8) by (simp add: candidate_versions_t.insert_run version_row_def x)
  have h: "sql_insert CANDIDATE_HEADS_TABLE (new_candidate_head i ?x) ?u = (Inr (), ?t)"
    using new_head_admits [OF assms(3), of ?x] assms(7) x by (simp add: candidate_heads_t.insert_run new_candidate_head_def)
  have run: "candidate_create types i c f p ss as tg r s = (Inr ?x, ?t)"
    using assms(2,4,5) v h by (simp add: candidate_create_def candidate_create_many_def require_scope_def require_proposal_def
        andThen_run bind_run catch_run validated_candidate_def x)
  have ok: "candidates_ok ?t"
    using preservesD [OF preserves_create reviewed_refl [OF assms(1)], of types i c f p ss as tg r] run by (simp add: reviewed_def)
  have "chead ?t i c = Some (new_candidate_head i ?x)"
    by (simp add: candidate_heads_t.lookup_store new_candidate_head_def x)
  moreover have "cversion ?t i c 1 = Some (version_row i ?x)"
    by (simp add: candidate_versions_t.lookup_store version_row_def x)
  then have "version_of ?t (new_candidate_head i ?x) = version_row i ?x"
    by (simp add: version_of_def new_candidate_head_def x)
  moreover have "decode_candidate types (new_candidate_head i ?x, version_row i ?x) = Inr ?x"
    using assms(4-6) x by (intro decode_new_candidate) auto
  moreover have "ch_candidate_kind (new_candidate_head i ?x) = ''artifact''"
    by (simp add: new_candidate_head_def)
  ultimately have "candidate_get types i c ?t = (Inr ?x, ?t)"
    by (simp add: candidate_get_run [OF ok assms(2)])
  with run ok show ?thesis by blast
qed

theorem created_candidate_reads_back_witness:
  "\<exists>t. candidate_create sample_types ''s1'' ''c1'' ''skill'' (Model ''SkillProposal'' ())
      [\<lparr>sr_source_type = ''content'', sr_source_id = ''n1''\<rparr>] [] None (Some ''worth keeping'')
      (empty_catalog ''sqlite'' (\<lambda>n. int n) [''s1''] []) = (Inr sample_candidate, t)
    \<and> candidate_get sample_types ''s1'' ''c1'' t = (Inr sample_candidate, t)"
proof -
  let ?s = "empty_catalog ''sqlite'' (\<lambda>n. int n) [''s1''] [] :: unit catalog"
  have s: "candidates_ok ?s" "chead ?s ''s1'' ''c1'' = None" "cversion ?s ''s1'' ''c1'' 1 = None"
    by (simp_all add: inbox_of_simps)
  have v: "valid_identifier ''s1'' MAX_SCOPE_ID_LENGTH" "''s1'' \<in> set (scope_ids ?s)"
    "sample_types ''skill'' = Some (model_class (Model ''SkillProposal'' ()))" "candidate_ok sample_candidate"
    by code_simp+
  have t: "\<forall>a. (None :: artifact_ref option) = Some a \<longrightarrow> artifact_ref_ok a
      \<and> revision_exists ?s (''s1'', ref_family a, ref_artifact_id a, ref_revision a)" by simp
  from created_candidate_reads_back [where types = sample_types and f = "''skill''" and p = "Model ''SkillProposal'' ()", OF s(1) v(1-3) v(4) [unfolded sample_candidate_def] t s(2,3)]
  show ?thesis unfolding sample_candidate_def by blast
qed

text \<open>
  C12: a decision is made once and is final. After a candidate has been approved or rejected,
  no sequence of review operations or audit completions changes its head, and every further
  decision or revision is refused and changes nothing.
\<close>

theorem decision_is_final:
  fixes s :: "'c catalog"
  assumes "candidates_ok s" and "chead s i c = Some h" and "ch_status h \<noteq> ''pending''"
    and "(\<lambda>s t. review_step s t \<or> audit_step s t)\<^sup>*\<^sup>* s t"
  shows "chead t i c = Some h \<and> (\<exists>err. candidate_reject types i c e r t = (Inl err, t))
    \<and> (\<exists>err. candidate_revise types digest i c e p ss as tg r' t = (Inl err, t))
    \<and> (\<exists>err. mark_approved types i c e ref t = (Inl err, t))"
proof -
  have "candidates_ok t \<and> chead t i c = Some h"
    using assms(4)
  proof (induction rule: rtranclp_induct)
    case base
    with assms show ?case by blast
  next
    case (step t u)
    then have ok: "candidates_ok t" and h: "chead t i c = Some h" by blast+
    from step.hyps(2) show ?case
    proof
      assume "review_step t u"
      then have "reviewed t u" using review_step_reviewed [OF _ reviewed_refl [OF ok]] by blast
      then have "candidates_ok u" "\<exists>h'. chead u i c = Some h' \<and> head_evolves h h'"
        using h unfolding reviewed_def heads_evolve_def by blast+
      with assms(3) show ?thesis by (auto simp: head_evolves_def)
    next
      assume "audit_step t u"
      with audit_step_heads [OF ok, of u] h show ?thesis by simp
    qed
  qed
  moreover have "chead_at t i c e = None" if "chead t i c = Some h"
    using that assms(3) by (simp add: chead_at_def pending_at_def)
  ultimately show ?thesis using refused by blast
qed

theorem decision_is_final_witness:
  "chead (snd (mark_approved sample_types ''s1'' ''c1'' 1 \<lparr>ref_family = ''skill'', ref_artifact_id = ''a'', ref_revision = 1\<rparr>
      (inbox_of ''rejected'' (Some ''no'')))) ''s1'' ''c1''
    = Some ((new_candidate_head ''s1'' sample_candidate)\<lparr>ch_status := ''rejected'', ch_decision_reason := Some ''no''\<rparr>)"
proof -
  let ?s = "inbox_of ''rejected'' (Some ''no'')"
  have "candidates_ok ?s"
    "chead ?s ''s1'' ''c1'' = Some ((new_candidate_head ''s1'' sample_candidate)\<lparr>ch_status := ''rejected'', ch_decision_reason := Some ''no''\<rparr>)"
    "ch_status ((new_candidate_head ''s1'' sample_candidate)\<lparr>ch_status := ''rejected'', ch_decision_reason := Some ''no''\<rparr>) \<noteq> ''pending''"
    by (simp_all add: inbox_of_simps)
  moreover have "(\<lambda>s t. review_step s t \<or> audit_step s t)\<^sup>*\<^sup>* ?s (snd (mark_approved sample_types ''s1'' ''c1'' 1
      \<lparr>ref_family = ''skill'', ref_artifact_id = ''a'', ref_revision = 1\<rparr> ?s))"
    by (intro r_into_rtranclp disjI1 review_step.approve)
  ultimately show ?thesis using decision_is_final by blast
qed

text \<open>
  Reviewers decide on what they saw. Once a candidate has been revised, a decision or a
  revision that names the replaced version is refused and changes nothing, whatever
  happened in between.
\<close>

theorem stale_review_refused:
  fixes s :: "'c catalog"
  assumes "candidates_ok s" and "candidate_revise types digest i c e p ss as tg r s = (Inr x, t)"
    and "review_step\<^sup>*\<^sup>* t u"
  shows "(\<exists>err. candidate_reject types i c e r' u = (Inl err, u))
    \<and> (\<exists>err. candidate_revise types digest i c e p' ss' as' tg' r'' u = (Inl err, u))
    \<and> (\<exists>err. mark_approved types i c e ref u = (Inl err, u))"
proof -
  from revise_Inr [OF assms(1,2)] obtain h where h: "chead t i c = Some (h\<lparr>ch_version := e + 1\<rparr>)" by blast
  have okt: "candidates_ok t"
    using preservesE [OF preserves_revise reviewed_refl [OF assms(1)] assms(2)] by (simp add: reviewed_def)
  have oku: "candidates_ok u" using reviews.run_ok [OF assms(3) okt] .
  have rv: "reviewed_version i c t = Some (e + 1, version_of t (h\<lparr>ch_version := e + 1\<rparr>))"
    using h by simp
  have "chead_at u i c e = None"
  proof (rule ccontr)
    assume "chead_at u i c e \<noteq> None"
    then obtain g where "chead u i c = Some g" "ch_version g = e"
      by (auto simp: chead_at_def pending_at_def split: option.splits if_splits)
    with reviews.stale_forever [OF assms(3) okt rv, of e "version_of u g"] show False by simp
  qed
  with refused [OF oku] show ?thesis by blast
qed

theorem stale_review_refused_witness:
  "\<exists>x t err. candidate_revise sample_types (\<lambda>_. ''d'') ''s1'' ''c1'' 1 (Model ''SkillProposal'' ())
      [\<lparr>sr_source_type = ''content'', sr_source_id = ''n2''\<rparr>] [] None None (inbox_of ''pending'' None) = (Inr x, t)
    \<and> candidate_reject sample_types ''s1'' ''c1'' 1 ''no'' t = (Inl err, t)"
proof -
  let ?s = "inbox_of ''pending'' None"
  let ?m = "candidate_revise sample_types (\<lambda>_. ''d'') ''s1'' ''c1'' 1 (Model ''SkillProposal'' ())
      [\<lparr>sr_source_type = ''content'', sr_source_id = ''n2''\<rparr>] [] None None"
  have ok: "candidates_ok ?s" by (simp add: inbox_of_simps)
  have "isl (fst (?m ?s)) = False" by code_simp
  then obtain x t where run: "?m ?s = (Inr x, t)"
    by (metis (no_types) isl_def prod.collapse sum.exhaust)
  from stale_review_refused [OF ok run rtranclp.rtrancl_refl] run show ?thesis by blast
qed

text \<open>
  C37: the inbox is read completely. Following the cursors of pages of any allowed size
  returns, in candidate order, every row that the filters select, each exactly once; the
  number of pages is at most one more than the number of rows.
\<close>

theorem inbox_read_completely:
  fixes s :: "'c catalog"
  assumes "candidates_ok s" and "valid_identifier i MAX_SCOPE_ID_LENGTH" and "1 \<le> limit" and "limit \<le> 100"
    and "each_result (inbox_item types tag md) (inbox_rows i st f k None s) = Inr xs"
  shows "read_inbox (length (inbox_rows i st f k None s) + 1) types tag i st f k None limit md s = (Inr xs, s)
    \<and> sorted_wrt (\<lambda>a b. ch_candidate_id (fst a) < ch_candidate_id (fst b)) (inbox_rows i st f k None s)
    \<and> length xs = length (inbox_rows i st f k None s)"
proof -
  have "length xs = length rs" if "each_result (inbox_item types tag md) rs = Inr xs" for rs xs
    using that by (induction rs arbitrary: xs) (auto split: sum.splits)
  then show ?thesis
    using read_inbox_run [OF assms(1-4) _ assms(5)] inbox_rows_sorted [OF assms(1)] assms(5)
    by (simp del: read_inbox.simps)
qed

theorem inbox_read_completely_witness:
  "read_inbox 2 sample_types (\<lambda>_. Inr ()) ''s1'' PENDING None None None 1 False (inbox_of ''pending'' None)
    = (Inr [Full_Candidate sample_candidate], inbox_of ''pending'' None)"
proof -
  let ?s = "inbox_of ''pending'' None"
  have ok: "candidates_ok ?s" by (simp add: inbox_of_simps)
  have rows: "inbox_rows ''s1'' PENDING None None None ?s = [(new_candidate_head ''s1'' sample_candidate, version_row ''s1'' sample_candidate)]"
    by (simp add: inbox_rows_def join_versions_def inbox_of_simps)
  have "each_result (inbox_item sample_types (\<lambda>_. Inr ()) False)
      [(new_candidate_head ''s1'' sample_candidate, version_row ''s1'' sample_candidate)] = Inr [Full_Candidate sample_candidate]"
    by code_simp
  moreover have "valid_identifier ''s1'' MAX_SCOPE_ID_LENGTH" by code_simp
  ultimately show ?thesis
    using inbox_read_completely [OF ok, of "''s1''" 1 sample_types "\<lambda>_. Inr ()" False PENDING None None
        "[Full_Candidate sample_candidate]"]
    by (simp only: rows list.size add_0 Suc_eq_plus1 [symmetric] numeral_2_eq_2 One_nat_def) simp
qed

end
