(* ===== verification/Governance.thy ===== *)
theory Governance
  imports Catalog
begin

text \<open>
  The mutable governance state on artifact heads, from
  \<^verbatim>\<open>src/src/powercontext/builtin/persistence/artifact_governance.py\<close>: a lifecycle state,
  a replacement, the merge result an input was frozen into, and the generation that guards
  transitions. A transition of a custom family also prepares and publishes index rows; those
  two steps are arguments of the model, and a base family has none.

  The lemmas show that retirement is final, that a transition takes effect only at the
  generation it names, and that ordinary transitions neither touch frozen merge inputs nor
  strand them.
\<close>

section \<open>Values\<close>

datatype lifecycle_state = ACTIVE | DEPRECATED | RETIRED

fun lifecycle_value :: "lifecycle_state \<Rightarrow> string" where
  "lifecycle_value ACTIVE = ''active''"
| "lifecycle_value DEPRECATED = ''deprecated''"
| "lifecycle_value RETIRED = ''retired''"

definition parse_lifecycle :: "string \<Rightarrow> error + lifecycle_state" where
  "parse_lifecycle v =
     (if v = ''active'' then Inr ACTIVE
      else if v = ''deprecated'' then Inr DEPRECATED
      else if v = ''retired'' then Inr RETIRED
      else Inl (ValidationError ''ArtifactLifecycleState''))"

lemma parse_lifecycle_value [simp]: "parse_lifecycle (lifecycle_value x) = Inr x"
  by (cases x) (simp_all add: parse_lifecycle_def)

lemma lifecycle_value_inject [simp]: "lifecycle_value x = lifecycle_value y \<longleftrightarrow> x = y"
  by (cases x; cases y) simp_all

record governance =
  go_artifact :: artifact_ref
  go_lifecycle_state :: lifecycle_state
  go_replacement_artifact_id :: "string option"
  go_merged_into_id :: "string option"
  go_governance_generation :: int

definition governance_ok :: "governance \<Rightarrow> bool" where
  "governance_ok g \<longleftrightarrow> 0 \<le> go_governance_generation g
     \<and> (go_replacement_artifact_id g \<noteq> None \<longrightarrow> go_lifecycle_state g = DEPRECATED)
     \<and> (go_merged_into_id g \<noteq> None \<longrightarrow> go_lifecycle_state g = DEPRECATED \<and> go_replacement_artifact_id g = None
          \<and> go_merged_into_id g \<noteq> Some (ref_artifact_id (go_artifact g)))"

definition validated_governance :: "governance \<Rightarrow> error + governance" where
  "validated_governance g = (if governance_ok g then Inr g else Inl (ValidationError ''ArtifactGovernance''))"

definition decode_artifact_governance :: "head_row \<Rightarrow> error + governance" where
  "decode_artifact_governance r =
     (case make_artifact_ref (ah_family r) (ah_artifact_id r) (ah_revision r) of
        Inl e \<Rightarrow> Inl e
      | Inr ref \<Rightarrow> (case parse_lifecycle (ah_lifecycle_state r) of
          Inl e \<Rightarrow> Inl e
        | Inr st \<Rightarrow> validated_governance \<lparr>go_artifact = ref, go_lifecycle_state = st,
            go_replacement_artifact_id = ah_replacement_artifact_id r, go_merged_into_id = ah_merged_into_id r,
            go_governance_generation = ah_governance_generation r\<rparr>))"

section \<open>Operations\<close>

definition head_key :: "string \<Rightarrow> string \<Rightarrow> string \<Rightarrow> head_row \<Rightarrow> bool" where
  "head_key scope_id family artifact_id r \<longleftrightarrow>
     ah_scope_id r = scope_id \<and> ah_family r = family \<and> ah_artifact_id r = artifact_id"

definition governance_get :: "string \<Rightarrow> string \<Rightarrow> string \<Rightarrow> ('c catalog, governance) exec" where
  "governance_get scope_id family artifact_id =
     bind (sql_one_or_none ARTIFACT_HEADS_TABLE (head_key scope_id family artifact_id)) (\<lambda>row.
     case row of
       None \<Rightarrow> raise (RepositoryNotFound ''artifact-head'' [scope_id, family, artifact_id] None)
     | Some r \<Rightarrow> lift_result (decode_artifact_governance r))"

definition governance_conflict :: "string \<Rightarrow> string \<Rightarrow> string \<Rightarrow> int option \<Rightarrow> error" where
  "governance_conflict scope_id family artifact_id generation =
     StoredPayloadConflict ''artifact-governance'' [scope_id, family, artifact_id] generation"

definition require_summary ::
  "string \<Rightarrow> string \<Rightarrow> string \<Rightarrow> governance \<Rightarrow> ('c catalog, governance) exec" where
  "require_summary scope_id family artifact_id expected =
     bind (governance_get scope_id family artifact_id) (\<lambda>current.
     if go_lifecycle_state current \<noteq> go_lifecycle_state expected
        \<or> go_merged_into_id current \<noteq> go_merged_into_id expected
        \<or> go_replacement_artifact_id current \<noteq> go_replacement_artifact_id expected
        \<or> go_governance_generation current \<noteq> go_governance_generation expected
     then raise (governance_conflict scope_id family artifact_id None)
     else return current)"

definition validate_transition :: "lifecycle_state \<Rightarrow> lifecycle_state \<Rightarrow> error + unit" where
  "validate_transition current requested =
     (if current = RETIRED \<and> requested \<noteq> RETIRED
      then Inl (InvalidArtifactLifecycle ''retired Artifact lifecycle is irreversible'')
      else if requested = ACTIVE \<and> current \<notin> {ACTIVE, DEPRECATED}
      then Inl (InvalidArtifactLifecycle ''requested Artifact lifecycle transition is not allowed'')
      else Inr ())"

text \<open>
  What a custom family adds: preparing its index rows before the transition, and publishing
  them after it.
\<close>

record ('c, 'p) custom_indexes =
  ci_prepare :: "string \<Rightarrow> string \<Rightarrow> string \<Rightarrow> lifecycle_state \<Rightarrow> ('c catalog, 'p) exec"
  ci_publish :: "string \<Rightarrow> 'p \<Rightarrow> ('c catalog, unit) exec"

definition BASE_ARTIFACT_FAMILIES :: "string list" where
  "BASE_ARTIFACT_FAMILIES = [''atomic-memory'', ''experience'', ''skill'', ''handoff'', ''profile'', ''prompt'',
     ''topic-memory'']"

definition prepare_custom_transition ::
  "('c, 'p) custom_indexes \<Rightarrow> string \<Rightarrow> string \<Rightarrow> string \<Rightarrow> lifecycle_state \<Rightarrow> ('c catalog, 'p option) exec" where
  "prepare_custom_transition ci scope_id family artifact_id state =
     (if family \<in> set BASE_ARTIFACT_FAMILIES then return None
      else bind (ci_prepare ci scope_id family artifact_id state) (\<lambda>p. return (Some p)))"

definition publish_custom_transition ::
  "('c, 'p) custom_indexes \<Rightarrow> string \<Rightarrow> 'p option \<Rightarrow> ('c catalog, unit) exec" where
  "publish_custom_transition ci scope_id custom = (case custom of
     None \<Rightarrow> return () | Some p \<Rightarrow> ci_publish ci scope_id p)"

definition transition_merge ::
  "('c, 'p) custom_indexes \<Rightarrow> string \<Rightarrow> string \<Rightarrow> string \<Rightarrow> governance \<Rightarrow> lifecycle_state \<Rightarrow>
     string option \<Rightarrow> string option \<Rightarrow> ('c catalog, governance) exec" where
  "transition_merge ci scope_id family artifact_id expected state merged_into replacement =
     bind (prepare_custom_transition ci scope_id family artifact_id state) (\<lambda>custom.
     andThen (lift_result (validate_transition (go_lifecycle_state expected) state))
    (bind (require_summary scope_id family artifact_id expected) (\<lambda>current.
     if go_lifecycle_state expected = state \<and> go_merged_into_id expected = merged_into
        \<and> go_replacement_artifact_id expected = replacement
     then return current
     else
     bind (lift_result (validated_governance \<lparr>go_artifact = go_artifact current, go_lifecycle_state = state,
             go_replacement_artifact_id = replacement, go_merged_into_id = merged_into,
             go_governance_generation = go_governance_generation expected + 1\<rparr>)) (\<lambda>requested.
     bind (sql_update ARTIFACT_HEADS_TABLE
             (\<lambda>r. head_key scope_id family artifact_id r
                \<and> ah_governance_generation r = go_governance_generation expected)
             (\<lambda>r. r\<lparr>ah_lifecycle_state := lifecycle_value state, ah_merged_into_id := merged_into,
                    ah_replacement_artifact_id := replacement,
                    ah_governance_generation := go_governance_generation requested\<rparr>)) (\<lambda>rowcount.
     andThen (require (rowcount = 1) (governance_conflict scope_id family artifact_id None))
    (andThen (publish_custom_transition ci scope_id custom)
       (return requested)))))))"

definition governance_transition ::
  "('c, 'p) custom_indexes \<Rightarrow> string \<Rightarrow> string \<Rightarrow> string \<Rightarrow> int \<Rightarrow> lifecycle_state \<Rightarrow>
     string option \<Rightarrow> ('c catalog, governance) exec" where
  "governance_transition ci scope_id family artifact_id expected_generation state replacement =
     bind (prepare_custom_transition ci scope_id family artifact_id state) (\<lambda>custom.
     bind (governance_get scope_id family artifact_id) (\<lambda>current.
     andThen (require (go_merged_into_id current = None)
                (InvalidArtifactLifecycle ''frozen merge inputs require whole-group restoration''))
    (andThen (if state = RETIRED
              then bind (sql_scalar ARTIFACT_HEADS_TABLE
                           (\<lambda>r. ah_scope_id r = scope_id \<and> ah_family r = family
                              \<and> ah_merged_into_id r = Some artifact_id) ah_artifact_id) (\<lambda>frozen_input.
                   require (frozen_input = None)
                     (InvalidArtifactLifecycle ''an effective merge result cannot strand frozen inputs''))
              else return ())
    (andThen (lift_result (validate_transition (go_lifecycle_state current) state))
    (andThen (case replacement of
                None \<Rightarrow> return ()
              | Some r \<Rightarrow>
                  andThen (require (r \<noteq> artifact_id) (InvalidArtifactLifecycle ''an Artifact cannot replace itself''))
                 (bind (governance_get scope_id family r) (\<lambda>rep.
                    require (go_lifecycle_state rep \<noteq> RETIRED)
                      (InvalidArtifactLifecycle ''a retired Artifact cannot be a replacement''))))
    (bind (lift_result (validated_governance \<lparr>go_artifact = go_artifact current, go_lifecycle_state = state,
             go_replacement_artifact_id = replacement, go_merged_into_id = None,
             go_governance_generation = expected_generation + 1\<rparr>)) (\<lambda>requested.
     bind (sql_update ARTIFACT_HEADS_TABLE
             (\<lambda>r. head_key scope_id family artifact_id r \<and> ah_governance_generation r = expected_generation)
             (\<lambda>r. r\<lparr>ah_lifecycle_state := lifecycle_value state, ah_replacement_artifact_id := replacement,
                    ah_governance_generation := expected_generation + 1\<rparr>)) (\<lambda>rowcount.
     andThen (require (rowcount = 1) (governance_conflict scope_id family artifact_id (Some expected_generation)))
    (andThen (publish_custom_transition ci scope_id custom)
       (return requested)))))))))) "

section \<open>What the operations do\<close>

abbreviation heads_ok :: "'c catalog \<Rightarrow> bool" where
  "heads_ok \<equiv> table_ok ARTIFACT_HEADS_TABLE"

abbreviation head_of :: "'c catalog \<Rightarrow> string \<Rightarrow> string \<Rightarrow> string \<Rightarrow> head_row option" where
  "head_of s i f a \<equiv> lookup_row ARTIFACT_HEADS_TABLE head_pk s (i, f, a)"

abbreviation put_head :: "head_row \<Rightarrow> 'c catalog \<Rightarrow> 'c catalog" where
  "put_head \<equiv> store_row ARTIFACT_HEADS_TABLE head_pk"

lemma head_key_pk: "head_key i f a r \<longleftrightarrow> head_pk r = (i, f, a)"
  by (auto simp: head_key_def)

lemma governance_get_run:
  "heads_ok s \<Longrightarrow> governance_get i f a s = (case head_of s i f a of
      None \<Rightarrow> (Inl (RepositoryNotFound ''artifact-head'' [i, f, a] None), s)
    | Some r \<Rightarrow> (decode_artifact_governance r, s))"
  by (simp add: governance_get_def bind_run artifact_heads_t.load_run [of s _ "(i, f, a)"] head_key_pk split: option.split)

lemma decode_governance_Inr:
  "decode_artifact_governance r = Inr g \<Longrightarrow>
     ah_lifecycle_state r = lifecycle_value (go_lifecycle_state g) \<and> go_merged_into_id g = ah_merged_into_id r
     \<and> go_replacement_artifact_id g = ah_replacement_artifact_id r
     \<and> go_governance_generation g = ah_governance_generation r \<and> governance_ok g
     \<and> go_artifact g = \<lparr>ref_family = ah_family r, ref_artifact_id = ah_artifact_id r, ref_revision = ah_revision r\<rparr>"
  by (auto simp: decode_artifact_governance_def make_artifact_ref_def parse_lifecycle_def validated_governance_def Let_def
      split: sum.splits if_splits)

text \<open>
  The guarded update of a head: it stores the new governance columns exactly when the head
  is at the expected generation.
\<close>

definition governed :: "lifecycle_state \<Rightarrow> string option \<Rightarrow> string option \<Rightarrow> int \<Rightarrow> head_row \<Rightarrow> head_row" where
  "governed state merged replacement generation r = r\<lparr>ah_lifecycle_state := lifecycle_value state,
     ah_merged_into_id := merged, ah_replacement_artifact_id := replacement, ah_governance_generation := generation\<rparr>"

lemma governed_sel [simp]:
  "ah_scope_id (governed st m r g h) = ah_scope_id h" "ah_family (governed st m r g h) = ah_family h"
  "ah_artifact_id (governed st m r g h) = ah_artifact_id h" "ah_revision (governed st m r g h) = ah_revision h"
  "ah_lifecycle_state (governed st m r g h) = lifecycle_value st" "ah_merged_into_id (governed st m r g h) = m"
  "ah_replacement_artifact_id (governed st m r g h) = r" "ah_governance_generation (governed st m r g h) = g"
  by (simp_all add: governed_def)

lemma governed_admits:
  assumes "heads_ok s" and "head_of s i f a = Some h"
    and "governance_ok \<lparr>go_artifact = \<lparr>ref_family = f', ref_artifact_id = a, ref_revision = n\<rparr>, go_lifecycle_state = state,
      go_replacement_artifact_id = rep, go_merged_into_id = merged, go_governance_generation = g\<rparr>"
  shows "admits ARTIFACT_HEADS_TABLE s (governed state merged rep g h)"
  using artifact_heads_t.lookup_admits [OF assms(1,2)] artifact_heads_t.lookup_key [OF assms(2)] assms(3)
  by (cases state) (auto simp: catalog_admits head_constraints_def governance_ok_def)

text \<open>
  A transition of a head: its columns move to the next generation, with a lifecycle that
  \<^const>\<open>validate_transition\<close> allows. The rows of the other tables are the same.
\<close>

definition moved :: "'c catalog \<Rightarrow> string \<Rightarrow> string \<Rightarrow> string \<Rightarrow> head_row \<Rightarrow> lifecycle_state \<Rightarrow>
    string option \<Rightarrow> string option \<Rightarrow> 'c catalog \<Rightarrow> bool" where
  "moved s i f a h state merged rep t \<longleftrightarrow> head_of s i f a = Some h
     \<and> (ah_lifecycle_state h = ''retired'' \<longrightarrow> state = RETIRED)
     \<and> admits ARTIFACT_HEADS_TABLE s (governed state merged rep (ah_governance_generation h + 1) h)
     \<and> t = put_head (governed state merged rep (ah_governance_generation h + 1) h) s"

lemma validate_transition_Inr: "validate_transition st state = Inr x \<Longrightarrow> st = RETIRED \<Longrightarrow> state = RETIRED"
  by (simp add: validate_transition_def split: if_splits)

lemma validated_governance_Inr [simp]: "validated_governance g = Inr x \<longleftrightarrow> x = g \<and> governance_ok g"
  by (auto simp: validated_governance_def)

text \<open>The update of one head, guarded by its generation.\<close>

lemma head_update_run:
  assumes "heads_ok s" and "\<And>r. head_pk (F r) = head_pk r"
  shows "sql_update ARTIFACT_HEADS_TABLE (\<lambda>r. head_key i f a r \<and> ah_governance_generation r = e) F s =
    (case head_of s i f a of
       None \<Rightarrow> (Inr 0, s)
     | Some h \<Rightarrow> if ah_governance_generation h \<noteq> e then (Inr 0, s)
         else if admits ARTIFACT_HEADS_TABLE s (F h) then (Inr 1, put_head (F h) s) else (Inl IntegrityError, s))"
  using assms by (subst artifact_heads_t.update_key [where k = "(i, f, a)"])
    (auto simp: head_key_pk dest: artifact_heads_t.lookup_key split: option.split)

lemma base_custom [simp]:
  "f \<in> set BASE_ARTIFACT_FAMILIES \<Longrightarrow> prepare_custom_transition ci i f a state s = (Inr None, s)"
  "publish_custom_transition ci i None s = (Inr (), s)"
  by (simp_all add: prepare_custom_transition_def publish_custom_transition_def)

lemma governance_get_Inr:
  "heads_ok s \<Longrightarrow> governance_get i f a s = (Inr x, t) \<Longrightarrow>
     \<exists>h. t = s \<and> head_of s i f a = Some h \<and> decode_artifact_governance h = Inr x"
  by (auto simp: governance_get_run split: option.splits)

lemma lifecycle_value_retired [simp]: "lifecycle_value x = ''retired'' \<longleftrightarrow> x = RETIRED"
  by (cases x) simp_all

lemma governance_transition_Inr:
  assumes ok: "heads_ok s" and base: "f \<in> set BASE_ARTIFACT_FAMILIES"
    and run: "governance_transition ci i f a g state rep s = (Inr x, t)"
  shows "\<exists>h. moved s i f a h state None rep t \<and> ah_governance_generation h = g \<and> ah_merged_into_id h = None
    \<and> (state = RETIRED \<longrightarrow> (\<forall>r \<in> set (artifact_heads s). ah_scope_id r = i \<longrightarrow> ah_family r = f \<longrightarrow> ah_merged_into_id r \<noteq> Some a))
    \<and> go_governance_generation x = g + 1 \<and> go_lifecycle_state x = state \<and> go_merged_into_id x = None
    \<and> go_replacement_artifact_id x = rep
    \<and> (\<forall>r. rep = Some r \<longrightarrow> r \<noteq> a \<and> (\<exists>h'. head_of s i f r = Some h' \<and> ah_lifecycle_state h' \<noteq> ''retired''))"
proof -
  let ?upd = "\<lambda>r. r\<lparr>ah_lifecycle_state := lifecycle_value state, ah_replacement_artifact_id := rep,
                    ah_governance_generation := g + 1\<rparr>"
  from run obtain current where cur: "governance_get i f a s = (Inr current, s)" "go_merged_into_id current = None"
    and ret: "state = RETIRED \<longrightarrow> (\<forall>r \<in> set (artifact_heads s). ah_scope_id r = i \<longrightarrow> ah_family r = f \<longrightarrow> ah_merged_into_id r \<noteq> Some a)"
    and val: "validate_transition (go_lifecycle_state current) state = Inr ()"
    and rep: "\<forall>r. rep = Some r \<longrightarrow> r \<noteq> a \<and> (\<exists>h' y. head_of s i f r = Some h' \<and> decode_artifact_governance h' = Inr y \<and> go_lifecycle_state y \<noteq> RETIRED)"
    and x: "x = \<lparr>go_artifact = go_artifact current, go_lifecycle_state = state,
             go_replacement_artifact_id = rep, go_merged_into_id = None, go_governance_generation = g + 1\<rparr>"
    and upd: "sql_update ARTIFACT_HEADS_TABLE (\<lambda>r. head_key i f a r \<and> ah_governance_generation r = g) ?upd s = (Inr 1, t)"
    by (auto simp: governance_transition_def exec_Inr_iffs base find_None_iff dest!: governance_get_Inr [OF ok]
        split: if_splits option.splits)
  from cur(1) governance_get_Inr [OF ok] obtain h where h: "head_of s i f a = Some h" "decode_artifact_governance h = Inr current"
    by blast
  note dec = decode_governance_Inr [OF h(2)]
  then have eq: "?upd h = governed state None rep (g + 1) h"
    using cur(2) by (cases h) (simp add: governed_def)
  from upd h(1) have "ah_governance_generation h = g" "admits ARTIFACT_HEADS_TABLE s (?upd h)" "t = put_head (?upd h) s"
    by (auto simp: head_update_run [OF ok] split: if_splits)
  with eq dec h(1) cur(2) ret x rep validate_transition_Inr [OF val] show ?thesis
    by (intro exI [of _ h]) (auto simp: moved_def dest!: decode_governance_Inr)
qed

lemma governance_transition_Inl:
  assumes ok: "heads_ok s" and "f \<in> set BASE_ARTIFACT_FAMILIES"
    and "governance_transition ci i f a g state rep s = (Inl e, t)"
  shows "t = s"
  using assms
  by (auto simp: governance_transition_def bind_run andThen_run governance_get_run head_update_run
      split: option.splits sum.splits if_splits prod.splits)

lemma transition_merge_Inr:
  assumes ok: "heads_ok s" and base: "f \<in> set BASE_ARTIFACT_FAMILIES"
    and run: "transition_merge ci i f a ex state merged rep s = (Inr x, t)"
  shows "go_lifecycle_state x = state \<and> go_merged_into_id x = merged \<and> go_replacement_artifact_id x = rep
    \<and> (\<exists>h. head_of s i f a = Some h \<and> ah_governance_generation h = go_governance_generation ex \<and>
      (t = s \<and> go_governance_generation x = go_governance_generation ex
       \<or> moved s i f a h state merged rep t \<and> go_governance_generation x = go_governance_generation ex + 1))"
proof -
  let ?upd = "\<lambda>r. r\<lparr>ah_lifecycle_state := lifecycle_value state, ah_merged_into_id := merged,
                    ah_replacement_artifact_id := rep, ah_governance_generation := go_governance_generation ex + 1\<rparr>"
  from run obtain current where cur: "governance_get i f a s = (Inr current, s)"
    and same: "go_lifecycle_state current = go_lifecycle_state ex" "go_merged_into_id current = go_merged_into_id ex"
      "go_replacement_artifact_id current = go_replacement_artifact_id ex"
      "go_governance_generation current = go_governance_generation ex"
    and val: "validate_transition (go_lifecycle_state ex) state = Inr ()"
    and out: "(go_lifecycle_state ex = state \<and> go_merged_into_id ex = merged \<and> go_replacement_artifact_id ex = rep
        \<and> x = current \<and> t = s)
      \<or> (x = \<lparr>go_artifact = go_artifact current, go_lifecycle_state = state, go_replacement_artifact_id = rep,
             go_merged_into_id = merged, go_governance_generation = go_governance_generation ex + 1\<rparr>
        \<and> sql_update ARTIFACT_HEADS_TABLE (\<lambda>r. head_key i f a r \<and> ah_governance_generation r = go_governance_generation ex) ?upd s = (Inr 1, t))"
    by (auto simp: transition_merge_def require_summary_def exec_Inr_iffs base dest!: governance_get_Inr [OF ok]
        split: if_splits)
  from cur governance_get_Inr [OF ok] obtain h where h: "head_of s i f a = Some h" "decode_artifact_governance h = Inr current"
    by blast
  note dec = decode_governance_Inr [OF h(2)]
  have eq: "?upd h = governed state merged rep (ah_governance_generation h + 1) h"
    using dec same(4) by (cases h) (simp add: governed_def)
  show ?thesis
  proof (cases "t = s \<and> x = current")
    case True
    with out same dec h(1) show ?thesis by auto
  next
    case False
    with out have x: "go_lifecycle_state x = state" "go_merged_into_id x = merged" "go_replacement_artifact_id x = rep"
        "go_governance_generation x = go_governance_generation ex + 1"
      and upd: "sql_update ARTIFACT_HEADS_TABLE (\<lambda>r. head_key i f a r \<and> ah_governance_generation r = go_governance_generation ex) ?upd s = (Inr 1, t)"
      by auto
    from upd h(1) have "admits ARTIFACT_HEADS_TABLE s (?upd h)" "t = put_head (?upd h) s"
      by (auto simp: head_update_run [OF ok] split: if_splits)
    then have "moved s i f a h state merged rep t"
      using validate_transition_Inr [OF val] dec same(1) h(1) by (simp add: moved_def eq)
    with x h(1) dec same(4) show ?thesis by auto
  qed
qed

lemma transition_merge_Inl:
  assumes ok: "heads_ok s" and "f \<in> set BASE_ARTIFACT_FAMILIES"
    and "transition_merge ci i f a ex state merged rep s = (Inl e, t)"
  shows "t = s"
  using assms
  by (auto simp: transition_merge_def require_summary_def bind_run andThen_run governance_get_run head_update_run
      split: option.splits sum.splits if_splits prod.splits)

section \<open>Runs\<close>

text \<open>
  Governance operations of base families, one after another, with any arguments; an
  operation that raises leaves its step's state as it found it.
\<close>

inductive governance_step :: "'c catalog \<Rightarrow> 'c catalog \<Rightarrow> bool" where
  ordinary: "f \<in> set BASE_ARTIFACT_FAMILIES \<Longrightarrow>
    governance_step s (snd (governance_transition (ci :: ('c, unit) custom_indexes) i f a g state rep s))"
| merging: "f \<in> set BASE_ARTIFACT_FAMILIES \<Longrightarrow>
    governance_step s (snd (transition_merge (ci :: ('c, unit) custom_indexes) i f a ex state merged rep s))"

inductive_cases governance_stepE: "governance_step s t"

lemma transition_effect:
  assumes "heads_ok s" and "f \<in> set BASE_ARTIFACT_FAMILIES"
  shows "snd (governance_transition ci i f a g state rep s) = s
    \<or> (\<exists>h. moved s i f a h state None rep (snd (governance_transition ci i f a g state rep s)))"
  using governance_transition_Inr [OF assms, of ci i a g state rep] governance_transition_Inl [OF assms, of ci i a g state rep]
  by (cases "governance_transition ci i f a g state rep s"; cases "fst (governance_transition ci i f a g state rep s)")
     fastforce+

lemma merge_effect:
  assumes "heads_ok s" and "f \<in> set BASE_ARTIFACT_FAMILIES"
  shows "snd (transition_merge ci i f a ex state merged rep s) = s
    \<or> (\<exists>h. moved s i f a h state merged rep (snd (transition_merge ci i f a ex state merged rep s)))"
  using transition_merge_Inr [OF assms, of ci i a ex state merged rep] transition_merge_Inl [OF assms, of ci i a ex state merged rep]
  by (cases "transition_merge ci i f a ex state merged rep s"; cases "fst (transition_merge ci i f a ex state merged rep s)")
     fastforce+

lemma governance_step_effect:
  "governance_step s t \<Longrightarrow> heads_ok s \<Longrightarrow> t = s \<or> (\<exists>i f a h state merged rep. moved s i f a h state merged rep t)"
  by (elim governance_stepE; hypsubst) (metis transition_effect, metis merge_effect)

lemma moved_heads_ok: "moved s i f a h state merged rep t \<Longrightarrow> heads_ok s \<Longrightarrow> heads_ok t"
  by (auto simp: moved_def intro!: artifact_heads_t.table_ok_store)

lemma moved_lookup:
  assumes "moved s i f a h state merged rep t"
  shows "head_of t i' f' a' = (if (i', f', a') = (i, f, a)
    then Some (governed state merged rep (ah_governance_generation h + 1) h) else head_of s i' f' a')"
  using assms artifact_heads_t.lookup_key [of s "(i, f, a)" h]
  by (auto simp: moved_def artifact_heads_t.lookup_store)

text \<open>What the generation versions: every governance column, and the revision they govern.\<close>

abbreviation governance_of ::
  "string \<Rightarrow> string \<Rightarrow> string \<Rightarrow> 'c catalog \<Rightarrow> (int \<times> string \<times> string option \<times> string option \<times> int) option" where
  "governance_of i f a s \<equiv> map_option (\<lambda>h. (ah_governance_generation h,
     ah_lifecycle_state h, ah_merged_into_id h, ah_replacement_artifact_id h, ah_revision h)) (head_of s i f a)"

interpretation governances: versioned_register heads_ok governance_step "governance_of i f a" for i f a
proof
  fix s t :: "'c catalog"
  assume "heads_ok s" and "governance_step s t"
  then show "heads_ok t" by (auto dest: governance_step_effect moved_heads_ok)
next
  fix s t :: "'c catalog" and v c
  assume ok: "heads_ok s" and st: "governance_step s t" and gv: "governance_of i f a s = Some (v, c)"
  from governance_step_effect [OF st ok] show "governance_of i f a t = Some (v, c) \<or> (\<exists>v' c'. governance_of i f a t = Some (v', c') \<and> v < v')"
  proof
    assume "t = s"
    with gv show ?thesis by simp
  next
    assume "\<exists>i f a h state merged rep. moved s i f a h state merged rep t"
    then obtain i' f' a' h state merged rep where m: "moved s i' f' a' h state merged rep t" by blast
    with gv moved_lookup [OF m, of i f a] show ?thesis
      by (cases "(i, f, a) = (i', f', a')") (auto simp: moved_def)
  qed
qed

text \<open>No frozen merge input whose merge result is retired.\<close>

definition unstranded :: "'c catalog \<Rightarrow> bool" where
  "unstranded s \<longleftrightarrow> (\<forall>r \<in> set (artifact_heads s). \<forall>m. ah_merged_into_id r = Some m \<longrightarrow>
     (\<forall>h. head_of s (ah_scope_id r) (ah_family r) m = Some h \<longrightarrow> ah_lifecycle_state h \<noteq> ''retired''))"

text \<open>Small states the properties are applied to: heads with one stored revision each.\<close>

definition catalog_of :: "head_row list \<Rightarrow> unit catalog" where
  "catalog_of hs = (empty_catalog ''sqlite'' (\<lambda>n. int n) [''s1''] [])\<lparr>
     artifacts := map (\<lambda>h. \<lparr>ar_scope_id = ah_scope_id h, ar_family = ah_family h, ar_artifact_id = ah_artifact_id h,
        ar_revision = ah_revision h, ar_content = Encoded (Model ''Skill'' ()), ar_created_at = None,
        ar_created_by = None, ar_restored_from_revision = None, ar_rollback_reason = None\<rparr>) hs,
     artifact_heads := hs\<rparr>"

definition skill_head :: "string \<Rightarrow> string \<Rightarrow> string option \<Rightarrow> int \<Rightarrow> head_row" where
  "skill_head a state merged generation = \<lparr>ah_scope_id = ''s1'', ah_family = ''skill'', ah_artifact_id = a,
     ah_revision = 1, ah_lifecycle_state = state, ah_replacement_artifact_id = None, ah_merged_into_id = merged,
     ah_governance_generation = generation\<rparr>"

definition no_indexes :: "('c, unit) custom_indexes" where
  "no_indexes = \<lparr>ci_prepare = (\<lambda>_ _ _ _. return ()), ci_publish = (\<lambda>_ _. return ())\<rparr>"

lemmas catalog_of_simps = catalog_of_def skill_head_def empty_catalog_def table_ok_def clash_free_def
  catalog_admits catalog_clash revision_exists_def head_constraints_def lookup_row_def

section \<open>Properties\<close>

text \<open>
  Governance transitions are serialised by the generation. A transition that names the
  generation the head is at is the only one to take effect at it: whatever runs after it,
  a transition that names an old generation raises and changes nothing.
\<close>

theorem stale_transition_refused:
  fixes ci :: "('c, unit) custom_indexes"
  assumes "heads_ok s" and "f \<in> set BASE_ARTIFACT_FAMILIES"
    and "governance_transition ci i f a g state rep s = (Inr x, t)" and "governance_step\<^sup>*\<^sup>* t u"
  shows "\<exists>e. governance_transition ci i f a g state' rep' u = (Inl e, u)"
proof -
  from governance_transition_Inr [OF assms(1-3)] obtain h
    where m: "moved s i f a h state None rep t" and g: "ah_governance_generation h = g" by blast
  have t: "governance_of i f a t = Some (g + 1, lifecycle_value state, None, rep, ah_revision h)"
    using moved_lookup [OF m, of i f a] g by simp
  have oku: "heads_ok u"
    using governances.run_ok [OF assms(4) moved_heads_ok [OF m assms(1)]] .
  have never: "\<not> (head_of u i f a = Some h' \<and> ah_governance_generation h' = g)" for h'
    using governances.stale_forever [OF assms(4) moved_heads_ok [OF m assms(1)] t, of g "(ah_lifecycle_state h', ah_merged_into_id h', ah_replacement_artifact_id h', ah_revision h')"]
    by auto
  show ?thesis
  proof (cases "governance_transition ci i f a g state' rep' u")
    case (Pair r u')
    show ?thesis
    proof (cases r)
      case (Inl e)
      with Pair governance_transition_Inl [OF oku assms(2), of ci i a g state' rep' e u'] show ?thesis by blast
    next
      case (Inr y)
      with Pair governance_transition_Inr [OF oku assms(2), of ci i a g state' rep' y u'] never show ?thesis
        unfolding moved_def by blast
    qed
  qed
qed

theorem stale_transition_refused_witness:
  "\<exists>x t e. governance_transition no_indexes ''s1'' ''skill'' ''a'' 0 DEPRECATED None
      (catalog_of [skill_head ''a'' ''active'' None 0]) = (Inr x, t)
    \<and> governance_transition no_indexes ''s1'' ''skill'' ''a'' 0 RETIRED None t = (Inl e, t)"
proof -
  let ?s = "catalog_of [skill_head ''a'' ''active'' None 0]"
  have ok: "heads_ok ?s" and base: "''skill'' \<in> set BASE_ARTIFACT_FAMILIES"
    by (simp_all add: catalog_of_simps BASE_ARTIFACT_FAMILIES_def)
  have "isl (fst (governance_transition no_indexes ''s1'' ''skill'' ''a'' 0 DEPRECATED None ?s)) = False"
    by code_simp
  then obtain x t where run: "governance_transition no_indexes ''s1'' ''skill'' ''a'' 0 DEPRECATED None ?s = (Inr x, t)"
    by (metis (no_types) isl_def prod.collapse sum.exhaust)
  from stale_transition_refused [OF ok base run rtranclp.rtrancl_refl, of RETIRED None] run show ?thesis by blast
qed

text \<open>
  C35: ordinary transitions never strand a frozen merge input: no input's merge result becomes
  retired, and no frozen input's row changes. Only whole-group restoration unfreezes one.
\<close>

theorem transition_strands_nothing:
  fixes ci :: "('c, unit) custom_indexes"
  assumes "heads_ok s" and "f \<in> set BASE_ARTIFACT_FAMILIES" and "unstranded s"
  shows "case governance_transition ci i f a g state rep s of (_, t) \<Rightarrow> unstranded t
    \<and> (\<forall>r \<in> set (artifact_heads s). ah_merged_into_id r \<noteq> None \<longrightarrow> r \<in> set (artifact_heads t))"
proof (cases "governance_transition ci i f a g state rep s")
  case (Pair r t)
  show ?thesis
  proof (cases r)
    case (Inl e)
    with Pair governance_transition_Inl [OF assms(1,2), of ci i a g state rep e t] assms(3) show ?thesis by simp
  next
    case (Inr x)
    with Pair governance_transition_Inr [OF assms(1,2), of ci i a g state rep x t] obtain h
      where m: "moved s i f a h state None rep t" and h: "ah_merged_into_id h = None"
        and ret: "state = RETIRED \<longrightarrow> (\<forall>r \<in> set (artifact_heads s). ah_scope_id r = i \<longrightarrow> ah_family r = f \<longrightarrow> ah_merged_into_id r \<noteq> Some a)"
      by blast
    note look = moved_lookup [OF m] and okt = moved_heads_ok [OF m assms(1)]
    have head: "head_of s i f a = Some h" using m by (simp add: moved_def)
    have frozen: "r \<in> set (artifact_heads t)" if "r \<in> set (artifact_heads s)" "ah_merged_into_id r \<noteq> None" for r
      using that h head look [of "ah_scope_id r" "ah_family r" "ah_artifact_id r"]
        artifact_heads_t.lookup_mem [OF assms(1), of r] artifact_heads_t.lookup_key [of t "head_pk r" r]
      by (auto split: if_splits)
    have earlier: "r \<in> set (artifact_heads s)" if "r \<in> set (artifact_heads t)" "ah_merged_into_id r \<noteq> None" for r
      using that look [of "ah_scope_id r" "ah_family r" "ah_artifact_id r"]
        artifact_heads_t.lookup_mem [OF okt, of r] artifact_heads_t.lookup_key [of s "head_pk r" r]
      by (auto split: if_splits)
    have "unstranded t"
      unfolding unstranded_def
    proof (intro ballI allI impI)
      fix r k h'
      assume r: "r \<in> set (artifact_heads t)" and k: "ah_merged_into_id r = Some k"
        and h': "head_of t (ah_scope_id r) (ah_family r) k = Some h'"
      from earlier [OF r] k have rs: "r \<in> set (artifact_heads s)" by simp
      show "ah_lifecycle_state h' \<noteq> ''retired''"
      proof (cases "(ah_scope_id r, ah_family r, k) = (i, f, a)")
        case True
        with h' look [of "ah_scope_id r" "ah_family r" k] ret rs k show ?thesis by auto
      next
        case False
        with h' look [of "ah_scope_id r" "ah_family r" k] assms(3) rs k show ?thesis
          by (auto simp: unstranded_def)
      qed
    qed
    with Pair frozen show ?thesis by simp
  qed
qed

theorem transition_strands_nothing_witness:
  "case governance_transition no_indexes ''s1'' ''skill'' ''a'' 0 RETIRED None
      (catalog_of [skill_head ''a'' ''active'' None 0, skill_head ''b'' ''deprecated'' (Some ''a'') 1]) of
     (r, t) \<Rightarrow> r = Inl (InvalidArtifactLifecycle ''an effective merge result cannot strand frozen inputs'') \<and> unstranded t"
proof -
  let ?s = "catalog_of [skill_head ''a'' ''active'' None 0, skill_head ''b'' ''deprecated'' (Some ''a'') 1]"
  have "heads_ok ?s" "''skill'' \<in> set BASE_ARTIFACT_FAMILIES" "unstranded ?s"
    by (simp_all add: catalog_of_simps BASE_ARTIFACT_FAMILIES_def unstranded_def)
  note strands = transition_strands_nothing [OF this, of no_indexes "''s1''" "''a''" 0 RETIRED None]
  have "fst (governance_transition no_indexes ''s1'' ''skill'' ''a'' 0 RETIRED None ?s)
      = Inl (InvalidArtifactLifecycle ''an effective merge result cannot strand frozen inputs'')"
    by code_simp
  with strands show ?thesis by (auto split: prod.splits)
qed

end
