(* ===== verification/Eligibility.thy ===== *)
theory Eligibility
  imports Catalog
begin

text \<open>
  Which Sources may be cited as evidence: the captured content Source of
  \<^verbatim>\<open>src/src/powercontext/builtin/sources/content.py\<close> as far as its eligibility goes, and
  the admission rules of \<^verbatim>\<open>src/src/powercontext/builtin/source_eligibility.py\<close>.

  A Source of another class is \<open>Other_Source\<close>. The \<^verbatim>\<open>expires_at\<close> metadata of a working
  note is a zoned timestamp, absent, or anything else.
\<close>

section \<open>Sources\<close>

datatype expiry = No_Expiry | Malformed_Expiry | Expires int

record lineage_target =
  lt_scope_id :: string
  lt_family :: string
  lt_artifact_id :: string
  lt_revision :: int

record content_source =
  so_working_note :: bool
  so_expires_at :: expiry
  so_internal :: "lineage_target option"

datatype source = Content_Source content_source | Other_Source

record stored_source =
  st_ref :: source_ref
  st_value :: source

definition make_source_ref :: "string \<Rightarrow> string \<Rightarrow> error + source_ref" where
  "make_source_ref t i = (if reference_part_ok t \<and> reference_part_ok i
     then Inr \<lparr>sr_source_type = t, sr_source_id = i\<rparr> else Inl (ValidationError ''SourceRef''))"

abbreviation source_ref_ok :: "source_ref \<Rightarrow> bool" where
  "source_ref_ok r \<equiv> reference_part_ok (sr_source_type r) \<and> reference_part_ok (sr_source_id r)"

lemma make_source_ref_self [simp]: "source_ref_ok r \<Longrightarrow> make_source_ref (sr_source_type r) (sr_source_id r) = Inr r"
  by (cases r) (simp add: make_source_ref_def)

definition is_working_note_active :: "content_source \<Rightarrow> ('c catalog, bool) exec" where
  "is_working_note_active s =
     (if \<not> so_working_note s then return False
      else case so_expires_at s of
        No_Expiry \<Rightarrow> return True
      | Malformed_Expiry \<Rightarrow> return False
      | Expires e \<Rightarrow> bind utc_now (\<lambda>now. return (now < e)))"

section \<open>Admission\<close>

definition is_generation_eligible :: "source \<Rightarrow> bool" where
  "is_generation_eligible s = (case s of
     Other_Source \<Rightarrow> True
   | Content_Source c \<Rightarrow> so_internal c = None \<and> \<not> so_working_note c)"

definition source_not_eligible :: "source_ref \<Rightarrow> error" where
  "source_not_eligible r = SourceNotEligible (sr_source_type r) (sr_source_id r)"

definition require_source_eligible ::
  "source_ref \<Rightarrow> source \<Rightarrow> lineage_target option \<Rightarrow> bool \<Rightarrow> ('c catalog, unit) exec" where
  "require_source_eligible ref s target allow_working_notes = (case s of
     Other_Source \<Rightarrow> return ()
   | Content_Source c \<Rightarrow>
       if so_working_note c
       then if allow_working_notes
            then bind (is_working_note_active c) (\<lambda>active.
                 require active (WorkingNoteUnavailable (sr_source_type ref) (sr_source_id ref)))
            else raise (source_not_eligible ref)
       else case so_internal c of
         None \<Rightarrow> return ()
       | Some bound \<Rightarrow> require (target = Some bound) (source_not_eligible ref))"

text \<open>Only the clock of the state can change.\<close>

definition same_tables :: "'c catalog \<Rightarrow> 'c catalog \<Rightarrow> bool" where
  "same_tables s t \<longleftrightarrow> (\<exists>n. t = s\<lparr>wall_ticks := n\<rparr>)"

lemma same_tables_refl [simp, intro]: "same_tables s s"
  by (auto simp: same_tables_def intro: exI [of _ "wall_ticks s"])

lemma same_tables_trans [trans]: "same_tables r s \<Longrightarrow> same_tables s t \<Longrightarrow> same_tables r t"
  by (auto simp: same_tables_def)

lemma require_source_eligible_tables: "same_tables s (snd (require_source_eligible ref src target allow s))"
  by (auto simp: require_source_eligible_def is_working_note_active_def bind_run same_tables_def
      split: source.split option.split expiry.split intro: exI [of _ "wall_ticks s"] exI [of _ "Suc (wall_ticks s)"])

text \<open>
  Ordinary evidence is admitted everywhere. A server-owned Source is admitted at its bound
  revision only, and a working note only where notes are allowed and while it is active.
\<close>

lemma require_source_eligible_Inr:
  "require_source_eligible ref src target allow s = (Inr u, t) \<Longrightarrow> is_generation_eligible src
     \<or> (\<exists>c. src = Content_Source c \<and> so_working_note c \<and> allow)
     \<or> (\<exists>c. src = Content_Source c \<and> \<not> so_working_note c \<and> so_internal c = target \<and> target \<noteq> None)"
  by (auto simp: require_source_eligible_def is_generation_eligible_def source_not_eligible_def
      split: source.splits option.splits if_splits)

lemma eligible_admitted:
  "is_generation_eligible src \<Longrightarrow> require_source_eligible ref src target allow s = (Inr (), s)"
  by (auto simp: require_source_eligible_def is_generation_eligible_def split: source.splits)

end
