(* ===== verification/Provenance.thy ===== *)
theory Provenance
  imports Catalog
begin

text \<open>
  Where a published artifact comes from: the walk over publication records of
  \<^verbatim>\<open>_load_publication_provenance_many\<close> in
  \<^verbatim>\<open>src/src/powercontext/builtin/persistence/artifacts.py\<close>. It follows the publications of
  many revisions at once, one database round per frontier, and refuses a path that returns to
  an address or changes its content digest.

  \<open>digests\<close>, \<open>visited\<close> and \<open>result\<close> of the code are the three fields of a path, one path per
  origin. The \<^verbatim>\<open>while\<close> loop runs on fuel: two rounds more than there are publications, which
  the lemmas show it never exhausts. They also show that the batched walk computes, for every
  origin, what following that origin alone computes.
\<close>

section \<open>Addresses\<close>

record artifact_address =
  ad_scope_id :: string
  ad_artifact :: artifact_ref

type_synonym revision_key = "string \<times> string \<times> int"
type_synonym publication_map = "artifact_pk \<Rightarrow> (artifact_pk \<times> string) option"

definition make_artifact_address :: "artifact_pk \<Rightarrow> error + artifact_address" where
  "make_artifact_address t = (case t of (scope_id, f, a, n) \<Rightarrow>
     case make_artifact_ref f a n of
       Inl e \<Rightarrow> Inl e
     | Inr r \<Rightarrow> if reference_part_ok scope_id \<and> length scope_id \<le> MAX_SCOPE_ID_LENGTH
         then Inr \<lparr>ad_scope_id = scope_id, ad_artifact = r\<rparr>
         else Inl (ValidationError ''ArtifactAddress''))"

definition publication_target :: "publication_row \<Rightarrow> artifact_pk" where
  "publication_target r = (pu_target_scope_id r, pu_target_family r, pu_target_artifact_id r, pu_target_revision r)"

definition publication_source :: "publication_row \<Rightarrow> artifact_pk" where
  "publication_source r = (pu_source_scope_id r, pu_source_family r, pu_source_artifact_id r, pu_source_revision r)"

section \<open>The walk\<close>

record path =
  pa_digest :: "string option"
  pa_visited :: "artifact_pk list"
  pa_result :: "(artifact_address option \<times> string option) option"

definition new_path :: path where
  "new_path = \<lparr>pa_digest = None, pa_visited = [], pa_result = None\<rparr>"

definition record_publications :: "publication_row list \<Rightarrow> publication_map \<Rightarrow> publication_map" where
  "record_publications rows m =
     fold (\<lambda>r m. m(publication_target r \<mapsto> (publication_source r, pu_content_digest r))) rows m"

fun fetch_publications :: "artifact_pk list list \<Rightarrow> publication_map \<Rightarrow> ('c catalog, publication_map) exec" where
  "fetch_publications [] m = return m"
| "fetch_publications (b # bs) m =
     bind (sql_select ARTIFACT_PUBLICATIONS_TABLE (\<lambda>r. publication_target r \<in> set b)) (\<lambda>rows.
     fetch_publications bs (record_publications rows m))"

text \<open>
  One target of one path: it ends there when nothing was published to the target, and goes on
  to the publication's source otherwise.
\<close>

definition visit :: "publication_map \<Rightarrow> artifact_pk \<Rightarrow> path \<Rightarrow> error + (path \<times> artifact_pk option)" where
  "visit m t p =
     (if t \<in> set (pa_visited p) then Inl (InvalidPublicationLineage ''cycle'')
      else let p' = p\<lparr>pa_visited := t # pa_visited p\<rparr> in
      case m t of
        None \<Rightarrow> (case (case pa_digest p of None \<Rightarrow> Inr None | Some _ \<Rightarrow> map_sum id Some (make_artifact_address t)) of
            Inl e \<Rightarrow> Inl e
          | Inr address \<Rightarrow> Inr (p'\<lparr>pa_result := Some (address, pa_digest p)\<rparr>, None))
      | Some (source, digest) \<Rightarrow>
          if pa_digest p \<noteq> None \<and> pa_digest p \<noteq> Some digest then Inl (InvalidPublicationLineage ''digest'')
          else Inr (p'\<lparr>pa_digest := Some digest\<rparr>, Some source))"

fun visit_all ::
  "publication_map \<Rightarrow> (revision_key \<times> artifact_pk) list \<Rightarrow> (revision_key \<Rightarrow> path) \<Rightarrow>
     error + ((revision_key \<Rightarrow> path) \<times> (revision_key \<times> artifact_pk) list)" where
  "visit_all m [] w = Inr (w, [])"
| "visit_all m ((origin, t) # rest) w = (case visit m t (w origin) of
     Inl e \<Rightarrow> Inl e
   | Inr (p, next_target) \<Rightarrow> (case visit_all m rest (w(origin := p)) of
       Inl e \<Rightarrow> Inl e
     | Inr (w', pending) \<Rightarrow> Inr (w', (case next_target of None \<Rightarrow> pending | Some t' \<Rightarrow> (origin, t') # pending))))"

fun provenance_rounds ::
  "nat \<Rightarrow> (revision_key \<times> artifact_pk) list \<Rightarrow> artifact_pk list \<Rightarrow> publication_map \<Rightarrow> (revision_key \<Rightarrow> path) \<Rightarrow>
     ('c catalog, revision_key \<Rightarrow> path) exec" where
  "provenance_rounds 0 current known m w = raise StopIteration"
| "provenance_rounds (Suc n) current known m w =
     (if current = [] then return w
      else let missing = sort (remdups (filter (\<lambda>t. t \<notin> set known) (map snd current))) in
      bind (fetch_publications (batches 100 missing) m) (\<lambda>m'.
      bind (lift_result (visit_all m' current w)) (\<lambda>(w', pending).
      provenance_rounds n pending (known @ missing) m' w')))"

definition load_publication_provenance_many ::
  "string \<Rightarrow> revision_key list \<Rightarrow> publication_map \<Rightarrow>
     ('c catalog, revision_key \<Rightarrow> (artifact_address option \<times> string option) option) exec" where
  "load_publication_provenance_many scope_id keys m = (\<lambda>s.
     bind (provenance_rounds (length (publications s) + 2) (map (\<lambda>k. (k, scope_id, k)) keys)
             (map (\<lambda>k. (scope_id, k)) keys) m (\<lambda>_. new_path)) (\<lambda>w.
     return (\<lambda>k. pa_result (w k))) s)"

section \<open>What the walk reads\<close>

declare split_paired_All [simp del] split_paired_Ex [simp del]

text \<open>The publication stored for a target, and the walk of a single path over it.\<close>

definition publication_of :: "'c catalog \<Rightarrow> publication_map" where
  "publication_of s t = map_option (\<lambda>r. (publication_source r, pu_content_digest r))
     (List.find (\<lambda>r. publication_target r = t) (publications s))"

fun follow :: "nat \<Rightarrow> publication_map \<Rightarrow> artifact_pk \<Rightarrow> path \<Rightarrow> error + path" where
  "follow 0 m t p = Inl StopIteration"
| "follow (Suc n) m t p = (case visit m t p of
     Inl e \<Rightarrow> Inl e
   | Inr (p', None) \<Rightarrow> Inr p'
   | Inr (p', Some t') \<Rightarrow> follow n m t' p')"

abbreviation publications_ok :: "'c catalog \<Rightarrow> bool" where
  "publications_ok \<equiv> table_ok ARTIFACT_PUBLICATIONS_TABLE"

lemma distinct_targets:
  fixes s :: "'c catalog"
  assumes "publications_ok s"
  shows "distinct (map publication_target (publications s))"
  using assms by (intro clash_free_distinct [where T = "ARTIFACT_PUBLICATIONS_TABLE :: ('c catalog, _) sql_table"])
    (auto simp: table_ok_def catalog_clash publication_target_def)

lemma record_publications_run:
  "distinct (map publication_target rows) \<Longrightarrow> record_publications rows m t =
     (case List.find (\<lambda>r. publication_target r = t) rows of
        None \<Rightarrow> m t | Some r \<Rightarrow> Some (publication_source r, pu_content_digest r))"
  unfolding record_publications_def
proof (induction rows arbitrary: m)
  case (Cons r rows)
  have "List.find (\<lambda>x. publication_target x = t) rows = None" if "publication_target r = t"
    using Cons.prems that by (intro find_never) (auto simp: image_iff)
  with Cons show ?case by auto
qed simp

lemma fetch_publications_run:
  assumes "publications_ok s"
  shows "fetch_publications bs m s =
    (Inr (\<lambda>t. if t \<in> set (concat bs) \<and> publication_of s t \<noteq> None then publication_of s t else m t), s)"
proof (induction bs arbitrary: m)
  case (Cons b bs)
  have "record_publications (filter (\<lambda>r. publication_target r \<in> set b) (publications s)) m t =
      (if t \<in> set b \<and> publication_of s t \<noteq> None then publication_of s t else m t)" for t
  proof -
    have "distinct (map publication_target (filter (\<lambda>r. publication_target r \<in> set b) (publications s)))"
      using distinct_targets [OF assms] by (metis distinct_map_filter)
    moreover have "List.find (\<lambda>r. publication_target r = t) (filter (\<lambda>r. publication_target r \<in> set b) (publications s))
        = (if t \<in> set b then List.find (\<lambda>r. publication_target r = t) (publications s) else None)"
      by (auto simp: find_in_filter intro!: find_cong_set find_never)
    ultimately show ?thesis
      by (simp add: record_publications_run publication_of_def split: option.split)
  qed
  then show ?case by (auto simp: bind_run Cons.IH fun_eq_iff)
qed simp

lemma reads_only_fetch [intro, simp]: "reads_only (fetch_publications bs m)"
  by (induction bs m rule: fetch_publications.induct)
     (unfold fetch_publications.simps, (intro reads_only_bind reads_only_basic reads_only_sql, assumption?)+)

lemma reads_only_branches: "(b \<Longrightarrow> reads_only m) \<Longrightarrow> (\<not> b \<Longrightarrow> reads_only n) \<Longrightarrow> reads_only (if b then m else n)"
  by simp

lemma reads_only_case_prod: "(\<And>a b. reads_only (f a b)) \<Longrightarrow> reads_only (case y of (a, b) \<Rightarrow> f a b)"
  by (cases y) simp

lemma reads_only_rounds [intro, simp]: "reads_only (provenance_rounds n current known m w)"
  by (induction n arbitrary: current known m w)
     (unfold provenance_rounds.simps Let_def,
      (intro reads_only_branches reads_only_bind reads_only_case_prod reads_only_basic reads_only_fetch reads_only_lift_result, assumption?)+)

section \<open>One origin at a time\<close>

text \<open>A round of the frontier is a visit of every origin on its own.\<close>

lemma visit_cong: "m t = m' t \<Longrightarrow> visit m t p = visit m' t p"
  by (simp add: visit_def)

lemma visit_all_cong:
  "(\<And>o' t. (o', t) \<in> set current \<Longrightarrow> m t = m' t) \<Longrightarrow> visit_all m current w = visit_all m' current w"
proof (induction current arbitrary: w)
  case (Cons x current)
  obtain a t where x: "x = (a, t)" by (cases x)
  have "visit_all m current v = visit_all m' current v" for v
    using Cons.prems by (intro Cons.IH) (metis list.set_intros(2))
  moreover have "visit m t (w a) = visit m' t (w a)"
    using Cons.prems x by (intro visit_cong) (metis list.set_intros(1))
  ultimately show ?case by (simp add: x split: sum.split prod.split)
qed simp

lemma visit_all_each:
  assumes "distinct (map fst current)"
    and "\<And>o' t. (o', t) \<in> set current \<Longrightarrow> \<exists>p n. visit m t (w o') = Inr (p, n)"
  shows "\<exists>w' pending. visit_all m current w = Inr (w', pending) \<and> distinct (map fst pending)
    \<and> fst ` set pending \<subseteq> fst ` set current
    \<and> (\<forall>o'. o' \<notin> fst ` set current \<longrightarrow> w' o' = w o')
    \<and> (\<forall>o' t p n. (o', t) \<in> set current \<longrightarrow> visit m t (w o') = Inr (p, n) \<longrightarrow>
         w' o' = p \<and> (\<forall>t'. (o', t') \<in> set pending \<longleftrightarrow> n = Some t'))"
  using assms
proof (induction current arbitrary: w)
  case (Cons x current)
  obtain a t where x: "x = (a, t)" by (cases x)
  from Cons.prems(2) [of a t] x obtain p n where v: "visit m t (w a) = Inr (p, n)" by auto
  have new: "a \<notin> fst ` set current" and d: "distinct (map fst current)" using Cons.prems(1) x by auto
  have same: "(w(a := p)) o' = w o'" if "(o', t') \<in> set current" for o' t'
    using that new by force
  have each: "\<exists>q k. visit m u ((w(a := p)) o') = Inr (q, k)" if "(o', u) \<in> set current" for o' u
    using Cons.prems(2) [of o' u] that same [OF that] by simp
  obtain w' pending where r: "visit_all m current (w(a := p)) = Inr (w', pending)" "distinct (map fst pending)"
    "fst ` set pending \<subseteq> fst ` set current" "\<forall>o'. o' \<notin> fst ` set current \<longrightarrow> w' o' = (w(a := p)) o'"
    "\<forall>o' t p' n. (o', t) \<in> set current \<longrightarrow> visit m t ((w(a := p)) o') = Inr (p', n) \<longrightarrow>
       w' o' = p' \<and> (\<forall>t'. (o', t') \<in> set pending \<longleftrightarrow> n = Some t')"
    using Cons.IH [of "w(a := p)", OF d each] by blast
  have fresh: "a \<notin> fst ` set pending" using r(3) new by blast
  define pending' where "pending' = (case n of None \<Rightarrow> pending | Some t' \<Rightarrow> (a, t') # pending)"
  have run: "visit_all m (x # current) w = Inr (w', pending')"
    using v r(1) by (simp add: x pending'_def)
  have mem: "(o', t') \<in> set pending' \<longleftrightarrow> (if o' = a then n = Some t' else (o', t') \<in> set pending)" for o' t'
    using fresh by (cases n) (auto simp: pending'_def image_iff)
  have "distinct (map fst pending')" using r(2) fresh by (cases n) (simp_all add: pending'_def)
  moreover have "fst ` set pending' \<subseteq> fst ` set (x # current)"
    using r(3) x by (cases n) (auto simp: pending'_def)
  moreover have "w' o' = w o'" if "o' \<notin> fst ` set (x # current)" for o'
    using r(4) that x by simp
  moreover have "w' o' = q \<and> (\<forall>t'. (o', t') \<in> set pending' \<longleftrightarrow> k = Some t')"
    if "(o', u) \<in> set (x # current)" and "visit m u (w o') = Inr (q, k)" for o' u q k
  proof (cases "o' = a")
    case True
    then have "(o', u) = (a, t)" using that(1) new x by force
    with that(2) v True r(4) new mem show ?thesis by auto
  next
    case False
    then have c: "(o', u) \<in> set current" using that(1) x by auto
    with that(2) same have "visit m u ((w(a := p)) o') = Inr (q, k)" by simp
    with r(5) c mem False show ?thesis by simp
  qed
  ultimately show ?case using run by blast
qed simp

lemma visit_all_Inr:
  assumes "distinct (map fst current)" and "visit_all m current w = Inr r" and "(o', t) \<in> set current"
  shows "\<exists>p n. visit m t (w o') = Inr (p, n)"
  using assms
proof (induction current arbitrary: w r)
  case (Cons x current)
  obtain a u where x: "x = (a, u)" by (cases x)
  from Cons.prems(2) obtain p n r' where v: "visit m u (w a) = Inr (p, n)" and r: "visit_all m current (w(a := p)) = Inr r'"
    by (auto simp: x split: sum.splits prod.splits)
  show ?case
  proof (cases "(o', t) = (a, u)")
    case False
    then have c: "(o', t) \<in> set current" using Cons.prems(3) x by auto
    have "o' \<noteq> a" using c Cons.prems(1) x by force
    with Cons.IH [OF _ r c] Cons.prems(1) show ?thesis by simp
  qed (use v in auto)
qed simp

text \<open>What the walk has read of the publications: all of them at the addresses it knows.\<close>

definition reads :: "'c catalog \<Rightarrow> artifact_pk list \<Rightarrow> publication_map \<Rightarrow> bool" where
  "reads s known m \<longleftrightarrow> (\<forall>t. m t = publication_of s t \<or> m t = None \<and> t \<notin> set known)"

lemma round_reads:
  assumes "publications_ok s" and "reads s known m" and "current \<noteq> []"
    and "missing = sort (remdups (filter (\<lambda>t. t \<notin> set known) (map snd current)))"
  shows "\<exists>m'. fetch_publications (batches 100 missing) m s = (Inr m', s) \<and> reads s (known @ missing) m'
    \<and> (\<forall>w. visit_all m' current w = visit_all (publication_of s) current w)"
proof -
  let ?m' = "\<lambda>t. if t \<in> set missing \<and> publication_of s t \<noteq> None then publication_of s t else m t"
  have run: "fetch_publications (batches 100 missing) m s = (Inr ?m', s)"
    using fetch_publications_run [OF assms(1), of "batches 100 missing" m] concat_batches [of 100 missing] by simp
  have mem: "set missing = set (map snd current) - set known" using assms(4) by auto
  have "reads s (known @ missing) ?m'"
    unfolding reads_def
  proof
    fix t
    from assms(2) have "m t = publication_of s t \<or> m t = None \<and> t \<notin> set known" by (simp add: reads_def)
    then show "?m' t = publication_of s t \<or> ?m' t = None \<and> t \<notin> set (known @ missing)"
      by (cases "publication_of s t") auto
  qed
  moreover have "?m' t = publication_of s t" if "(o', t) \<in> set current" for o' t
  proof -
    have "t \<in> set known \<or> t \<in> set missing" using that mem by force
    with assms(2) show ?thesis by (auto simp: reads_def)
  qed
  then have "visit_all ?m' current w = visit_all (publication_of s) current w" for w
    by (rule visit_all_cong)
  ultimately show ?thesis using run by blast
qed

lemma rounds_follow:
  assumes ok: "publications_ok s"
    and "distinct (map fst current)" and "reads s known m"
    and "\<And>o' t. (o', t) \<in> set current \<Longrightarrow> follow n (publication_of s) t (w o') = Inr (q o')"
  shows "\<exists>w'. provenance_rounds (Suc n) current known m w s = (Inr w', s)
    \<and> (\<forall>o'. w' o' = (if o' \<in> fst ` set current then q o' else w o'))"
  using assms(2-4)
proof (induction n arbitrary: current known m w)
  case 0
  then have "current = []" by (cases current) (auto, metis sum.distinct(1))
  then show ?case by simp
next
  case (Suc n)
  show ?case
  proof (cases "current = []")
    case False
    let ?P = "publication_of s"
    let ?missing = "sort (remdups (filter (\<lambda>t. t \<notin> set known) (map snd current)))"
    obtain m' where f: "fetch_publications (batches 100 ?missing) m s = (Inr m', s)" "reads s (known @ ?missing) m'"
      "\<forall>v. visit_all m' current v = visit_all ?P current v"
      using round_reads [OF ok Suc.prems(2) False refl] by blast
    have each: "\<exists>p k. visit ?P t (w o') = Inr (p, k)
        \<and> (case k of None \<Rightarrow> p = q o' | Some t' \<Rightarrow> follow n ?P t' p = Inr (q o'))" if "(o', t) \<in> set current" for o' t
      using Suc.prems(3) [OF that] by (auto split: sum.splits prod.splits option.splits)
    then have "\<exists>p k. visit ?P t (w o') = Inr (p, k)" if "(o', t) \<in> set current" for o' t
      using that by blast
    from visit_all_each [of current ?P w, OF Suc.prems(1) this] obtain w' pending
      where v: "visit_all ?P current w = Inr (w', pending)" and d: "distinct (map fst pending)"
        and sub: "fst ` set pending \<subseteq> fst ` set current"
        and out: "\<forall>o'. o' \<notin> fst ` set current \<longrightarrow> w' o' = w o'"
        and eff: "\<forall>o' t p k. (o', t) \<in> set current \<longrightarrow> visit ?P t (w o') = Inr (p, k) \<longrightarrow>
          w' o' = p \<and> (\<forall>t'. (o', t') \<in> set pending \<longleftrightarrow> k = Some t')"
      by blast
    have go: "follow n ?P t' (w' o') = Inr (q o')" if "(o', t') \<in> set pending" for o' t'
    proof -
      from that sub obtain t where t: "(o', t) \<in> set current" by force
      from each [OF t] obtain p k where p: "visit ?P t (w o') = Inr (p, k)"
        "case k of None \<Rightarrow> p = q o' | Some t' \<Rightarrow> follow n ?P t' p = Inr (q o')" by blast
      from eff t p(1) that have "w' o' = p" "k = Some t'" by blast+
      with p(2) show ?thesis by simp
    qed
    obtain w'' where w'': "provenance_rounds (Suc n) pending (known @ ?missing) m' w' s = (Inr w'', s)"
      "\<forall>o'. w'' o' = (if o' \<in> fst ` set pending then q o' else w' o')"
      using Suc.IH [OF d f(2) go] by blast
    have "w'' o' = (if o' \<in> fst ` set current then q o' else w o')" for o'
    proof (cases "o' \<in> fst ` set current - fst ` set pending")
      case True
      then obtain t where t: "(o', t) \<in> set current" by force
      from each [OF t] obtain p k where p: "visit ?P t (w o') = Inr (p, k)"
        "case k of None \<Rightarrow> p = q o' | Some t' \<Rightarrow> follow n ?P t' p = Inr (q o')" by blast
      from eff t p(1) have wp: "w' o' = p" "\<forall>t'. (o', t') \<in> set pending \<longleftrightarrow> k = Some t'" by blast+
      have "k = None"
      proof (cases k)
        case (Some t')
        then have "(o', t') \<in> set pending" using wp(2) by simp
        then have "o' \<in> fst ` set pending" by force
        with True show ?thesis by simp
      qed simp
      with p(2) wp(1) w''(2) True show ?thesis by simp
    next
      case False
      with w''(2) sub out show ?thesis by auto
    qed
    with w''(1) f v False show ?thesis
      by (auto simp: bind_run Let_def simp del: provenance_rounds.simps(2) simp: provenance_rounds.simps(2) [of "Suc n" current])
  qed simp
qed

lemma visit_grows:
  "visit m t p = Inr (p', Some t') \<Longrightarrow> pa_visited p' = t # pa_visited p \<and> t \<notin> set (pa_visited p) \<and> m t \<noteq> None"
  by (auto simp: visit_def Let_def split: if_splits option.splits sum.splits)

lemma visit_error: "visit m t p \<noteq> Inl StopIteration"
  by (auto simp: visit_def Let_def make_artifact_address_def make_artifact_ref_def split: option.split sum.split prod.split)

lemma visit_all_error: "visit_all m current w \<noteq> Inl StopIteration"
proof (induction current arbitrary: w)
  case (Cons x current)
  obtain a t where "x = (a, t)" by (cases x)
  with Cons visit_error [of m t "w a"] show ?case by (auto split: sum.split prod.split)
qed simp

text \<open>The addresses a path has passed are distinct targets of publications, so the fuel lasts.\<close>

definition walked :: "'c catalog \<Rightarrow> path \<Rightarrow> bool" where
  "walked s p \<longleftrightarrow> distinct (pa_visited p) \<and> set (pa_visited p) \<subseteq> {t. publication_of s t \<noteq> None}"

lemma walked_bound: "walked s p \<Longrightarrow> length (pa_visited p) \<le> length (publications s)"
proof -
  assume p: "walked s p"
  have "{t. publication_of s t \<noteq> None} \<subseteq> publication_target ` set (publications s)"
  proof
    fix t assume "t \<in> {t. publication_of s t \<noteq> None}"
    then obtain r where "List.find (\<lambda>r. publication_target r = t) (publications s) = Some r"
      by (auto simp: publication_of_def)
    from find_SomeD [OF this] show "t \<in> publication_target ` set (publications s)" by blast
  qed
  with p have "set (pa_visited p) \<subseteq> set (map publication_target (publications s))" by (auto simp: walked_def)
  then have "card (set (pa_visited p)) \<le> card (set (map publication_target (publications s)))" by (intro card_mono) auto
  also have "\<dots> \<le> length (publications s)" by (metis card_length length_map)
  finally show ?thesis using p by (simp add: walked_def distinct_card)
qed

lemma rounds_end:
  assumes ok: "publications_ok s" and "distinct (map fst current)" and "reads s known m" and "0 < n"
    and "\<And>o' t. (o', t) \<in> set current \<Longrightarrow> walked s (w o') \<and> length (pa_visited (w o')) + n = length (publications s) + 2"
  shows "fst (provenance_rounds n current known m w s) \<noteq> Inl StopIteration"
  using assms(2-5)
proof (induction n arbitrary: current known m w)
  case (Suc n)
  show ?case
  proof (cases "current = []")
    case False
    let ?P = "publication_of s"
    let ?missing = "sort (remdups (filter (\<lambda>t. t \<notin> set known) (map snd current)))"
    obtain m' where f: "fetch_publications (batches 100 ?missing) m s = (Inr m', s)" "reads s (known @ ?missing) m'"
      "\<forall>v. visit_all m' current v = visit_all ?P current v"
      using round_reads [OF ok Suc.prems(2) False refl] by blast
    obtain o' t where "(o', t) \<in> set current" using False by (metis list.set_intros(1) neq_Nil_conv surj_pair)
    with Suc.prems(4) walked_bound have n: "0 < n" by fastforce
    have run: "provenance_rounds (Suc n) current known m w s = (case visit_all ?P current w of
        Inl e \<Rightarrow> (Inl e, s) | Inr (w', pending) \<Rightarrow> provenance_rounds n pending (known @ ?missing) m' w' s)"
      using f False by (simp add: bind_run Let_def split: sum.split prod.split)
    show ?thesis
    proof (cases "visit_all ?P current w")
      case (Inl e)
      with visit_all_error [of ?P current w] run show ?thesis by simp
    next
      case (Inr r)
      have "\<exists>p k. visit ?P t (w o') = Inr (p, k)" if "(o', t) \<in> set current" for o' t
        using visit_all_Inr [OF Suc.prems(1) Inr that] .
      from visit_all_each [of current ?P w, OF Suc.prems(1) this] Inr obtain w' pending
        where r: "r = (w', pending)" and d: "distinct (map fst pending)" and sub: "fst ` set pending \<subseteq> fst ` set current"
          and eff: "\<forall>o' t p k. (o', t) \<in> set current \<longrightarrow> visit ?P t (w o') = Inr (p, k) \<longrightarrow>
            w' o' = p \<and> (\<forall>t'. (o', t') \<in> set pending \<longleftrightarrow> k = Some t')"
        by auto
      have "walked s (w' o') \<and> length (pa_visited (w' o')) + n = length (publications s) + 2" if "(o', t') \<in> set pending" for o' t'
      proof -
        from that sub obtain t where t: "(o', t) \<in> set current" by force
        from visit_all_Inr [OF Suc.prems(1) Inr t] obtain p k where p: "visit ?P t (w o') = Inr (p, k)" by blast
        from eff t p that have "w' o' = p" "k = Some t'" by blast+
        with visit_grows [of ?P t "w o'" p t'] p Suc.prems(4) [OF t] show ?thesis by (auto simp: walked_def)
      qed
      then have "fst (provenance_rounds n pending (known @ ?missing) m' w' s) \<noteq> Inl StopIteration"
        by (intro Suc.IH [OF d f(2) n]) blast
      then show ?thesis by (simp only: run Inr r sum.case prod.case) simp
    qed
  qed simp
qed simp

text \<open>One artifact published from scope \<^verbatim>\<open>s1\<close> to scope \<^verbatim>\<open>s2\<close>.\<close>

definition stub :: "string \<Rightarrow> string \<Rightarrow> unit artifact_row" where
  "stub i a = \<lparr>ar_scope_id = i, ar_family = ''skill'', ar_artifact_id = a, ar_revision = 1,
     ar_content = Encoded (Model ''Skill'' ()), ar_created_at = None, ar_created_by = None,
     ar_restored_from_revision = None, ar_rollback_reason = None\<rparr>"

definition published_once :: "unit catalog" where
  "published_once = (empty_catalog ''sqlite'' (\<lambda>_. 0) [''s1'', ''s2''] [])\<lparr>
     artifacts := [stub ''s1'' ''a'', stub ''s2'' ''b''],
     publications := [\<lparr>pu_target_scope_id = ''s2'', pu_target_family = ''skill'', pu_target_artifact_id = ''b'',
       pu_target_revision = 1, pu_source_scope_id = ''s1'', pu_source_family = ''skill'', pu_source_artifact_id = ''a'',
       pu_source_revision = 1, pu_content_digest = ''d'', pu_idempotency_key = ''k''\<rparr>]\<rparr>"

section \<open>Properties\<close>

text \<open>
  C14: the batched provenance walk ends, reads only, and computes for every revision what
  following its publications one by one computes: it never runs out of rounds, and when
  every path on its own reaches its end, the walk returns each path's origin and digest.
\<close>

theorem provenance_follows_every_path:
  fixes s :: "'c catalog"
  assumes "publications_ok s" and "distinct keys" and "reads s (map (\<lambda>k. (scope_id, k)) keys) m"
  shows "fst (load_publication_provenance_many scope_id keys m s) \<noteq> Inl StopIteration
    \<and> snd (load_publication_provenance_many scope_id keys m s) = s
    \<and> (\<forall>q. (\<forall>k \<in> set keys. follow (length (publications s) + 1) (publication_of s) (scope_id, k) new_path = Inr (q k)) \<longrightarrow>
        (\<exists>r. load_publication_provenance_many scope_id keys m s = (Inr r, s) \<and> (\<forall>k \<in> set keys. r k = pa_result (q k))))"
proof (intro conjI allI impI)
  let ?current = "map (\<lambda>k. (k, scope_id, k)) keys" and ?known = "map (\<lambda>k. (scope_id, k)) keys"
  let ?n = "length (publications s) + 1"
  have d: "distinct (map fst ?current)" using assms(2) by (simp add: o_def)
  have run: "load_publication_provenance_many scope_id keys m s =
      (case provenance_rounds (Suc ?n) ?current ?known m (\<lambda>_. new_path) s of
        (Inl e, t) \<Rightarrow> (Inl e, t) | (Inr w, t) \<Rightarrow> (Inr (\<lambda>k. pa_result (w k)), t))"
    by (simp only: load_publication_provenance_many_def bind_run return_run add_2_eq_Suc' Suc_eq_plus1 [symmetric])
  have "fst (provenance_rounds (Suc ?n) ?current ?known m (\<lambda>_. new_path) s) \<noteq> Inl StopIteration"
    by (rule rounds_end [OF assms(1) d assms(3)]) (auto simp: walked_def new_path_def)
  then show "fst (load_publication_provenance_many scope_id keys m s) \<noteq> Inl StopIteration"
    unfolding run by (auto split: prod.split sum.split)
  have "snd (provenance_rounds (Suc ?n) ?current ?known m (\<lambda>_. new_path) s) = s"
    using reads_only_rounds unfolding reads_only_def by blast
  then show "snd (load_publication_provenance_many scope_id keys m s) = s"
    unfolding run by (auto split: prod.split sum.split)
  fix q
  assume q: "\<forall>k \<in> set keys. follow ?n (publication_of s) (scope_id, k) new_path = Inr (q k)"
  have each: "follow ?n (publication_of s) t new_path = Inr (q k)" if "(k, t) \<in> set ?current" for k t
    using q that by auto
  from rounds_follow [where w = "\<lambda>_. new_path" and q = q, OF assms(1) d assms(3) each] obtain w'
    where "provenance_rounds (Suc ?n) ?current ?known m (\<lambda>_. new_path) s = (Inr w', s)"
      "\<forall>k. w' k = (if k \<in> fst ` set ?current then q k else new_path)" by blast
  then show "\<exists>r. load_publication_provenance_many scope_id keys m s = (Inr r, s) \<and> (\<forall>k \<in> set keys. r k = pa_result (q k))"
    by (auto simp: run image_image)
qed

theorem provenance_follows_every_path_witness:
  "\<exists>r. load_publication_provenance_many ''s2'' [(''skill'', ''b'', 1)] (publication_of published_once) published_once
      = (Inr r, published_once)
    \<and> r (''skill'', ''b'', 1) = Some (Some \<lparr>ad_scope_id = ''s1'', ad_artifact = \<lparr>ref_family = ''skill'',
        ref_artifact_id = ''a'', ref_revision = 1\<rparr>\<rparr>, Some ''d'')"
proof -
  have ok: "publications_ok published_once"
    by (simp add: published_once_def stub_def empty_catalog_def table_ok_def clash_free_def catalog_admits revision_exists_def)
  let ?p = "\<lparr>pa_digest = Some ''d'', pa_visited = [(''s1'', ''skill'', ''a'', 1), (''s2'', ''skill'', ''b'', 1)],
        pa_result = Some (Some \<lparr>ad_scope_id = ''s1'', ad_artifact = \<lparr>ref_family = ''skill'',
          ref_artifact_id = ''a'', ref_revision = 1\<rparr>\<rparr>, Some ''d'')\<rparr>"
  have path: "follow 2 (publication_of published_once) (''s2'', ''skill'', ''b'', 1) new_path = Inr ?p"
    by code_simp
  have n: "length (publications published_once) + 1 = 2" by (simp add: published_once_def)
  have each: "\<forall>k \<in> set [(''skill'', ''b'', 1)]. follow (length (publications published_once) + 1)
      (publication_of published_once) (''s2'', k) new_path = Inr ((\<lambda>_. ?p) k)"
    by (simp only: n path list.set ball_simps simp_thms)
  have rd: "reads published_once (map (\<lambda>k. (''s2'', k)) [(''skill'', ''b'', 1)]) (publication_of published_once)"
    by (simp add: reads_def)
  from provenance_follows_every_path [OF ok _ rd, THEN conjunct2, THEN conjunct2, THEN spec, THEN mp, OF _ each]
  obtain r where "load_publication_provenance_many ''s2'' [(''skill'', ''b'', 1)] (publication_of published_once) published_once
      = (Inr r, published_once)" "\<forall>k \<in> set [(''skill'', ''b'', 1)]. r k = pa_result ?p"
    by auto
  then show ?thesis by (intro exI [of _ r]) simp
qed

end
