(* ===== verification/Artifacts.thy ===== *)
theory Artifacts
  imports Governance Eligibility Provenance
begin

text \<open>
  Artifact revisions, their heads and their lineage, from
  \<^verbatim>\<open>src/src/powercontext/builtin/persistence/artifacts.py\<close> with the revision metadata of
  \<^verbatim>\<open>revision_meta.py\<close> and the artifact values of
  \<^verbatim>\<open>src/src/powercontext/artifacts/models.py\<close>.

  An artifact class is its name, family and content class. An artifact carries the class it
  is an instance of, since \<open>revise\<close> compares classes. The Source repository the code composes
  in, and the JSON validation of a draft's content, are arguments. A connection is its
  identity with its current transactions, which is all that the reuse of validated evidence
  looks at. Inserting several rows inserts them one after another; the rows of one call have
  the same columns, since a rollback stamp is bound only around one revision.
\<close>

section \<open>Values\<close>

record artifact_type =
  at_name :: string
  at_family :: string
  at_content :: "string option"

record artifact_lineage =
  li_sources :: "source_ref list"
  li_artifacts :: "artifact_ref list"
  li_publication_source :: "artifact_address option"
  li_publication_digest :: "string option"

record revision_meta =
  rm_created_at :: "int option"
  rm_created_by_type :: "string option"
  rm_created_by_id :: "string option"
  rm_restored_from_revision :: "int option"
  rm_reason :: "string option"

record 'c artifact =
  af_type :: string
  af_family :: string
  af_artifact_id :: string
  af_revision :: int
  af_content :: "'c model"
  af_lineage :: artifact_lineage
  af_meta :: revision_meta

record 'c draft =
  dr_family :: string
  dr_content :: "'c model"
  dr_sources :: "source_ref list"
  dr_artifacts :: "artifact_ref list"

definition make_lineage ::
  "source_ref list \<Rightarrow> artifact_ref list \<Rightarrow> artifact_address option \<Rightarrow> string option \<Rightarrow> error + artifact_lineage" where
  "make_lineage sources artifact_refs origin digest =
     (if (origin = None) \<noteq> (digest = None) then Inl (ValidationError ''ArtifactLineage'')
      else Inr \<lparr>li_sources = sources, li_artifacts = artifact_refs, li_publication_source = origin,
        li_publication_digest = digest\<rparr>)"

definition no_meta :: revision_meta where
  "no_meta = \<lparr>rm_created_at = None, rm_created_by_type = None, rm_created_by_id = None,
     rm_restored_from_revision = None, rm_reason = None\<rparr>"

definition make_artifact ::
  "artifact_type \<Rightarrow> string \<Rightarrow> int \<Rightarrow> 'c model \<Rightarrow> artifact_lineage \<Rightarrow> error + 'c artifact" where
  "make_artifact t artifact_id revision content lineage =
     (if reference_part_ok artifact_id \<and> length artifact_id \<le> MAX_ARTIFACT_ID_LENGTH \<and> 1 \<le> revision
         \<and> at_content t = Some (model_class content)
      then Inr \<lparr>af_type = at_name t, af_family = at_family t, af_artifact_id = artifact_id, af_revision = revision,
        af_content = content, af_lineage = lineage, af_meta = no_meta\<rparr>
      else Inl (ValidationError ''Artifact''))"

definition as_ref :: "'c artifact \<Rightarrow> error + artifact_ref" where
  "as_ref a = make_artifact_ref (af_family a) (af_artifact_id a) (af_revision a)"

definition raw_ref :: "'c artifact \<Rightarrow> artifact_ref" where
  "raw_ref a = \<lparr>ref_family = af_family a, ref_artifact_id = af_artifact_id a, ref_revision = af_revision a\<rparr>"

definition ref_key :: "artifact_ref \<Rightarrow> revision_key" where
  "ref_key r = (ref_family r, ref_artifact_id r, ref_revision r)"

section \<open>Revision metadata\<close>

record rollback_stamped =
  rs_created_by :: "(string \<times> string) option"
  rs_restored_from_revision :: int
  rs_reason :: string

definition rollback_columns :: "string \<Rightarrow> string \<Rightarrow> int \<Rightarrow> ('c catalog, rollback_stamped option) exec" where
  "rollback_columns family artifact_id revision = gets (\<lambda>s. case stamp s of
      None \<Rightarrow> None
    | Some st \<Rightarrow>
        if rb_family st \<noteq> family \<or> rb_artifact_id st \<noteq> artifact_id \<or> rb_revision st \<noteq> revision then None
        else Some \<lparr>rs_created_by = (case (rb_created_by_type st, rb_created_by_id st) of
              (Some t, Some i) \<Rightarrow> Some (t, i) | _ \<Rightarrow> None),
            rs_restored_from_revision = rb_restored_from_revision st, rs_reason = rb_reason st\<rparr>)"

definition meta_of :: "int option \<Rightarrow> (string \<times> string) option \<Rightarrow> int option \<Rightarrow> string option \<Rightarrow> revision_meta" where
  "meta_of created_at actor restored reason = (let known = (case actor of
        Some (t, i) \<Rightarrow> if t \<in> {''user'', ''service''} then Some (t, i) else None | None \<Rightarrow> None) in
     \<lparr>rm_created_at = created_at, rm_created_by_type = map_option fst known, rm_created_by_id = map_option snd known,
       rm_restored_from_revision = restored, rm_reason = reason\<rparr>)"

definition meta_from_row :: "'c artifact_row \<Rightarrow> revision_meta" where
  "meta_from_row r = meta_of (ar_created_at r) (ar_created_by r) (ar_restored_from_revision r) (ar_rollback_reason r)"

section \<open>The repository\<close>

type_synonym 'c get_sources = "string \<Rightarrow> source_ref list \<Rightarrow> ('c catalog, stored_source list) exec"

record 'c artifact_repository =
  rp_by_family :: "string \<Rightarrow> artifact_type option"
  rp_content_types :: "string \<Rightarrow> string option"
  rp_sources :: "'c get_sources option"

definition artifact_repository :: "artifact_type list \<Rightarrow> 'c get_sources option \<Rightarrow> error + 'c artifact_repository" where
  "artifact_repository artifact_types sources =
     (let by_family = fold (\<lambda>t m. m(at_family t \<mapsto> t)) artifact_types Map.empty in
      if \<exists>t \<in> set artifact_types. by_family (at_family t) = Some t \<and> at_content t = None then Inl TypeError
      else Inr \<lparr>rp_by_family = by_family, rp_content_types = (\<lambda>f. Option.bind (by_family f) at_content),
        rp_sources = sources\<rparr>)"

definition artifact_type_of :: "'c artifact_repository \<Rightarrow> string \<Rightarrow> ('s, artifact_type) exec" where
  "artifact_type_of rp family = (case rp_by_family rp family of
     None \<Rightarrow> raise (RepositoryNotFound ''artifact-family'' [family] None) | Some t \<Rightarrow> return t)"

definition require_content :: "'c artifact_repository \<Rightarrow> string \<Rightarrow> 'c model \<Rightarrow> ('s, unit) exec" where
  "require_content rp family content = (case rp_content_types rp family of
     None \<Rightarrow> raise (ArtifactFamilyMismatch family (model_class content))
   | Some expected \<Rightarrow> require (model_class content = expected) (ArtifactFamilyMismatch family (model_class content)))"

definition require_artifact_scope :: "string \<Rightarrow> ('s, unit) exec" where
  "require_artifact_scope scope_id = require_identifier ''scope_id'' scope_id MAX_SCOPE_ID_LENGTH"

text \<open>A draft from untrusted JSON: \<open>validate\<close> is the family model's own validation.\<close>

definition make_draft ::
  "'c artifact_repository \<Rightarrow> (string \<Rightarrow> 'j \<Rightarrow> 'c model option) \<Rightarrow> string \<Rightarrow> 'j \<Rightarrow> source_ref list \<Rightarrow>
     artifact_ref list \<Rightarrow> ('s, 'c draft) exec" where
  "make_draft rp validate family content sources artifact_refs = (case rp_content_types rp family of
     None \<Rightarrow> raise (RepositoryNotFound ''artifact-family'' [family] None)
   | Some content_type \<Rightarrow> (case validate content_type content of
       None \<Rightarrow> raise (InvalidRepositoryArgument ''content'' ''does not match the Artifact family'')
     | Some validated \<Rightarrow> return \<lparr>dr_family = family, dr_content = validated, dr_sources = sources,
         dr_artifacts = artifact_refs\<rparr>))"

section \<open>Evidence of a revision\<close>

record connection =
  cn_id :: nat
  cn_transaction :: "nat option"
  cn_nested :: "nat option"

record validated_sources =
  vs_connection :: nat
  vs_transaction :: "nat option"
  vs_nested :: "nat option"
  vs_scope_id :: string
  vs_target :: artifact_ref
  vs_sources :: "source_ref list"
  vs_allow_working_notes :: bool

definition vs_matches ::
  "validated_sources \<Rightarrow> connection \<Rightarrow> string \<Rightarrow> artifact_ref \<Rightarrow> source_ref list \<Rightarrow> bool \<Rightarrow> bool" where
  "vs_matches v c scope_id target sources allow_working_notes \<longleftrightarrow>
     vs_connection v = cn_id c \<and> vs_transaction v \<noteq> None \<and> vs_transaction v = cn_transaction c
     \<and> vs_nested v = cn_nested c \<and> vs_scope_id v = scope_id \<and> vs_target v = target \<and> vs_sources v = sources
     \<and> vs_allow_working_notes v = allow_working_notes"

record source_read_set =
  rd_connection :: nat
  rd_transaction :: "nat option"
  rd_nested :: "nat option"
  rd_scope_id :: string
  rd_rows :: "string \<times> string \<Rightarrow> stored_source option"

definition source_key :: "source_ref \<Rightarrow> string \<times> string" where
  "source_key r = (sr_source_type r, sr_source_id r)"

definition read_set_find :: "source_read_set option \<Rightarrow> connection \<Rightarrow> string \<Rightarrow> source_ref \<Rightarrow> stored_source option" where
  "read_set_find rd c scope_id ref = (case rd of
     None \<Rightarrow> None
   | Some d \<Rightarrow>
       if cn_id c = rd_connection d \<and> rd_transaction d \<noteq> None \<and> cn_transaction c = rd_transaction d
          \<and> cn_nested c = rd_nested d \<and> scope_id = rd_scope_id d
       then rd_rows d (source_key ref) else None)"

definition fetched_sources :: "stored_source list \<Rightarrow> string \<times> string \<Rightarrow> stored_source option" where
  "fetched_sources items = fold (\<lambda>i m. m(source_key (st_ref i) \<mapsto> i)) items Map.empty"

definition check_lineage_sources ::
  "'c artifact_repository \<Rightarrow> connection \<Rightarrow> string \<Rightarrow> artifact_ref \<Rightarrow> source_ref list \<Rightarrow> bool \<Rightarrow>
     source_read_set option \<Rightarrow> ('c catalog, unit) exec" where
  "check_lineage_sources rp c scope_id target sources allow_working_notes rd = (case rp_sources rp of
     None \<Rightarrow> return ()
   | Some get_many \<Rightarrow>
       bind (get_many scope_id (filter (\<lambda>r. read_set_find rd c scope_id r = None) sources)) (\<lambda>items.
       for_each sources (\<lambda>r.
         bind (case read_set_find rd c scope_id r of
                 Some st \<Rightarrow> return st
               | None \<Rightarrow> (case fetched_sources items (source_key r) of None \<Rightarrow> raise KeyError | Some st \<Rightarrow> return st)) (\<lambda>st.
         require_source_eligible r (st_value st)
           (Some \<lparr>lt_scope_id = scope_id, lt_family = ref_family target, lt_artifact_id = ref_artifact_id target,
              lt_revision = ref_revision target\<rparr>) allow_working_notes))))"

definition validate_lineage_sources ::
  "'c artifact_repository \<Rightarrow> connection \<Rightarrow> string \<Rightarrow> artifact_ref \<Rightarrow> source_ref list \<Rightarrow> source_read_set option \<Rightarrow>
     ('c catalog, validated_sources) exec" where
  "validate_lineage_sources rp c scope_id target sources rd =
     andThen (check_lineage_sources rp c scope_id target sources False rd)
       (return \<lparr>vs_connection = cn_id c, vs_transaction = cn_transaction c, vs_nested = cn_nested c,
          vs_scope_id = scope_id, vs_target = target, vs_sources = sources, vs_allow_working_notes = False\<rparr>)"

definition require_validated ::
  "'c artifact_repository \<Rightarrow> connection \<Rightarrow> string \<Rightarrow> artifact_ref \<Rightarrow> source_ref list \<Rightarrow> bool \<Rightarrow>
     validated_sources option \<Rightarrow> ('c catalog, unit) exec" where
  "require_validated rp c scope_id target sources allow_working_notes v =
     (if case v of None \<Rightarrow> True | Some x \<Rightarrow> \<not> vs_matches x c scope_id target sources allow_working_notes
      then check_lineage_sources rp c scope_id target sources allow_working_notes None else return ())"

section \<open>Writing revisions\<close>

record 'c prepared_revision =
  pr_body :: "'c artifact_row"
  pr_sources :: "lineage_source_row list"
  pr_artifact_refs :: "lineage_artifact_row list"
  pr_artifact :: "'c artifact"

definition body_row ::
  "string \<Rightarrow> artifact_ref \<Rightarrow> 'c model \<Rightarrow> int \<Rightarrow> rollback_stamped option \<Rightarrow> 'c artifact_row" where
  "body_row scope_id ref content created_at stamped = \<lparr>
     ar_scope_id = scope_id, ar_family = ref_family ref, ar_artifact_id = ref_artifact_id ref,
     ar_revision = ref_revision ref, ar_content = Encoded content, ar_created_at = Some created_at,
     ar_created_by = Option.bind stamped rs_created_by,
     ar_restored_from_revision = map_option rs_restored_from_revision stamped,
     ar_rollback_reason = map_option rs_reason stamped\<rparr>"

definition source_rows :: "string \<Rightarrow> artifact_ref \<Rightarrow> source_ref list \<Rightarrow> lineage_source_row list" where
  "source_rows scope_id ref sources = map (\<lambda>(ordinal, s). \<lparr>
     ls_scope_id = scope_id, ls_family = ref_family ref, ls_artifact_id = ref_artifact_id ref,
     ls_revision = ref_revision ref, ls_ordinal = ordinal, ls_source_type = sr_source_type s,
     ls_source_id = sr_source_id s\<rparr>) (enumerate 0 sources)"

definition upstream_rows :: "string \<Rightarrow> artifact_ref \<Rightarrow> artifact_ref list \<Rightarrow> lineage_artifact_row list" where
  "upstream_rows scope_id ref upstreams = map (\<lambda>(ordinal, u). \<lparr>
     la_scope_id = scope_id, la_family = ref_family ref, la_artifact_id = ref_artifact_id ref,
     la_revision = ref_revision ref, la_ordinal = ordinal, la_upstream_family = ref_family u,
     la_upstream_artifact_id = ref_artifact_id u, la_upstream_revision = ref_revision u,
     la_is_merge_input = False\<rparr>) (enumerate 0 upstreams)"

definition prepare_revision ::
  "string \<Rightarrow> artifact_type \<times> artifact_ref \<times> 'c model \<times> artifact_lineage \<Rightarrow> ('c catalog, 'c prepared_revision) exec" where
  "prepare_revision scope_id = (\<lambda>(t, ref, content, lineage).
     bind utc_now (\<lambda>created_at.
     bind (rollback_columns (ref_family ref) (ref_artifact_id ref) (ref_revision ref)) (\<lambda>stamped.
     bind (lift_result (make_artifact t (ref_artifact_id ref) (ref_revision ref) content lineage)) (\<lambda>plain.
     let body = body_row scope_id ref content created_at stamped; a = plain\<lparr>af_meta := meta_from_row body\<rparr> in
     bind (lift_result (as_ref a)) (\<lambda>actual.
     andThen (require (actual = ref) (IdentityMismatch ''artifact'' ref actual))
       (return \<lparr>pr_body = body, pr_sources = source_rows scope_id ref (li_sources lineage),
          pr_artifact_refs = upstream_rows scope_id ref (li_artifacts lineage), pr_artifact = a\<rparr>))))))"

definition insert_revisions ::
  "string \<Rightarrow> (artifact_type \<times> artifact_ref \<times> 'c model \<times> artifact_lineage) list \<Rightarrow> ('c catalog, 'c artifact list) exec" where
  "insert_revisions scope_id revisions =
     bind (collect (prepare_revision scope_id) revisions) (\<lambda>ps.
     andThen (for_each (map pr_body ps) (sql_insert ARTIFACTS_TABLE))
    (andThen (for_each (concat (map pr_sources ps)) (sql_insert ARTIFACT_LINEAGE_SOURCES_TABLE))
    (andThen (for_each (concat (map pr_artifact_refs ps)) (sql_insert ARTIFACT_LINEAGE_ARTIFACTS_TABLE))
       (return (map pr_artifact ps)))))"

definition new_head :: "string \<Rightarrow> string \<Rightarrow> string \<Rightarrow> int \<Rightarrow> head_row" where
  "new_head scope_id family artifact_id revision = \<lparr>ah_scope_id = scope_id, ah_family = family,
     ah_artifact_id = artifact_id, ah_revision = revision, ah_lifecycle_state = ''active'',
     ah_replacement_artifact_id = None, ah_merged_into_id = None, ah_governance_generation = 0\<rparr>"

definition find_head :: "string \<Rightarrow> string \<Rightarrow> string \<Rightarrow> ('c catalog, int option) exec" where
  "find_head scope_id family artifact_id =
     sql_scalar ARTIFACT_HEADS_TABLE (head_key scope_id family artifact_id) ah_revision"

section \<open>Reading revisions\<close>

definition source_rows_of :: "'c catalog \<Rightarrow> string \<Rightarrow> revision_key \<Rightarrow> lineage_source_row list" where
  "source_rows_of s scope_id k = sort_key ls_ordinal (filter (\<lambda>r. ls_scope_id r = scope_id
     \<and> (ls_family r, ls_artifact_id r, ls_revision r) = k) (lineage_sources s))"

definition upstream_rows_of :: "'c catalog \<Rightarrow> string \<Rightarrow> revision_key \<Rightarrow> lineage_artifact_row list" where
  "upstream_rows_of s scope_id k = sort_key la_ordinal (filter (\<lambda>r. la_scope_id r = scope_id
     \<and> (la_family r, la_artifact_id r, la_revision r) = k) (lineage_artifacts s))"

text \<open>
  The rows of the union of the three relations, in its order: by revision, and within a
  revision the artifacts before the sources, each by ordinal. A publication row is recorded
  as it is and cannot fail to decode.
\<close>

fun decode_relations ::
  "'c catalog \<Rightarrow> string \<Rightarrow> revision_key list \<Rightarrow> error + (revision_key \<Rightarrow> source_ref list \<times> artifact_ref list)" where
  "decode_relations s scope_id [] = Inr (\<lambda>_. ([], []))"
| "decode_relations s scope_id (k # ks) =
     (case each_result (\<lambda>r. make_artifact_ref (la_upstream_family r) (la_upstream_artifact_id r) (la_upstream_revision r))
             (upstream_rows_of s scope_id k) of
       Inl e \<Rightarrow> Inl e
     | Inr upstreams \<Rightarrow>
     (case each_result (\<lambda>r. make_source_ref (ls_source_type r) (ls_source_id r)) (source_rows_of s scope_id k) of
       Inl e \<Rightarrow> Inl e
     | Inr sources \<Rightarrow> map_sum id (\<lambda>m. m(k := (sources, upstreams))) (decode_relations s scope_id ks)))"

definition load_lineage_many ::
  "string \<Rightarrow> revision_key list \<Rightarrow> ('c catalog, revision_key \<Rightarrow> artifact_lineage option) exec" where
  "load_lineage_many scope_id keys =
     bind (gets (\<lambda>s. decode_relations s scope_id (sort (remdups keys)))) (\<lambda>decoded.
     bind (lift_result decoded) (\<lambda>relations.
     bind (sql_select ARTIFACT_PUBLICATIONS_TABLE (\<lambda>r. publication_target r \<in> (\<lambda>k. (scope_id, k)) ` set keys)) (\<lambda>rows.
     bind (load_publication_provenance_many scope_id keys (record_publications rows Map.empty)) (\<lambda>provenance.
     bind (lift_result (each_result (\<lambda>k. case provenance k of
               None \<Rightarrow> Inl KeyError
             | Some (address, digest) \<Rightarrow> make_lineage (fst (relations k)) (snd (relations k)) address digest) keys)) (\<lambda>lineages.
     return (map_of (zip keys lineages)))))))"

definition decode_content :: "'c artifact_repository \<Rightarrow> 'c artifact_row \<Rightarrow> ('s, 'c model) exec" where
  "decode_content rp row =
     andThen (artifact_type_of rp (ar_family row))
    (case rp_content_types rp (ar_family row) of
       None \<Rightarrow> raise KeyError
     | Some content_type \<Rightarrow> lift_result (load_model content_type (ar_content row) ''artifact'' (ar_family row)))"

definition decode_artifact ::
  "'c artifact_repository \<Rightarrow> 'c artifact_row \<Rightarrow> artifact_lineage \<Rightarrow> ('s, 'c artifact) exec" where
  "decode_artifact rp row lineage =
     bind (artifact_type_of rp (ar_family row)) (\<lambda>t.
     bind (decode_content rp row) (\<lambda>content.
     bind (lift_result (make_artifact_ref (ar_family row) (ar_artifact_id row) (ar_revision row))) (\<lambda>ref.
     bind (lift_result (make_artifact t (ref_artifact_id ref) (ref_revision ref) content lineage)) (\<lambda>plain.
     let a = plain\<lparr>af_meta := meta_from_row row\<rparr> in
     bind (lift_result (as_ref a)) (\<lambda>actual.
     andThen (require (actual = ref) (IdentityMismatch ''artifact'' ref actual)) (return a))))))"

definition row_key :: "'c artifact_row \<Rightarrow> revision_key" where
  "row_key r = (ar_family r, ar_artifact_id r, ar_revision r)"

fun load_lineage_batches ::
  "string \<Rightarrow> revision_key list list \<Rightarrow> (revision_key \<Rightarrow> artifact_lineage option) \<Rightarrow>
     ('c catalog, revision_key \<Rightarrow> artifact_lineage option) exec" where
  "load_lineage_batches scope_id [] m = return m"
| "load_lineage_batches scope_id (b # bs) m =
     bind (load_lineage_many scope_id b) (\<lambda>l. load_lineage_batches scope_id bs (m ++ l))"

definition decode_many :: "'c artifact_repository \<Rightarrow> string \<Rightarrow> 'c artifact_row list \<Rightarrow> ('c catalog, 'c artifact list) exec" where
  "decode_many rp scope_id rows =
     (if rows = [] then return []
      else bind (load_lineage_batches scope_id (batches 100 (map row_key rows)) Map.empty) (\<lambda>lineage.
      collect (\<lambda>r. case lineage (row_key r) of None \<Rightarrow> raise KeyError | Some l \<Rightarrow> decode_artifact rp r l) rows))"

definition artifact_not_found :: "string \<Rightarrow> artifact_ref \<Rightarrow> error" where
  "artifact_not_found scope_id ref =
     RepositoryNotFound ''artifact'' [scope_id, ref_family ref, ref_artifact_id ref] (Some (ref_revision ref))"

definition select_revisions :: "string \<Rightarrow> revision_key list \<Rightarrow> ('c catalog, 'c artifact_row list) exec" where
  "select_revisions scope_id keys = sql_select ARTIFACTS_TABLE (\<lambda>r. ar_scope_id r = scope_id \<and> row_key r \<in> set keys)"

definition artifact_get_many ::
  "'c artifact_repository \<Rightarrow> string \<Rightarrow> artifact_ref list \<Rightarrow> ('c catalog, 'c artifact list) exec" where
  "artifact_get_many rp scope_id refs =
     andThen (require_artifact_scope scope_id)
    (if refs = [] then return []
     else
     andThen (for_each refs (\<lambda>r. require (rp_by_family rp (ref_family r) \<noteq> None) (artifact_not_found scope_id r)))
    (bind (collect (select_revisions scope_id) (batches 100 (from_keys (map ref_key refs)))) (\<lambda>found.
     let rows = concat found in
     andThen (for_each refs (\<lambda>r. require (ref_key r \<in> set (map row_key rows)) (artifact_not_found scope_id r)))
    (bind (decode_many rp scope_id rows) (\<lambda>decoded.
     let by_ref = map_of (map (\<lambda>a. (ref_key (raw_ref a), a)) decoded) in
     collect (\<lambda>r. case by_ref (ref_key r) of None \<Rightarrow> raise KeyError | Some a \<Rightarrow> return a) refs)))))"

definition artifact_get ::
  "'c artifact_repository \<Rightarrow> string \<Rightarrow> artifact_ref \<Rightarrow> bool \<Rightarrow> ('c catalog, 'c artifact) exec" where
  "artifact_get rp scope_id ref for_update =
     andThen (require_artifact_scope scope_id)
    (if \<not> for_update then bind (artifact_get_many rp scope_id [ref]) (\<lambda>as. return (as ! 0))
     else bind (sql_one_or_none ARTIFACTS_TABLE (\<lambda>r. ar_scope_id r = scope_id \<and> row_key r = ref_key ref)) (\<lambda>row.
     case row of
       None \<Rightarrow> raise (artifact_not_found scope_id ref)
     | Some r \<Rightarrow> bind (decode_many rp scope_id [r]) (\<lambda>as. return (as ! 0))))"

definition artifact_latest ::
  "'c artifact_repository \<Rightarrow> string \<Rightarrow> string \<Rightarrow> string \<Rightarrow> bool \<Rightarrow> 'c artifact option \<Rightarrow> ('c catalog, 'c artifact) exec" where
  "artifact_latest rp scope_id family artifact_id for_update known =
     andThen (require_artifact_scope scope_id)
    (andThen (lift_result (make_artifact_ref family artifact_id 1))
    (bind (find_head scope_id family artifact_id) (\<lambda>revision. case revision of
       None \<Rightarrow> raise (RepositoryNotFound ''artifact'' [scope_id, family, artifact_id] None)
     | Some n \<Rightarrow>
         (case known of
            Some a \<Rightarrow> if \<not> for_update \<and> af_revision a = n then return a
                else bind (lift_result (make_artifact_ref family artifact_id n)) (\<lambda>ref. artifact_get rp scope_id ref for_update)
          | None \<Rightarrow> bind (lift_result (make_artifact_ref family artifact_id n)) (\<lambda>ref. artifact_get rp scope_id ref for_update)))))"

definition artifact_revisions ::
  "'c artifact_repository \<Rightarrow> string \<Rightarrow> string \<Rightarrow> string \<Rightarrow> int \<Rightarrow> int option \<Rightarrow> ('c catalog, 'c artifact list) exec" where
  "artifact_revisions rp scope_id family artifact_id since_revision through_revision =
     andThen (require_artifact_scope scope_id)
    (andThen (lift_result (make_artifact_ref family artifact_id 1))
    (bind (gets (\<lambda>s. sort_key ar_revision (filter (\<lambda>r. ar_scope_id r = scope_id \<and> ar_family r = family
         \<and> ar_artifact_id r = artifact_id \<and> since_revision < ar_revision r
         \<and> (case through_revision of None \<Rightarrow> True | Some n \<Rightarrow> ar_revision r \<le> n)) (artifacts s)))) (\<lambda>rows.
     decode_many rp scope_id rows)))"

section \<open>Creating and revising\<close>

type_synonym 'c new_item = "string \<times> 'c draft \<times> validated_sources option"

text \<open>The checks of one new artifact; the result is what \<^const>\<open>insert_revisions\<close> takes.\<close>

definition check_new ::
  "'c artifact_repository \<Rightarrow> connection \<Rightarrow> string \<Rightarrow> bool \<Rightarrow> 'c new_item list \<Rightarrow> 'c new_item \<Rightarrow>
     ('c catalog, artifact_type \<times> artifact_ref \<times> 'c model \<times> artifact_lineage) exec" where
  "check_new rp c scope_id allow_working_notes items = (\<lambda>(artifact_id, draft, v).
     andThen (require (\<not> (1 < length items \<and> (\<exists>u \<in> set (dr_artifacts draft).
                (ref_family u, ref_artifact_id u) \<in> (\<lambda>(a, d, _). (dr_family d, a)) ` set items)))
                (InvalidRepositoryArgument ''items'' ''bulk create cannot reference another new target''))
    (bind (artifact_type_of rp (dr_family draft)) (\<lambda>t.
     andThen (require_content rp (dr_family draft) (dr_content draft))
    (bind (lift_result (make_artifact_ref (dr_family draft) artifact_id 1)) (\<lambda>ref.
     andThen (require_validated rp c scope_id ref (dr_sources draft) allow_working_notes v)
    (bind (lift_result (make_lineage (dr_sources draft) (dr_artifacts draft) None None)) (\<lambda>lineage.
     return (t, ref, dr_content draft, lineage))))))))"

text \<open>Which existing lifecycle an insertion ran into.\<close>

definition head_conflict ::
  "'c artifact_repository \<Rightarrow> string \<Rightarrow> artifact_ref \<Rightarrow> 'c draft \<Rightarrow> ('c catalog, error option) exec" where
  "head_conflict rp scope_id ref draft =
     bind (find_head scope_id (ref_family ref) (ref_artifact_id ref)) (\<lambda>head. case head of
       None \<Rightarrow> return None
     | Some n \<Rightarrow>
         bind (lift_result (make_artifact_ref (ref_family ref) (ref_artifact_id ref) n)) (\<lambda>current_ref.
         bind (artifact_get rp scope_id current_ref False) (\<lambda>current.
         return (Some (DraftConflict (dr_family draft) (raw_ref current))))))"

fun classify_collision ::
  "'c artifact_repository \<Rightarrow> string \<Rightarrow> (string \<times> string) list \<Rightarrow> 'c new_item list \<Rightarrow> error \<Rightarrow> ('c catalog, 'a) exec" where
  "classify_collision rp scope_id existing [] e = raise e"
| "classify_collision rp scope_id existing ((artifact_id, draft, _) # items) e =
     (if (dr_family draft, artifact_id) \<in> set existing
      then bind (lift_result (make_artifact_ref (dr_family draft) artifact_id 1)) (\<lambda>ref.
           bind (head_conflict rp scope_id ref draft) (\<lambda>conflict. case conflict of
             Some x \<Rightarrow> raise x
           | None \<Rightarrow> classify_collision rp scope_id existing items e))
      else classify_collision rp scope_id existing items e)"

definition artifact_create_many ::
  "'c artifact_repository \<Rightarrow> connection \<Rightarrow> string \<Rightarrow> 'c new_item list \<Rightarrow> bool \<Rightarrow> ('c catalog, 'c artifact list) exec" where
  "artifact_create_many rp c scope_id items allow_working_notes =
     andThen (require_artifact_scope scope_id)
    (bind (collect (check_new rp c scope_id allow_working_notes items) items) (\<lambda>revisions.
     if revisions = [] then return []
     else
     bind (catch (insert_revisions scope_id revisions) (\<lambda>e. e = IntegrityError) (\<lambda>e.
             bind (sql_select ARTIFACT_HEADS_TABLE (\<lambda>h. ah_scope_id h = scope_id
                \<and> (ah_family h, ah_artifact_id h) \<in> (\<lambda>(a, d, _). (dr_family d, a)) ` set items)) (\<lambda>rows.
             classify_collision rp scope_id (map (\<lambda>h. (ah_family h, ah_artifact_id h)) rows) items e))) (\<lambda>as.
     andThen (for_each (map (\<lambda>a. new_head scope_id (af_family a) (af_artifact_id a) 1) as)
                (sql_insert ARTIFACT_HEADS_TABLE))
       (return as))))"

definition artifact_create ::
  "'c artifact_repository \<Rightarrow> connection \<Rightarrow> string \<Rightarrow> string \<Rightarrow> 'c draft \<Rightarrow> bool \<Rightarrow> validated_sources option \<Rightarrow>
     ('c catalog, 'c artifact) exec" where
  "artifact_create rp c scope_id artifact_id draft allow_working_notes v =
     bind (artifact_create_many rp c scope_id [(artifact_id, draft, v)] allow_working_notes) (\<lambda>as. return (as ! 0))"

definition head_at_revision :: "string \<Rightarrow> string \<Rightarrow> string \<Rightarrow> int \<Rightarrow> head_row \<Rightarrow> bool" where
  "head_at_revision scope_id family artifact_id revision h \<longleftrightarrow>
     head_key scope_id family artifact_id h \<and> ah_revision h = revision"

text \<open>What the head must satisfy before the next revision is written.\<close>

definition require_revisable :: "string \<Rightarrow> 'c artifact \<Rightarrow> governance option \<Rightarrow> head_row \<Rightarrow> ('s, unit) exec" where
  "require_revisable scope_id a restoration h =
     andThen (case restoration of None \<Rightarrow> return () | Some g \<Rightarrow>
        require (ah_lifecycle_state h = lifecycle_value (go_lifecycle_state g)
            \<and> ah_merged_into_id h = go_merged_into_id g
            \<and> ah_replacement_artifact_id h = go_replacement_artifact_id g
            \<and> ah_governance_generation h = go_governance_generation g)
          (governance_conflict scope_id (af_family a) (af_artifact_id a) None))
       (require (\<not> (ah_lifecycle_state h = ''retired'' \<or> (ah_merged_into_id h \<noteq> None \<and> restoration = None)))
          (InvalidArtifactLifecycle ''frozen and retired Artifact identities cannot be revised''))"

text \<open>The compare-and-swap that takes the head's lock, and the head it locked.\<close>

definition lock_revision_head ::
  "'c artifact_repository \<Rightarrow> string \<Rightarrow> 'c artifact \<Rightarrow> ('c catalog, head_row) exec" where
  "lock_revision_head rp scope_id a =
     bind (sql_update ARTIFACT_HEADS_TABLE (head_at_revision scope_id (af_family a) (af_artifact_id a) (af_revision a))
             (\<lambda>h. h\<lparr>ah_revision := ah_revision h\<rparr>)) (\<lambda>locked.
     andThen (if locked \<noteq> 1
              then bind (artifact_latest rp scope_id (af_family a) (af_artifact_id a) False None) (\<lambda>current.
                   raise (RevisionConflict (raw_ref a) (raw_ref current)))
              else return ())
    (bind (sql_one_or_none ARTIFACT_HEADS_TABLE (head_key scope_id (af_family a) (af_artifact_id a))) (\<lambda>head.
     case head of None \<Rightarrow> raise NoResultFound | Some h \<Rightarrow> return h)))"

text \<open>The next revision, and the head that moves to it.\<close>

definition append_revision ::
  "string \<Rightarrow> 'c artifact \<Rightarrow> artifact_type \<Rightarrow> artifact_ref \<Rightarrow> 'c draft \<Rightarrow> ('c catalog, 'c artifact) exec" where
  "append_revision scope_id a t target draft =
     bind (lift_result (make_lineage (dr_sources draft) (dr_artifacts draft) None None)) (\<lambda>lineage.
     bind (insert_revisions scope_id [(t, target, dr_content draft, lineage)]) (\<lambda>as.
     bind (sql_update ARTIFACT_HEADS_TABLE (head_at_revision scope_id (af_family a) (af_artifact_id a) (af_revision a))
             (\<lambda>h. h\<lparr>ah_revision := ref_revision target\<rparr>)) (\<lambda>advanced.
     andThen (require (advanced = 1) (RevisionConflict (raw_ref a) (raw_ref (as ! 0))))
       (return (as ! 0)))))"

definition revise_artifact ::
  "'c artifact_repository \<Rightarrow> connection \<Rightarrow> string \<Rightarrow> 'c artifact \<Rightarrow> 'c draft \<Rightarrow> governance option \<Rightarrow> bool \<Rightarrow>
     validated_sources option \<Rightarrow> ('c catalog, 'c artifact) exec" where
  "revise_artifact rp c scope_id a draft restoration allow_working_notes v =
     andThen (require_artifact_scope scope_id)
    (bind (artifact_type_of rp (af_family a)) (\<lambda>t.
     andThen (require (af_type a = at_name t \<and> dr_family draft = af_family a)
                (ArtifactFamilyMismatch (af_family a) (dr_family draft)))
    (andThen (require_content rp (dr_family draft) (dr_content draft))
    (bind (lift_result (make_artifact_ref (af_family a) (af_artifact_id a) (af_revision a + 1))) (\<lambda>target.
     andThen (require_validated rp c scope_id target (dr_sources draft) allow_working_notes v)
    (bind (lock_revision_head rp scope_id a) (\<lambda>head.
     andThen (require_revisable scope_id a restoration head)
       (append_revision scope_id a t target draft))))))))"

definition artifact_revise ::
  "'c artifact_repository \<Rightarrow> connection \<Rightarrow> string \<Rightarrow> 'c artifact \<Rightarrow> 'c draft \<Rightarrow> bool \<Rightarrow> validated_sources option \<Rightarrow>
     ('c catalog, 'c artifact) exec" where
  "artifact_revise rp c scope_id a draft allow_working_notes v =
     revise_artifact rp c scope_id a draft None allow_working_notes v"

definition revise_for_restoration ::
  "'c artifact_repository \<Rightarrow> connection \<Rightarrow> string \<Rightarrow> 'c artifact \<Rightarrow> 'c draft \<Rightarrow> governance \<Rightarrow>
     validated_sources option \<Rightarrow> ('c catalog, 'c artifact) exec" where
  "revise_for_restoration rp c scope_id a draft expected v =
     bind (lift_result (as_ref a)) (\<lambda>ref.
     andThen (require (go_artifact expected = ref) (governance_conflict scope_id (af_family a) (af_artifact_id a) None))
       (revise_artifact rp c scope_id a draft (Some expected) False v))"

section \<open>Merging, locking and copying\<close>

definition identity_of :: "artifact_ref \<Rightarrow> string \<times> string" where
  "identity_of r = (ref_family r, ref_artifact_id r)"

definition heads_among :: "string \<Rightarrow> (string \<times> string) list \<Rightarrow> head_row \<Rightarrow> bool" where
  "heads_among scope_id selected h \<longleftrightarrow> ah_scope_id h = scope_id \<and> (ah_family h, ah_artifact_id h) \<in> set selected"

definition require_present :: "string \<Rightarrow> (string \<times> string) list \<Rightarrow> ('c catalog, unit) exec" where
  "require_present scope_id selected =
     bind (sql_select ARTIFACT_HEADS_TABLE (heads_among scope_id selected)) (\<lambda>rows.
     let present = remdups (map (\<lambda>h. (ah_family h, ah_artifact_id h)) rows) in
     if length present \<noteq> length selected
     then (case List.find (\<lambda>i. i \<notin> set present) selected of
             None \<Rightarrow> raise StopIteration
           | Some (f, a) \<Rightarrow> raise (RepositoryNotFound ''artifact-head'' [scope_id, f, a] None))
     else return ())"

definition lock_batch :: "string \<Rightarrow> (string \<times> string) list \<Rightarrow> ('c catalog, unit) exec" where
  "lock_batch scope_id selected =
     bind (gets ca_dialect) (\<lambda>d.
     if d = ''mysql'' then require_present scope_id selected
     else bind (sql_update ARTIFACT_HEADS_TABLE (heads_among scope_id selected) (\<lambda>h. h\<lparr>ah_revision := ah_revision h\<rparr>)) (\<lambda>locked.
       if locked = length selected then return () else require_present scope_id selected))"

definition lock_heads :: "string \<Rightarrow> artifact_ref list \<Rightarrow> ('c catalog, unit) exec" where
  "lock_heads scope_id refs =
     andThen (require_artifact_scope scope_id)
       (for_each (batches (500 div 2) (sort (remdups (map identity_of refs)))) (lock_batch scope_id))"

definition merge_inputs_ok :: "string \<Rightarrow> 'c draft \<Rightarrow> artifact_ref list \<Rightarrow> bool" where
  "merge_inputs_ok artifact_id draft refs \<longleftrightarrow> \<not> (length refs < 2
     \<or> length (remdups (map ref_artifact_id refs)) \<noteq> length refs
     \<or> artifact_id \<in> set (map ref_artifact_id refs)
     \<or> (\<exists>r \<in> set refs. ref_family r \<noteq> dr_family draft)
     \<or> (\<exists>r \<in> set refs. r \<notin> set (dr_artifacts draft))
     \<or> (\<exists>r \<in> set refs. length (filter (\<lambda>x. x = r) (dr_artifacts draft)) \<noteq> 1))"

definition require_active_input :: "string \<Rightarrow> artifact_ref \<times> int \<Rightarrow> ('c catalog, unit) exec" where
  "require_active_input scope_id = (\<lambda>(ref, generation).
     bind (sql_one_or_none ARTIFACT_HEADS_TABLE (head_key scope_id (ref_family ref) (ref_artifact_id ref))) (\<lambda>head.
     require (case head of None \<Rightarrow> False | Some h \<Rightarrow> ah_revision h = ref_revision ref
         \<and> ah_governance_generation h = generation \<and> ah_lifecycle_state h = ''active'' \<and> ah_merged_into_id h = None)
       (InvalidArtifactLifecycle ''merge inputs must retain their expected active head and generation'')))"

definition create_merge_result ::
  "'c artifact_repository \<Rightarrow> connection \<Rightarrow> string \<Rightarrow> string \<Rightarrow> 'c draft \<Rightarrow> (artifact_ref \<times> int) list \<Rightarrow>
     validated_sources option \<Rightarrow> ('c catalog, 'c artifact) exec" where
  "create_merge_result rp c scope_id artifact_id draft inputs v =
     andThen (require (merge_inputs_ok artifact_id draft (map fst inputs))
                (InvalidArtifactLifecycle ''merge inputs must be distinct exact references in the result Family''))
    (andThen (lock_heads scope_id (map fst inputs))
    (andThen (for_each inputs (require_active_input scope_id))
    (bind (artifact_create rp c scope_id artifact_id draft False v) (\<lambda>result.
     andThen (sql_update ARTIFACT_LINEAGE_ARTIFACTS_TABLE
                (\<lambda>r. la_scope_id r = scope_id \<and> la_family r = af_family result \<and> la_artifact_id r = af_artifact_id result
                   \<and> la_revision r = 1
                   \<and> (la_upstream_family r, la_upstream_artifact_id r, la_upstream_revision r) \<in> ref_key ` set (map fst inputs))
                (\<lambda>r. r\<lparr>la_is_merge_input := True\<rparr>))
       (return result)))))"

definition merge_inputs ::
  "'c artifact_repository \<Rightarrow> string \<Rightarrow> artifact_ref \<Rightarrow> ('c catalog, artifact_ref list) exec" where
  "merge_inputs rp scope_id result =
     (if ref_revision result \<noteq> 1 then return []
      else andThen (artifact_get rp scope_id result False)
       (bind (gets (\<lambda>s. each_result (\<lambda>r. make_artifact_ref (la_upstream_family r) (la_upstream_artifact_id r) (la_upstream_revision r))
           (sort_key la_ordinal (filter (\<lambda>r. la_scope_id r = scope_id \<and> la_family r = ref_family result
              \<and> la_artifact_id r = ref_artifact_id result \<and> la_revision r = 1 \<and> la_is_merge_input r) (lineage_artifacts s))))) lift_result))"

definition copy_exact ::
  "'c artifact_repository \<Rightarrow> string \<Rightarrow> string \<Rightarrow> artifact_address \<Rightarrow> 'c artifact \<Rightarrow> string \<Rightarrow> ('c catalog, 'c artifact) exec" where
  "copy_exact rp target_scope_id target_artifact_id source_address source content_digest =
     andThen (require_artifact_scope target_scope_id)
    (bind (artifact_type_of rp (af_family source)) (\<lambda>t.
     bind (lift_result (make_artifact_ref (af_family source) target_artifact_id 1)) (\<lambda>ref.
     bind (lift_result (make_lineage [] []
             (case li_publication_source (af_lineage source) of None \<Rightarrow> Some source_address | Some x \<Rightarrow> Some x)
             (case li_publication_digest (af_lineage source) of
                None \<Rightarrow> Some content_digest | Some d \<Rightarrow> if d = '''' then Some content_digest else Some d))) (\<lambda>lineage.
     bind (insert_revisions target_scope_id [(t, ref, af_content source, lineage)]) (\<lambda>as.
     andThen (sql_insert ARTIFACT_HEADS_TABLE (new_head target_scope_id (ref_family ref) (ref_artifact_id ref) (ref_revision ref)))
       (return (as ! 0)))))))"

section \<open>What the operations do\<close>

abbreviation body_of :: "'c catalog \<Rightarrow> string \<Rightarrow> string \<Rightarrow> string \<Rightarrow> int \<Rightarrow> 'c artifact_row option" where
  "body_of s i f a n \<equiv> lookup_row ARTIFACTS_TABLE artifact_pk_of s (i, f, a, n)"

definition store_ok :: "'c catalog \<Rightarrow> bool" where
  "store_ok s \<longleftrightarrow> table_ok ARTIFACTS_TABLE s \<and> heads_ok s \<and> table_ok ARTIFACT_LINEAGE_SOURCES_TABLE s
     \<and> table_ok ARTIFACT_LINEAGE_ARTIFACTS_TABLE s \<and> publications_ok s"

lemma revision_exists_body: "revision_exists s (i, f, a, n) \<longleftrightarrow> body_of s i f a n \<noteq> None"
  by (auto simp: revision_exists_def artifacts_t.lookup_None)

text \<open>The tables stay well formed when only the clock moves, and when revisions are added.\<close>

lemma revision_exists_append:
  "revision_exists s k \<Longrightarrow> revision_exists (s\<lparr>artifacts := artifacts s @ rs\<rparr>) k"
  by (auto simp: revision_exists_def)

lemma store_ok_ticks [simp]: "store_ok (s\<lparr>wall_ticks := n\<rparr>) = store_ok s"
  by (simp add: store_ok_def table_ok_def catalog_admits)

lemma same_tables_store: "same_tables s t \<Longrightarrow> store_ok s \<Longrightarrow> store_ok t"
  by (auto simp: same_tables_def)

lemma same_tables_rows:
  "same_tables s t \<Longrightarrow> artifacts t = artifacts s \<and> artifact_heads t = artifact_heads s
     \<and> lineage_sources t = lineage_sources s \<and> lineage_artifacts t = lineage_artifacts s \<and> publications t = publications s
     \<and> stamp t = stamp s \<and> source_ids t = source_ids s"
  by (auto simp: same_tables_def)

text \<open>A prepared revision: its rows and its value are those of the draft.\<close>

definition prepared ::
  "string \<Rightarrow> artifact_type \<times> artifact_ref \<times> 'c model \<times> artifact_lineage \<Rightarrow> 'c prepared_revision \<Rightarrow> bool" where
  "prepared i x p = (case x of (ty, ref, content, lineage) \<Rightarrow>
     artifact_pk_of (pr_body p) = (i, ref_key ref) \<and> ar_content (pr_body p) = Encoded content
     \<and> pr_sources p = source_rows i ref (li_sources lineage) \<and> pr_artifact_refs p = upstream_rows i ref (li_artifacts lineage)
     \<and> pr_artifact p = \<lparr>af_type = at_name ty, af_family = ref_family ref, af_artifact_id = ref_artifact_id ref,
         af_revision = ref_revision ref, af_content = content, af_lineage = lineage, af_meta = meta_from_row (pr_body p)\<rparr>
     \<and> artifact_ref_ok ref \<and> at_content ty = Some (model_class content) \<and> at_family ty = ref_family ref)"

lemma prepare_revision_Inr:
  assumes "prepare_revision i x s = (Inr p, u)"
  shows "same_tables s u \<and> prepared i x p"
proof -
  obtain ty f a n content lineage where x: "x = (ty, \<lparr>ref_family = f, ref_artifact_id = a, ref_revision = n\<rparr>, content, lineage)"
    by (metis artifact_ref.cases prod_cases4)
  have "u = s\<lparr>wall_ticks := Suc (wall_ticks s)\<rparr>"
    using assms by (auto simp: x prepare_revision_def exec_Inr_iffs rollback_columns_def Let_def split: if_splits)
  moreover have "prepared i x p"
    using assms by (auto simp: x prepare_revision_def exec_Inr_iffs rollback_columns_def make_artifact_def as_ref_def make_artifact_ref_def
      prepared_def body_row_def ref_key_def Let_def split: if_splits)
  ultimately show ?thesis by (auto simp: same_tables_def)
qed

lemma insert_revisions_Inr:
  assumes "insert_revisions i revs s = (Inr as, t)"
  shows "\<exists>ps. list_all2 (prepared i) revs ps \<and> as = map pr_artifact ps
    \<and> artifacts t = artifacts s @ map pr_body ps \<and> artifact_heads t = artifact_heads s
    \<and> lineage_sources t = lineage_sources s @ concat (map pr_sources ps)
    \<and> lineage_artifacts t = lineage_artifacts s @ concat (map pr_artifact_refs ps)
    \<and> publications t = publications s \<and> (store_ok s \<longrightarrow> store_ok t)"
proof -
  from assms obtain ps u v w x where ps: "collect (prepare_revision i) revs s = (Inr ps, u)"
    and b: "for_each (map pr_body ps) (sql_insert ARTIFACTS_TABLE) u = (Inr (), v)"
    and ss: "for_each (concat (map pr_sources ps)) (sql_insert ARTIFACT_LINEAGE_SOURCES_TABLE) v = (Inr (), w)"
    and us: "for_each (concat (map pr_artifact_refs ps)) (sql_insert ARTIFACT_LINEAGE_ARTIFACTS_TABLE) w = (Inr (), t)"
    and as: "as = map pr_artifact ps"
    by (auto simp: insert_revisions_def exec_Inr_iffs)
  have "same_tables s u \<and> list_all2 (prepared i) revs ps"
    by (rule collect_Inr [OF ps]) (blast intro: same_tables_trans dest: prepare_revision_Inr)+
  then have su: "same_tables s u" and all: "list_all2 (prepared i) revs ps" by auto
  note ib = artifacts_t.insert_many_Inr [OF b] and isr = lineage_sources_t.insert_many_Inr [OF ss]
    and iu = lineage_artifacts_t.insert_many_Inr [OF us]
  have "store_ok t" if "store_ok s"
  proof -
    have u: "store_ok u" using same_tables_store [OF su that] .
    show ?thesis
      using u ib isr iu by (auto simp: store_ok_def table_ok_def catalog_admits revision_exists_append revision_exists_def)
  qed
  with ib isr iu all as same_tables_rows [OF su] show ?thesis by (intro exI [of _ ps]) auto
qed

text \<open>
  Operations that leave every table alone. The Source repository the code composes in is
  one of them: \<open>reading_sources\<close> is what the model assumes of it.
\<close>

definition tables_kept :: "('c catalog, 'a) exec \<Rightarrow> bool" where
  "tables_kept m \<longleftrightarrow> (\<forall>s. same_tables s (snd (m s)))"

definition reading_sources :: "'c artifact_repository \<Rightarrow> bool" where
  "reading_sources rp \<longleftrightarrow> (case rp_sources rp of None \<Rightarrow> True | Some get_many \<Rightarrow> \<forall>i rs. tables_kept (get_many i rs))"

lemma tables_kept_reads: "reads_only m \<Longrightarrow> tables_kept m"
  by (simp add: tables_kept_def reads_only_def)

lemma tables_keptD: "tables_kept m \<Longrightarrow> m s = (r, t) \<Longrightarrow> same_tables s t"
  by (metis tables_kept_def snd_conv)

lemma tables_kept_bind: "tables_kept m \<Longrightarrow> (\<And>x. tables_kept (f x)) \<Longrightarrow> tables_kept (bind m f)"
  unfolding tables_kept_def bind_def by (auto split: prod.split sum.split) (metis same_tables_trans snd_conv)+

lemma tables_kept_andThen: "tables_kept m \<Longrightarrow> tables_kept n \<Longrightarrow> tables_kept (andThen m n)"
  unfolding andThen_def by (rule tables_kept_bind)

lemma tables_kept_for_each: "(\<And>x. tables_kept (f x)) \<Longrightarrow> tables_kept (for_each xs f)"
  by (induction xs) (unfold for_each.simps, rule tables_kept_reads, rule reads_only_basic, blast intro: tables_kept_andThen)

lemma tables_kept_case_option:
  "tables_kept m \<Longrightarrow> (\<And>x. tables_kept (f x)) \<Longrightarrow> tables_kept (case y of None \<Rightarrow> m | Some x \<Rightarrow> f x)"
  by (cases y) auto

lemma tables_kept_if: "tables_kept m \<Longrightarrow> tables_kept n \<Longrightarrow> tables_kept (if b then m else n)"
  by simp

lemma tables_kept_basic:
  "tables_kept (return x)" "tables_kept (raise e)" "tables_kept (require b e)" "tables_kept (lift_result z)" "tables_kept (gets g)"
  by (auto intro: tables_kept_reads)

lemma tables_kept_eligible: "tables_kept (require_source_eligible r src target allow)"
  by (simp add: tables_kept_def require_source_eligible_tables)

lemmas tables_kept_rules = tables_kept_bind tables_kept_andThen tables_kept_for_each tables_kept_case_option
  tables_kept_if tables_kept_basic tables_kept_eligible

lemma tables_kept_check_lineage: "reading_sources rp \<Longrightarrow> tables_kept (check_lineage_sources rp c i t ss w rd)"
  unfolding check_lineage_sources_def reading_sources_def
  by (cases "rp_sources rp") (auto intro!: tables_kept_rules simp del: return_run)

lemma tables_kept_require_validated: "reading_sources rp \<Longrightarrow> tables_kept (require_validated rp c i t ss w v)"
  unfolding require_validated_def by (intro tables_kept_rules tables_kept_check_lineage)

lemma tables_kept_type: "tables_kept (artifact_type_of rp f)"
  unfolding artifact_type_of_def by (intro tables_kept_rules)

lemma tables_kept_content: "tables_kept (require_content rp f x)"
  unfolding require_content_def by (intro tables_kept_rules)

lemma tables_kept_check_new: "reading_sources rp \<Longrightarrow> tables_kept (check_new rp c i w items it)"
  unfolding check_new_def case_prod_beta
  by (intro tables_kept_rules tables_kept_require_validated tables_kept_type tables_kept_content)

lemma artifact_type_of_Inr [simp]: "artifact_type_of rp f s = (Inr t, u) \<longleftrightarrow> rp_by_family rp f = Some t \<and> u = s"
  by (auto simp: artifact_type_of_def split: option.split)

lemma require_content_Inr [simp]: "require_content rp f x s = (Inr y, u) \<longleftrightarrow> rp_content_types rp f = Some (model_class x) \<and> u = s"
  by (auto simp: require_content_def split: option.split)

section \<open>What a write does\<close>

lemma classify_collision_not_Inr: "classify_collision rp i ex items e s \<noteq> (Inr x, t)"
proof (induction items arbitrary: s)
  case (Cons it items)
  obtain a d v where "it = (a, d, v)" by (cases it)
  with Cons show ?case by (auto simp: bind_Inr_iff split: option.splits)
qed simp

text \<open>New lifecycles: bodies of revision one, with their heads.\<close>

definition created :: "'c catalog \<Rightarrow> 'c catalog \<Rightarrow> bool" where
  "created s t \<longleftrightarrow> (\<exists>bs. artifacts t = artifacts s @ bs \<and> (\<forall>b \<in> set bs. ar_revision b = 1)
     \<and> artifact_heads t = artifact_heads s @ map (\<lambda>b. new_head (ar_scope_id b) (ar_family b) (ar_artifact_id b) 1) bs)"

lemma insert_heads_Inr:
  assumes "for_each (map (\<lambda>a. new_head i (af_family a) (af_artifact_id a) 1) (map pr_artifact ps)) (sql_insert ARTIFACT_HEADS_TABLE) u = (Inr x, t)"
    and "list_all2 (prepared i) revs ps" and "artifacts u = artifacts s @ map pr_body ps" and "artifact_heads u = artifact_heads s"
    and "\<forall>x \<in> set revs. ref_revision (fst (snd x)) = 1"
  shows "created s t \<and> (store_ok u \<longrightarrow> store_ok t) \<and> lineage_artifacts t = lineage_artifacts u"
proof -
  have body: "ar_scope_id (pr_body p) = i \<and> ar_family (pr_body p) = af_family (pr_artifact p)
      \<and> ar_artifact_id (pr_body p) = af_artifact_id (pr_artifact p) \<and> ar_revision (pr_body p) = 1" if p: "p \<in> set ps" for p
  proof -
    from list_all2_right [OF assms(2) p] obtain x where x: "x \<in> set revs" "prepared i x p" by blast
    obtain ty r y l where "x = (ty, r, y, l)" by (cases x)
    with x assms(5) show ?thesis by (auto simp: prepared_def ref_key_def)
  qed
  note ins = artifact_heads_t.insert_many_Inr [OF assms(1)]
  have "map (\<lambda>a. new_head i (af_family a) (af_artifact_id a) 1) (map pr_artifact ps)
      = map (\<lambda>b. new_head (ar_scope_id b) (ar_family b) (ar_artifact_id b) 1) (map pr_body ps)"
    using body by simp
  with ins assms(3,4) body have "created s t"
    by (auto simp: created_def intro!: exI [of _ "map pr_body ps"])
  moreover have "store_ok t" if "store_ok u"
    using that ins by (auto simp: store_ok_def table_ok_def catalog_admits)
  ultimately show ?thesis using ins by auto
qed

lemma create_many_Inr:
  assumes "reading_sources rp" and "artifact_create_many rp c i items w s = (Inr as, t)"
  shows "created s t \<and> (store_ok s \<longrightarrow> store_ok t)"
proof -
  from assms(2) obtain revs u where revs: "collect (check_new rp c i w items) items s = (Inr revs, u)"
    and rest: "(if revs = [] then return [] else
       bind (catch (insert_revisions i revs) (\<lambda>e. e = IntegrityError) (\<lambda>e.
             bind (sql_select ARTIFACT_HEADS_TABLE (\<lambda>h. ah_scope_id h = i
                \<and> (ah_family h, ah_artifact_id h) \<in> (\<lambda>(a, d, _). (dr_family d, a)) ` set items)) (\<lambda>rows.
             classify_collision rp i (map (\<lambda>h. (ah_family h, ah_artifact_id h)) rows) items e))) (\<lambda>as.
     andThen (for_each (map (\<lambda>a. new_head i (af_family a) (af_artifact_id a) 1) as)
                (sql_insert ARTIFACT_HEADS_TABLE))
       (return as))) u = (Inr as, t)"
    by (auto simp: artifact_create_many_def require_artifact_scope_def exec_Inr_iffs)
  have "same_tables s u \<and> list_all2 (\<lambda>it (ty, r, y, l). ref_revision r = 1) items revs"
  proof (rule collect_Inr [OF revs])
    fix it s u r assume c: "check_new rp c i w items it s = (Inr r, u)"
    obtain a d v where it: "it = (a, d, v)" by (cases it)
    show "same_tables s u \<and> (case r of (ty, r, y, l) \<Rightarrow> ref_revision r = 1)"
      using tables_keptD [OF tables_kept_check_new [OF assms(1)] c] c
      by (auto simp: it check_new_def exec_Inr_iffs)
  qed (auto intro: same_tables_trans)
  then have su: "same_tables s u" and all: "list_all2 (\<lambda>it (ty, r, y, l). ref_revision r = 1) items revs" by auto
  have one: "\<forall>x \<in> set revs. ref_revision (fst (snd x)) = 1"
    using list_all2_right [OF all] by fastforce
  note eq = same_tables_rows [OF su]
  show ?thesis
  proof (cases "revs = []")
    case True
    with rest eq show ?thesis using same_tables_store [OF su] by (auto simp: created_def)
  next
    case False
    with rest obtain v as' where ins: "insert_revisions i revs u = (Inr as', v)"
      and h: "for_each (map (\<lambda>a. new_head i (af_family a) (af_artifact_id a) 1) as') (sql_insert ARTIFACT_HEADS_TABLE) v = (Inr (), t)"
      by (auto simp: exec_Inr_iffs catch_run classify_collision_not_Inr split: prod.splits sum.splits if_splits)
    from insert_revisions_Inr [OF ins] obtain ps where ps: "list_all2 (prepared i) revs ps" "as' = map pr_artifact ps"
      "artifacts v = artifacts u @ map pr_body ps" "artifact_heads v = artifact_heads u" "store_ok u \<longrightarrow> store_ok v" by blast
    have "created u t \<and> (store_ok v \<longrightarrow> store_ok t)"
      using insert_heads_Inr [OF h [unfolded ps(2)] ps(1,3,4) one] by blast
    then show ?thesis using ps(5) same_tables_store [OF su] eq by (auto simp: created_def)
  qed
qed

text \<open>A revision: one more body, one above the head, which moves to it.\<close>

definition revised :: "string \<Rightarrow> string \<Rightarrow> string \<Rightarrow> head_row \<Rightarrow> 'c model \<Rightarrow> 'c catalog \<Rightarrow> 'c catalog \<Rightarrow> bool" where
  "revised i f a h content s t \<longleftrightarrow> head_of s i f a = Some h \<and> ah_lifecycle_state h \<noteq> ''retired''
     \<and> (\<exists>b. artifacts t = artifacts s @ [b] \<and> artifact_pk_of b = (i, f, a, ah_revision h + 1) \<and> ar_content b = Encoded content
        \<and> artifact_heads t = artifact_heads (put_head (h\<lparr>ah_revision := ah_revision h + 1\<rparr>) s))"

lemma head_revision_update:
  assumes "heads_ok s" and "\<And>r. head_pk (F r) = head_pk r"
  shows "sql_update ARTIFACT_HEADS_TABLE (head_at_revision i f a n) F s = (case head_of s i f a of
       None \<Rightarrow> (Inr 0, s)
     | Some h \<Rightarrow> if ah_revision h \<noteq> n then (Inr 0, s)
         else if admits ARTIFACT_HEADS_TABLE s (F h) then (Inr 1, put_head (F h) s) else (Inl IntegrityError, s))"
  using assms by (subst artifact_heads_t.update_key [where k = "(i, f, a)"])
    (auto simp: head_at_revision_def head_key_pk dest: artifact_heads_t.lookup_key split: option.split)

lemma lock_head_run:
  assumes "heads_ok s"
  shows "sql_update ARTIFACT_HEADS_TABLE (head_at_revision i f a n) (\<lambda>h. h) s
    = (Inr (case head_of s i f a of None \<Rightarrow> 0 | Some h \<Rightarrow> if ah_revision h = n then 1 else 0), s)"
  using artifact_heads_t.count_keyed [OF assms, of "head_at_revision i f a n" "(i, f, a)"] assms
  by (subst artifact_heads_t.update_same) (auto simp: head_at_revision_def head_key_pk dest: artifact_heads_t.lookup_key split: option.splits)

lemma head_of_heads: "artifact_heads t = artifact_heads s \<Longrightarrow> head_of t i f a = head_of s i f a"
  by (simp add: lookup_row_def)

lemma put_head_heads: "artifact_heads t = artifact_heads s \<Longrightarrow> artifact_heads (put_head h t) = artifact_heads (put_head h s)"
  by (simp add: store_row_def lookup_row_def)

lemma store_ok_put_head: "store_ok s \<Longrightarrow> admits ARTIFACT_HEADS_TABLE s h \<Longrightarrow> store_ok (put_head h s)"
  using artifact_heads_t.table_ok_store [of s h]
  by (auto simp: store_ok_def store_row_def table_ok_def catalog_admits)

lemma require_revisable_Inr:
  "require_revisable i a rest h s = (Inr x, t) \<Longrightarrow> t = s \<and> ah_lifecycle_state h \<noteq> ''retired''
     \<and> (rest = None \<longrightarrow> ah_merged_into_id h = None)"
  by (auto simp: require_revisable_def exec_Inr_iffs split: option.splits if_splits)

lemma bind_raise_not_Inr: "bind m (\<lambda>x. raise (e x)) s \<noteq> (Inr y, t)"
  by (simp add: bind_Inr_iff)

lemma lock_revision_head_Inr:
  assumes ok: "heads_ok s" and run: "lock_revision_head rp i a s = (Inr h, t)"
  shows "t = s \<and> head_of s i (af_family a) (af_artifact_id a) = Some h \<and> ah_revision h = af_revision a"
proof -
  let ?h = "head_of s i (af_family a) (af_artifact_id a)"
  let ?n = "(case ?h of None \<Rightarrow> 0 | Some h \<Rightarrow> if ah_revision h = af_revision a then 1 else 0) :: nat"
  have head: "sql_one_or_none ARTIFACT_HEADS_TABLE (head_key i (af_family a) (af_artifact_id a)) s = (Inr ?h, s)"
    using artifact_heads_t.load_run [OF ok, of "head_key i (af_family a) (af_artifact_id a)"
        "(i, af_family a, af_artifact_id a)"] by (simp add: head_key_pk)
  have unfolded: "lock_revision_head rp i a s = andThen (if ?n \<noteq> 1
        then bind (artifact_latest rp i (af_family a) (af_artifact_id a) False None) (\<lambda>current.
             raise (RevisionConflict (raw_ref a) (raw_ref current)))
        else return ())
      (bind (sql_one_or_none ARTIFACT_HEADS_TABLE (head_key i (af_family a) (af_artifact_id a))) (\<lambda>head.
       case head of None \<Rightarrow> raise NoResultFound | Some h \<Rightarrow> return h)) s"
    by (simp add: lock_revision_head_def bind_run [of "sql_update _ _ _"] lock_head_run [OF ok])
  have one: "?n = 1"
  proof (rule ccontr)
    assume "?n \<noteq> 1"
    with run unfolded show False by (simp only: if_True andThen_Inr_iff bind_raise_not_Inr simp_thms)
  qed
  have "lock_revision_head rp i a s = (case ?h of None \<Rightarrow> (Inl NoResultFound, s) | Some h \<Rightarrow> (Inr h, s))"
    unfolding unfolded by (simp only: one) (simp add: andThen_run bind_run head split: option.split)
  with run one show ?thesis by (auto split: option.splits if_splits)
qed

text \<open>The revision after one, and the lineage of a draft.\<close>

definition next_ref :: "'c artifact \<Rightarrow> artifact_ref" where
  "next_ref a = \<lparr>ref_family = af_family a, ref_artifact_id = af_artifact_id a, ref_revision = af_revision a + 1\<rparr>"

definition draft_lineage :: "'c draft \<Rightarrow> artifact_lineage" where
  "draft_lineage d = \<lparr>li_sources = dr_sources d, li_artifacts = dr_artifacts d, li_publication_source = None,
     li_publication_digest = None\<rparr>"

lemma revise_stored:
  assumes src: "reading_sources rp" and ok: "store_ok s"
    and run: "revise_artifact rp c i a d rest w v s = (Inr x, t)"
  shows "\<exists>h ty p. revised i (af_family a) (af_artifact_id a) h (dr_content d) s t \<and> ah_revision h = af_revision a \<and> store_ok t
    \<and> (rest = None \<longrightarrow> ah_merged_into_id h = None)
    \<and> rp_by_family rp (af_family a) = Some ty \<and> rp_content_types rp (af_family a) = Some (model_class (dr_content d))
    \<and> prepared i (ty, next_ref a, dr_content d, draft_lineage d) p \<and> x = pr_artifact p
    \<and> artifacts t = artifacts s @ [pr_body p] \<and> publications t = publications s
    \<and> lineage_sources t = lineage_sources s @ pr_sources p \<and> lineage_artifacts t = lineage_artifacts s @ pr_artifact_refs p"
proof -
  let ?f = "af_family a" and ?a = "af_artifact_id a" and ?n = "af_revision a"
  let ?target = "next_ref a"
  note target = next_ref_def [of a]
  from run obtain ty u v' w' h where
      ty: "rp_by_family rp ?f = Some ty" "dr_family d = ?f" "rp_content_types rp (dr_family d) = Some (model_class (dr_content d))" and
      val: "require_validated rp c i ?target (dr_sources d) w v s = (Inr (), u)"
    and lk: "lock_revision_head rp i a u = (Inr h, v')"
    and rv: "require_revisable i a rest h v' = (Inr (), w')"
    and app: "append_revision i a ty ?target d w' = (Inr x, t)"
    by (auto simp: revise_artifact_def next_ref_def require_artifact_scope_def exec_Inr_iffs split: if_splits)
  have su: "same_tables s u" using tables_keptD [OF tables_kept_require_validated [OF src] val] .
  have uok: "store_ok u" using same_tables_store [OF su ok] .
  then have hu: "heads_ok u" by (simp add: store_ok_def)
  note locked = lock_revision_head_Inr [OF hu lk]
  then have n: "ah_revision h = ?n" and hd: "head_of u i ?f ?a = Some h" and v': "v' = u" by auto
  note rev = require_revisable_Inr [OF rv]
  from app obtain as y where ins: "insert_revisions i [(ty, ?target, dr_content d, draft_lineage d)] w' = (Inr as, y)"
    and adv: "sql_update ARTIFACT_HEADS_TABLE (head_at_revision i ?f ?a ?n) (\<lambda>h. h\<lparr>ah_revision := ?n + 1\<rparr>) y = (Inr 1, t)"
    and x: "x = as ! 0"
    by (auto simp: append_revision_def next_ref_def draft_lineage_def make_lineage_def exec_Inr_iffs split: if_splits)
  from insert_revisions_Inr [OF ins] obtain ps where ps: "list_all2 (prepared i) [(ty, ?target, dr_content d, draft_lineage d)] ps"
    "as = map pr_artifact ps" "artifacts y = artifacts w' @ map pr_body ps" "artifact_heads y = artifact_heads w'"
    "lineage_sources y = lineage_sources w' @ concat (map pr_sources ps)" "publications y = publications w'"
    "lineage_artifacts y = lineage_artifacts w' @ concat (map pr_artifact_refs ps)"
    "store_ok w' \<longrightarrow> store_ok y" by blast
  then obtain p where p: "ps = [p]" "prepared i (ty, ?target, dr_content d, draft_lineage d) p"
    by (auto simp: list_all2_Cons1)
  have yu: "artifact_heads y = artifact_heads u" "artifacts y = artifacts u @ [pr_body p]" and yok: "store_ok y"
    using ps(3,4,8) p rev v' uok by auto
  then have hy: "heads_ok y" by (simp add: store_ok_def)
  from adv have t: "admits ARTIFACT_HEADS_TABLE y (h\<lparr>ah_revision := ?n + 1\<rparr>)" "t = put_head (h\<lparr>ah_revision := ?n + 1\<rparr>) y"
    by (auto simp: head_revision_update [OF hy] head_of_heads [OF yu(1)] hd split: if_splits)
  note su' = same_tables_rows [OF su]
  have "revised i ?f ?a h (dr_content d) s t"
    unfolding revised_def
  proof (intro conjI exI [of _ "pr_body p"])
    show "head_of s i ?f ?a = Some h" using hd su' head_of_heads [of u s i ?f ?a] by simp
    show "artifacts t = artifacts s @ [pr_body p]" using t yu su' by (simp add: store_row_def)
    show "artifact_heads t = artifact_heads (put_head (h\<lparr>ah_revision := ah_revision h + 1\<rparr>) s)"
      using t(2) n yu(1) su' put_head_heads [of y s "h\<lparr>ah_revision := ?n + 1\<rparr>"] by simp
  qed (use rev p(2) n target in \<open>auto simp: prepared_def ref_key_def\<close>)
  moreover have "store_ok t" using store_ok_put_head [OF yok t(1)] t(2) by simp
  moreover have "artifacts t = artifacts s @ [pr_body p]" "publications t = publications s"
    "lineage_sources t = lineage_sources s @ pr_sources p" "lineage_artifacts t = lineage_artifacts s @ pr_artifact_refs p"
    using t(2) yu(2) su' ps(5-7) p(1) rev v' by (simp_all add: store_row_def)
  moreover have "x = pr_artifact p" using x ps(2) p by simp
  ultimately show ?thesis using rev n ty p(2) by (intro exI [of _ h] exI [of _ ty] exI [of _ p]) simp
qed

lemma revise_artifact_Inr:
  assumes "reading_sources rp" and "store_ok s" and "revise_artifact rp c i a d rest w v s = (Inr x, t)"
  shows "\<exists>h. revised i (af_family a) (af_artifact_id a) h (dr_content d) s t \<and> ah_revision h = af_revision a \<and> store_ok t"
  using revise_stored [OF assms] by blast

lemma copy_exact_Inr:
  assumes "copy_exact rp i a addr src dg s = (Inr x, t)"
  shows "created s t \<and> (store_ok s \<longrightarrow> store_ok t)"
proof -
  from assms obtain ty l as u ref where ref: "ref = \<lparr>ref_family = af_family src, ref_artifact_id = a, ref_revision = 1\<rparr>"
    and ins: "insert_revisions i [(ty, ref, af_content src, l)] s = (Inr as, u)"
    and h: "sql_insert ARTIFACT_HEADS_TABLE (new_head i (ref_family ref) (ref_artifact_id ref) (ref_revision ref)) u = (Inr (), t)"
    by (auto simp: copy_exact_def require_artifact_scope_def exec_Inr_iffs)
  from insert_revisions_Inr [OF ins] obtain ps where ps: "list_all2 (prepared i) [(ty, ref, af_content src, l)] ps"
    "artifacts u = artifacts s @ map pr_body ps" "artifact_heads u = artifact_heads s" "store_ok s \<longrightarrow> store_ok u" by blast
  then obtain p where p: "ps = [p]" "prepared i (ty, ref, af_content src, l) p" by (auto simp: list_all2_Cons1)
  have "for_each (map (\<lambda>a. new_head i (af_family a) (af_artifact_id a) 1) (map pr_artifact ps)) (sql_insert ARTIFACT_HEADS_TABLE) u = (Inr (), t)"
    using h p ref by (auto simp: andThen_run prepared_def)
  from insert_heads_Inr [OF this ps(1-3)] ps(4) ref show ?thesis by auto
qed

lemma preserves_lock_heads:
  assumes "heads_ok s"
  shows "preserves ((=) s) (lock_heads i refs)"
proof -
  have "preserves ((=) s) (require_present i sel)" for sel
    by (rule reads_only_preserves)
       (auto simp: require_present_def reads_only_def bind_run Let_def split: option.split)
  moreover have "preserves ((=) s) (sql_update ARTIFACT_HEADS_TABLE (heads_among i sel) (\<lambda>h. h))" for sel
    using assms by (intro preservesI) (simp add: artifact_heads_t.update_same)
  ultimately have "preserves ((=) s) (lock_batch i sel)" for sel
    unfolding lock_batch_def by (intro preserves_rules) (simp_all add: preserves_return)
  then show ?thesis
    unfolding lock_heads_def require_artifact_scope_def by (intro preserves_rules)
qed

lemma reads_only_active_input: "reads_only (require_active_input i x)"
  unfolding require_active_input_def case_prod_beta by (intro reads_only_bind reads_only_sql reads_only_basic)

lemma create_merge_result_Inr:
  assumes src: "reading_sources rp" and ok: "store_ok s" and run: "create_merge_result rp c i a d inputs v s = (Inr x, t)"
  shows "created s t \<and> store_ok t"
proof -
  from run obtain u w y n where lock: "lock_heads i (map fst inputs) s = (Inr (), u)"
    and act: "for_each inputs (require_active_input i) u = (Inr (), w)"
    and cr: "artifact_create rp c i a d False v w = (Inr x, y)"
    and upd: "sql_update ARTIFACT_LINEAGE_ARTIFACTS_TABLE
                (\<lambda>r. la_scope_id r = i \<and> la_family r = af_family x \<and> la_artifact_id r = af_artifact_id x
                   \<and> la_revision r = 1
                   \<and> (la_upstream_family r, la_upstream_artifact_id r, la_upstream_revision r) \<in> ref_key ` set (map fst inputs))
                (\<lambda>r. r\<lparr>la_is_merge_input := True\<rparr>) y = (Inr n, t)"
    by (auto simp: create_merge_result_def exec_Inr_iffs split: if_splits)
  have "u = s" using preservesE [OF preserves_lock_heads refl lock] ok by (simp add: store_ok_def)
  moreover have "w = u"
    using preservesE [OF preserves_for_each [of "(=) u" "require_active_input i" inputs] refl act]
      reads_only_active_input by (auto intro: reads_only_preserves)
  ultimately have "created s y \<and> store_ok y"
    using create_many_Inr [OF src, of c i "[(a, d, v)]" False w] cr ok by (auto simp: artifact_create_def exec_Inr_iffs)
  moreover obtain z where "t = y\<lparr>lineage_artifacts := z\<rparr>"
    using upd by (auto simp: sql_update_def Let_def split: if_splits)
  then have "artifacts t = artifacts y" "artifact_heads t = artifact_heads y" "lineage_sources t = lineage_sources y"
    "publications t = publications y" "source_ids t = source_ids y"
    by simp_all
  moreover have "table_ok ARTIFACT_LINEAGE_ARTIFACTS_TABLE t" if "store_ok y"
    using preservesE [OF lineage_artifacts_t.preserves_table_ok(3) _ upd] that by (simp add: store_ok_def)
  ultimately show ?thesis
    by (auto simp: created_def store_ok_def table_ok_def catalog_admits revision_exists_def)
qed

section \<open>Lifecycles\<close>

text \<open>
  The operations on artifacts, each in its own transaction, and the governance transitions
  between them, in any order and with any arguments.
\<close>

inductive lifecycle_step :: "'c artifact_repository \<Rightarrow> 'c catalog \<Rightarrow> 'c catalog \<Rightarrow> bool" for rp where
  create: "lifecycle_step rp s (snd (transaction (artifact_create_many rp c i items w) s))"
| revise: "lifecycle_step rp s (snd (transaction (artifact_revise rp c i a d w v) s))"
| restore: "lifecycle_step rp s (snd (transaction (revise_for_restoration rp c i a d g v) s))"
| merge: "lifecycle_step rp s (snd (transaction (create_merge_result rp c i a' d inputs v) s))"
| copy: "lifecycle_step rp s (snd (transaction (copy_exact rp i a' addr src dg) s))"
| govern: "governance_step s t \<Longrightarrow> lifecycle_step rp s t"

inductive_cases lifecycle_stepE: "lifecycle_step rp s t"

text \<open>What a step may do.\<close>

definition lifecycle_effect :: "'c catalog \<Rightarrow> 'c catalog \<Rightarrow> bool" where
  "lifecycle_effect s t \<longleftrightarrow> t = s \<or> (created s t \<and> store_ok t)
     \<or> (\<exists>i f a h content. revised i f a h content s t \<and> store_ok t)
     \<or> (\<exists>i f a h st merged rep. moved s i f a h st merged rep t)"

lemma transaction_effect:
  assumes "\<And>x t. m s = (Inr x, t) \<Longrightarrow> lifecycle_effect s t"
  shows "lifecycle_effect s (snd (transaction m s))"
  using assms by (auto simp: transaction_run lifecycle_effect_def split: prod.split sum.split)

lemma lifecycle_effects:
  assumes "reading_sources rp" and "store_ok s"
  shows "lifecycle_effect s (snd (transaction (artifact_create_many rp c i items w) s))"
    "lifecycle_effect s (snd (transaction (artifact_revise rp c i a d w v) s))"
    "lifecycle_effect s (snd (transaction (revise_for_restoration rp c i a d g v) s))"
    "lifecycle_effect s (snd (transaction (create_merge_result rp c i a' d inputs v) s))"
    "lifecycle_effect s (snd (transaction (copy_exact rp i a' addr src dg) s))"
proof -
  show "lifecycle_effect s (snd (transaction (artifact_create_many rp c i items w) s))"
    using create_many_Inr [OF assms(1)] assms(2) by (intro transaction_effect) (auto simp: lifecycle_effect_def)
  show "lifecycle_effect s (snd (transaction (artifact_revise rp c i a d w v) s))"
    by (intro transaction_effect) (auto simp: lifecycle_effect_def artifact_revise_def dest!: revise_artifact_Inr [OF assms])
  show "lifecycle_effect s (snd (transaction (revise_for_restoration rp c i a d g v) s))"
    by (intro transaction_effect)
       (auto simp: lifecycle_effect_def revise_for_restoration_def exec_Inr_iffs split: if_splits dest!: revise_artifact_Inr [OF assms])
  show "lifecycle_effect s (snd (transaction (create_merge_result rp c i a' d inputs v) s))"
    using create_merge_result_Inr [OF assms] by (intro transaction_effect) (auto simp: lifecycle_effect_def)
  show "lifecycle_effect s (snd (transaction (copy_exact rp i a' addr src dg) s))"
    using assms(2) by (intro transaction_effect) (auto simp: lifecycle_effect_def dest!: copy_exact_Inr)
qed

lemma lifecycle_step_effect:
  assumes "reading_sources rp" and "store_ok s" and "lifecycle_step rp s t"
  shows "lifecycle_effect s t"
  using assms(3)
proof (elim lifecycle_stepE)
  assume "governance_step s t"
  then show ?thesis
    using governance_step_effect [of s t] assms(2) by (auto simp: lifecycle_effect_def store_ok_def)
qed (simp_all add: lifecycle_effects [OF assms(1,2)])

lemma moved_store_ok: "moved s i f a h st merged rep t \<Longrightarrow> store_ok s \<Longrightarrow> store_ok t"
  by (auto simp: moved_def intro: store_ok_put_head)

lemma lifecycle_effect_ok: "lifecycle_effect s t \<Longrightarrow> store_ok s \<Longrightarrow> store_ok t"
  by (auto simp: lifecycle_effect_def dest: moved_store_ok)

lemma body_kept: "artifacts t = artifacts s @ bs \<Longrightarrow> body_of s i f a n = Some b \<Longrightarrow> body_of t i f a n = Some b"
  by (simp add: lookup_row_def find_append)

lemma set_put_head:
  assumes "head_of s i f a = Some h" and "head_pk g = (i, f, a)"
  shows "set (artifact_heads (put_head g s)) = insert g {x \<in> set (artifact_heads s). head_pk x \<noteq> (i, f, a)}"
  using artifact_heads_t.lookup_key [OF assms(1)] assms artifact_heads_t.rows_store [of g s]
  by (auto simp: set_update_rows image_iff)

text \<open>Stored revisions are numbered from one to the head, without a gap.\<close>

definition contiguous :: "'c catalog \<Rightarrow> bool" where
  "contiguous s \<longleftrightarrow>
     (\<forall>b \<in> set (artifacts s). \<exists>h \<in> set (artifact_heads s). head_pk h = (ar_scope_id b, ar_family b, ar_artifact_id b)
        \<and> 1 \<le> ar_revision b \<and> ar_revision b \<le> ah_revision h)
     \<and> (\<forall>h \<in> set (artifact_heads s). 1 \<le> ah_revision h \<and> (\<forall>n. 1 \<le> n \<longrightarrow> n \<le> ah_revision h \<longrightarrow>
          revision_exists s (ah_scope_id h, ah_family h, ah_artifact_id h, n)))"

lemma revision_exists_more: "artifacts t = artifacts s @ bs \<Longrightarrow> revision_exists s k \<Longrightarrow> revision_exists t k"
  by (auto simp: revision_exists_def)

lemma revision_exists_new: "artifacts t = artifacts s @ bs \<Longrightarrow> b \<in> set bs \<Longrightarrow> revision_exists t (artifact_pk_of b)"
  by (auto simp: revision_exists_def)

lemma created_contiguous:
  assumes "contiguous s" and "created s t"
  shows "contiguous t"
proof -
  from assms(2) obtain bs where bs: "artifacts t = artifacts s @ bs" "\<forall>b \<in> set bs. ar_revision b = 1"
    "artifact_heads t = artifact_heads s @ map (\<lambda>b. new_head (ar_scope_id b) (ar_family b) (ar_artifact_id b) 1) bs"
    by (auto simp: created_def)
  have "\<exists>h \<in> set (artifact_heads t). head_pk h = (ar_scope_id b, ar_family b, ar_artifact_id b)
      \<and> 1 \<le> ar_revision b \<and> ar_revision b \<le> ah_revision h" if "b \<in> set (artifacts t)" for b
  proof (cases "b \<in> set bs")
    case True
    then have "new_head (ar_scope_id b) (ar_family b) (ar_artifact_id b) 1 \<in> set (artifact_heads t)"
      using bs(3) by simp
    with True bs(2) show ?thesis by (intro bexI) (auto simp: new_head_def)
  next
    case False
    then have "b \<in> set (artifacts s)" using that bs(1) by simp
    with assms(1) bs(3) show ?thesis by (fastforce simp: contiguous_def)
  qed
  moreover have "revision_exists t (ah_scope_id h, ah_family h, ah_artifact_id h, n)"
    if h: "h \<in> set (artifact_heads t)" and n: "1 \<le> n" "n \<le> ah_revision h" for h n
  proof (cases "h \<in> set (artifact_heads s)")
    case True
    with assms(1) n have "revision_exists s (ah_scope_id h, ah_family h, ah_artifact_id h, n)" by (simp add: contiguous_def)
    then show ?thesis by (rule revision_exists_more [OF bs(1)])
  next
    case False
    with h bs(3) obtain b where b: "b \<in> set bs" "h = new_head (ar_scope_id b) (ar_family b) (ar_artifact_id b) 1" by auto
    with n bs(2) revision_exists_new [OF bs(1) b(1)] show ?thesis by (simp add: new_head_def)
  qed
  moreover have "1 \<le> ah_revision h" if "h \<in> set (artifact_heads t)" for h
    using that assms(1) bs(3) by (auto simp: contiguous_def new_head_def)
  ultimately show ?thesis by (simp add: contiguous_def)
qed

lemma contiguous_move:
  assumes ok: "heads_ok s" and c: "contiguous s" and h: "head_of s i f a = Some h" and g: "head_pk g = (i, f, a)"
    and heads: "artifact_heads t = artifact_heads (put_head g s)" and bodies: "artifacts t = artifacts s @ bs"
    and new: "\<forall>b \<in> set bs. artifact_pk_of b = (i, f, a, ah_revision h + 1)"
    and rev: "ah_revision g = ah_revision h + int (length bs)" "length bs \<le> 1"
  shows "contiguous t"
proof -
  note hk = artifact_heads_t.lookup_key [OF h]
  then have pos: "1 \<le> ah_revision h" using c by (auto simp: contiguous_def)
  have set_t: "set (artifact_heads t) = insert g {x \<in> set (artifact_heads s). head_pk x \<noteq> (i, f, a)}"
    using set_put_head [OF h g] heads by simp
  have up: "ah_revision x \<le> ah_revision g" if "x \<in> set (artifact_heads s)" "head_pk x = (i, f, a)" for x
    using artifact_heads_t.row_unique [OF ok, of x h] that hk rev(1) by auto
  have old: "\<exists>k \<in> set (artifact_heads t). head_pk k = (ar_scope_id b, ar_family b, ar_artifact_id b)
      \<and> 1 \<le> ar_revision b \<and> ar_revision b \<le> ah_revision k" if b: "b \<in> set (artifacts s)" for b
  proof -
    from c b obtain x where x: "x \<in> set (artifact_heads s)" "head_pk x = (ar_scope_id b, ar_family b, ar_artifact_id b)"
      "1 \<le> ar_revision b" "ar_revision b \<le> ah_revision x" by (auto simp: contiguous_def)
    show ?thesis
    proof (cases "head_pk x = (i, f, a)")
      case True
      with up [OF x(1) True] x g set_t show ?thesis by (intro bexI [of _ g]) auto
    next
      case False
      with x set_t show ?thesis by (intro bexI [of _ x]) auto
    qed
  qed
  have fresh: "\<exists>k \<in> set (artifact_heads t). head_pk k = (ar_scope_id b, ar_family b, ar_artifact_id b)
      \<and> 1 \<le> ar_revision b \<and> ar_revision b \<le> ah_revision k" if b: "b \<in> set bs" for b
  proof -
    from b rev(2) have "bs = [b]" by (cases bs) auto
    with new rev(1) pos g set_t show ?thesis by (intro bexI [of _ g]) auto
  qed
  have filled: "revision_exists t (i, f, a, n)" if n: "1 \<le> n" "n \<le> ah_revision g" for n
  proof (cases "n \<le> ah_revision h")
    case True
    with c hk n have "revision_exists s (i, f, a, n)" by (auto simp: contiguous_def)
    then show ?thesis by (rule revision_exists_more [OF bodies])
  next
    case False
    with n rev obtain b where "bs = [b]" by (cases bs) auto
    with False n rev have "n = ah_revision h + 1" by simp
    with \<open>bs = [b]\<close> new revision_exists_new [OF bodies, of b] show ?thesis by auto
  qed
  show ?thesis
    unfolding contiguous_def
  proof (intro conjI ballI allI impI)
    fix b assume "b \<in> set (artifacts t)"
    then show "\<exists>k \<in> set (artifact_heads t). head_pk k = (ar_scope_id b, ar_family b, ar_artifact_id b)
      \<and> 1 \<le> ar_revision b \<and> ar_revision b \<le> ah_revision k" using bodies old fresh by auto
  next
    fix x assume "x \<in> set (artifact_heads t)"
    then show "1 \<le> ah_revision x" using set_t rev(1) pos c by (auto simp: contiguous_def)
  next
    fix x n assume x: "x \<in> set (artifact_heads t)" and n: "1 \<le> n" "n \<le> ah_revision x"
    show "revision_exists t (ah_scope_id x, ah_family x, ah_artifact_id x, n)"
    proof (cases "x = g")
      case True
      with filled [of n] n g show ?thesis by auto
    next
      case False
      with x set_t have "x \<in> set (artifact_heads s)" by simp
      with c n have "revision_exists s (ah_scope_id x, ah_family x, ah_artifact_id x, n)" by (simp add: contiguous_def)
      then show ?thesis by (rule revision_exists_more [OF bodies])
    qed
  qed
qed

lemma lifecycle_effect_contiguous:
  assumes ok: "store_ok s" and c: "contiguous s" and "lifecycle_effect s t"
  shows "contiguous t"
proof -
  have ho: "heads_ok s" using ok by (simp add: store_ok_def)
  have "contiguous t" if r: "revised i f a h content s t" for i f a h content
  proof -
    from r obtain b where "artifacts t = artifacts s @ [b]" "artifact_pk_of b = (i, f, a, ah_revision h + 1)"
      "artifact_heads t = artifact_heads (put_head (h\<lparr>ah_revision := ah_revision h + 1\<rparr>) s)" "head_of s i f a = Some h"
      by (auto simp: revised_def)
    then show ?thesis
      using artifact_heads_t.lookup_key [of s "(i, f, a)" h]
      by (intro contiguous_move [OF ho c, where h = h and g = "h\<lparr>ah_revision := ah_revision h + 1\<rparr>" and bs = "[b]"]) auto
  qed
  moreover have "contiguous t" if m: "moved s i f a h st merged rep t" for i f a h st merged rep
    using m artifact_heads_t.lookup_key [of s "(i, f, a)" h]
    by (intro contiguous_move [OF ho c, where h = h and g = "governed st merged rep (ah_governance_generation h + 1) h" and bs = "[]"])
       (auto simp: moved_def governed_def store_row_def)
  ultimately show ?thesis
    using assms(2,3) created_contiguous by (auto simp: lifecycle_effect_def)
qed

lemma lifecycle_effect_bodies: "lifecycle_effect s t \<Longrightarrow> \<exists>bs. artifacts t = artifacts s @ bs"
  by (auto simp: lifecycle_effect_def created_def revised_def moved_def store_row_def)

section \<open>Artifact lifecycles as registers\<close>

text \<open>The current revision of an artifact, and its stored body.\<close>

abbreviation (input) current_of ::
  "string \<Rightarrow> string \<Rightarrow> string \<Rightarrow> 'c catalog \<Rightarrow> (int \<times> 'c artifact_row option) option" where
  "current_of i f a s \<equiv> map_option (\<lambda>h. (ah_revision h, body_of s i f a (ah_revision h))) (head_of s i f a)"

abbreviation (input) lifecycle_ok :: "'c artifact_repository \<Rightarrow> 'c catalog \<Rightarrow> bool" where
  "lifecycle_ok rp s \<equiv> store_ok s \<and> contiguous s \<and> reading_sources rp"

lemma head_kept: "created s t \<Longrightarrow> head_of s i f a = Some h \<Longrightarrow> head_of t i f a = Some h"
  by (auto simp: created_def lookup_row_def find_append)

lemma current_body:
  assumes "contiguous s" and "head_of s i f a = Some h"
  shows "body_of s i f a (ah_revision h) \<noteq> None"
  using assms(1) artifact_heads_t.lookup_key [OF assms(2)] by (auto simp: contiguous_def revision_exists_body)

lemma revised_lookup:
  assumes "revised i f a h content s t"
  shows "head_of t i' f' a' = (if (i', f', a') = (i, f, a) then Some (h\<lparr>ah_revision := ah_revision h + 1\<rparr>) else head_of s i' f' a')"
proof -
  let ?g = "h\<lparr>ah_revision := ah_revision h + 1\<rparr>"
  have h: "head_of s i f a = Some h" and heads: "artifact_heads t = artifact_heads (put_head ?g s)"
    using assms by (auto simp: revised_def)
  have "head_of t i' f' a' = head_of (put_head ?g s) i' f' a'" by (rule head_of_heads [OF heads])
  then show ?thesis
    using artifact_heads_t.lookup_key [OF h] by (auto simp: artifact_heads_t.lookup_store)
qed


interpretation lifecycles: versioned_register "lifecycle_ok rp" "lifecycle_step rp" "current_of i f a"
  for rp :: "'c artifact_repository" and i f a
proof
  fix s t :: "'c catalog"
  assume "lifecycle_ok rp s" and "lifecycle_step rp s t"
  then show "lifecycle_ok rp t"
    using lifecycle_step_effect lifecycle_effect_ok lifecycle_effect_contiguous by blast
next
  fix s t :: "'c catalog" and v c
  assume ok: "lifecycle_ok rp s" and st: "lifecycle_step rp s t" and cu: "current_of i f a s = Some (v, c)"
  then obtain h where h: "head_of s i f a = Some h" "v = ah_revision h" "c = body_of s i f a v" by auto
  have eff: "lifecycle_effect s t" using lifecycle_step_effect ok st by blast
  obtain b where b: "body_of s i f a v = Some b" using current_body [OF _ h(1)] ok h(2) by auto
  obtain bs where "artifacts t = artifacts s @ bs" using lifecycle_effect_bodies [OF eff] by blast
  from body_kept [OF this b] have same: "body_of t i f a v = c" using h(3) b by simp
  from eff consider "t = s" | "created s t"
    | i' f' a' h' content where "revised i' f' a' h' content s t"
    | i' f' a' h' st merged rep where "moved s i' f' a' h' st merged rep t"
    by (auto simp: lifecycle_effect_def)
  then show "current_of i f a t = Some (v, c) \<or> (\<exists>v' c'. current_of i f a t = Some (v', c') \<and> v < v')"
  proof cases
    case 1
    with cu show ?thesis by simp
  next
    case 2
    with head_kept [OF 2 h(1)] same h show ?thesis by simp
  next
    case 3
    with revised_lookup [OF 3, of i f a] same h show ?thesis
      by (cases "(i, f, a) = (i', f', a')") (auto simp: revised_def)
  next
    case 4
    with moved_lookup [OF 4, of i f a] same h show ?thesis
      by (cases "(i, f, a) = (i', f', a')") (auto simp: moved_def governed_def)
  qed
qed

lemma artifact_revise_Inr:
  assumes "lifecycle_ok rp s" and "transaction (artifact_revise rp c i a d w v) s = (Inr x, t)"
  shows "\<exists>h. revised i (af_family a) (af_artifact_id a) h (dr_content d) s t \<and> ah_revision h = af_revision a"
    and "lifecycle_step rp s t"
proof -
  from assms(2) have "revise_artifact rp c i a d None w v s = (Inr x, t)"
    by (auto simp: transaction_run artifact_revise_def split: prod.splits sum.splits)
  with assms(1) show "\<exists>h. revised i (af_family a) (af_artifact_id a) h (dr_content d) s t \<and> ah_revision h = af_revision a"
    using revise_artifact_Inr by blast
  show "lifecycle_step rp s t" using lifecycle_step.revise [of rp s c i a d w v] assms(2) by simp
qed

lemma transaction_failed: "(\<And>x t. transaction m s \<noteq> (Inr x, t)) \<Longrightarrow> \<exists>e. transaction m s = (Inl e, s)"
  by (cases "m s"; cases "fst (m s)") (auto simp: transaction_run)

lemma retired_lifecycle_step:
  assumes "store_ok s" and "reading_sources rp" and "lifecycle_step rp s t"
    and h: "head_of s i f a = Some h" "ah_lifecycle_state h = ''retired''"
  shows "\<exists>h'. head_of t i f a = Some h' \<and> ah_lifecycle_state h' = ''retired'' \<and> ah_revision h' = ah_revision h"
proof -
  have eff: "lifecycle_effect s t" using lifecycle_step_effect assms(1-3) by blast
  then consider "t = s" | "created s t"
    | i' f' a' h' content where "revised i' f' a' h' content s t"
    | i' f' a' h' st merged rep where "moved s i' f' a' h' st merged rep t"
    by (auto simp: lifecycle_effect_def)
  then show ?thesis
  proof cases
    case 3
    with revised_lookup [OF 3, of i f a] h show ?thesis
      by (cases "(i, f, a) = (i', f', a')") (auto simp: revised_def)
  next
    case 4
    with moved_lookup [OF 4, of i f a] h show ?thesis
      by (cases "(i, f, a) = (i', f', a')") (auto simp: moved_def governed_def)
  next
    case 2
    with h head_kept [OF 2 h(1)] show ?thesis by blast
  qed (use h in auto)
qed

lemma retired_run:
  assumes "(lifecycle_step rp)\<^sup>*\<^sup>* s t" and "lifecycle_ok rp s"
    and "head_of s i f a = Some h" and "ah_lifecycle_state h = ''retired''"
  shows "\<exists>h'. head_of t i f a = Some h' \<and> ah_lifecycle_state h' = ''retired'' \<and> ah_revision h' = ah_revision h"
  using assms
proof (induction rule: rtranclp_induct)
  case base
  then show ?case by simp
next
  case (step t u)
  from step.IH [OF step.prems] obtain h' where "head_of t i f a = Some h'" "ah_lifecycle_state h' = ''retired''"
    "ah_revision h' = ah_revision h" by blast
  with retired_lifecycle_step [of t rp u i f a h'] lifecycles.run_ok [OF step.hyps(1) step.prems(1)] step.hyps(2) show ?case by auto
qed

lemma lifecycle_bodies:
  assumes "(lifecycle_step rp)\<^sup>*\<^sup>* s t" and "lifecycle_ok rp s"
  shows "\<exists>bs. artifacts t = artifacts s @ bs"
  using assms
proof (induction rule: rtranclp_induct)
  case (step t u)
  have "lifecycle_ok rp t" using lifecycles.run_ok [OF step.hyps(1) step.prems] .
  then have "lifecycle_effect t u" using lifecycle_step_effect step.hyps(2) by blast
  from lifecycle_effect_bodies [OF this] step.IH [OF step.prems] show ?case by auto
qed simp

text \<open>A repository of skills, and revisions of one.\<close>

definition skills :: "unit artifact_repository" where
  "skills = \<lparr>rp_by_family = [''skill'' \<mapsto> \<lparr>at_name = ''SkillArtifact'', at_family = ''skill'', at_content = Some ''Skill''\<rparr>],
     rp_content_types = [''skill'' \<mapsto> ''Skill''], rp_sources = None\<rparr>"

definition skill_revision :: "string \<Rightarrow> int \<Rightarrow> unit artifact" where
  "skill_revision a n = \<lparr>af_type = ''SkillArtifact'', af_family = ''skill'', af_artifact_id = a, af_revision = n,
     af_content = Model ''Skill'' (), af_lineage = \<lparr>li_sources = [], li_artifacts = [], li_publication_source = None,
       li_publication_digest = None\<rparr>, af_meta = no_meta\<rparr>"

definition skill_draft :: "unit draft" where
  "skill_draft = \<lparr>dr_family = ''skill'', dr_content = Model ''Skill'' (), dr_sources = [], dr_artifacts = []\<rparr>"

definition outer :: connection where
  "outer = \<lparr>cn_id = 0, cn_transaction = Some 0, cn_nested = None\<rparr>"

lemma skills_reading: "reading_sources skills"
  by (simp add: reading_sources_def skills_def)

lemma one_skill_ok:
  assumes "state \<in> {''active'', ''retired''}"
  shows "store_ok (catalog_of [skill_head ''a'' state None 0])" "contiguous (catalog_of [skill_head ''a'' state None 0])"
  using assms by (auto simp: catalog_of_simps store_ok_def contiguous_def)

section \<open>Reading back what was written\<close>

text \<open>Every lineage row and every publication names a stored revision, as the foreign keys require.\<close>

definition anchored :: "'c catalog \<Rightarrow> bool" where
  "anchored s \<longleftrightarrow>
     (\<forall>r \<in> set (lineage_sources s). revision_exists s (ls_scope_id r, ls_family r, ls_artifact_id r, ls_revision r))
     \<and> (\<forall>r \<in> set (lineage_artifacts s). revision_exists s (la_scope_id r, la_family r, la_artifact_id r, la_revision r))
     \<and> (\<forall>r \<in> set (publications s). revision_exists s (publication_target r))"

lemma filter_none: "(\<And>x. x \<in> set xs \<Longrightarrow> \<not> P x) \<Longrightarrow> filter P xs = []"
  by (auto simp: filter_empty_conv)

lemma batches_one: "0 < n \<Longrightarrow> batches n [x] = [[x]]"
  by (subst batches.simps, subst batches.simps) (cases n, simp_all)

lemma each_result_enumerate:
  "(\<And>n x. x \<in> set xs \<Longrightarrow> f (g n x) = Inr x) \<Longrightarrow> each_result f (map (\<lambda>(n, x). g n x) (enumerate m xs)) = Inr xs"
  by (induction xs arbitrary: m) (auto simp: enumerate_simps)

lemma sorted_enumerated:
  assumes "\<And>n x. k (f n x) = n"
  shows "sort_key k (map (\<lambda>(n, x). f n x) (enumerate m xs)) = map (\<lambda>(n, x). f n x) (enumerate m xs)"
proof (rule sort_key_id_if_sorted)
  have "map k (map (\<lambda>(n, x). f n x) (enumerate m xs)) = map fst (enumerate m xs)"
    using assms by (simp only: map_map o_def case_prod_beta)
  then show "sorted (map k (map (\<lambda>(n, x). f n x) (enumerate m xs)))" by simp
qed

lemma source_rows_read:
  assumes "\<forall>r \<in> set (lineage_sources s). (ls_scope_id r, ls_family r, ls_artifact_id r, ls_revision r) \<noteq> (i, ref_key ref)"
    and "lineage_sources t = lineage_sources s @ source_rows i ref ss" and "\<forall>r \<in> set ss. source_ref_ok r"
  shows "each_result (\<lambda>r. make_source_ref (ls_source_type r) (ls_source_id r)) (source_rows_of t i (ref_key ref)) = Inr ss"
proof -
  let ?mine = "\<lambda>r. ls_scope_id r = i \<and> (ls_family r, ls_artifact_id r, ls_revision r) = ref_key ref"
  have "filter ?mine (lineage_sources s) = []" using assms(1) by (intro filter_none) auto
  moreover have "filter ?mine (source_rows i ref ss) = source_rows i ref ss"
    by (auto simp: source_rows_def ref_key_def intro!: filter_True)
  ultimately have "source_rows_of t i (ref_key ref) = sort_key ls_ordinal (source_rows i ref ss)"
    by (simp add: source_rows_of_def assms(2))
  also have "\<dots> = source_rows i ref ss"
    unfolding source_rows_def by (rule sorted_enumerated) simp
  finally show ?thesis
    using assms(3) by (simp only: source_rows_def) (rule each_result_enumerate, simp)
qed

lemma upstream_rows_read:
  assumes "\<forall>r \<in> set (lineage_artifacts s). (la_scope_id r, la_family r, la_artifact_id r, la_revision r) \<noteq> (i, ref_key ref)"
    and "lineage_artifacts t = lineage_artifacts s @ upstream_rows i ref us" and "\<forall>r \<in> set us. artifact_ref_ok r"
  shows "each_result (\<lambda>r. make_artifact_ref (la_upstream_family r) (la_upstream_artifact_id r) (la_upstream_revision r))
    (upstream_rows_of t i (ref_key ref)) = Inr us"
proof -
  let ?mine = "\<lambda>r. la_scope_id r = i \<and> (la_family r, la_artifact_id r, la_revision r) = ref_key ref"
  have "filter ?mine (lineage_artifacts s) = []" using assms(1) by (intro filter_none) auto
  moreover have "filter ?mine (upstream_rows i ref us) = upstream_rows i ref us"
    by (auto simp: upstream_rows_def ref_key_def intro!: filter_True)
  ultimately have "upstream_rows_of t i (ref_key ref) = sort_key la_ordinal (upstream_rows i ref us)"
    by (simp add: upstream_rows_of_def assms(2))
  also have "\<dots> = upstream_rows i ref us"
    unfolding upstream_rows_def by (rule sorted_enumerated) simp
  finally show ?thesis
    using assms(3) by (simp only: upstream_rows_def) (rule each_result_enumerate, simp)
qed

lemma provenance_none:
  assumes "m (i, k) = None"
  shows "load_publication_provenance_many i [k] m s = (Inr (\<lambda>k'. if k' = k then Some (None, None) else None), s)"
proof -
  have "batches 100 ([] :: artifact_pk list) = []" by (subst batches.simps) simp
  with assms show ?thesis
    by (simp add: load_publication_provenance_many_def visit_def new_path_def numeral_2_eq_2 fun_eq_iff exec_simps)
qed

lemma load_lineage_one:
  assumes "each_result (\<lambda>r. make_source_ref (ls_source_type r) (ls_source_id r)) (source_rows_of t i k) = Inr ss"
    and "each_result (\<lambda>r. make_artifact_ref (la_upstream_family r) (la_upstream_artifact_id r) (la_upstream_revision r))
      (upstream_rows_of t i k) = Inr us"
    and "\<forall>r \<in> set (publications t). publication_target r \<noteq> (i, k)"
  shows "load_lineage_many i [k] t = (Inr [k \<mapsto> \<lparr>li_sources = ss, li_artifacts = us, li_publication_source = None,
     li_publication_digest = None\<rparr>], t)"
proof -
  have "sql_select ARTIFACT_PUBLICATIONS_TABLE (\<lambda>r. publication_target r \<in> (\<lambda>k. (i, k)) ` set [k]) t = (Inr [], t)"
    using assms(3) by (auto simp: filter_empty_conv)
  moreover have "load_publication_provenance_many i [k] (record_publications [] Map.empty) t
      = (Inr (\<lambda>k'. if k' = k then Some (None, None) else None), t)"
    by (rule provenance_none) (simp add: record_publications_def)
  ultimately show ?thesis
    using assms(1,2) by (simp add: load_lineage_many_def bind_run make_lineage_def)
qed

lemma decode_prepared:
  assumes "prepared i (ty, ref, content, lineage) p" and "rp_by_family rp (ref_family ref) = Some ty"
    and "rp_content_types rp (ref_family ref) = Some (model_class content)" and "1 \<le> ref_revision ref"
  shows "decode_artifact rp (pr_body p) lineage t = (Inr (pr_artifact p), t)"
proof -
  obtain f a n where ref: "ref = \<lparr>ref_family = f, ref_artifact_id = a, ref_revision = n\<rparr>" by (cases ref)
  have body: "ar_family (pr_body p) = f" "ar_artifact_id (pr_body p) = a" "ar_revision (pr_body p) = n"
    "ar_content (pr_body p) = Encoded content"
    using assms(1) by (auto simp: prepared_def ref ref_key_def)
  have ok: "artifact_ref_ok \<lparr>ref_family = f, ref_artifact_id = a, ref_revision = n\<rparr>" and ty: "at_content ty = Some (model_class content)" "at_family ty = f"
    and p: "pr_artifact p = \<lparr>af_type = at_name ty, af_family = f, af_artifact_id = a, af_revision = n,
      af_content = content, af_lineage = lineage, af_meta = meta_from_row (pr_body p)\<rparr>"
    using assms(1) by (auto simp: prepared_def ref)
  have "make_artifact_ref f a n = Inr \<lparr>ref_family = f, ref_artifact_id = a, ref_revision = n\<rparr>"
    using ok by simp
  moreover have "make_artifact ty a n content lineage = Inr \<lparr>af_type = at_name ty, af_family = f, af_artifact_id = a,
      af_revision = n, af_content = content, af_lineage = lineage, af_meta = no_meta\<rparr>"
    using ok ty assms(4) by (simp add: make_artifact_def artifact_ref_ok_def ref)
  moreover have "decode_content rp (pr_body p) t = (Inr content, t)"
    using assms(2,3) body by (simp add: decode_content_def artifact_type_of_def andThen_run load_model_def ref)
  moreover have "artifact_type_of rp f t = (Inr ty, t)" using assms(2) by (simp add: ref)
  ultimately show ?thesis
    using body by (simp add: decode_artifact_def bind_run as_ref_def andThen_run p del: artifact_type_of_Inr make_artifact_ref_Inr)
qed

lemma get_prepared:
  assumes p: "prepared i (ty, ref, content, lineage) p" and fam: "rp_by_family rp (ref_family ref) = Some ty"
    "rp_content_types rp (ref_family ref) = Some (model_class content)" and "1 \<le> ref_revision ref"
    and scope: "require_artifact_scope i t = (Inr (), t)"
    and row: "filter (\<lambda>r. ar_scope_id r = i \<and> row_key r = ref_key ref) (artifacts t) = [pr_body p]"
    and lin: "load_lineage_many i [ref_key ref] t = (Inr [ref_key ref \<mapsto> lineage], t)"
  shows "artifact_get rp i ref False t = (Inr (pr_artifact p), t)"
proof -
  have k: "row_key (pr_body p) = ref_key ref" "ref_key (raw_ref (pr_artifact p)) = ref_key ref"
    using p by (auto simp: prepared_def row_key_def raw_ref_def ref_key_def)
  have "decode_many rp i [pr_body p] t = (Inr [pr_artifact p], t)"
    using lin k(1) decode_prepared [OF p fam assms(4), of t] by (simp add: decode_many_def bind_run batches_one)
  moreover have "select_revisions i [ref_key ref] t = (Inr [pr_body p], t)"
    using row by (simp add: select_revisions_def)
  ultimately have "artifact_get_many rp i [ref] t = (Inr [pr_artifact p], t)"
    using scope fam(1) k by (simp add: artifact_get_many_def andThen_run bind_run from_keys_def batches_one Let_def)
  then show ?thesis using scope by (simp add: artifact_get_def andThen_run bind_run)
qed

section \<open>Properties\<close>

text \<open>
  C19: the revision history. Whatever creations, revisions, restorations, merges, copies and
  governance transitions run, the store stays well formed, the stored revisions of every
  artifact are numbered from one to its head without a gap, and no stored revision is
  changed or removed.
\<close>

theorem revision_history:
  assumes "(lifecycle_step rp)\<^sup>*\<^sup>* s t" and "store_ok s" and "contiguous s" and "reading_sources rp"
  shows "store_ok t \<and> contiguous t \<and> take (length (artifacts s)) (artifacts t) = artifacts s"
  using lifecycles.run_ok [OF assms(1)] lifecycle_bodies [OF assms(1)] assms(2-4) by auto

theorem revision_history_witness:
  "contiguous (snd (transaction (artifact_revise skills outer ''s1'' (skill_revision ''a'' 1) skill_draft False None)
      (catalog_of [skill_head ''a'' ''active'' None 0])))"
  using revision_history [OF r_into_rtranclp [of "lifecycle_step skills", OF lifecycle_step.revise]] one_skill_ok [of "''active''"]
    skills_reading by blast

text \<open>
  C25: revising is a compare-and-swap on the head. Once a revision has been committed on top
  of some base, every later attempt to revise that base, or an earlier one, fails and
  changes nothing, whatever other operations ran between.
\<close>

theorem stale_revise_refused:
  assumes "store_ok s" and "contiguous s" and "reading_sources rp"
    and "transaction (artifact_revise rp c i a d w v) s = (Inr x, t)" and "(lifecycle_step rp)\<^sup>*\<^sup>* t u"
    and "af_family b = af_family a" and "af_artifact_id b = af_artifact_id a" and "af_revision b \<le> af_revision a"
  shows "\<exists>e. transaction (artifact_revise rp c' i b d' w' v') u = (Inl e, u)"
proof (rule transaction_failed)
  fix y z
  show "transaction (artifact_revise rp c' i b d' w' v') u \<noteq> (Inr y, z)"
  proof
    assume again: "transaction (artifact_revise rp c' i b d' w' v') u = (Inr y, z)"
    have ok: "lifecycle_ok rp s" using assms(1-3) by simp
    from artifact_revise_Inr(1) [OF ok assms(4)] obtain h
      where r: "revised i (af_family a) (af_artifact_id a) h (dr_content d) s t" and h: "ah_revision h = af_revision a" by blast
    have okt: "lifecycle_ok rp t" using lifecycles.ok_step [OF ok artifact_revise_Inr(2) [OF ok assms(4)]] .
    obtain body where now: "current_of i (af_family a) (af_artifact_id a) t = Some (af_revision a + 1, body)"
      using revised_lookup [OF r, of i "af_family a" "af_artifact_id a"] h by simp
    from artifact_revise_Inr(1) [OF lifecycles.run_ok [OF assms(5) okt] again] assms(6,7) obtain k
      where "head_of u i (af_family a) (af_artifact_id a) = Some k" "ah_revision k = af_revision b"
      by (auto simp: revised_def)
    with lifecycles.stale_forever [OF assms(5) okt now, of "af_revision b"] assms(8) show False by auto
  qed
qed

theorem stale_revise_refused_witness:
  "\<exists>t. snd (transaction (artifact_revise skills outer ''s1'' (skill_revision ''a'' 1) skill_draft False None)
        (catalog_of [skill_head ''a'' ''active'' None 0])) = t
    \<and> snd (transaction (artifact_revise skills outer ''s1'' (skill_revision ''a'' 1) skill_draft True None) t) = t"
proof -
  let ?s = "catalog_of [skill_head ''a'' ''active'' None 0]"
  have "isl (fst (transaction (artifact_revise skills outer ''s1'' (skill_revision ''a'' 1) skill_draft False None) ?s)) = False"
    by code_simp
  then obtain x t where run: "transaction (artifact_revise skills outer ''s1'' (skill_revision ''a'' 1) skill_draft False None) ?s = (Inr x, t)"
    by (metis (no_types) isl_def prod.collapse sum.exhaust)
  from stale_revise_refused [OF one_skill_ok [of "''active''"] skills_reading run rtranclp.rtrancl_refl refl refl order_refl]
  obtain e where "transaction (artifact_revise skills outer ''s1'' (skill_revision ''a'' 1) skill_draft True None) t = (Inl e, t)"
    by blast
  with run show ?thesis by simp
qed

text \<open>
  C13: a retired artifact is frozen. Whatever operations run, it stays retired at the
  revision it was retired at, and neither a revision nor a restoration of it succeeds.
\<close>

theorem retired_artifact_is_frozen:
  assumes "(lifecycle_step rp)\<^sup>*\<^sup>* s t" and "store_ok s" and "contiguous s" and "reading_sources rp"
    and "head_of s i (af_family a) (af_artifact_id a) = Some h" and "ah_lifecycle_state h = ''retired''"
  shows "(\<exists>h'. head_of t i (af_family a) (af_artifact_id a) = Some h' \<and> ah_lifecycle_state h' = ''retired''
      \<and> ah_revision h' = ah_revision h)
    \<and> (\<exists>e. transaction (artifact_revise rp c i a d w v) t = (Inl e, t))
    \<and> (\<exists>e. transaction (revise_for_restoration rp c i a d g v) t = (Inl e, t))"
proof -
  have ok: "lifecycle_ok rp s" using assms(2-4) by simp
  obtain h' where h': "head_of t i (af_family a) (af_artifact_id a) = Some h'" "ah_lifecycle_state h' = ''retired''"
    "ah_revision h' = ah_revision h" using retired_run [OF assms(1) ok assms(5,6)] by blast
  have okt: "lifecycle_ok rp t" using lifecycles.run_ok [OF assms(1) ok] .
  then have refused: "revise_artifact rp c i a d rest w' v t \<noteq> (Inr x, u)" for rest w' x u
    using revise_artifact_Inr [of rp t c i a d rest w' v x u] h' by (auto simp: revised_def)
  then have "\<exists>e. transaction (artifact_revise rp c i a d w v) t = (Inl e, t)"
    by (intro transaction_failed) (auto simp: transaction_run artifact_revise_def split: prod.splits sum.splits)
  moreover have "revise_for_restoration rp c i a d g v t \<noteq> (Inr x, u)" for x u
    using refused by (auto simp: revise_for_restoration_def exec_Inr_iffs)
  then have "\<exists>e. transaction (revise_for_restoration rp c i a d g v) t = (Inl e, t)"
    by (intro transaction_failed) (auto simp: transaction_run split: prod.splits sum.splits)
  ultimately show ?thesis using h' by blast
qed

theorem retired_artifact_is_frozen_witness:
  "\<exists>e. transaction (artifact_revise skills outer ''s1'' (skill_revision ''a'' 1) skill_draft False None)
      (catalog_of [skill_head ''a'' ''retired'' None 0]) = (Inl e, catalog_of [skill_head ''a'' ''retired'' None 0])"
proof -
  let ?s = "catalog_of [skill_head ''a'' ''retired'' None 0]"
  have "head_of ?s ''s1'' (af_family (skill_revision ''a'' 1)) (af_artifact_id (skill_revision ''a'' 1))
      = Some (skill_head ''a'' ''retired'' None 0)"
    by (simp add: catalog_of_simps skill_revision_def)
  moreover have "ah_lifecycle_state (skill_head ''a'' ''retired'' None 0) = ''retired''" by (simp add: skill_head_def)
  ultimately show ?thesis
    using retired_artifact_is_frozen [OF rtranclp.rtrancl_refl one_skill_ok [of "''retired''"] skills_reading] by blast
qed

text \<open>
  C38: a committed revision reads back as it was returned. When a revision succeeds, the
  artifact it returned is the latest one, and reading it from the tables reproduces it:
  content, sources and upstream artifacts in their order, no publication origin, and the
  recorded metadata.
\<close>

theorem revision_reads_back:
  assumes "store_ok s" and "reading_sources rp" and "anchored s"
    and "\<forall>r \<in> set (dr_sources d). source_ref_ok r" and "\<forall>r \<in> set (dr_artifacts d). artifact_ref_ok r" and "1 \<le> af_revision a"
    and "artifact_revise rp c i a d w v s = (Inr x, t)"
  shows "artifact_latest rp i (af_family a) (af_artifact_id a) False None t = (Inr x, t) \<and> af_lineage x = draft_lineage d"
proof -
  from assms(7) have run: "revise_artifact rp c i a d None w v s = (Inr x, t)" by (simp add: artifact_revise_def)
  from revise_stored [OF assms(2,1) run] obtain h ty p where
      r: "revised i (af_family a) (af_artifact_id a) h (dr_content d) s t" "ah_revision h = af_revision a" "store_ok t"
    and fam: "rp_by_family rp (af_family a) = Some ty" "rp_content_types rp (af_family a) = Some (model_class (dr_content d))"
    and p: "prepared i (ty, next_ref a, dr_content d, draft_lineage d) p" and x: "x = pr_artifact p"
    and rows: "artifacts t = artifacts s @ [pr_body p]" "publications t = publications s"
      "lineage_sources t = lineage_sources s @ pr_sources p" "lineage_artifacts t = lineage_artifacts s @ pr_artifact_refs p"
    by blast
  have pk: "artifact_pk_of (pr_body p) = (i, ref_key (next_ref a))" using p by (simp add: prepared_def)
  have "table_ok ARTIFACTS_TABLE t" using r(3) by (simp add: store_ok_def)
  then have fresh: "\<not> revision_exists s (i, ref_key (next_ref a))"
    using rows(1) pk by (auto simp: table_ok_def clash_free_append1 catalog_clash revision_exists_def)
  have away: "revision_exists s key \<Longrightarrow> key \<noteq> (i, ref_key (next_ref a))" for key using fresh by auto
  have "each_result (\<lambda>r. make_source_ref (ls_source_type r) (ls_source_id r)) (source_rows_of t i (ref_key (next_ref a))) = Inr (dr_sources d)"
    using assms(3,4) rows(3) p away by (intro source_rows_read [of s]) (auto simp: anchored_def prepared_def draft_lineage_def)
  moreover have "each_result (\<lambda>r. make_artifact_ref (la_upstream_family r) (la_upstream_artifact_id r) (la_upstream_revision r))
      (upstream_rows_of t i (ref_key (next_ref a))) = Inr (dr_artifacts d)"
    using assms(3,5) rows(4) p away by (intro upstream_rows_read [of s]) (auto simp: anchored_def prepared_def draft_lineage_def)
  moreover have "\<forall>r \<in> set (publications t). publication_target r \<noteq> (i, ref_key (next_ref a))"
    using assms(3) rows(2) away by (auto simp: anchored_def)
  ultimately have lin: "load_lineage_many i [ref_key (next_ref a)] t = (Inr [ref_key (next_ref a) \<mapsto> draft_lineage d], t)"
    using load_lineage_one by (simp add: draft_lineage_def)
  have "filter (\<lambda>r. ar_scope_id r = i \<and> row_key r = ref_key (next_ref a)) (artifacts s) = []"
    using fresh by (auto simp: filter_empty_conv revision_exists_def row_key_def image_iff)
  then have row: "filter (\<lambda>r. ar_scope_id r = i \<and> row_key r = ref_key (next_ref a)) (artifacts t) = [pr_body p]"
    using rows(1) pk by (simp add: row_key_def)
  have scope: "require_artifact_scope i u = (Inr (), u)" for u :: "'a catalog"
    using run by (auto simp: revise_artifact_def require_artifact_scope_def exec_Inr_iffs require_identifier_run split: if_splits)
  have get: "artifact_get rp i (next_ref a) False t = (Inr x, t)"
    using get_prepared [OF p _ _ _ scope row lin] fam assms(6) x by (simp add: next_ref_def)
  have head: "find_head i (af_family a) (af_artifact_id a) t = (Inr (Some (af_revision a + 1)), t)"
    using revised_lookup [OF r(1), of i "af_family a" "af_artifact_id a"] r(2)
    by (simp add: find_head_def lookup_row_def head_key_def [abs_def])
  have ok: "artifact_ref_ok (next_ref a)" using p by (simp add: prepared_def)
  then have "make_artifact_ref (af_family a) (af_artifact_id a) 1
      = Inr \<lparr>ref_family = af_family a, ref_artifact_id = af_artifact_id a, ref_revision = 1\<rparr>"
    "make_artifact_ref (af_family a) (af_artifact_id a) (af_revision a + 1) = Inr (next_ref a)"
    using assms(6) by (simp_all add: next_ref_def artifact_ref_ok_def)
  then have "artifact_latest rp i (af_family a) (af_artifact_id a) False None t = (Inr x, t)"
    using scope head get by (simp add: artifact_latest_def andThen_run bind_run del: make_artifact_ref_Inr)
  moreover have "af_lineage x = draft_lineage d" using p x by (simp add: prepared_def)
  ultimately show ?thesis by simp
qed

theorem revision_reads_back_witness:
  "case artifact_revise skills outer ''s1'' (skill_revision ''a'' 1) skill_draft False None (catalog_of [skill_head ''a'' ''active'' None 0]) of
     (r, t) \<Rightarrow> artifact_latest skills ''s1'' ''skill'' ''a'' False None t = (r, t) \<and> isl r = False"
proof -
  let ?s = "catalog_of [skill_head ''a'' ''active'' None 0]"
  have "isl (fst (artifact_revise skills outer ''s1'' (skill_revision ''a'' 1) skill_draft False None ?s)) = False"
    by code_simp
  then obtain x t where run: "artifact_revise skills outer ''s1'' (skill_revision ''a'' 1) skill_draft False None ?s = (Inr x, t)"
    by (metis (no_types) isl_def prod.collapse sum.exhaust)
  have "anchored ?s" by (simp add: anchored_def catalog_of_simps)
  from revision_reads_back [OF one_skill_ok(1) [of "''active''"] skills_reading this _ _ _ run] run show ?thesis
    by (simp add: skill_draft_def skill_revision_def)
qed

end
