(* ===== verification/Access_Model.thy ===== *)
theory Access_Model
  imports Prelude
begin

text \<open>
  The vocabulary of the server's access control
  (\<^verbatim>\<open>src/src/powercontext/server/authz/models.py\<close> and \<^verbatim>\<open>profiles.py\<close>): actions,
  resources, roles and what each role grants, role bindings, the access profile of every
  artifact family, and the checks that reject an ill-formed request before policy is read.

  A resource's key is the canonical JSON text the code computes
  (\<^verbatim>\<open>json.dumps(..., ensure_ascii=False, separators=(",", ":"), sort_keys=True)\<close>); distinct
  resources have distinct keys, which is proved from the escaping rules.
\<close>

section \<open>JSON texts\<close>

definition hex_digit :: "nat \<Rightarrow> char" where
  "hex_digit n = (if n < 10 then char_of (48 + n) else char_of (87 + n))"

text \<open>The two-character escapes: quote, backslash, and the named control characters.\<close>

definition short_escape :: "char \<Rightarrow> char option" where
  "short_escape c = map_of [(34, CHR 0x22), (92, CHR 0x5C), (10, CHR ''n''), (13, CHR ''r''), (9, CHR ''t''),
     (12, CHR ''f''), (8, CHR ''b'')] (of_char c :: nat)"

text \<open>\<^verbatim>\<open>json.dumps\<close> of one character, for \<^verbatim>\<open>ensure_ascii\<close> true or false.\<close>

definition json_escape :: "bool \<Rightarrow> char \<Rightarrow> string" where
  "json_escape ensure_ascii c = (case short_escape c of
     Some k \<Rightarrow> [CHR 0x5C, k]
   | None \<Rightarrow> (let n = (of_char c :: nat) in
       if n < 32 \<or> (ensure_ascii \<and> 126 < n)
       then [CHR 0x5C, CHR ''u'', CHR ''0'', CHR ''0'', hex_digit (n div 16), hex_digit (n mod 16)]
       else [c]))"

definition json_string :: "bool \<Rightarrow> string \<Rightarrow> string" where
  "json_string ensure_ascii s = [CHR 0x22] @ concat (map (json_escape ensure_ascii) s) @ [CHR 0x22]"

lemma hex_digit_inject: "n < 16 \<Longrightarrow> m < 16 \<Longrightarrow> hex_digit n = hex_digit m \<longleftrightarrow> n = m"
proof -
  assume "n < 16" "m < 16"
  have inj: "(char_of a = (char_of b :: char)) \<longleftrightarrow> a = b" if "a < 256" "b < 256" for a b :: nat
    using that by (metis of_char_of mod_less)
  show ?thesis
    using \<open>n < 16\<close> \<open>m < 16\<close> by (auto simp: hex_digit_def inj)
qed

lemma byte_digits: "a div 16 = b div 16 \<Longrightarrow> a mod 16 = b mod 16 \<Longrightarrow> a = (b :: nat)"
  by (metis div_mod_decomp)

lemma of_char_less: "(of_char c :: nat) < 256"
  by (metis of_char_mod_256 mod_less_divisor zero_less_numeral)

lemma same_digits:
  assumes "hex_digit (of_char c div 16) = hex_digit (of_char d div 16)" and "hex_digit (of_char c mod 16) = hex_digit (of_char d mod 16)"
  shows "c = d"
proof -
  have up: "(of_char x :: nat) div 16 < 16" for x
    using of_char_less [of x] by (intro less_mult_imp_div_less) simp
  have down: "(of_char x :: nat) mod 16 < 16" for x by simp
  have "(of_char c :: nat) div 16 = of_char d div 16"
    using assms(1) by (simp only: hex_digit_inject [OF up up])
  moreover have "(of_char c :: nat) mod 16 = of_char d mod 16"
    using assms(2) by (simp only: hex_digit_inject [OF down down])
  ultimately have "(of_char c :: nat) = of_char d" by (rule byte_digits)
  then show ?thesis by (simp only: of_char_eq_iff)
qed

lemma short_escape_Some:
  assumes "short_escape c = Some k"
  shows "of_char c = (if k = CHR ''n'' then 10 else if k = CHR ''r'' then 13 else if k = CHR ''t'' then 9
      else if k = CHR ''f'' then 12 else if k = CHR ''b'' then 8 else of_char k :: nat) \<and> k \<noteq> CHR ''u''"
proof -
  from assms have "(of_char c :: nat, k) \<in> set [(34, CHR 0x22), (92, CHR 0x5C), (10, CHR ''n''), (13, CHR ''r''), (9, CHR ''t''),
     (12, CHR ''f''), (8, CHR ''b'')]"
    unfolding short_escape_def by (rule map_of_SomeD)
  then show ?thesis by (simp only: list.set insert_iff empty_iff prod.inject simp_thms) (elim disjE conjE; simp)
qed

lemma short_escape_inject: "short_escape c = Some k \<Longrightarrow> short_escape d = Some k \<Longrightarrow> c = d"
  using short_escape_Some [of c k] short_escape_Some [of d k] by (metis of_char_eq_iff)

lemma short_escape_backslash [simp]: "short_escape (CHR 0x5C) = Some (CHR 0x5C)" "short_escape (CHR 0x22) = Some (CHR 0x22)"
  by (simp_all add: short_escape_def)

text \<open>No escape is a prefix of another, so the text determines the characters.\<close>

lemma json_escape_prefix: "json_escape e c @ x = json_escape e d @ y \<Longrightarrow> c = d \<and> x = y"
  unfolding json_escape_def Let_def
  by (cases "short_escape c"; cases "short_escape d")
     (auto split: if_splits dest: short_escape_inject short_escape_Some intro: same_digits)

lemma json_escape_not_quote: "json_escape e c @ x \<noteq> CHR 0x22 # y"
  unfolding json_escape_def Let_def
  by (cases "short_escape c") auto

lemma json_chars_prefix:
  "concat (map (json_escape e) a) @ CHR 0x22 # x = concat (map (json_escape e) b) @ CHR 0x22 # y \<Longrightarrow> a = b \<and> x = y"
proof (induction a arbitrary: b)
  case Nil
  then show ?case
  proof (cases b)
    case (Cons d b')
    with Nil json_escape_not_quote [of e d "concat (map (json_escape e) b') @ CHR 0x22 # y" x] show ?thesis by simp
  qed simp
next
  case (Cons c a)
  show ?case
  proof (cases b)
    case Nil
    with Cons.prems json_escape_not_quote [of e c "concat (map (json_escape e) a) @ CHR 0x22 # x" y] show ?thesis by simp
  next
    case b: (Cons d b')
    with Cons.prems have "json_escape e c @ concat (map (json_escape e) a) @ CHR 0x22 # x
        = json_escape e d @ concat (map (json_escape e) b') @ CHR 0x22 # y" by simp
    from json_escape_prefix [OF this] Cons.IH [of b'] b show ?thesis by auto
  qed
qed

lemma json_string_prefix: "json_string e a @ x = json_string e b @ y \<Longrightarrow> a = b \<and> x = y"
  using json_chars_prefix [of e a x b y] by (simp add: json_string_def)

lemma json_string_inject [simp]: "json_string e a = json_string e b \<longleftrightarrow> a = b"
  using json_string_prefix [of e a "[]" b "[]"] by auto

section \<open>Identities and resources\<close>

datatype access_action = ACCESS_SELF | SERVER_OBSERVE | SERVER_ADMIN | SCOPE_READ | SCOPE_CONTRIBUTE | SCOPE_REVIEW
  | SCOPE_DELEGATE | SCOPE_ADMIN | ARTIFACT_READ | ARTIFACT_WRITE | ARTIFACT_SHARE | HANDOFF_EVIDENCE_INSPECT
  | HANDOFF_ACKNOWLEDGE | PROMPT_USE

datatype access_resource_type = SERVER | SCOPE | ARTIFACT

datatype access_role = HANDOFF_VIEWER | HANDOFF_RECEIVER | ARTIFACT_VIEWER | PROMPT_USER | ARTIFACT_OWNER
  | SCOPE_VIEWER | SCOPE_CONTRIBUTOR | SCOPE_REVIEWER | SCOPE_DELEGATOR | ROLE_SCOPE_ADMIN | SERVER_OBSERVER
  | ROLE_SERVER_ADMIN

datatype access_binding_state = BINDING_ACTIVE | BINDING_REVOKED

fun resource_type_value :: "access_resource_type \<Rightarrow> string" where
  "resource_type_value SERVER = ''server''"
| "resource_type_value SCOPE = ''scope''"
| "resource_type_value ARTIFACT = ''artifact''"

fun role_value :: "access_role \<Rightarrow> string" where
  "role_value HANDOFF_VIEWER = ''handoff.viewer''"
| "role_value HANDOFF_RECEIVER = ''handoff.receiver''"
| "role_value ARTIFACT_VIEWER = ''artifact.viewer''"
| "role_value PROMPT_USER = ''prompt.user''"
| "role_value ARTIFACT_OWNER = ''artifact.owner''"
| "role_value SCOPE_VIEWER = ''scope.viewer''"
| "role_value SCOPE_CONTRIBUTOR = ''scope.contributor''"
| "role_value SCOPE_REVIEWER = ''scope.reviewer''"
| "role_value SCOPE_DELEGATOR = ''scope.delegator''"
| "role_value ROLE_SCOPE_ADMIN = ''scope.admin''"
| "role_value SERVER_OBSERVER = ''server.observer''"
| "role_value ROLE_SERVER_ADMIN = ''server.admin''"

definition access_roles :: "access_role list" where
  "access_roles = [HANDOFF_VIEWER, HANDOFF_RECEIVER, ARTIFACT_VIEWER, PROMPT_USER, ARTIFACT_OWNER, SCOPE_VIEWER,
     SCOPE_CONTRIBUTOR, SCOPE_REVIEWER, SCOPE_DELEGATOR, ROLE_SCOPE_ADMIN, SERVER_OBSERVER, ROLE_SERVER_ADMIN]"

fun binding_state_value :: "access_binding_state \<Rightarrow> string" where
  "binding_state_value BINDING_ACTIVE = ''active''"
| "binding_state_value BINDING_REVOKED = ''revoked''"

text \<open>\<^verbatim>\<open>AccessRole(value)\<close> and its like: the member with this value, or \<^verbatim>\<open>ValueError\<close>.\<close>

definition member_of :: "('e \<Rightarrow> string) \<Rightarrow> 'e list \<Rightarrow> string \<Rightarrow> error + 'e" where
  "member_of value_of members v = (case List.find (\<lambda>x. value_of x = v) members of None \<Rightarrow> Inl ValueError | Some x \<Rightarrow> Inr x)"

definition valid_text :: "nat \<Rightarrow> string \<Rightarrow> bool" where
  "valid_text maximum v \<longleftrightarrow> trimmed v \<and> length v \<le> maximum"

text \<open>
  \<^verbatim>\<open>PrincipalRef\<close> and \<^verbatim>\<open>GroupRef\<close>, told apart by their type. The description is display
  metadata that no comparison looks at.
\<close>

record subject =
  su_type :: string
  su_id :: string
  su_description :: "string option"

definition is_principal :: "subject \<Rightarrow> bool" where
  "is_principal p \<longleftrightarrow> su_type p \<in> {''user'', ''service''}"

definition subject_ok :: "subject \<Rightarrow> bool" where
  "subject_ok p \<longleftrightarrow> valid_text 255 (su_id p) \<and> (case su_description p of None \<Rightarrow> True | Some d \<Rightarrow> valid_text 255 d)"

definition principal_ok :: "subject \<Rightarrow> bool" where
  "principal_ok p \<longleftrightarrow> is_principal p \<and> subject_ok p"

definition group_ok :: "subject \<Rightarrow> bool" where
  "group_ok p \<longleftrightarrow> su_type p = ''group'' \<and> subject_ok p"

definition same_subject :: "subject \<Rightarrow> subject \<Rightarrow> bool" where
  "same_subject p q \<longleftrightarrow> su_type p = su_type q \<and> su_id p = su_id q"

text \<open>The selector of a memory entry; its \<^verbatim>\<open>type\<close> is always \<^verbatim>\<open>memory_entry\<close>.\<close>

record resource_ref =
  re_type :: access_resource_type
  re_deployment_id :: "string option"
  re_scope_id :: "string option"
  re_identity :: "(string \<times> string) option"
  re_selector :: "string option"

definition valid_optional :: "nat \<Rightarrow> string option \<Rightarrow> bool" where
  "valid_optional maximum v = (case v of None \<Rightarrow> False | Some x \<Rightarrow> valid_text maximum x)"

definition resource_ok :: "resource_ref \<Rightarrow> bool" where
  "resource_ok r = (case re_type r of
     SERVER \<Rightarrow> valid_optional 128 (re_deployment_id r) \<and> re_scope_id r = None \<and> re_identity r = None \<and> re_selector r = None
   | SCOPE \<Rightarrow> re_deployment_id r = None \<and> valid_optional 256 (re_scope_id r) \<and> re_identity r = None \<and> re_selector r = None
   | ARTIFACT \<Rightarrow> re_deployment_id r = None \<and> valid_optional 256 (re_scope_id r) \<and> re_identity r \<noteq> None)"

definition identity_ok :: "resource_ref \<Rightarrow> bool" where
  "identity_ok r = ((case re_identity r of None \<Rightarrow> True | Some (f, a) \<Rightarrow> valid_text 128 f \<and> valid_text 128 a)
     \<and> (case re_selector r of None \<Rightarrow> True | Some e \<Rightarrow> valid_text 128 e))"

definition make_resource :: "resource_ref \<Rightarrow> error + resource_ref" where
  "make_resource r = (if \<not> (case re_identity r of None \<Rightarrow> True | Some (f, a) \<Rightarrow> valid_text 128 f \<and> valid_text 128 a)
       then Inl (AccessInvalidRequest ''artifact-identity'')
     else if \<not> (case re_selector r of None \<Rightarrow> True | Some e \<Rightarrow> valid_text 128 e)
       then Inl (AccessInvalidRequest ''memory-entry-selector'')
     else if resource_ok r then Inr r else Inl (AccessInvalidRequest ''resource''))"

definition server_resource :: "string \<Rightarrow> resource_ref" where
  "server_resource d = \<lparr>re_type = SERVER, re_deployment_id = Some d, re_scope_id = None, re_identity = None, re_selector = None\<rparr>"

definition scope_resource :: "string \<Rightarrow> resource_ref" where
  "scope_resource i = \<lparr>re_type = SCOPE, re_deployment_id = None, re_scope_id = Some i, re_identity = None, re_selector = None\<rparr>"

definition artifact_resource :: "string \<Rightarrow> string \<Rightarrow> string \<Rightarrow> string option \<Rightarrow> resource_ref" where
  "artifact_resource i f a sel = \<lparr>re_type = ARTIFACT, re_deployment_id = None, re_scope_id = Some i,
     re_identity = Some (f, a), re_selector = sel\<rparr>"

definition re_family :: "resource_ref \<Rightarrow> string option" where
  "re_family r = map_option fst (re_identity r)"

definition parent_scope :: "resource_ref \<Rightarrow> resource_ref option" where
  "parent_scope r = map_option scope_resource (re_scope_id r)"

definition json_optional :: "string option \<Rightarrow> string" where
  "json_optional v = (case v of None \<Rightarrow> ''null'' | Some x \<Rightarrow> json_string False x)"

definition field_text :: "string \<Rightarrow> string" where
  "field_text name = json_string False name @ '':''"

definition selector_text :: "string option \<Rightarrow> string" where
  "selector_text sel = (case sel of None \<Rightarrow> ''null''
     | Some e \<Rightarrow> ''{'' @ field_text ''entry_id'' @ json_string False e @ '','' @ field_text ''type''
         @ json_string False ''memory_entry'' @ ''}'')"

definition resource_key :: "resource_ref \<Rightarrow> string" where
  "resource_key r = (case re_type r of
     SERVER \<Rightarrow> ''{'' @ field_text ''deployment_id'' @ json_optional (re_deployment_id r) @ '',''
       @ field_text ''type'' @ json_string False ''server'' @ ''}''
   | SCOPE \<Rightarrow> ''{'' @ field_text ''scope_id'' @ json_optional (re_scope_id r) @ '',''
       @ field_text ''type'' @ json_string False ''scope'' @ ''}''
   | ARTIFACT \<Rightarrow> (case re_identity r of None \<Rightarrow> [] | Some (f, a) \<Rightarrow>
       ''{'' @ field_text ''identity'' @ ''{'' @ field_text ''artifact_id'' @ json_string False a @ '',''
       @ field_text ''family'' @ json_string False f @ ''},'' @ field_text ''scope_id'' @ json_optional (re_scope_id r) @ '',''
       @ field_text ''selector'' @ selector_text (re_selector r) @ '',''
       @ field_text ''type'' @ json_string False ''artifact'' @ ''}''))"

lemma json_optional_Some [simp]: "json_optional (Some x) = json_string False x"
  by (simp add: json_optional_def)

lemma resource_okE:
  assumes "resource_ok r"
  obtains (server) d where "r = server_resource d" | (scope) i where "r = scope_resource i"
    | (artifact) i f a sel where "r = artifact_resource i f a sel"
proof (cases "re_type r")
  case SERVER
  with assms show ?thesis
    by (intro server [of "the (re_deployment_id r)"])
       (auto simp: resource_ok_def server_resource_def valid_optional_def split: option.splits intro: resource_ref.equality)
next
  case SCOPE
  with assms show ?thesis
    by (intro scope [of "the (re_scope_id r)"])
       (auto simp: resource_ok_def scope_resource_def valid_optional_def split: option.splits intro: resource_ref.equality)
next
  case ARTIFACT
  with assms show ?thesis
    by (intro artifact [of "the (re_scope_id r)" "fst (the (re_identity r))" "snd (the (re_identity r))" "re_selector r"])
       (auto simp: resource_ok_def artifact_resource_def valid_optional_def split: option.splits intro: resource_ref.equality)
qed

text \<open>Distinct resources have distinct keys.\<close>

lemma resource_key_simps:
  "resource_key (server_resource d) = ''{'' @ field_text ''deployment_id'' @ json_string False d @ '','' @ field_text ''type''
     @ json_string False ''server'' @ ''}''"
  "resource_key (scope_resource i) = ''{'' @ field_text ''scope_id'' @ json_string False i @ '','' @ field_text ''type''
     @ json_string False ''scope'' @ ''}''"
  by (simp_all add: resource_key_def server_resource_def scope_resource_def)

lemma resource_key_artifact:
  "resource_key (artifact_resource i f a sel) = ''{'' @ field_text ''identity'' @ ''{'' @ field_text ''artifact_id''
     @ json_string False a @ '','' @ field_text ''family'' @ json_string False f @ ''},'' @ field_text ''scope_id''
     @ json_string False i @ '','' @ field_text ''selector'' @ selector_text sel @ '','' @ field_text ''type'' @ json_string False ''artifact'' @ ''}''"
  by (simp add: resource_key_def artifact_resource_def)

lemma field_text_eval:
  "field_text ''deployment_id'' = CHR 0x22 # ''deployment_id'' @ CHR 0x22 # '':''"
  "field_text ''scope_id'' = CHR 0x22 # ''scope_id'' @ CHR 0x22 # '':''"
  "field_text ''identity'' = CHR 0x22 # ''identity'' @ CHR 0x22 # '':''"
  by code_simp+

lemma resource_key_inject:
  assumes "resource_ok r" and "resource_ok q" and "resource_key r = resource_key q"
  shows "r = q"
  using assms(1)
proof (cases rule: resource_okE)
  case (server d)
  from assms(2) show ?thesis
  proof (cases rule: resource_okE)
    case (server d')
    with assms(3) \<open>r = server_resource d\<close> show ?thesis by (auto simp: resource_key_simps dest: json_string_prefix)
  next
    case (scope i)
    with assms(3) server show ?thesis by (simp add: resource_key_simps field_text_eval)
  next
    case (artifact i f a sel)
    with assms(3) server show ?thesis by (simp add: resource_key_simps resource_key_artifact field_text_eval)
  qed
next
  case (scope i)
  from assms(2) show ?thesis
  proof (cases rule: resource_okE)
    case (server d)
    with assms(3) scope show ?thesis by (simp add: resource_key_simps field_text_eval)
  next
    case (scope i')
    with assms(3) \<open>r = scope_resource i\<close> show ?thesis by (auto simp: resource_key_simps dest: json_string_prefix)
  next
    case (artifact i' f a sel)
    with assms(3) scope show ?thesis by (simp add: resource_key_simps resource_key_artifact field_text_eval)
  qed
next
  case (artifact i f a sel)
  from assms(2) show ?thesis
  proof (cases rule: resource_okE)
    case (server d)
    with assms(3) artifact show ?thesis by (simp add: resource_key_simps resource_key_artifact field_text_eval)
  next
    case (scope i')
    with assms(3) artifact show ?thesis by (simp add: resource_key_simps resource_key_artifact field_text_eval)
  next
    case other: (artifact i' f' a' sel')
    let ?tail = "\<lambda>i sel. '','' @ field_text ''selector'' @ selector_text sel @ '','' @ field_text ''type'' @ json_string False ''artifact'' @ ''}''"
    let ?mid = "\<lambda>i sel. ''},'' @ field_text ''scope_id'' @ json_string False i @ ?tail i sel"
    from assms(3) have eq: "json_string False a @ '','' @ field_text ''family'' @ json_string False f @ ?mid i sel
      = json_string False a' @ '','' @ field_text ''family'' @ json_string False f' @ ?mid i' sel'"
      using artifact other by (simp only: resource_key_artifact append_Cons append_Nil same_append_eq list.inject)
    from json_string_prefix [OF eq] have "a = a'" and eq': "json_string False f @ ?mid i sel = json_string False f' @ ?mid i' sel'"
      by (simp_all only: append_Cons append_Nil same_append_eq list.inject)
    from json_string_prefix [OF eq'] have "f = f'" and eq'': "json_string False i @ ?tail i sel = json_string False i' @ ?tail i' sel'"
      by (simp_all only: append_Cons append_Nil same_append_eq list.inject)
    from json_string_prefix [OF eq''] have "i = i'" and "selector_text sel @ '','' @ field_text ''type'' @ json_string False ''artifact'' @ ''}''
        = selector_text sel' @ '','' @ field_text ''type'' @ json_string False ''artifact'' @ ''}''"
      by (simp_all only: append_Cons append_Nil same_append_eq list.inject)
    then have "selector_text sel = selector_text sel'" by (simp only: append_same_eq)
    then have "sel = sel'"
      by (auto simp: selector_text_def split: option.splits dest: json_string_prefix)
    with \<open>a = a'\<close> \<open>f = f'\<close> \<open>i = i'\<close> artifact other show ?thesis by simp
  qed
qed

section \<open>Roles\<close>

text \<open>
  What a role grants on the resource it is bound to, and what it grants on the resources
  below: the second table is separate so that a management role is never a content role.
\<close>

fun role_actions :: "access_role \<Rightarrow> access_action list" where
  "role_actions HANDOFF_VIEWER = [ARTIFACT_READ, HANDOFF_EVIDENCE_INSPECT]"
| "role_actions HANDOFF_RECEIVER = [ARTIFACT_READ, HANDOFF_EVIDENCE_INSPECT, HANDOFF_ACKNOWLEDGE]"
| "role_actions ARTIFACT_VIEWER = [ARTIFACT_READ]"
| "role_actions PROMPT_USER = [ARTIFACT_READ, PROMPT_USE]"
| "role_actions ARTIFACT_OWNER = [ARTIFACT_READ, ARTIFACT_WRITE, ARTIFACT_SHARE, HANDOFF_EVIDENCE_INSPECT]"
| "role_actions SCOPE_VIEWER = [SCOPE_READ]"
| "role_actions SCOPE_CONTRIBUTOR = [SCOPE_READ, SCOPE_CONTRIBUTE]"
| "role_actions SCOPE_REVIEWER = [SCOPE_READ, SCOPE_REVIEW]"
| "role_actions SCOPE_DELEGATOR = [SCOPE_READ, SCOPE_DELEGATE]"
| "role_actions ROLE_SCOPE_ADMIN = [SCOPE_ADMIN]"
| "role_actions SERVER_OBSERVER = [SERVER_OBSERVE]"
| "role_actions ROLE_SERVER_ADMIN = [SERVER_ADMIN]"

fun role_child_actions :: "access_role \<Rightarrow> access_action list" where
  "role_child_actions SCOPE_VIEWER = [ARTIFACT_READ, HANDOFF_EVIDENCE_INSPECT, PROMPT_USE]"
| "role_child_actions SCOPE_CONTRIBUTOR = [ARTIFACT_READ, HANDOFF_EVIDENCE_INSPECT, HANDOFF_ACKNOWLEDGE, PROMPT_USE]"
| "role_child_actions SCOPE_REVIEWER = [ARTIFACT_READ, HANDOFF_EVIDENCE_INSPECT, PROMPT_USE]"
| "role_child_actions SCOPE_DELEGATOR = [ARTIFACT_READ, HANDOFF_EVIDENCE_INSPECT, PROMPT_USE]"
| "role_child_actions ROLE_SCOPE_ADMIN = [ARTIFACT_SHARE]"
| "role_child_actions ROLE_SERVER_ADMIN = [SCOPE_ADMIN, ARTIFACT_SHARE]"
| "role_child_actions _ = []"

text \<open>Roles that one subject at a time may hold on a resource.\<close>

definition one_per_resource :: "access_role \<Rightarrow> bool" where
  "one_per_resource r \<longleftrightarrow> r \<in> {HANDOFF_RECEIVER, ARTIFACT_OWNER}"

definition role_subject_types :: "access_role \<Rightarrow> string list" where
  "role_subject_types r = (if r \<in> {HANDOFF_RECEIVER, ARTIFACT_OWNER} then [''user'', ''service'']
     else [''user'', ''service'', ''group''])"

section \<open>Family profiles\<close>

datatype selector_rule = Selector_Forbidden | Selector_Memory_Entry

text \<open>The fields of \<^verbatim>\<open>ArtifactFamilyAccessProfile\<close> that some check reads.\<close>

record family_profile =
  fp_enabled :: bool
  fp_base_action :: access_action
  fp_additional_actions :: "access_action list"
  fp_grantable_roles :: "access_role list"
  fp_selector :: selector_rule
  fp_mutation_semantics :: "access_action list"

definition plain_profile :: "access_action list \<Rightarrow> access_role list \<Rightarrow> selector_rule \<Rightarrow> family_profile" where
  "plain_profile additional grantable selector = \<lparr>fp_enabled = True, fp_base_action = ARTIFACT_READ,
     fp_additional_actions = additional, fp_grantable_roles = grantable, fp_selector = selector,
     fp_mutation_semantics = [ARTIFACT_WRITE]\<rparr>"

definition ARTIFACT_FAMILY_PROFILES :: "string \<Rightarrow> family_profile option" where
  "ARTIFACT_FAMILY_PROFILES = map_of [
     (''atomic-memory'', plain_profile [] [ARTIFACT_VIEWER] Selector_Forbidden),
     (''handoff'', plain_profile [HANDOFF_EVIDENCE_INSPECT, HANDOFF_ACKNOWLEDGE] [HANDOFF_VIEWER, HANDOFF_RECEIVER] Selector_Forbidden),
     (''memory'', plain_profile [] [ARTIFACT_VIEWER] Selector_Memory_Entry),
     (''experience'', plain_profile [] [ARTIFACT_VIEWER] Selector_Forbidden),
     (''skill'', plain_profile [] [ARTIFACT_VIEWER] Selector_Forbidden),
     (''profile'', plain_profile [] [ARTIFACT_VIEWER] Selector_Forbidden),
     (''prompt'', plain_profile [PROMPT_USE] [] Selector_Forbidden)]"

type_synonym profiles = "string \<Rightarrow> family_profile option"

definition register_custom_artifact_access_family :: "profiles \<Rightarrow> string \<Rightarrow> profiles" where
  "register_custom_artifact_access_family ps family =
     (if ps family = None then ps(family \<mapsto> plain_profile [] [] Selector_Forbidden) else ps)"

definition profile_actions :: "family_profile \<Rightarrow> access_action list" where
  "profile_actions p = fp_base_action p # fp_additional_actions p @ fp_mutation_semantics p @ [ARTIFACT_SHARE]"

definition artifact_family_profile :: "profiles \<Rightarrow> resource_ref \<Rightarrow> error + family_profile" where
  "artifact_family_profile ps r = (case (re_type r, re_identity r) of
     (ARTIFACT, Some (f, _)) \<Rightarrow> (case ps f of
         None \<Rightarrow> Inl (AccessInvalidRequest ''artifact-family'')
       | Some p \<Rightarrow>
           if \<not> fp_enabled p then Inl (AccessInvalidRequest ''artifact-family-disabled'')
           else if fp_selector p = Selector_Memory_Entry \<and> re_selector r = None
             then Inl (AccessInvalidRequest ''memory-entry-selector'')
           else if fp_selector p = Selector_Forbidden \<and> re_selector r \<noteq> None
             then Inl (AccessInvalidRequest ''artifact-selector'')
           else Inr p)
   | _ \<Rightarrow> Inl (AccessInvalidRequest ''artifact-identity''))"

definition server_actions :: "access_action list" where
  "server_actions = [ACCESS_SELF, SERVER_OBSERVE, SERVER_ADMIN]"

definition scope_actions :: "access_action list" where
  "scope_actions = [SCOPE_READ, SCOPE_CONTRIBUTE, SCOPE_REVIEW, SCOPE_DELEGATE, SCOPE_ADMIN]"

definition validate_action_resource :: "profiles \<Rightarrow> string \<Rightarrow> access_action \<Rightarrow> resource_ref \<Rightarrow> error + unit" where
  "validate_action_resource ps deployment_id action r = (case re_type r of
     SERVER \<Rightarrow> if re_deployment_id r \<noteq> Some deployment_id then Inl (AccessInvalidRequest ''deployment'')
         else if action \<notin> set server_actions then Inl (AccessInvalidRequest ''action-resource'') else Inr ()
   | SCOPE \<Rightarrow> if action \<notin> set scope_actions then Inl (AccessInvalidRequest ''action-resource'') else Inr ()
   | ARTIFACT \<Rightarrow> (case artifact_family_profile ps r of
         Inl e \<Rightarrow> Inl e
       | Inr p \<Rightarrow> if action \<notin> set (profile_actions p) then Inl (AccessInvalidRequest ''action-resource'') else Inr ()))"

definition validate_binding_role :: "profiles \<Rightarrow> string \<Rightarrow> resource_ref \<Rightarrow> access_role \<Rightarrow> error + unit" where
  "validate_binding_role ps deployment_id r role = (case re_type r of
     SERVER \<Rightarrow> if re_deployment_id r \<noteq> Some deployment_id \<or> role \<notin> {SERVER_OBSERVER, ROLE_SERVER_ADMIN}
         then Inl (AccessInvalidRequest ''binding-role'') else Inr ()
   | SCOPE \<Rightarrow> if role \<notin> {SCOPE_VIEWER, SCOPE_CONTRIBUTOR, SCOPE_REVIEWER, SCOPE_DELEGATOR, ROLE_SCOPE_ADMIN}
         then Inl (AccessInvalidRequest ''binding-role'') else Inr ()
   | ARTIFACT \<Rightarrow> (case artifact_family_profile ps r of
         Inl e \<Rightarrow> Inl e
       | Inr p \<Rightarrow> if role \<notin> set (fp_grantable_roles p) then Inl (AccessInvalidRequest ''binding-role'') else Inr ()))"

text \<open>
  A role that is not grantable in the family has no entry in its profile's subject table;
  the code reads that table with a subscript.
\<close>

definition validate_binding_subject :: "profiles \<Rightarrow> resource_ref \<Rightarrow> access_role \<Rightarrow> string \<Rightarrow> error + unit" where
  "validate_binding_subject ps r role subject_type =
     (if role = ARTIFACT_OWNER then Inl (AccessInvalidRequest ''binding-role'')
      else if subject_type \<notin> set (role_subject_types role) then Inl (AccessInvalidRequest ''binding-subject'')
      else if re_type r = ARTIFACT then (case artifact_family_profile ps r of
          Inl e \<Rightarrow> Inl e
        | Inr p \<Rightarrow> if role \<notin> set (fp_grantable_roles p) then Inl KeyError
            else if subject_type \<notin> set (role_subject_types role) then Inl (AccessInvalidRequest ''binding-subject'')
            else Inr ())
      else Inr ())"

section \<open>Bindings and decisions\<close>

text \<open>
  A policy revision is the decimal text of the head's counter, \<^verbatim>\<open>pending\<close> before a binding
  is stored, or a counter bound to the group membership it was decided under; the three are
  told apart by their constructors, a membership by its sorted group ids.
\<close>

datatype policy_revision = Pending_Revision | Revision int | Member_Revision policy_revision "string list"

definition contextual_policy_revision :: "policy_revision \<Rightarrow> subject list \<Rightarrow> policy_revision" where
  "contextual_policy_revision revision groups =
     (if groups = [] then revision else Member_Revision revision (sort (map su_id groups)))"

record access_binding =
  bi_binding_id :: string
  bi_subject :: subject
  bi_resource :: resource_ref
  bi_role :: access_role
  bi_granted_by :: subject
  bi_reason :: "string option"
  bi_created_at :: int
  bi_expires_at :: "int option"
  bi_state :: access_binding_state
  bi_version :: int
  bi_policy_revision :: policy_revision
  bi_idempotency_key :: string
  bi_revoked_at :: "int option"
  bi_revoked_by :: "subject option"

definition active_at :: "int \<Rightarrow> access_binding \<Rightarrow> bool" where
  "active_at now b \<longleftrightarrow> bi_state b = BINDING_ACTIVE \<and> (case bi_expires_at b of None \<Rightarrow> True | Some e \<Rightarrow> now < e)"

record owner_relation =
  ow_resource :: resource_ref
  ow_owner :: subject
  ow_established_at :: int
  ow_policy_revision :: policy_revision
  ow_idempotency_key :: string

record access_decision =
  dc_allowed :: bool
  dc_reason_code :: string
  dc_policy_revision :: policy_revision
  dc_matched_subject :: "subject option"
  dc_matched_binding_id :: "string option"

record decision_state =
  ds_policy_revision :: policy_revision
  ds_bindings :: "access_binding list"
  ds_artifact_owners :: "string \<Rightarrow> owner_relation option"
  ds_owned_resources :: "resource_ref list"

definition parent_binding_grants :: "access_binding \<Rightarrow> access_action \<Rightarrow> access_resource_type \<Rightarrow> bool" where
  "parent_binding_grants b action requested_type \<longleftrightarrow> action \<in> set (role_child_actions (bi_role b))
     \<and> (case re_type (bi_resource b) of
          SCOPE \<Rightarrow> requested_type = ARTIFACT | SERVER \<Rightarrow> requested_type \<in> {SCOPE, ARTIFACT} | ARTIFACT \<Rightarrow> False)"

definition binding_covers :: "resource_ref \<Rightarrow> resource_ref \<Rightarrow> bool" where
  "binding_covers bound requested \<longleftrightarrow> bound = requested \<or> re_type bound = SERVER
     \<or> (re_type bound = SCOPE \<and> re_type requested = ARTIFACT \<and> re_scope_id bound = re_scope_id requested)"

definition binding_grants :: "access_binding \<Rightarrow> access_action \<Rightarrow> resource_ref \<Rightarrow> bool" where
  "binding_grants b action requested =
     (if bi_resource b = requested then action \<in> set (role_actions (bi_role b))
      else parent_binding_grants b action (re_type requested) \<and> binding_covers (bi_resource b) requested)"

definition decision :: "bool \<Rightarrow> string \<Rightarrow> policy_revision \<Rightarrow> subject option \<Rightarrow> string option \<Rightarrow> access_decision" where
  "decision allowed reason revision matched binding_id = \<lparr>dc_allowed = allowed, dc_reason_code = reason,
     dc_policy_revision = revision, dc_matched_subject = matched, dc_matched_binding_id = binding_id\<rparr>"

definition binding_decision :: "access_binding list \<Rightarrow> access_action \<Rightarrow> resource_ref \<Rightarrow> policy_revision \<Rightarrow> access_decision" where
  "binding_decision bindings action r revision = (case List.find (\<lambda>b. binding_grants b action r) bindings of
     Some b \<Rightarrow> decision True ''role-binding'' revision (Some (bi_subject b)) (Some (bi_binding_id b))
   | None \<Rightarrow> decision False ''no-matching-binding'' revision None None)"

text \<open>One point decision on what was read; expiry is applied again at the decision's time.\<close>

definition decide ::
  "decision_state \<Rightarrow> subject \<Rightarrow> subject list \<Rightarrow> int \<Rightarrow> access_action \<Rightarrow> resource_ref \<Rightarrow> access_decision" where
  "decide st who groups now action r =
     (let revision = contextual_policy_revision (ds_policy_revision st) groups in
      if action = ACCESS_SELF then decision True ''authenticated'' revision None None
      else let d = binding_decision (filter (active_at now) (ds_bindings st)) action r revision in
      if dc_allowed d then d
      else case (if re_type r = ARTIFACT then ds_artifact_owners st (resource_key r) else None) of
          Some o' \<Rightarrow> if same_subject (ow_owner o') who \<and> action \<in> set (role_actions ARTIFACT_OWNER)
            then decision True ''artifact-owner'' revision (Some who) None else d
        | None \<Rightarrow> d)"

text \<open>The filter of a resource search.\<close>

record resource_filter =
  rf_exact_resources :: "resource_ref list"
  rf_parent_constraints :: "resource_ref list"
  rf_complete :: bool
  rf_policy_revision :: policy_revision
  rf_max_direct_resource_keys :: nat

abbreviation (input) MAX_AUTHORIZED_FILTER_IDENTITIES :: nat where "MAX_AUTHORIZED_FILTER_IDENTITIES \<equiv> 10000"

definition resource_is_parent :: "resource_ref \<Rightarrow> access_resource_type \<Rightarrow> bool" where
  "resource_is_parent r child_type =
     (if re_type r = SERVER then child_type \<noteq> SERVER else re_type r = SCOPE \<and> child_type = ARTIFACT)"

definition exact_match :: "access_action \<Rightarrow> access_resource_type \<Rightarrow> string option \<Rightarrow> access_binding \<Rightarrow> bool" where
  "exact_match action rt family b \<longleftrightarrow> re_type (bi_resource b) = rt \<and> action \<in> set (role_actions (bi_role b))
     \<and> (family = None \<or> re_family (bi_resource b) = family)"

definition parent_match :: "access_action \<Rightarrow> access_resource_type \<Rightarrow> string option \<Rightarrow> access_binding \<Rightarrow> bool" where
  "parent_match action rt family b \<longleftrightarrow> \<not> exact_match action rt family b
     \<and> resource_is_parent (bi_resource b) rt \<and> parent_binding_grants b action rt"

text \<open>A dictionary of resources by key, listed in the order of its keys.\<close>

definition by_sorted_key :: "resource_ref list \<Rightarrow> resource_ref list" where
  "by_sorted_key rs = (let m = fold (\<lambda>r m. m(resource_key r \<mapsto> r)) rs Map.empty in
     List.map_filter m (sort (remdups (map resource_key rs))))"

definition derive_authorized_resource_filter ::
  "access_binding list \<Rightarrow> resource_ref list \<Rightarrow> access_action \<Rightarrow> access_resource_type \<Rightarrow> string option \<Rightarrow>
     policy_revision \<Rightarrow> resource_filter" where
  "derive_authorized_resource_filter bindings owned action rt family revision = \<lparr>
     rf_exact_resources = by_sorted_key (map bi_resource (filter (exact_match action rt family) bindings)
       @ (if rt = ARTIFACT \<and> action \<in> set (role_actions ARTIFACT_OWNER)
          then filter (\<lambda>r. family = None \<or> re_family r = family) owned else [])),
     rf_parent_constraints = by_sorted_key (map bi_resource (filter (parent_match action rt family) bindings)),
     rf_complete = True, rf_policy_revision = revision,
     rf_max_direct_resource_keys = MAX_AUTHORIZED_FILTER_IDENTITIES\<rparr>"

definition resource_allowed_by_filter :: "resource_filter \<Rightarrow> resource_ref \<Rightarrow> bool" where
  "resource_allowed_by_filter f r \<longleftrightarrow> r \<in> set (rf_exact_resources f)
     \<or> (\<exists>p \<in> set (rf_parent_constraints f). binding_covers p r)"

definition validate_resource_filter ::
  "profiles \<Rightarrow> string \<Rightarrow> nat \<Rightarrow> access_action \<Rightarrow> access_resource_type \<Rightarrow> string option \<Rightarrow> resource_filter \<Rightarrow> error + unit" where
  "validate_resource_filter ps deployment_id provider_limit action rt family f =
     (let limit = min (min provider_limit (rf_max_direct_resource_keys f)) MAX_AUTHORIZED_FILTER_IDENTITIES;
          unsafe = AccessUnavailable ''safe_resource_filtering_unavailable'' in
      if \<not> rf_complete f then Inl unsafe
      else if limit < 1 \<or> limit < length (rf_exact_resources f) then Inl (AccessUnavailable ''resource_filter_limit_exceeded'')
      else if MAX_AUTHORIZED_FILTER_IDENTITIES < length (rf_parent_constraints f) then Inl unsafe
      else if length (remdups (map resource_key (rf_exact_resources f))) \<noteq> length (rf_exact_resources f) then Inl unsafe
      else (case each_result (\<lambda>r. if re_type r \<noteq> rt \<or> (family \<noteq> None \<and> re_family r \<noteq> family) then Inl unsafe
                 else validate_action_resource ps deployment_id action r) (rf_exact_resources f) of
          Inl e \<Rightarrow> Inl e
        | Inr _ \<Rightarrow> if \<exists>r \<in> set (rf_parent_constraints f). \<not> resource_is_parent r rt then Inl unsafe else Inr ()))"

section \<open>Search filters and point decisions agree\<close>

lemma fold_keys:
  "fold (\<lambda>r m. m(resource_key r \<mapsto> r)) rs m k =
     (case List.find (\<lambda>r. resource_key r = k) (rev rs) of None \<Rightarrow> m k | Some r \<Rightarrow> Some r)"
  by (induction rs arbitrary: m) (auto simp: find_append split: option.split)

lemma set_map_filter_some: "set (List.map_filter f xs) = {y. \<exists>x \<in> set xs. f x = Some y}"
  by (induction xs) (auto simp: map_filter_simps split: option.splits)

text \<open>The dictionary keeps every resource once, because keys identify resources.\<close>

lemma set_by_sorted_key:
  assumes "\<forall>r \<in> set rs. resource_ok r"
  shows "set (by_sorted_key rs) = set rs"
proof -
  let ?m = "fold (\<lambda>r m. m(resource_key r \<mapsto> r)) rs Map.empty"
  have m: "?m (resource_key r) = Some r" if r: "r \<in> set rs" for r
  proof -
    have "\<exists>x. List.find (\<lambda>x. resource_key x = resource_key r) (rev rs) = Some x"
      using r by (auto simp: find_None_iff simp flip: not_None_eq)
    then obtain x where x: "List.find (\<lambda>x. resource_key x = resource_key r) (rev rs) = Some x" by blast
    then have "x \<in> set rs" "resource_key x = resource_key r" by (auto dest: find_SomeD)
    then have "x = r" using assms r by (blast intro: resource_key_inject)
    with x show ?thesis by (simp add: fold_keys)
  qed
  have "set (by_sorted_key rs) = {x. \<exists>r \<in> set rs. ?m (resource_key r) = Some x}"
    by (simp add: by_sorted_key_def Let_def set_map_filter_some)
  also have "\<dots> = set rs" using m by force
  finally show ?thesis .
qed

lemma binding_decision_allowed:
  "dc_allowed (binding_decision bs a r v) \<longleftrightarrow> (\<exists>b \<in> set bs. binding_grants b a r)"
  by (auto simp: binding_decision_def decision_def find_None_iff dest: find_SomeD split: option.split)

lemma decide_allowed:
  assumes "a \<noteq> ACCESS_SELF"
  shows "dc_allowed (decide st who groups now a r) \<longleftrightarrow>
     (\<exists>b \<in> set (ds_bindings st). active_at now b \<and> binding_grants b a r)
     \<or> (re_type r = ARTIFACT \<and> a \<in> set (role_actions ARTIFACT_OWNER)
        \<and> (\<exists>w. ds_artifact_owners st (resource_key r) = Some w \<and> same_subject (ow_owner w) who))"
proof -
  let ?d = "binding_decision (filter (active_at now) (ds_bindings st)) a r (contextual_policy_revision (ds_policy_revision st) groups)"
  have "dc_allowed ?d \<longleftrightarrow> (\<exists>b \<in> set (ds_bindings st). active_at now b \<and> binding_grants b a r)"
    by (auto simp: binding_decision_allowed)
  moreover have "dc_allowed (decide st who groups now a r) \<longleftrightarrow> dc_allowed ?d
     \<or> (re_type r = ARTIFACT \<and> a \<in> set (role_actions ARTIFACT_OWNER)
        \<and> (\<exists>w. ds_artifact_owners st (resource_key r) = Some w \<and> same_subject (ow_owner w) who))"
    using assms by (auto simp: decide_def Let_def decision_def simp del: role_actions.simps split: option.split)
  ultimately show ?thesis by blast
qed

lemma granted_cases:
  assumes "resource_ok r" and "re_type r = rt" and "family = None \<or> re_family r = family"
  shows "binding_grants b a r \<longleftrightarrow> (exact_match a rt family b \<and> bi_resource b = r) \<or> (parent_match a rt family b \<and> binding_covers (bi_resource b) r)"
proof (cases "bi_resource b = r")
  case True
  then show ?thesis
    using assms by (auto simp: binding_grants_def exact_match_def parent_match_def parent_binding_grants_def resource_is_parent_def
      split: access_resource_type.splits if_splits)
next
  case False
  then show ?thesis
    using assms(2) by (cases "re_type (bi_resource b)"; cases rt)
      (auto simp: binding_grants_def exact_match_def parent_match_def parent_binding_grants_def resource_is_parent_def binding_covers_def)
qed

lemma filter_allows_iff:
  assumes ok: "\<forall>b \<in> set bs. resource_ok (bi_resource b)" "\<forall>x \<in> set owned. resource_ok x"
    and r: "resource_ok r" "re_type r = rt" "family = None \<or> re_family r = family"
  shows "resource_allowed_by_filter (derive_authorized_resource_filter bs owned a rt family v) r \<longleftrightarrow>
     (\<exists>b \<in> set bs. binding_grants b a r) \<or> (rt = ARTIFACT \<and> a \<in> set (role_actions ARTIFACT_OWNER) \<and> r \<in> set owned)"
proof -
  let ?exact = "map bi_resource (filter (exact_match a rt family) bs)
       @ (if rt = ARTIFACT \<and> a \<in> set (role_actions ARTIFACT_OWNER)
          then filter (\<lambda>r. family = None \<or> re_family r = family) owned else [])"
  let ?parents = "map bi_resource (filter (parent_match a rt family) bs)"
  have "\<forall>x \<in> set ?exact. resource_ok x" "\<forall>x \<in> set ?parents. resource_ok x" using ok by auto
  note sets = this [THEN set_by_sorted_key]
  have "resource_allowed_by_filter (derive_authorized_resource_filter bs owned a rt family v) r \<longleftrightarrow>
      r \<in> set ?exact \<or> (\<exists>p \<in> set ?parents. binding_covers p r)"
    unfolding resource_allowed_by_filter_def derive_authorized_resource_filter_def resource_filter.simps sets ..
  also have "\<dots> \<longleftrightarrow> (\<exists>b \<in> set bs. (exact_match a rt family b \<and> bi_resource b = r) \<or> (parent_match a rt family b \<and> binding_covers (bi_resource b) r))
      \<or> (rt = ARTIFACT \<and> a \<in> set (role_actions ARTIFACT_OWNER) \<and> r \<in> set owned)"
    using r(3) by (auto simp del: role_actions.simps)
  finally show ?thesis using granted_cases [OF r] by simp
qed

text \<open>Roles that manage and do not read content.\<close>

definition management_roles :: "access_role set" where
  "management_roles = {ROLE_SCOPE_ADMIN, SERVER_OBSERVER, ROLE_SERVER_ADMIN}"

definition management_actions :: "access_action set" where
  "management_actions = {ACCESS_SELF, SERVER_OBSERVE, SERVER_ADMIN, SCOPE_ADMIN, ARTIFACT_SHARE}"

lemma management_grants:
  "bi_role b \<in> management_roles \<Longrightarrow> binding_grants b a r \<Longrightarrow> a \<in> management_actions"
  by (auto simp: management_roles_def management_actions_def binding_grants_def parent_binding_grants_def split: if_splits)

end
