(* ===== verification/Access_Store.thy ===== *)
theory Access_Store
  imports Access_Model Sql Register
begin

text \<open>
  The relationship store behind the server's access control
  (\<^verbatim>\<open>src/src/powercontext/server/authz/repository.py\<close>): role bindings, artifact owners,
  candidate attestations, idempotency receipts, the append-only audit log, and the policy
  head whose counter every change of policy moves.

  The columns of a row are held decoded (a binding, an owner relation, an audit event)
  beside the columns the statements look at: key hashes and the slot of a role that one
  subject at a time may hold. SHA-256 is a parameter \<open>digest\<close>, of which the lemmas
  assume nothing.

  A function here is the body of a repository method on a connection; a call that is not
  bound to one runs in a transaction of its own, which \<^verbatim>\<open>Access_Service\<close> adds.
\<close>

section \<open>Timestamps\<close>

text \<open>
  \<^verbatim>\<open>datetime.isoformat(timespec="microseconds")\<close> in UTC. An instant counts
  microseconds from the first of January of year 1, where Python's dates begin.
\<close>

fun month_and_day :: "int list \<Rightarrow> int \<Rightarrow> int \<Rightarrow> int \<times> int" where
  "month_and_day [] m n = (m, n + 1)"
| "month_and_day (l # ls) m n = (if n < l then (m, n + 1) else month_and_day ls (m + 1) (n - l))"

definition civil_date :: "int \<Rightarrow> int \<times> int \<times> int" where
  "civil_date days =
     (let n400 = days div 146097; a = days mod 146097;
          n100 = a div 36524; b = a mod 36524;
          n4 = b div 1461; c = b mod 1461;
          n1 = c div 365; n = c mod 365;
          year = n400 * 400 + n100 * 100 + n4 * 4 + n1 + 1;
          leap = (n1 = 3 \<and> (n4 \<noteq> 24 \<or> n100 = 3)) in
      if n1 = 4 \<or> n100 = 4 then (year - 1, 12, 31)
      else (year, month_and_day [31, if leap then 29 else 28, 31, 30, 31, 30, 31, 31, 30, 31, 30, 31] 1 n))"

fun digits :: "nat \<Rightarrow> int \<Rightarrow> string" where
  "digits 0 n = []"
| "digits (Suc w) n = digits w (n div 10) @ [char_of (48 + n mod 10)]"

definition timestamp_text :: "int \<Rightarrow> string" where
  "timestamp_text t =
     (let us = t mod 1000000; s = t div 1000000 in
      case civil_date (s div 86400) of (y, m, d) \<Rightarrow>
        digits 4 y @ ''-'' @ digits 2 m @ ''-'' @ digits 2 d @ ''T''
        @ digits 2 (s mod 86400 div 3600) @ '':'' @ digits 2 (s mod 3600 div 60) @ '':'' @ digits 2 (s mod 60)
        @ ''.'' @ digits 6 us @ ''+00:00'')"

section \<open>Tables\<close>

record policy_head =
  ph_name :: string
  ph_revision :: int

record binding_row =
  br_binding :: access_binding
  br_resource_key_hash :: string
  br_singleton_key :: "string option"

record candidate_owner =
  co_scope_id :: string
  co_candidate_id :: string
  co_family :: string
  co_proposed_owner :: subject
  co_target :: "resource_ref option"
  co_idempotency_key :: string

text \<open>The constraint \<^verbatim>\<open>ck_pc_access_owners_kind\<close> makes the table a sum of two kinds of rows.\<close>

datatype owner_row =
    Artifact_Owner (owner_hash: string) owner_relation
  | Candidate_Owner (owner_hash: string) candidate_owner

record idempotency_row =
  ir_actor_id :: string
  ir_key_hash :: string
  ir_operation :: string
  ir_payload_hash :: string
  ir_result_binding_id :: "string option"
  ir_secondary_binding_id :: "string option"

record audit_event =
  ev_cursor :: "int option"
  ev_event_id :: string
  ev_occurred_at :: int
  ev_request_id :: "string option"
  ev_transport :: string
  ev_operation :: string
  ev_principal :: subject
  ev_actor :: "subject option"
  ev_action :: access_action
  ev_resource :: resource_ref
  ev_allowed :: bool
  ev_reason_code :: string
  ev_policy_revision :: "policy_revision option"
  ev_matched_subject :: "subject option"
  ev_binding_id :: "string option"
  ev_target :: "subject option"
  ev_role :: "access_role option"
  ev_expected_version :: "int option"
  ev_result_version :: "int option"

record access_db =
  ad_heads :: "policy_head list"
  ad_bindings :: "binding_row list"
  ad_owners :: "owner_row list"
  ad_receipts :: "idempotency_row list"
  ad_audit :: "audit_event list"

definition empty_access_db :: access_db where
  "empty_access_db = \<lparr>ad_heads = [], ad_bindings = [], ad_owners = [], ad_receipts = [], ad_audit = []\<rparr>"

definition ACCESS_POLICY_HEADS_TABLE :: "(access_db, policy_head) sql_table" where
  "ACCESS_POLICY_HEADS_TABLE = \<lparr>rows_of = ad_heads, put_rows = (\<lambda>t. ad_heads_update (\<lambda>_. t)),
     clash = (\<lambda>a b. ph_name a = ph_name b), admits = (\<lambda>_ r. 0 \<le> ph_revision r)\<rparr>"

definition ACCESS_BINDINGS_TABLE :: "(access_db, binding_row) sql_table" where
  "ACCESS_BINDINGS_TABLE = \<lparr>rows_of = ad_bindings, put_rows = (\<lambda>t. ad_bindings_update (\<lambda>_. t)),
     clash = (\<lambda>a b. bi_binding_id (br_binding a) = bi_binding_id (br_binding b)
        \<or> (case (br_singleton_key a, br_singleton_key b) of (Some k, Some l) \<Rightarrow> k = l | _ \<Rightarrow> False)),
     admits = (\<lambda>_ r. 0 < bi_version (br_binding r))\<rparr>"

fun is_artifact_owner :: "owner_row \<Rightarrow> bool" where
  "is_artifact_owner (Artifact_Owner _ _) = True"
| "is_artifact_owner (Candidate_Owner _ _) = False"

definition ACCESS_OWNERS_TABLE :: "(access_db, owner_row) sql_table" where
  "ACCESS_OWNERS_TABLE = \<lparr>rows_of = ad_owners, put_rows = (\<lambda>t. ad_owners_update (\<lambda>_. t)),
     clash = (\<lambda>a b. is_artifact_owner a = is_artifact_owner b \<and> owner_hash a = owner_hash b), admits = (\<lambda>_ _. True)\<rparr>"

definition ACCESS_IDEMPOTENCY_TABLE :: "(access_db, idempotency_row) sql_table" where
  "ACCESS_IDEMPOTENCY_TABLE = \<lparr>rows_of = ad_receipts, put_rows = (\<lambda>t. ad_receipts_update (\<lambda>_. t)),
     clash = (\<lambda>a b. ir_actor_id a = ir_actor_id b \<and> ir_key_hash a = ir_key_hash b), admits = (\<lambda>_ _. True)\<rparr>"

definition ACCESS_AUDIT_EVENTS_TABLE :: "(access_db, audit_event) sql_table" where
  "ACCESS_AUDIT_EVENTS_TABLE = \<lparr>rows_of = ad_audit, put_rows = (\<lambda>t. ad_audit_update (\<lambda>_. t)),
     clash = (\<lambda>a b. ev_cursor a = ev_cursor b \<or> ev_event_id a = ev_event_id b), admits = (\<lambda>_ _. True)\<rparr>"

lemmas access_tables = ACCESS_POLICY_HEADS_TABLE_def ACCESS_BINDINGS_TABLE_def ACCESS_OWNERS_TABLE_def
  ACCESS_IDEMPOTENCY_TABLE_def ACCESS_AUDIT_EVENTS_TABLE_def

interpretation heads_table: stored_table ACCESS_POLICY_HEADS_TABLE
  by unfold_locales (auto simp: ACCESS_POLICY_HEADS_TABLE_def)

interpretation bindings_table: stored_table ACCESS_BINDINGS_TABLE
  by unfold_locales (auto simp: ACCESS_BINDINGS_TABLE_def split: option.splits)

interpretation owners_table: stored_table ACCESS_OWNERS_TABLE
  by unfold_locales (auto simp: ACCESS_OWNERS_TABLE_def)

interpretation receipts_table: stored_table ACCESS_IDEMPOTENCY_TABLE
  by unfold_locales (auto simp: ACCESS_IDEMPOTENCY_TABLE_def)

interpretation audit_table: stored_table ACCESS_AUDIT_EVENTS_TABLE
  by unfold_locales (auto simp: ACCESS_AUDIT_EVENTS_TABLE_def)

section \<open>The policy head\<close>

type_synonym hash = "string \<Rightarrow> string"

definition policy_revision :: "(access_db, policy_revision) exec" where
  "policy_revision = bind (sql_scalar ACCESS_POLICY_HEADS_TABLE (\<lambda>r. ph_name r = ''authorization'') ph_revision)
     (\<lambda>v. return (Revision (case v of None \<Rightarrow> 0 | Some n \<Rightarrow> n)))"

definition increment_policy_revision :: "int \<Rightarrow> (access_db, int) exec" where
  "increment_policy_revision amount =
     bind (sql_scalar ACCESS_POLICY_HEADS_TABLE (\<lambda>r. ph_name r = ''authorization'') ph_revision) (\<lambda>current.
     case current of
       None \<Rightarrow> andThen (catch (sql_insert ACCESS_POLICY_HEADS_TABLE \<lparr>ph_name = ''authorization'', ph_revision = amount\<rparr>)
           (\<lambda>e. e = IntegrityError) (\<lambda>_. raise (AccessConflict ''binding-version'')))
         (return amount)
     | Some c \<Rightarrow>
         bind (sql_update ACCESS_POLICY_HEADS_TABLE (\<lambda>r. ph_name r = ''authorization'' \<and> ph_revision r = c)
             (\<lambda>r. r\<lparr>ph_revision := c + amount\<rparr>)) (\<lambda>rowcount.
         if rowcount \<noteq> 1 then raise (AccessConflict ''binding-version'') else return (c + amount)))"

section \<open>Bindings\<close>

definition singleton_key :: "hash \<Rightarrow> access_binding \<Rightarrow> string option" where
  "singleton_key digest b =
     (if one_per_resource (bi_role b) \<and> bi_state b = BINDING_ACTIVE
      then Some (digest (''['' @ json_string True (resource_key (bi_resource b)) @ '','' @ json_string True (role_value (bi_role b)) @ '']''))
      else None)"

definition binding_row_of :: "hash \<Rightarrow> access_binding \<Rightarrow> binding_row" where
  "binding_row_of digest b = \<lparr>br_binding = b, br_resource_key_hash = digest (resource_key (bi_resource b)),
     br_singleton_key = singleton_key digest b\<rparr>"

abbreviation has_binding_id :: "string \<Rightarrow> binding_row \<Rightarrow> bool" where
  "has_binding_id binding_id r \<equiv> bi_binding_id (br_binding r) = binding_id"

definition binding_by_id :: "string \<Rightarrow> (access_db, binding_row option) exec" where
  "binding_by_id binding_id = sql_one_or_none ACCESS_BINDINGS_TABLE (has_binding_id binding_id)"

text \<open>
  An expired holder gives up only its slot: the binding stays for lookup and replay. The
  unique slot decides between concurrent claims.
\<close>

definition insert_binding :: "hash \<Rightarrow> access_binding \<Rightarrow> (access_db, unit) exec" where
  "insert_binding digest b =
     (let key = singleton_key digest b in
      andThen (case key of
          None \<Rightarrow> return ()
        | Some k \<Rightarrow> andThen (sql_update ACCESS_BINDINGS_TABLE
              (\<lambda>r. br_singleton_key r = Some k \<and> (case bi_expires_at (br_binding r) of None \<Rightarrow> False | Some e \<Rightarrow> e \<le> bi_created_at b))
              (\<lambda>r. r\<lparr>br_singleton_key := None\<rparr>)) (return ()))
        (catch (sql_insert ACCESS_BINDINGS_TABLE (binding_row_of digest b)) (\<lambda>e. e = IntegrityError)
           (\<lambda>_. raise (AccessConflict (if key \<noteq> None then ''binding_cardinality_conflict'' else ''idempotency-key'')))))"

text \<open>\<^verbatim>\<open>_binding_mutation_row\<close>: the columns a change of state writes.\<close>

definition mutated_row :: "hash \<Rightarrow> access_binding \<Rightarrow> binding_row \<Rightarrow> binding_row" where
  "mutated_row digest b r = r\<lparr>br_binding := (br_binding r)\<lparr>bi_state := bi_state b, bi_version := bi_version b,
       bi_policy_revision := bi_policy_revision b, bi_revoked_at := bi_revoked_at b, bi_revoked_by := bi_revoked_by b\<rparr>,
     br_singleton_key := singleton_key digest b\<rparr>"

definition active_version :: "string \<Rightarrow> int \<Rightarrow> binding_row \<Rightarrow> bool" where
  "active_version binding_id version r \<longleftrightarrow> has_binding_id binding_id r
     \<and> bi_version (br_binding r) = version \<and> bi_state (br_binding r) = BINDING_ACTIVE"

section \<open>Idempotency receipts\<close>

definition idempotent_result ::
  "hash \<Rightarrow> subject \<Rightarrow> string \<Rightarrow> string \<Rightarrow> string \<Rightarrow> (access_db, (string \<times> string option) option) exec" where
  "idempotent_result digest actor key operation payload_hash =
     bind (sql_one_or_none ACCESS_IDEMPOTENCY_TABLE (\<lambda>r. ir_actor_id r = su_id actor \<and> ir_key_hash r = digest key)) (\<lambda>row.
     case row of
       None \<Rightarrow> return None
     | Some r \<Rightarrow>
         if ir_operation r \<noteq> operation \<or> ir_payload_hash r \<noteq> payload_hash then raise (AccessConflict ''idempotency-key'')
         else (case ir_result_binding_id r of
             None \<Rightarrow> raise (AccessConflict ''idempotency-key'')
           | Some i \<Rightarrow> return (Some (i, ir_secondary_binding_id r))))"

definition record_idempotency ::
  "hash \<Rightarrow> subject \<Rightarrow> string \<Rightarrow> string \<Rightarrow> string \<Rightarrow> string \<Rightarrow> string option \<Rightarrow> (access_db, unit) exec" where
  "record_idempotency digest actor key operation payload_hash result secondary =
     sql_insert ACCESS_IDEMPOTENCY_TABLE \<lparr>ir_actor_id = su_id actor, ir_key_hash = digest key, ir_operation = operation,
       ir_payload_hash = payload_hash, ir_result_binding_id = Some result, ir_secondary_binding_id = secondary\<rparr>"

text \<open>\<^verbatim>\<open>"\0".join(parts)\<close>, and the optional parts: an absent one is written as an empty text.\<close>

fun nul_join :: "string list \<Rightarrow> string" where
  "nul_join [] = []"
| "nul_join [x] = x"
| "nul_join (x # y # xs) = x @ CHR 0x00 # nul_join (y # xs)"

definition optional_text :: "string option \<Rightarrow> string" where
  "optional_text v = (case v of None \<Rightarrow> [] | Some x \<Rightarrow> x)"

definition expiry_text :: "int option \<Rightarrow> string" where
  "expiry_text v = (case v of None \<Rightarrow> [] | Some t \<Rightarrow> timestamp_text t)"

text \<open>\<^verbatim>\<open>str(n)\<close> of an integer.\<close>

definition integer_text :: "int \<Rightarrow> string" where
  "integer_text n = (if n < 0 then ''-'' @ decimal (nat (- n)) else decimal (nat n))"

definition creation_hash :: "hash \<Rightarrow> access_binding \<Rightarrow> string" where
  "creation_hash digest b = digest (nul_join [su_type (bi_subject b), su_id (bi_subject b), resource_key (bi_resource b),
     role_value (bi_role b), optional_text (bi_reason b), expiry_text (bi_expires_at b)])"

section \<open>Reads\<close>

definition is_subject :: "subject \<Rightarrow> binding_row \<Rightarrow> bool" where
  "is_subject p r \<longleftrightarrow> same_subject (bi_subject (br_binding r)) p"

definition active_bindings :: "subject list \<Rightarrow> int \<Rightarrow> (access_db, access_binding list) exec" where
  "active_bindings subjects now =
     (if subjects = [] then return []
      else bind (sql_select ACCESS_BINDINGS_TABLE (\<lambda>r. (\<exists>p \<in> set subjects. is_subject p r)
             \<and> bi_state (br_binding r) = BINDING_ACTIVE)) (\<lambda>rows.
        return (filter (active_at now) (map br_binding rows))))"

definition get_binding :: "string \<Rightarrow> (access_db, access_binding option) exec" where
  "get_binding binding_id = bind (binding_by_id binding_id) (\<lambda>row. return (map_option br_binding row))"

text \<open>\<^verbatim>\<open>_boundary_predicates\<close>: a server sees everything, a scope what lies in it, an artifact itself.\<close>

definition within_boundary :: "resource_ref \<Rightarrow> resource_ref \<Rightarrow> bool" where
  "within_boundary boundary r = (case re_type boundary of
     SERVER \<Rightarrow> True
   | SCOPE \<Rightarrow> re_scope_id r \<noteq> None \<and> re_scope_id r = re_scope_id boundary
   | ARTIFACT \<Rightarrow> r = boundary)"

record binding_search =
  bs_management_resource :: resource_ref
  bs_subject :: "subject option"
  bs_role :: "access_role option"
  bs_state :: "access_binding_state option"
  bs_cursor :: "string option"
  bs_limit :: nat
  bs_visible_roles :: "access_role list"

definition binding_matches :: "binding_search \<Rightarrow> access_binding \<Rightarrow> bool" where
  "binding_matches q b \<longleftrightarrow> within_boundary (bs_management_resource q) (bi_resource b)
     \<and> (case bs_subject q of None \<Rightarrow> True | Some p \<Rightarrow> same_subject (bi_subject b) p)
     \<and> (case bs_role q of None \<Rightarrow> True | Some r \<Rightarrow> bi_role b = r)
     \<and> (case bs_state q of None \<Rightarrow> True | Some x \<Rightarrow> bi_state b = x)
     \<and> (bs_visible_roles q = [] \<or> bi_role b \<in> set (bs_visible_roles q))
     \<and> (case bs_cursor q of None \<Rightarrow> True | Some c \<Rightarrow> c < bi_binding_id b)"

definition store_list_bindings :: "binding_search \<Rightarrow> (access_db, access_binding list) exec" where
  "store_list_bindings q = bind (sql_select ACCESS_BINDINGS_TABLE (\<lambda>r. binding_matches q (br_binding r))) (\<lambda>rows.
     return (take (bs_limit q) (sort_key bi_binding_id (map br_binding rows))))"

section \<open>Decision snapshots\<close>

definition artifact_owner_of :: "owner_row \<Rightarrow> owner_relation option" where
  "artifact_owner_of r = (case r of Artifact_Owner _ w \<Rightarrow> Some w | Candidate_Owner _ _ \<Rightarrow> None)"

definition has_owner_key :: "string \<Rightarrow> owner_row \<Rightarrow> bool" where
  "has_owner_key h r \<longleftrightarrow> is_artifact_owner r \<and> owner_hash r = h"

definition owned_by :: "subject \<Rightarrow> owner_row \<Rightarrow> bool" where
  "owned_by p r = (case artifact_owner_of r of None \<Rightarrow> False | Some w \<Rightarrow> same_subject (ow_owner w) p)"

definition get_artifact_owner :: "hash \<Rightarrow> resource_ref \<Rightarrow> (access_db, owner_relation option) exec" where
  "get_artifact_owner digest r =
     (if re_type r \<noteq> ARTIFACT then return None
      else bind (sql_one_or_none ACCESS_OWNERS_TABLE (has_owner_key (digest (resource_key r)))) (\<lambda>row.
        return (Option.bind row artifact_owner_of)))"

definition list_owned_resources :: "subject \<Rightarrow> (access_db, resource_ref list) exec" where
  "list_owned_resources p = bind (sql_select ACCESS_OWNERS_TABLE (owned_by p)) (\<lambda>rows.
     return (map ow_resource (List.map_filter artifact_owner_of rows)))"

text \<open>
  One statement reads the revision, the active bindings of the subjects, the owners of the
  artifacts and what a principal owns. A point decision restricts the bindings to those on
  the server, on the resources asked for and on their scopes.
\<close>

definition relevant_binding :: "hash \<Rightarrow> resource_ref list option \<Rightarrow> binding_row \<Rightarrow> bool" where
  "relevant_binding digest binding_resources r = (case binding_resources of
     None \<Rightarrow> True
   | Some rs \<Rightarrow>
       (let resources = rs @ List.map_filter parent_scope rs; t = re_type (bi_resource (br_binding r)) in
        t = SERVER \<or> (t \<in> {SCOPE, ARTIFACT}
          \<and> br_resource_key_hash r \<in> set (map (\<lambda>q. digest (resource_key q)) (filter (\<lambda>q. re_type q = t) resources)))))"

definition decision_snapshot ::
  "hash \<Rightarrow> subject list \<Rightarrow> int \<Rightarrow> resource_ref list \<Rightarrow> subject option \<Rightarrow> resource_ref list option \<Rightarrow>
     (access_db, decision_state) exec" where
  "decision_snapshot digest subjects now artifact_resources owner binding_resources =
     bind policy_revision (\<lambda>revision.
     bind (if subjects = [] then return [] else sql_select ACCESS_BINDINGS_TABLE
        (\<lambda>r. ((\<exists>p \<in> set subjects. is_subject p r) \<and> bi_state (br_binding r) = BINDING_ACTIVE)
          \<and> relevant_binding digest binding_resources r)) (\<lambda>bindings.
     bind (if artifact_resources = [] then return [] else sql_select ACCESS_OWNERS_TABLE
        (\<lambda>r. is_artifact_owner r \<and> owner_hash r \<in> set (map (\<lambda>q. digest (resource_key q)) artifact_resources))) (\<lambda>owners.
     bind (case owner of None \<Rightarrow> return [] | Some p \<Rightarrow> sql_select ACCESS_OWNERS_TABLE (owned_by p)) (\<lambda>owned.
     return \<lparr>ds_policy_revision = revision,
       ds_bindings = filter (active_at now) (map br_binding bindings),
       ds_artifact_owners = fold (\<lambda>w m. m(resource_key (ow_resource w) \<mapsto> w)) (List.map_filter artifact_owner_of owners) Map.empty,
       ds_owned_resources = map ow_resource (List.map_filter artifact_owner_of owned)\<rparr>))))"

definition static_scope_initialized :: "hash \<Rightarrow> subject \<Rightarrow> string list \<Rightarrow> (access_db, bool) exec" where
  "static_scope_initialized digest actor keys = gets (\<lambda>s.
     length [(r, b). r \<leftarrow> ad_receipts s, b \<leftarrow> ad_bindings s,
       Some (bi_binding_id (br_binding b)) = ir_result_binding_id r \<and> ir_actor_id r = su_id actor
       \<and> ir_key_hash r \<in> set (map digest keys) \<and> ir_operation r = ''binding.create''] = length keys)"

section \<open>Owners\<close>

definition stored_relation :: "hash \<Rightarrow> owner_relation \<Rightarrow> owner_row" where
  "stored_relation digest w = Artifact_Owner (digest (resource_key (ow_resource w))) w"

text \<open>
  The loop over the relations: one that is stored with the same owner and idempotency key
  is returned as it is, a missing one is collected, anything else is a conflict.
\<close>

definition existing_relation :: "hash \<Rightarrow> owner_row list \<Rightarrow> owner_relation \<Rightarrow> owner_relation option" where
  "existing_relation digest rows w =
     Option.bind (List.find (has_owner_key (digest (resource_key (ow_resource w)))) rows) artifact_owner_of"

fun classify_relations :: "hash \<Rightarrow> owner_row list \<Rightarrow> owner_relation list \<Rightarrow> error + owner_relation option list" where
  "classify_relations digest rows [] = Inr []"
| "classify_relations digest rows (w # ws) = (case existing_relation digest rows w of
     None \<Rightarrow> (case classify_relations digest rows ws of Inl e \<Rightarrow> Inl e | Inr rs \<Rightarrow> Inr (None # rs))
   | Some v \<Rightarrow>
       if same_subject (ow_owner v) (ow_owner w) \<and> ow_idempotency_key v = ow_idempotency_key w
       then (case classify_relations digest rows ws of Inl e \<Rightarrow> Inl e | Inr rs \<Rightarrow> Inr (Some v # rs))
       else Inl (AccessConflict ''artifact-owner''))"

text \<open>The revisions a batch reserved, in order, one for each missing relation.\<close>

fun with_revisions :: "int \<Rightarrow> owner_relation list \<Rightarrow> owner_relation list" where
  "with_revisions v [] = []"
| "with_revisions v (w # ws) = w\<lparr>ow_policy_revision := Revision v\<rparr> # with_revisions (v + 1) ws"

fun fill_missing :: "owner_relation option list \<Rightarrow> owner_relation list \<Rightarrow> owner_relation list" where
  "fill_missing [] new = []"
| "fill_missing (Some w # rs) new = w # fill_missing rs new"
| "fill_missing (None # rs) [] = []"
| "fill_missing (None # rs) (w # new) = w # fill_missing rs new"

definition missing_relations :: "owner_relation option list \<Rightarrow> owner_relation list \<Rightarrow> owner_relation list" where
  "missing_relations results relations = map snd (filter (\<lambda>(r, w). r = None) (zip results relations))"

text \<open>The last part of the method: one policy write for the missing relations, in order.\<close>

definition establish_missing :: "hash \<Rightarrow> owner_relation option list \<Rightarrow> owner_relation list \<Rightarrow> (access_db, owner_relation list) exec" where
  "establish_missing digest results missing =
     (if missing = [] then return (List.map_filter (\<lambda>r. r) results)
      else bind (increment_policy_revision (int (length missing))) (\<lambda>last_revision.
        let established = with_revisions (last_revision - int (length missing) + 1) missing in
        andThen (catch (for_each (map (stored_relation digest) established) (sql_insert ACCESS_OWNERS_TABLE))
            (\<lambda>e. e = IntegrityError) (\<lambda>_. raise (AccessConflict ''artifact-owner'')))
          (return (fill_missing results established))))"

definition establish_artifact_owners :: "hash \<Rightarrow> owner_relation list \<Rightarrow> (access_db, owner_relation list) exec" where
  "establish_artifact_owners digest relations =
     (if relations = [] then return []
      else let keys = map (\<lambda>w. digest (resource_key (ow_resource w))) relations in
      andThen (require (\<forall>w \<in> set relations. re_type (ow_resource w) = ARTIFACT) (AccessInvalidRequest ''artifact-identity''))
     (andThen (require (distinct keys) (AccessConflict ''artifact-owner''))
     (bind (sql_select ACCESS_OWNERS_TABLE (\<lambda>r. is_artifact_owner r \<and> owner_hash r \<in> set keys)) (\<lambda>rows.
      bind (lift_result (classify_relations digest rows relations)) (\<lambda>results.
      establish_missing digest results (missing_relations results relations))))))"

definition candidate_owner_key :: "hash \<Rightarrow> string \<Rightarrow> string \<Rightarrow> string" where
  "candidate_owner_key digest scope_id candidate_id =
     digest (''['' @ json_string False scope_id @ '','' @ json_string False candidate_id @ '']'')"

definition candidate_owner_ok :: "candidate_owner \<Rightarrow> bool" where
  "candidate_owner_ok a \<longleftrightarrow> valid_text 256 (co_scope_id a) \<and> valid_text 128 (co_candidate_id a) \<and> valid_text 128 (co_family a)
     \<and> (case co_target a of None \<Rightarrow> True
        | Some t \<Rightarrow> re_type t = ARTIFACT \<and> re_scope_id t = Some (co_scope_id a) \<and> re_family t = Some (co_family a))"

text \<open>
  The columns keep only the target's artifact id; reading them back gives a target without
  a selector.
\<close>

definition stored_attestation :: "hash \<Rightarrow> candidate_owner \<Rightarrow> owner_row" where
  "stored_attestation digest a = Candidate_Owner (candidate_owner_key digest (co_scope_id a) (co_candidate_id a))
     (a\<lparr>co_target := map_option (\<lambda>t. artifact_resource (co_scope_id a) (co_family a)
          (case re_identity t of None \<Rightarrow> [] | Some (_, i) \<Rightarrow> i) None) (co_target a)\<rparr>)"

definition same_attestation :: "candidate_owner \<Rightarrow> candidate_owner \<Rightarrow> bool" where
  "same_attestation a b \<longleftrightarrow> same_subject (co_proposed_owner a) (co_proposed_owner b)
     \<and> a\<lparr>co_proposed_owner := co_proposed_owner b\<rparr> = b"

fun unique_attestations :: "hash \<Rightarrow> (string \<times> candidate_owner) list \<Rightarrow> candidate_owner list \<Rightarrow> error + (string \<times> candidate_owner) list" where
  "unique_attestations digest seen [] = Inr seen"
| "unique_attestations digest seen (a # as) =
     (let key = candidate_owner_key digest (co_scope_id a) (co_candidate_id a) in
      case map_of seen key of
        None \<Rightarrow> unique_attestations digest (seen @ [(key, a)]) as
      | Some p \<Rightarrow> if same_attestation p a then unique_attestations digest seen as else Inl (AccessConflict ''candidate-owner''))"

definition candidate_owner_of :: "owner_row \<Rightarrow> candidate_owner option" where
  "candidate_owner_of r = (case r of Artifact_Owner _ _ \<Rightarrow> None | Candidate_Owner _ a \<Rightarrow> Some a)"

definition has_candidate_key :: "string \<Rightarrow> owner_row \<Rightarrow> bool" where
  "has_candidate_key h r \<longleftrightarrow> \<not> is_artifact_owner r \<and> owner_hash r = h"

fun classify_attestations :: "owner_row list \<Rightarrow> (string \<times> candidate_owner) list \<Rightarrow> error + candidate_owner list" where
  "classify_attestations rows [] = Inr []"
| "classify_attestations rows ((key, a) # as) = (case Option.bind (List.find (has_candidate_key key) rows) candidate_owner_of of
     None \<Rightarrow> (case classify_attestations rows as of Inl e \<Rightarrow> Inl e | Inr ms \<Rightarrow> Inr (a # ms))
   | Some p \<Rightarrow> if same_attestation p a then classify_attestations rows as else Inl (AccessConflict ''candidate-owner''))"

definition attest_candidate_owners :: "hash \<Rightarrow> candidate_owner list \<Rightarrow> (access_db, candidate_owner list) exec" where
  "attest_candidate_owners digest attestations =
     (if attestations = [] then return []
      else bind (lift_result (unique_attestations digest [] attestations)) (\<lambda>unique.
      bind (sql_select ACCESS_OWNERS_TABLE (\<lambda>r. \<not> is_artifact_owner r \<and> owner_hash r \<in> set (map fst unique))) (\<lambda>rows.
      bind (lift_result (classify_attestations rows unique)) (\<lambda>missing.
      andThen (catch (for_each (map (stored_attestation digest) missing) (sql_insert ACCESS_OWNERS_TABLE))
          (\<lambda>e. e = IntegrityError) (\<lambda>_. raise (AccessConflict ''candidate-owner'')))
        (return attestations)))))"

definition get_candidate_owner :: "hash \<Rightarrow> string \<Rightarrow> string \<Rightarrow> (access_db, candidate_owner option) exec" where
  "get_candidate_owner digest scope_id candidate_id =
     bind (sql_one_or_none ACCESS_OWNERS_TABLE (has_candidate_key (candidate_owner_key digest scope_id candidate_id))) (\<lambda>row.
     return (Option.bind row candidate_owner_of))"

definition get_candidate_owners :: "hash \<Rightarrow> string \<Rightarrow> string list \<Rightarrow> (access_db, string \<Rightarrow> candidate_owner option) exec" where
  "get_candidate_owners digest scope_id candidate_ids =
     (if candidate_ids = [] then return Map.empty
      else bind (sql_select ACCESS_OWNERS_TABLE (\<lambda>r. \<not> is_artifact_owner r
          \<and> owner_hash r \<in> set (map (candidate_owner_key digest scope_id) candidate_ids))) (\<lambda>rows.
        return (fold (\<lambda>a m. m(co_candidate_id a \<mapsto> a)) (List.map_filter candidate_owner_of rows) Map.empty)))"

text \<open>An owner row of the family whose artifacts belong to their scope.\<close>

definition legacy_owner :: "owner_row \<Rightarrow> bool" where
  "legacy_owner r = (case artifact_owner_of r of None \<Rightarrow> False | Some w \<Rightarrow> re_family (ow_resource w) = Some ''topic-memory'')"

definition delete_legacy_topic_memory_owners :: "(access_db, nat) exec" where
  "delete_legacy_topic_memory_owners =
     bind (sql_scalar ACCESS_OWNERS_TABLE legacy_owner owner_hash) (\<lambda>present.
     if present = None then return 0
     else bind (increment_policy_revision 1) (\<lambda>_. sql_delete ACCESS_OWNERS_TABLE legacy_owner))"

section \<open>Changes of bindings\<close>

text \<open>The part of the method after its replay check.\<close>

definition create_new :: "hash \<Rightarrow> access_binding \<Rightarrow> string \<Rightarrow> (access_db, access_binding) exec" where
  "create_new digest b payload_hash =
     bind (increment_policy_revision 1) (\<lambda>revision.
     let created = b\<lparr>bi_policy_revision := Revision revision\<rparr> in
     andThen (insert_binding digest created)
    (andThen (catch (record_idempotency digest (bi_granted_by b) (bi_idempotency_key b) ''binding.create'' payload_hash
         (bi_binding_id b) None) (\<lambda>e. e = IntegrityError) (\<lambda>_. raise (AccessConflict ''idempotency-key'')))
     (return created)))"

definition create_binding :: "hash \<Rightarrow> access_binding \<Rightarrow> (access_db, access_binding) exec" where
  "create_binding digest b =
     (let payload_hash = creation_hash digest b in
      bind (idempotent_result digest (bi_granted_by b) (bi_idempotency_key b) ''binding.create'' payload_hash) (\<lambda>replay.
      case replay of
        Some (i, _) \<Rightarrow> bind (binding_by_id i) (\<lambda>row.
          case row of None \<Rightarrow> raise (AccessConflict ''idempotency-key'') | Some r \<Rightarrow> return (br_binding r))
      | None \<Rightarrow> create_new digest b payload_hash))"

text \<open>The guarded write of a revoked binding, which the two operations below share.\<close>

definition store_revoked :: "hash \<Rightarrow> string \<Rightarrow> int \<Rightarrow> access_binding \<Rightarrow> (access_db, unit) exec" where
  "store_revoked digest binding_id expected_version revoked =
     bind (sql_update ACCESS_BINDINGS_TABLE (active_version binding_id expected_version) (mutated_row digest revoked)) (\<lambda>rowcount.
     require (rowcount = 1) (AccessConflict ''binding-version''))"

definition revoked_at_revision :: "access_binding \<Rightarrow> int \<Rightarrow> int \<Rightarrow> subject \<Rightarrow> access_binding" where
  "revoked_at_revision b revision at_time who = b\<lparr>bi_state := BINDING_REVOKED, bi_version := bi_version b + 1,
     bi_policy_revision := Revision revision, bi_revoked_at := Some at_time, bi_revoked_by := Some who\<rparr>"

definition revoke_binding :: "hash \<Rightarrow> string \<Rightarrow> int \<Rightarrow> string \<Rightarrow> int \<Rightarrow> subject \<Rightarrow> (access_db, access_binding) exec" where
  "revoke_binding digest binding_id expected_version idempotency_key revoked_at revoked_by =
     (let payload_hash = digest (nul_join [binding_id, integer_text expected_version]) in
      bind (idempotent_result digest revoked_by idempotency_key ''binding.revoke'' payload_hash) (\<lambda>replay.
      case replay of
        Some (i, _) \<Rightarrow> bind (binding_by_id i) (\<lambda>row.
          case row of None \<Rightarrow> raise (AccessConflict ''idempotency-key'') | Some r \<Rightarrow> return (br_binding r))
      | None \<Rightarrow>
          bind (increment_policy_revision 1) (\<lambda>revision.
          bind (binding_by_id binding_id) (\<lambda>current_row.
          case current_row of
            None \<Rightarrow> raise (AccessConflict ''binding-version'')
          | Some r \<Rightarrow>
              let current = br_binding r in
              if bi_version current \<noteq> expected_version \<or> bi_state current \<noteq> BINDING_ACTIVE
              then raise (AccessConflict ''binding-version'')
              else let revoked = revoked_at_revision current revision revoked_at revoked_by in
                andThen (store_revoked digest binding_id expected_version revoked)
               (andThen (record_idempotency digest revoked_by idempotency_key ''binding.revoke'' payload_hash binding_id None)
                (return revoked))))))"

record replace_request =
  rq_binding_id :: string
  rq_expected_version :: int
  rq_subject :: subject
  rq_idempotency_key :: string
  rq_reason :: "string option"
  rq_expires_at :: "int option"

definition replacement_hash :: "hash \<Rightarrow> replace_request \<Rightarrow> string" where
  "replacement_hash digest q = digest (nul_join [rq_binding_id q, integer_text (rq_expected_version q),
     su_type (rq_subject q), su_id (rq_subject q), optional_text (rq_reason q), expiry_text (rq_expires_at q)])"

definition replacement_of :: "hash \<Rightarrow> replace_request \<Rightarrow> access_binding \<Rightarrow> int \<Rightarrow> int \<Rightarrow> subject \<Rightarrow> access_binding" where
  "replacement_of digest q old revision changed_at actor = \<lparr>
     bi_binding_id = ''bind_'' @ take 32 (digest (rq_idempotency_key q @ '':'' @ bi_binding_id old)),
     bi_subject = rq_subject q, bi_resource = bi_resource old, bi_role = bi_role old, bi_granted_by = actor,
     bi_reason = rq_reason q, bi_created_at = changed_at, bi_expires_at = rq_expires_at q, bi_state = BINDING_ACTIVE,
     bi_version = 1, bi_policy_revision = Revision revision, bi_idempotency_key = rq_idempotency_key q,
     bi_revoked_at = None, bi_revoked_by = None\<rparr>"

definition replace_binding ::
  "hash \<Rightarrow> replace_request \<Rightarrow> subject \<Rightarrow> int \<Rightarrow> (access_db, access_binding \<times> access_binding) exec" where
  "replace_binding digest q actor changed_at =
     (let payload_hash = replacement_hash digest q in
      bind (idempotent_result digest actor (rq_idempotency_key q) ''binding.replace'' payload_hash) (\<lambda>replay.
      case replay of
        Some (i, secondary) \<Rightarrow>
          bind (binding_by_id i) (\<lambda>old_row.
          bind (case secondary of None \<Rightarrow> return None | Some j \<Rightarrow> binding_by_id j) (\<lambda>new_row.
          case (old_row, new_row) of
            (Some a, Some b) \<Rightarrow> return (br_binding a, br_binding b)
          | _ \<Rightarrow> raise (AccessConflict ''idempotency-key'')))
      | None \<Rightarrow>
          bind (increment_policy_revision 1) (\<lambda>revision.
          bind (binding_by_id (rq_binding_id q)) (\<lambda>old_row.
          case old_row of
            None \<Rightarrow> raise (AccessConflict ''binding-version'')
          | Some r \<Rightarrow>
              let old = br_binding r in
              if bi_version old \<noteq> rq_expected_version q \<or> bi_state old \<noteq> BINDING_ACTIVE
              then raise (AccessConflict ''binding-version'')
              else if singleton_key digest old \<noteq> br_singleton_key r then raise (AccessConflict ''binding_cardinality_conflict'')
              else let revoked = revoked_at_revision old revision changed_at actor;
                       created = replacement_of digest q old revision changed_at actor in
                andThen (store_revoked digest (bi_binding_id old) (rq_expected_version q) revoked)
               (andThen (insert_binding digest created)
               (andThen (catch (record_idempotency digest actor (rq_idempotency_key q) ''binding.replace'' payload_hash
                    (bi_binding_id old) (Some (bi_binding_id created))) (\<lambda>e. e = IntegrityError)
                    (\<lambda>_. raise (AccessConflict ''idempotency-key'')))
                (return (revoked, created))))))))"

section \<open>The audit log\<close>

definition next_cursor :: "access_db \<Rightarrow> int" where
  "next_cursor s = fold max (List.map_filter ev_cursor (ad_audit s)) 0 + 1"

definition append_audit :: "audit_event \<Rightarrow> (access_db, audit_event) exec" where
  "append_audit e = bind (gets next_cursor) (\<lambda>c.
     andThen (sql_insert ACCESS_AUDIT_EVENTS_TABLE (e\<lparr>ev_cursor := Some c\<rparr>)) (return (e\<lparr>ev_cursor := Some c\<rparr>)))"

definition append_audits :: "audit_event list \<Rightarrow> (access_db, unit) exec" where
  "append_audits es = for_each es (\<lambda>e. andThen (append_audit e) (return ()))"

definition same_optional :: "subject option \<Rightarrow> subject option \<Rightarrow> bool" where
  "same_optional a b = (case (a, b) of (None, None) \<Rightarrow> True | (Some p, Some q) \<Rightarrow> same_subject p q | _ \<Rightarrow> False)"

text \<open>Equality of two events but for their cursors.\<close>

definition same_event :: "audit_event \<Rightarrow> audit_event \<Rightarrow> bool" where
  "same_event a b \<longleftrightarrow> same_subject (ev_principal a) (ev_principal b) \<and> same_optional (ev_actor a) (ev_actor b)
     \<and> same_optional (ev_matched_subject a) (ev_matched_subject b) \<and> same_optional (ev_target a) (ev_target b)
     \<and> a\<lparr>ev_cursor := ev_cursor b, ev_principal := ev_principal b, ev_actor := ev_actor b,
          ev_matched_subject := ev_matched_subject b, ev_target := ev_target b\<rparr> = b"

definition append_audit_once :: "audit_event \<Rightarrow> (access_db, audit_event) exec" where
  "append_audit_once e = catch (transaction (append_audit e)) (\<lambda>x. x = IntegrityError) (\<lambda>x.
     bind (sql_one_or_none ACCESS_AUDIT_EVENTS_TABLE (\<lambda>r. ev_event_id r = ev_event_id e)) (\<lambda>row.
     case row of
       None \<Rightarrow> raise x
     | Some r \<Rightarrow> if \<not> same_event r e then raise (AccessConflict ''owner-recovery-audit'') else return r))"

record audit_search =
  as_resource :: resource_ref
  as_action :: "access_action option"
  as_subject :: "subject option"
  as_allowed :: "bool option"
  as_occurred_after :: "int option"
  as_occurred_before :: "int option"
  as_cursor :: "int option"
  as_limit :: nat

definition audit_matches :: "audit_search \<Rightarrow> audit_event \<Rightarrow> bool" where
  "audit_matches q e \<longleftrightarrow> within_boundary (as_resource q) (ev_resource e)
     \<and> (case as_action q of None \<Rightarrow> True | Some a \<Rightarrow> ev_action e = a)
     \<and> (case as_subject q of None \<Rightarrow> True | Some p \<Rightarrow> same_subject (ev_principal e) p)
     \<and> (case as_allowed q of None \<Rightarrow> True | Some b \<Rightarrow> ev_allowed e = b)
     \<and> (case as_occurred_after q of None \<Rightarrow> True | Some t \<Rightarrow> t \<le> ev_occurred_at e)
     \<and> (case as_occurred_before q of None \<Rightarrow> True | Some t \<Rightarrow> ev_occurred_at e < t)
     \<and> (case as_cursor q of None \<Rightarrow> True | Some c \<Rightarrow> (case ev_cursor e of None \<Rightarrow> False | Some d \<Rightarrow> c < d))"

definition store_list_audit :: "audit_search \<Rightarrow> (access_db, audit_event list) exec" where
  "store_list_audit q = bind (sql_select ACCESS_AUDIT_EVENTS_TABLE (audit_matches q)) (\<lambda>rows.
     return (take (as_limit q) (sort_key (\<lambda>e. case ev_cursor e of None \<Rightarrow> 0 | Some c \<Rightarrow> c) rows)))"

section \<open>Receipt identities\<close>

record receipt_identity =
  rc_scope_id :: string
  rc_source_id :: string
  rc_principal :: subject
  rc_receiver_identity_matches :: bool

definition same_identity :: "receipt_identity \<Rightarrow> receipt_identity \<Rightarrow> bool" where
  "same_identity a b \<longleftrightarrow> same_subject (rc_principal a) (rc_principal b) \<and> a\<lparr>rc_principal := rc_principal b\<rparr> = b"

abbreviation (input) RECEIPT_IDENTITY :: string where "RECEIPT_IDENTITY \<equiv> ''handoff.receipt.identity''"
abbreviation (input) RECEIPT_COMMITTED :: string where "RECEIPT_COMMITTED \<equiv> ''handoff.receipt.committed''"
abbreviation (input) IDENTITY_MATCHES :: string where "IDENTITY_MATCHES \<equiv> ''receiver_identity_matches''"
abbreviation (input) IDENTITY_MISMATCH :: string where "IDENTITY_MISMATCH \<equiv> ''receiver_identity_mismatch''"

definition receipt_event_id :: "hash \<Rightarrow> string \<Rightarrow> string \<Rightarrow> string \<Rightarrow> string" where
  "receipt_event_id digest operation scope_id source_id = digest (''['' @ json_string False operation @ '',''
     @ json_string False scope_id @ '','' @ json_string False source_id @ '']'')"

definition receipt_event :: "hash \<Rightarrow> string \<Rightarrow> receipt_identity \<Rightarrow> int \<Rightarrow> audit_event" where
  "receipt_event digest operation i now = \<lparr>ev_cursor = None,
     ev_event_id = receipt_event_id digest operation (rc_scope_id i) (rc_source_id i), ev_occurred_at = now,
     ev_request_id = None, ev_transport = ''server'', ev_operation = operation, ev_principal = rc_principal i,
     ev_actor = None, ev_action = HANDOFF_ACKNOWLEDGE,
     ev_resource = artifact_resource (rc_scope_id i) ''handoff'' ''handoff'' None, ev_allowed = True,
     ev_reason_code = (if rc_receiver_identity_matches i then IDENTITY_MATCHES else IDENTITY_MISMATCH),
     ev_policy_revision = None, ev_matched_subject = None, ev_binding_id = None, ev_target = None, ev_role = None,
     ev_expected_version = None, ev_result_version = None\<rparr>"

definition receipt_of_event :: "string \<Rightarrow> string \<Rightarrow> string \<Rightarrow> audit_event \<Rightarrow> error + receipt_identity" where
  "receipt_of_event operation scope_id source_id r =
     (if ev_operation r \<noteq> operation \<or> re_scope_id (ev_resource r) \<noteq> Some scope_id \<or> ev_action r \<noteq> HANDOFF_ACKNOWLEDGE
         \<or> \<not> ev_allowed r \<or> ev_reason_code r \<notin> {IDENTITY_MATCHES, IDENTITY_MISMATCH}
      then Inl (AccessUnavailable ''receipt_identity_pending'')
      else if su_type (ev_principal r) = ''group'' then Inl (AccessInvalidRequest ''principal'')
      else Inr \<lparr>rc_scope_id = scope_id, rc_source_id = source_id, rc_principal = ev_principal r,
             rc_receiver_identity_matches = (ev_reason_code r = IDENTITY_MATCHES)\<rparr>)"

definition get_receipt_identity_event :: "hash \<Rightarrow> string \<Rightarrow> string \<Rightarrow> string \<Rightarrow> (access_db, receipt_identity option) exec" where
  "get_receipt_identity_event digest operation scope_id source_id =
     bind (sql_one_or_none ACCESS_AUDIT_EVENTS_TABLE (\<lambda>r. ev_event_id r = receipt_event_id digest operation scope_id source_id)) (\<lambda>row.
     case row of
       None \<Rightarrow> return None
     | Some r \<Rightarrow> bind (lift_result (receipt_of_event operation scope_id source_id r)) (\<lambda>i. return (Some i)))"

definition get_receipt_identity :: "hash \<Rightarrow> string \<Rightarrow> string \<Rightarrow> (access_db, receipt_identity option) exec" where
  "get_receipt_identity digest = get_receipt_identity_event digest RECEIPT_IDENTITY"

definition get_committed_receipt_identity :: "hash \<Rightarrow> string \<Rightarrow> string \<Rightarrow> (access_db, receipt_identity option) exec" where
  "get_committed_receipt_identity digest scope_id source_id =
     bind (get_receipt_identity digest scope_id source_id) (\<lambda>identity.
     case identity of
       None \<Rightarrow> return None
     | Some i \<Rightarrow>
         bind (get_receipt_identity_event digest RECEIPT_COMMITTED scope_id source_id) (\<lambda>committed.
         case committed of
           None \<Rightarrow> return None
         | Some c \<Rightarrow> if \<not> same_identity c i then raise (AccessUnavailable ''receipt_identity_pending'') else return (Some c)))"

definition record_receipt_identity :: "hash \<Rightarrow> int \<Rightarrow> receipt_identity \<Rightarrow> (access_db, receipt_identity) exec" where
  "record_receipt_identity digest now i =
     bind (get_receipt_identity digest (rc_scope_id i) (rc_source_id i)) (\<lambda>existing.
     case existing of
       Some x \<Rightarrow> if \<not> same_identity x i then raise (AccessConflict ''receipt-identity'') else return x
     | None \<Rightarrow>
         andThen (lift_result (make_resource (artifact_resource (rc_scope_id i) ''handoff'' ''handoff'' None)))
        (catch (andThen (transaction (append_audit (receipt_event digest RECEIPT_IDENTITY i now))) (return i))
           (\<lambda>e. e = IntegrityError)
           (\<lambda>_. bind (get_receipt_identity digest (rc_scope_id i) (rc_source_id i)) (\<lambda>found.
              case found of
                None \<Rightarrow> raise (AccessConflict ''receipt-identity'')
              | Some x \<Rightarrow> if \<not> same_identity x i then raise (AccessConflict ''receipt-identity'') else return x))))"

definition commit_receipt_identity :: "hash \<Rightarrow> int \<Rightarrow> receipt_identity \<Rightarrow> (access_db, receipt_identity) exec" where
  "commit_receipt_identity digest now i =
     bind (get_receipt_identity digest (rc_scope_id i) (rc_source_id i)) (\<lambda>reserved.
     case reserved of
       None \<Rightarrow> raise (AccessConflict ''receipt-identity'')
     | Some r \<Rightarrow>
         if \<not> same_identity r i then raise (AccessConflict ''receipt-identity'')
         else bind (get_committed_receipt_identity digest (rc_scope_id i) (rc_source_id i)) (\<lambda>existing.
         case existing of
           Some x \<Rightarrow> if \<not> same_identity x i then raise (AccessConflict ''receipt-identity'') else return x
         | None \<Rightarrow>
             andThen (lift_result (make_resource (artifact_resource (rc_scope_id i) ''handoff'' ''handoff'' None)))
        (catch (andThen (transaction (append_audit (receipt_event digest RECEIPT_COMMITTED i now))) (return i))
               (\<lambda>e. e = IntegrityError)
               (\<lambda>_. bind (get_committed_receipt_identity digest (rc_scope_id i) (rc_source_id i)) (\<lambda>found.
                  case found of
                    None \<Rightarrow> raise (AccessConflict ''receipt-identity'')
                  | Some x \<Rightarrow> if \<not> same_identity x i then raise (AccessConflict ''receipt-identity'') else return x)))))"

section \<open>The store's invariant\<close>

text \<open>
  A binding row carries the digest of its resource; an active binding of a role that one
  subject at a time may hold occupies the slot of its resource, unless it expired by the
  time of a later change, \<open>T\<close>.
\<close>

definition binding_row_ok :: "hash \<Rightarrow> int \<Rightarrow> binding_row \<Rightarrow> bool" where
  "binding_row_ok digest T r \<longleftrightarrow> resource_ok (bi_resource (br_binding r))
     \<and> br_resource_key_hash r = digest (resource_key (bi_resource (br_binding r)))
     \<and> (br_singleton_key r = singleton_key digest (br_binding r)
        \<or> (br_singleton_key r = None \<and> (\<exists>e. bi_expires_at (br_binding r) = Some e \<and> e \<le> T)))"

definition owner_row_ok :: "hash \<Rightarrow> owner_row \<Rightarrow> bool" where
  "owner_row_ok digest r = (case r of
     Artifact_Owner h w \<Rightarrow> h = digest (resource_key (ow_resource w)) \<and> resource_ok (ow_resource w) \<and> re_type (ow_resource w) = ARTIFACT
   | Candidate_Owner h a \<Rightarrow> True)"

definition access_ok :: "hash \<Rightarrow> int \<Rightarrow> access_db \<Rightarrow> bool" where
  "access_ok digest T s \<longleftrightarrow> table_ok ACCESS_POLICY_HEADS_TABLE s \<and> table_ok ACCESS_BINDINGS_TABLE s
     \<and> table_ok ACCESS_OWNERS_TABLE s \<and> table_ok ACCESS_IDEMPOTENCY_TABLE s \<and> table_ok ACCESS_AUDIT_EVENTS_TABLE s
     \<and> (\<forall>r \<in> set (ad_bindings s). binding_row_ok digest T r) \<and> (\<forall>r \<in> set (ad_owners s). owner_row_ok digest r)"

lemma access_ok_empty [simp]: "access_ok digest T empty_access_db"
  by (simp add: access_ok_def empty_access_db_def table_ok_def access_tables)

lemmas binding_rows = preserves_every_row [of ACCESS_BINDINGS_TABLE, OF _ bindings_table.stored_table_axioms]
lemmas owner_rows = preserves_every_row [of ACCESS_OWNERS_TABLE, OF _ owners_table.stored_table_axioms]

lemma access_rows [simp]:
  "rows_of ACCESS_POLICY_HEADS_TABLE = ad_heads" "rows_of ACCESS_BINDINGS_TABLE = ad_bindings"
  "rows_of ACCESS_OWNERS_TABLE = ad_owners" "rows_of ACCESS_IDEMPOTENCY_TABLE = ad_receipts"
  "rows_of ACCESS_AUDIT_EVENTS_TABLE = ad_audit"
  by (simp_all add: access_tables)

lemma access_puts [simp]:
  "put_rows ACCESS_POLICY_HEADS_TABLE t s = s\<lparr>ad_heads := t\<rparr>" "put_rows ACCESS_BINDINGS_TABLE u s = s\<lparr>ad_bindings := u\<rparr>"
  "put_rows ACCESS_OWNERS_TABLE v s = s\<lparr>ad_owners := v\<rparr>" "put_rows ACCESS_IDEMPOTENCY_TABLE w s = s\<lparr>ad_receipts := w\<rparr>"
  "put_rows ACCESS_AUDIT_EVENTS_TABLE x s = s\<lparr>ad_audit := x\<rparr>"
  by (simp_all add: access_tables)

text \<open>What the invariant says of one table does not look at another.\<close>

lemma table_ok_apart [simp]:
  "table_ok ACCESS_POLICY_HEADS_TABLE (ad_bindings_update f s) = table_ok ACCESS_POLICY_HEADS_TABLE s"
  "table_ok ACCESS_POLICY_HEADS_TABLE (ad_owners_update g s) = table_ok ACCESS_POLICY_HEADS_TABLE s"
  "table_ok ACCESS_POLICY_HEADS_TABLE (ad_receipts_update h s) = table_ok ACCESS_POLICY_HEADS_TABLE s"
  "table_ok ACCESS_POLICY_HEADS_TABLE (ad_audit_update k s) = table_ok ACCESS_POLICY_HEADS_TABLE s"
  "table_ok ACCESS_BINDINGS_TABLE (ad_heads_update i s) = table_ok ACCESS_BINDINGS_TABLE s"
  "table_ok ACCESS_BINDINGS_TABLE (ad_owners_update g s) = table_ok ACCESS_BINDINGS_TABLE s"
  "table_ok ACCESS_BINDINGS_TABLE (ad_receipts_update h s) = table_ok ACCESS_BINDINGS_TABLE s"
  "table_ok ACCESS_BINDINGS_TABLE (ad_audit_update k s) = table_ok ACCESS_BINDINGS_TABLE s"
  "table_ok ACCESS_OWNERS_TABLE (ad_heads_update i s) = table_ok ACCESS_OWNERS_TABLE s"
  "table_ok ACCESS_OWNERS_TABLE (ad_bindings_update f s) = table_ok ACCESS_OWNERS_TABLE s"
  "table_ok ACCESS_OWNERS_TABLE (ad_receipts_update h s) = table_ok ACCESS_OWNERS_TABLE s"
  "table_ok ACCESS_OWNERS_TABLE (ad_audit_update k s) = table_ok ACCESS_OWNERS_TABLE s"
  "table_ok ACCESS_IDEMPOTENCY_TABLE (ad_heads_update i s) = table_ok ACCESS_IDEMPOTENCY_TABLE s"
  "table_ok ACCESS_IDEMPOTENCY_TABLE (ad_bindings_update f s) = table_ok ACCESS_IDEMPOTENCY_TABLE s"
  "table_ok ACCESS_IDEMPOTENCY_TABLE (ad_owners_update g s) = table_ok ACCESS_IDEMPOTENCY_TABLE s"
  "table_ok ACCESS_IDEMPOTENCY_TABLE (ad_audit_update k s) = table_ok ACCESS_IDEMPOTENCY_TABLE s"
  "table_ok ACCESS_AUDIT_EVENTS_TABLE (ad_heads_update i s) = table_ok ACCESS_AUDIT_EVENTS_TABLE s"
  "table_ok ACCESS_AUDIT_EVENTS_TABLE (ad_bindings_update f s) = table_ok ACCESS_AUDIT_EVENTS_TABLE s"
  "table_ok ACCESS_AUDIT_EVENTS_TABLE (ad_owners_update g s) = table_ok ACCESS_AUDIT_EVENTS_TABLE s"
  "table_ok ACCESS_AUDIT_EVENTS_TABLE (ad_receipts_update h s) = table_ok ACCESS_AUDIT_EVENTS_TABLE s"
  by (simp_all add: table_ok_def clash_free_def access_tables)

lemma preserves_access_ok:
  assumes "preserves (table_ok ACCESS_POLICY_HEADS_TABLE) m" and "preserves (table_ok ACCESS_BINDINGS_TABLE) m"
    and "preserves (table_ok ACCESS_OWNERS_TABLE) m" and "preserves (table_ok ACCESS_IDEMPOTENCY_TABLE) m"
    and "preserves (table_ok ACCESS_AUDIT_EVENTS_TABLE) m"
    and "preserves (\<lambda>s. \<forall>r \<in> set (ad_bindings s). binding_row_ok digest T r) m"
    and "preserves (\<lambda>s. \<forall>r \<in> set (ad_owners s). owner_row_ok digest r) m"
  shows "preserves (access_ok digest T) m"
  using assms by (auto simp: preserves_def access_ok_def)

lemma access_ok_statements [preserves_rules]:
  "preserves (access_ok digest T) (sql_insert ACCESS_POLICY_HEADS_TABLE h)"
  "preserves (access_ok digest T) (sql_update ACCESS_POLICY_HEADS_TABLE ph fh)"
  "preserves (access_ok digest T) (sql_insert ACCESS_IDEMPOTENCY_TABLE i)"
  "preserves (access_ok digest T) (sql_insert ACCESS_AUDIT_EVENTS_TABLE e)"
  "preserves (access_ok digest T) (sql_delete ACCESS_OWNERS_TABLE po)"
  by (intro preserves_access_ok heads_table.preserves_table_ok receipts_table.preserves_table_ok audit_table.preserves_table_ok
      owners_table.preserves_table_ok owner_rows preserves_frame; simp)+

lemma access_ok_insert_binding_row:
  "binding_row_ok digest T r \<Longrightarrow> preserves (access_ok digest T) (sql_insert ACCESS_BINDINGS_TABLE r)"
  by (intro preserves_access_ok bindings_table.preserves_table_ok binding_rows preserves_frame; simp)

lemma access_ok_update_bindings:
  "(\<And>r. binding_row_ok digest T r \<Longrightarrow> p r \<Longrightarrow> binding_row_ok digest T (f r)) \<Longrightarrow>
     preserves (access_ok digest T) (sql_update ACCESS_BINDINGS_TABLE p f)"
  by (intro preserves_access_ok bindings_table.preserves_table_ok binding_rows preserves_frame; simp)

lemma access_ok_insert_owner:
  "owner_row_ok digest r \<Longrightarrow> preserves (access_ok digest T) (sql_insert ACCESS_OWNERS_TABLE r)"
  by (intro preserves_access_ok owners_table.preserves_table_ok owner_rows preserves_frame; simp)

section \<open>Every operation keeps the invariant\<close>

lemma increment_access_ok [preserves_rules]: "preserves (access_ok digest T) (increment_policy_revision amount)"
  unfolding increment_policy_revision_def by (intro preserves_rules)

lemma append_audit_access_ok [preserves_rules]: "preserves (access_ok digest T) (append_audit e)"
  unfolding append_audit_def by (intro preserves_rules)

lemma record_idempotency_access_ok [preserves_rules]:
  "preserves (access_ok digest T) (record_idempotency d actor key operation payload_hash result secondary)"
  unfolding record_idempotency_def by (intro preserves_rules)

lemma store_reads [intro, simp]:
  "reads_only policy_revision" "reads_only (binding_by_id i)" "reads_only (get_binding i)"
  "reads_only (idempotent_result digest actor key operation payload_hash)" "reads_only (active_bindings ps now)"
  "reads_only (store_list_bindings q)" "reads_only (get_artifact_owner digest r)" "reads_only (list_owned_resources p)"
  "reads_only (get_candidate_owner digest i c)" "reads_only (store_list_audit aq)"
  "reads_only (static_scope_initialized digest actor keys)"
  unfolding policy_revision_def binding_by_id_def get_binding_def idempotent_result_def active_bindings_def
    store_list_bindings_def get_artifact_owner_def list_owned_resources_def get_candidate_owner_def store_list_audit_def
    static_scope_initialized_def
  by (auto split: option.split)

lemma decision_snapshot_reads [intro, simp]: "reads_only (decision_snapshot digest ps now artifacts owner resources)"
  unfolding decision_snapshot_def
  by (intro reads_only_bind reads_only_if reads_only_case_option store_reads reads_only_sql reads_only_basic)

lemmas store_reads_preserve [preserves_rules] = store_reads [THEN reads_only_preserves]

lemma receipt_reads [intro, simp]:
  "reads_only (get_receipt_identity_event digest operation i c)" "reads_only (get_receipt_identity digest i c)"
  "reads_only (get_committed_receipt_identity digest i c)"
  unfolding get_committed_receipt_identity_def get_receipt_identity_def get_receipt_identity_event_def
  by (intro reads_only_bind reads_only_if reads_only_case_option reads_only_sql reads_only_basic reads_only_lift_result)+

lemmas receipt_reads_preserve [preserves_rules] = receipt_reads [THEN reads_only_preserves]

lemma insert_binding_access_ok:
  assumes "resource_ok (bi_resource b)" and "bi_created_at b \<le> T"
  shows "preserves (access_ok digest T) (insert_binding digest b)"
  unfolding insert_binding_def Let_def
  by (intro preserves_rules access_ok_insert_binding_row access_ok_update_bindings)
     (use assms in \<open>auto simp: binding_row_ok_def binding_row_of_def split: option.splits\<close>)

lemma store_revoked_access_ok:
  assumes "bi_state revoked = BINDING_REVOKED"
  shows "preserves (access_ok digest T) (store_revoked digest i v revoked)"
  unfolding store_revoked_def
  by (intro preserves_rules access_ok_update_bindings)
     (use assms in \<open>auto simp: binding_row_ok_def mutated_row_def singleton_key_def\<close>)

lemma create_binding_access_ok:
  assumes "resource_ok (bi_resource b)" and "bi_created_at b \<le> T"
  shows "preserves (access_ok digest T) (create_binding digest b)"
  unfolding create_binding_def create_new_def Let_def
  by (intro preserves_rules insert_binding_access_ok) (use assms in simp_all)

lemma revoke_binding_access_ok: "preserves (access_ok digest T) (revoke_binding digest i v key at_time who)"
  unfolding revoke_binding_def Let_def
  by (intro preserves_rules store_revoked_access_ok) (simp add: revoked_at_revision_def)

lemma binding_by_id_ok:
  "access_ok digest T s \<Longrightarrow> binding_by_id i s = (Inr (Some r), t) \<Longrightarrow> resource_ok (bi_resource (br_binding r))"
  unfolding binding_by_id_def by (drule sql_one_or_none_Inr) (auto simp: access_ok_def binding_row_ok_def dest!: find_SomeD sym [of "Some _"])

lemma replace_binding_access_ok:
  assumes "changed_at \<le> T"
  shows "preserves (access_ok digest T) (replace_binding digest q actor changed_at)"
proof -
  have "preserves (access_ok digest T) (bind (binding_by_id (rq_binding_id q)) f)"
    if "\<And>r. resource_ok (bi_resource (br_binding r)) \<Longrightarrow> preserves (access_ok digest T) (f (Some r))"
      and "preserves (access_ok digest T) (f None)" for f :: "binding_row option \<Rightarrow> (access_db, access_binding \<times> access_binding) exec"
  proof (rule preserves_bind_Inr)
    fix s t x
    assume "access_ok digest T s" and "binding_by_id (rq_binding_id q) s = (Inr x, t)"
    with that show "preserves (access_ok digest T) (f x)"
      by (cases x) (auto dest: binding_by_id_ok)
  qed (rule preserves_rules)
  note lookup = this
  show ?thesis
    unfolding replace_binding_def Let_def
    apply (rule preserves_bind, rule preserves_rules)
    apply (rename_tac replay, case_tac replay; simp only: option.case)
    subgoal
      apply (rule preserves_bind, rule preserves_rules, rule lookup; simp only: option.case)
       apply (intro preserves_rules store_revoked_access_ok insert_binding_access_ok)
         apply (simp_all add: revoked_at_revision_def replacement_of_def assms)
      apply (intro preserves_rules)
      done
    subgoal by (intro preserves_rules)
    done
qed

lemma missing_relations_subset: "set (missing_relations results relations) \<subseteq> set relations"
  by (auto simp: missing_relations_def dest: set_zip_rightD)

lemma with_revisions_resource: "w \<in> set (with_revisions v ws) \<Longrightarrow> \<exists>w' \<in> set ws. ow_resource w = ow_resource w'"
  by (induction v ws rule: with_revisions.induct) auto

lemma establish_access_ok:
  assumes "\<forall>w \<in> set relations. resource_ok (ow_resource w)"
  shows "preserves (access_ok digest T) (establish_artifact_owners digest relations)"
proof -
  have "preserves (access_ok digest T) (sql_insert ACCESS_OWNERS_TABLE r)"
    if "\<forall>w \<in> set relations. re_type (ow_resource w) = ARTIFACT"
      and "r \<in> set (map (stored_relation digest) (with_revisions v (missing_relations results relations)))" for r v results
  proof (rule access_ok_insert_owner)
    from that(2) obtain w where "w \<in> set relations" "owner_row_ok digest r = owner_row_ok digest (stored_relation digest w)"
      using missing_relations_subset [of results relations]
      by (auto simp: stored_relation_def owner_row_ok_def dest!: with_revisions_resource)
    with that(1) assms show "owner_row_ok digest r" by (simp add: stored_relation_def owner_row_ok_def)
  qed
  then show ?thesis
    unfolding establish_artifact_owners_def establish_missing_def Let_def
    by (intro preserves_if preserves_return preserves_required preserves_bind preserves_lift_result preserves_sql_reads
        increment_access_ok preserves_andThen preserves_catch preserves_raise preserves_each)
qed

lemma attest_access_ok [preserves_rules]: "preserves (access_ok digest T) (attest_candidate_owners d attestations)"
  unfolding attest_candidate_owners_def
  by (intro preserves_rules preserves_each access_ok_insert_owner) (auto simp: stored_attestation_def owner_row_ok_def)

lemma store_access_ok [preserves_rules]:
  "preserves (access_ok digest T) delete_legacy_topic_memory_owners"
  "preserves (access_ok digest T) (append_audits es)"
  "preserves (access_ok digest T) (append_audit_once e)"
  "preserves (access_ok digest T) (record_receipt_identity d now i)"
  "preserves (access_ok digest T) (commit_receipt_identity d now i)"
  unfolding delete_legacy_topic_memory_owners_def append_audits_def append_audit_once_def record_receipt_identity_def
    commit_receipt_identity_def
  by (intro preserves_rules)+

end
