(* ===== verification/Access_History.thy ===== *)
theory Access_History
  imports Access_Store
begin

text \<open>
  Histories of the relationship store of \<^verbatim>\<open>Access_Store\<close>: every change it can make, each
  in its transaction, as a step relation. Along every history a role that one subject at a
  time may hold has one active holder, the policy revision identifies the state of policy
  (an instance of the contract of \<^verbatim>\<open>Register\<close>), replayed creations change nothing, and the
  identity recorded for a handoff receipt is final.
\<close>

section \<open>Histories of the store\<close>

text \<open>
  The changes of the relationship store, each in a transaction. A binding to create is
  built from checked references by the service; \<open>T\<close> bounds the clock.
\<close>

datatype store_operation =
    Create access_binding
  | Revoke string int string int subject
  | Replace replace_request subject int
  | Establish "owner_relation list"
  | Attest "candidate_owner list"
  | Delete_Legacy
  | Audit "audit_event list"
  | Audit_Once audit_event
  | Record_Receipt receipt_identity int
  | Commit_Receipt receipt_identity int

fun well_timed :: "int \<Rightarrow> store_operation \<Rightarrow> bool" where
  "well_timed T (Create b) \<longleftrightarrow> resource_ok (bi_resource b) \<and> bi_created_at b \<le> T"
| "well_timed T (Replace q who at_time) \<longleftrightarrow> at_time \<le> T"
| "well_timed T (Establish ws) \<longleftrightarrow> (\<forall>w \<in> set ws. resource_ok (ow_resource w))"
| "well_timed T _ \<longleftrightarrow> True"

fun perform :: "hash \<Rightarrow> store_operation \<Rightarrow> (access_db, unit) exec" where
  "perform digest (Create b) = transaction (andThen (create_binding digest b) (return ()))"
| "perform digest (Revoke i v key at_time who) = transaction (andThen (revoke_binding digest i v key at_time who) (return ()))"
| "perform digest (Replace q who at_time) = transaction (andThen (replace_binding digest q who at_time) (return ()))"
| "perform digest (Establish ws) = transaction (andThen (establish_artifact_owners digest ws) (return ()))"
| "perform digest (Attest as) = transaction (andThen (attest_candidate_owners digest as) (return ()))"
| "perform digest Delete_Legacy = transaction (andThen delete_legacy_topic_memory_owners (return ()))"
| "perform digest (Audit es) = transaction (append_audits es)"
| "perform digest (Audit_Once e) = transaction (andThen (append_audit_once e) (return ()))"
| "perform digest (Record_Receipt i now) = andThen (record_receipt_identity digest now i) (return ())"
| "perform digest (Commit_Receipt i now) = andThen (commit_receipt_identity digest now i) (return ())"

inductive store_step :: "hash \<Rightarrow> int \<Rightarrow> access_db \<Rightarrow> access_db \<Rightarrow> bool" for digest T where
  store_stepI: "well_timed T op \<Longrightarrow> store_step digest T s (snd (perform digest op s))"

inductive_cases store_stepE: "store_step digest T s t"

lemma perform_access_ok: "well_timed T op \<Longrightarrow> preserves (access_ok digest T) (perform digest op)"
  by (cases op) (auto intro!: preserves_transaction preserves_andThen preserves_return create_binding_access_ok
      revoke_binding_access_ok replace_binding_access_ok establish_access_ok attest_access_ok store_access_ok)

lemma store_step_ok: "access_ok digest T s \<Longrightarrow> store_step digest T s t \<Longrightarrow> access_ok digest T t"
  by (auto elim!: store_stepE intro: preservesD perform_access_ok)

lemma store_run_ok: "(store_step digest T)\<^sup>*\<^sup>* s t \<Longrightarrow> access_ok digest T s \<Longrightarrow> access_ok digest T t"
  by (induction rule: rtranclp_induct) (auto intro: store_step_ok)

section \<open>One holder at a time\<close>

lemma same_slot:
  assumes ok: "access_ok digest T s"
    and rows: "a \<in> set (ad_bindings s)" "b \<in> set (ad_bindings s)"
    and active: "active_at now (br_binding a)" "active_at now (br_binding b)" "T \<le> now"
    and same: "bi_resource (br_binding a) = bi_resource (br_binding b)" "bi_role (br_binding a) = bi_role (br_binding b)"
    and single: "one_per_resource (bi_role (br_binding a))"
  shows "a = b"
proof -
  have slot: "\<exists>k. br_singleton_key r = Some k" "br_singleton_key r = singleton_key digest (br_binding r)"
    if "r \<in> {a, b}" for r
    using that ok rows active single same
    by (force simp: access_ok_def binding_row_ok_def singleton_key_def active_at_def)+
  obtain k where k: "br_singleton_key a = Some k" using slot(1) by blast
  moreover have "br_singleton_key b = br_singleton_key a"
    using slot(2) same active by (simp add: singleton_key_def active_at_def)
  ultimately have "clash ACCESS_BINDINGS_TABLE a b" "clash ACCESS_BINDINGS_TABLE b a"
    by (simp_all add: ACCESS_BINDINGS_TABLE_def)
  moreover have "clash_free ACCESS_BINDINGS_TABLE (ad_bindings s)"
    using ok by (simp add: access_ok_def table_ok_def)
  ultimately show ?thesis
    using rows unfolding clash_free_def by (metis in_set_conv_nth linorder_neqE_nat sorted_wrt_nth_less)
qed

text \<open>C7: Two active bindings of a singleton role on one resource are the same binding, after any history.\<close>

theorem one_active_holder:
  assumes "(store_step digest T)\<^sup>*\<^sup>* empty_access_db s"
    and "a \<in> set (ad_bindings s)" and "b \<in> set (ad_bindings s)"
    and "active_at now (br_binding a)" and "active_at now (br_binding b)" and "T \<le> now"
    and "bi_resource (br_binding a) = bi_resource (br_binding b)" and "bi_role (br_binding a) = bi_role (br_binding b)"
    and "one_per_resource (bi_role (br_binding a))"
  shows "bi_subject (br_binding a) = bi_subject (br_binding b) \<and> bi_binding_id (br_binding a) = bi_binding_id (br_binding b)"
  using same_slot [OF store_run_ok [OF assms(1) access_ok_empty] assms(2-)] by simp

definition demo_binding :: "string \<Rightarrow> string \<Rightarrow> int \<Rightarrow> int option \<Rightarrow> access_binding" where
  "demo_binding i who created expires = \<lparr>bi_binding_id = i, bi_subject = \<lparr>su_type = ''user'', su_id = who, su_description = None\<rparr>,
     bi_resource = artifact_resource ''s'' ''handoff'' ''h'' None, bi_role = HANDOFF_RECEIVER,
     bi_granted_by = \<lparr>su_type = ''user'', su_id = ''admin'', su_description = None\<rparr>, bi_reason = None, bi_created_at = created,
     bi_expires_at = expires, bi_state = BINDING_ACTIVE, bi_version = 1, bi_policy_revision = Pending_Revision,
     bi_idempotency_key = i, bi_revoked_at = None, bi_revoked_by = None\<rparr>"

text \<open>Two receivers in turn: the second takes the slot after the first expired.\<close>

definition demo_history :: access_db where
  "demo_history = snd (perform (\<lambda>x. x) (Create (demo_binding ''b2'' ''eve'' 20 None))
     (snd (perform (\<lambda>x. x) (Create (demo_binding ''b1'' ''bob'' 0 (Some 10))) empty_access_db)))"

lemma demo_history_run: "(store_step (\<lambda>x. x) 20)\<^sup>*\<^sup>* empty_access_db demo_history"
proof -
  have "well_timed 20 (Create (demo_binding ''b2'' ''eve'' 20 None))" "well_timed 20 (Create (demo_binding ''b1'' ''bob'' 0 (Some 10)))"
    by code_simp+
  then have "store_step (\<lambda>x. x) 20 empty_access_db (snd (perform (\<lambda>x. x) (Create (demo_binding ''b1'' ''bob'' 0 (Some 10))) empty_access_db))"
    "store_step (\<lambda>x. x) 20 (snd (perform (\<lambda>x. x) (Create (demo_binding ''b1'' ''bob'' 0 (Some 10))) empty_access_db)) demo_history"
    unfolding demo_history_def by (blast intro: store_stepI)+
  then show ?thesis by (meson rtranclp.simps)
qed

lemma demo_bindings: "map br_binding (ad_bindings demo_history) =
   [(demo_binding ''b1'' ''bob'' 0 (Some 10))\<lparr>bi_policy_revision := Revision 1\<rparr>,
    (demo_binding ''b2'' ''eve'' 20 None)\<lparr>bi_policy_revision := Revision 2\<rparr>]"
  by (simp add: demo_history_def create_binding_def create_new_def idempotent_result_def sql_one_or_none_def
    increment_policy_revision_def exec_simps sql_insert_def sql_update_def insert_binding_def record_idempotency_def access_tables
    empty_access_db_def demo_binding_def singleton_key_def one_per_resource_def binding_row_of_def Let_def clash_free_def)

lemma one_active_holder_witness:
  "\<exists>a b. a \<in> set (ad_bindings demo_history) \<and> b \<in> set (ad_bindings demo_history) \<and> active_at 25 (br_binding a)
     \<and> bi_binding_id (br_binding b) = ''b2'' \<and> bi_subject (br_binding a) = bi_subject (br_binding b)"
proof -
  obtain a b where rows: "ad_bindings demo_history = [a, b]"
      "br_binding b = (demo_binding ''b2'' ''eve'' 20 None)\<lparr>bi_policy_revision := Revision 2\<rparr>"
    using demo_bindings by (auto simp: map_eq_Cons_conv)
  then have "active_at 25 (br_binding b)" "one_per_resource (bi_role (br_binding b))" "bi_binding_id (br_binding b) = ''b2''"
    by (simp_all add: demo_binding_def active_at_def one_per_resource_def)
  with one_active_holder [OF demo_history_run, of b b 25] rows(1) show ?thesis by auto
qed

section \<open>The policy revision\<close>

definition revision_number :: "access_db \<Rightarrow> int" where
  "revision_number s = (case List.find (\<lambda>r. ph_name r = ''authorization'') (ad_heads s) of None \<Rightarrow> 0 | Some r \<Rightarrow> ph_revision r)"

text \<open>What a decision reads: the bindings and the owners of artifacts.\<close>

definition policy_content :: "access_db \<Rightarrow> (int \<times> binding_row list \<times> owner_row list) option" where
  "policy_content s = Some (revision_number s, ad_bindings s, filter is_artifact_owner (ad_owners s))"

lemma policy_revision_run [simp]: "policy_revision s = (Inr (Revision (revision_number s)), s)"
  by (simp add: policy_revision_def revision_number_def bind_run split: option.split)

lemma revision_number_apart [simp]:
  "revision_number (ad_bindings_update f s) = revision_number s" "revision_number (ad_owners_update g s) = revision_number s"
  "revision_number (ad_receipts_update h s) = revision_number s" "revision_number (ad_audit_update k s) = revision_number s"
  by (simp_all add: revision_number_def)

lemma increment_Inr:
  assumes "table_ok ACCESS_POLICY_HEADS_TABLE s" and "increment_policy_revision a s = (Inr v, t)"
  shows "v = revision_number s + a \<and> revision_number t = v \<and> (\<exists>h. t = s\<lparr>ad_heads := h\<rparr>)"
proof (cases "List.find (\<lambda>r. ph_name r = ''authorization'') (ad_heads s)")
  case None
  with assms(2) have "v = a \<and> t = s\<lparr>ad_heads := ad_heads s @ [\<lparr>ph_name = ''authorization'', ph_revision = a\<rparr>]\<rparr>"
    by (auto simp: increment_policy_revision_def bind_run andThen_run catch_run sql_insert_def split: if_splits)
  with None show ?thesis by (auto simp: revision_number_def find_append)
next
  case (Some r)
  have at: "List.find (\<lambda>r. ph_name r = ''authorization'') (update_rows p f rs) = map_option (\<lambda>r. if p r then f r else r)
      (List.find (\<lambda>r. ph_name r = ''authorization'') rs)" if "\<And>x. ph_name (f x) = ph_name x" for p f rs
    using that by (intro find_update_rows) simp
  from Some assms(2) have "v = ph_revision r + a \<and> t = s\<lparr>ad_heads := update_rows
      (\<lambda>x. ph_name x = ''authorization'' \<and> ph_revision x = ph_revision r) (\<lambda>x. x\<lparr>ph_revision := ph_revision r + a\<rparr>) (ad_heads s)\<rparr>"
    by (auto simp: increment_policy_revision_def bind_run sql_update_def Let_def split: if_splits)
  with Some find_SomeD [OF Some] show ?thesis by (auto simp: revision_number_def at)
qed

lemma keeps_revision_statements [preserves_rules]:
  "preserves (\<lambda>u. revision_number u = n) (sql_insert ACCESS_BINDINGS_TABLE b)"
  "preserves (\<lambda>u. revision_number u = n) (sql_update ACCESS_BINDINGS_TABLE p f)"
  "preserves (\<lambda>u. revision_number u = n) (sql_insert ACCESS_OWNERS_TABLE w)"
  "preserves (\<lambda>u. revision_number u = n) (sql_delete ACCESS_OWNERS_TABLE q)"
  "preserves (\<lambda>u. revision_number u = n) (sql_insert ACCESS_IDEMPOTENCY_TABLE i)"
  by (intro preserves_frame; simp)+

lemma keeps_revision [preserves_rules]:
  "preserves (\<lambda>u. revision_number u = n) (insert_binding digest b)"
  "preserves (\<lambda>u. revision_number u = n) (store_revoked digest i v r)"
  "preserves (\<lambda>u. revision_number u = n) (record_idempotency digest actor key operation payload_hash result secondary)"
  unfolding insert_binding_def store_revoked_def record_idempotency_def Let_def by (intro preserves_rules)+

lemma increments:
  assumes "access_ok digest T s" and "bind (increment_policy_revision a) f s = (Inr x, t)" and "0 < a"
    and "\<And>v n. preserves (\<lambda>u. revision_number u = n) (f v)"
  shows "revision_number s < revision_number t"
proof -
  obtain v u where v: "increment_policy_revision a s = (Inr v, u)" "f v u = (Inr x, t)"
    using assms(2) by (auto simp: bind_Inr_iff)
  then have "revision_number u = revision_number s + a"
    using assms(1) increment_Inr [of s a v u] by (auto simp: access_ok_def)
  moreover have "revision_number t = revision_number u"
    using preservesE [OF assms(4) refl v(2)] .
  ultimately show ?thesis using assms(3) by simp
qed

text \<open>An operation either leaves the state of policy alone or moves the revision.\<close>

definition moves_policy :: "access_db \<Rightarrow> access_db \<Rightarrow> bool" where
  "moves_policy s t \<longleftrightarrow> policy_content t = policy_content s \<or> revision_number s < revision_number t"

lemma moves_policy_refl [simp]: "moves_policy s s"
  by (simp add: moves_policy_def)

text \<open>The shape the changes of bindings share: a replay only reads, a new change moves the revision first.\<close>

lemma idempotent_moves:
  assumes ok: "access_ok digest T s"
    and run: "bind (idempotent_result digest actor key operation payload_hash)
        (\<lambda>replay. case replay of None \<Rightarrow> bind (increment_policy_revision 1) f | Some p \<Rightarrow> R p) s = (Inr x, t)"
    and reads: "\<And>p. reads_only (R p)" and keeps: "\<And>v n. preserves (\<lambda>u. revision_number u = n) (f v)"
  shows "moves_policy s t"
proof -
  from run obtain replay where "case replay of None \<Rightarrow> bind (increment_policy_revision 1) f s = (Inr x, t) | Some p \<Rightarrow> R p s = (Inr x, t)"
    using reads_onlyD [OF store_reads(4)] by (fastforce simp: bind_Inr_iff split: option.splits)
  then show ?thesis
    using increments [OF ok _ _ keeps] reads_onlyD [OF reads] by (force simp: moves_policy_def split: option.splits)
qed

lemma create_moves: "access_ok digest T s \<Longrightarrow> create_binding digest b s = (Inr x, t) \<Longrightarrow> moves_policy s t"
  unfolding create_binding_def create_new_def Let_def
  by (erule (1) idempotent_moves) (auto intro!: preserves_rules reads_only_bind split: option.split)

lemma revoke_moves: "access_ok digest T s \<Longrightarrow> revoke_binding digest i v key at_time who s = (Inr x, t) \<Longrightarrow> moves_policy s t"
  unfolding revoke_binding_def Let_def
  by (erule (1) idempotent_moves) (auto intro!: preserves_rules reads_only_bind split: option.split)

lemma replace_moves: "access_ok digest T s \<Longrightarrow> replace_binding digest q who at_time s = (Inr x, t) \<Longrightarrow> moves_policy s t"
  unfolding replace_binding_def Let_def
  by (erule (1) idempotent_moves) (auto intro!: preserves_rules reads_only_bind split: option.split)

lemma establish_moves:
  assumes ok: "access_ok digest T s" and run: "establish_artifact_owners digest ws s = (Inr x, t)"
  shows "moves_policy s t"
proof -
  have "moves_policy s t" if "establish_missing digest results missing s = (Inr x, t)" for results missing
  proof (cases "missing = []")
    case False
    with that show ?thesis
      unfolding establish_missing_def moves_policy_def Let_def
      by (intro disjI2 increments [OF ok]) (auto intro: preserves_rules)
  qed (use that in \<open>simp add: establish_missing_def\<close>)
  then show ?thesis
    using run by (auto simp: establish_artifact_owners_def Let_def exec_Inr_iffs split: if_splits)
qed

lemma attest_moves: "attest_candidate_owners digest as s = (Inr x, t) \<Longrightarrow> policy_content t = policy_content s"
proof -
  let ?P = "\<lambda>u. policy_content u = policy_content s"
  have "preserves ?P (sql_insert ACCESS_OWNERS_TABLE (stored_attestation digest a))" for a
    by (auto simp: preserves_def sql_insert_def stored_attestation_def policy_content_def)
  then have "preserves ?P (for_each (map (stored_attestation digest) ms) (sql_insert ACCESS_OWNERS_TABLE))" for ms
    by (intro preserves_each) auto
  note inserts = this
  have "preserves ?P (attest_candidate_owners digest as)"
    unfolding attest_candidate_owners_def
    by (intro preserves_if preserves_return preserves_bind preserves_lift_result preserves_sql_reads preserves_andThen
        preserves_catch preserves_raise inserts)
  then show "attest_candidate_owners digest as s = (Inr x, t) \<Longrightarrow> policy_content t = policy_content s"
    by (drule_tac preservesE) auto
qed

lemma legacy_moves: "access_ok digest T s \<Longrightarrow> delete_legacy_topic_memory_owners s = (Inr x, t) \<Longrightarrow> moves_policy s t"
  unfolding delete_legacy_topic_memory_owners_def
  by (auto simp: bind_Inr_iff [of "sql_scalar _ _ _"] moves_policy_def split: if_splits intro!: increments preserves_rules)

text \<open>The audit log is no part of policy.\<close>

lemma keeps_policy [preserves_rules]:
  "preserves (\<lambda>u. policy_content u = c) (append_audit e)" "preserves (\<lambda>u. policy_content u = c) (append_audits es)"
  "preserves (\<lambda>u. policy_content u = c) (append_audit_once e)"
  "preserves (\<lambda>u. policy_content u = c) (record_receipt_identity digest now i)"
  "preserves (\<lambda>u. policy_content u = c) (commit_receipt_identity digest now i)"
proof -
  have "preserves (\<lambda>u. policy_content u = c) (sql_insert ACCESS_AUDIT_EVENTS_TABLE e)" for e
    by (intro preserves_frame) (simp add: policy_content_def)
  then have audit: "preserves (\<lambda>u. policy_content u = c) (append_audit e)" for e
    unfolding append_audit_def by (intro preserves_rules)
  then show "preserves (\<lambda>u. policy_content u = c) (append_audit e)" .
  show "preserves (\<lambda>u. policy_content u = c) (append_audits es)"
    "preserves (\<lambda>u. policy_content u = c) (append_audit_once e)"
    "preserves (\<lambda>u. policy_content u = c) (record_receipt_identity digest now i)"
    "preserves (\<lambda>u. policy_content u = c) (commit_receipt_identity digest now i)"
    unfolding append_audits_def append_audit_once_def record_receipt_identity_def commit_receipt_identity_def
    by (intro preserves_rules audit)+
qed

lemma transaction_moves:
  assumes "\<And>x t. m s = (Inr x, t) \<Longrightarrow> moves_policy s t"
  shows "moves_policy s (snd (transaction (andThen m (return ())) s))"
  using assms by (auto simp: transaction_run andThen_run split: prod.split sum.split)

lemma preserves_moves: "preserves (\<lambda>u. policy_content u = policy_content s) m \<Longrightarrow> moves_policy s (snd (m s))"
  by (simp add: moves_policy_def preserves_def)

lemma store_step_moves:
  assumes ok: "access_ok digest T s" and "store_step digest T s t"
  shows "moves_policy s t"
proof -
  obtain op where t: "t = snd (perform digest op s)" using assms(2) by (rule store_stepE) blast
  show ?thesis
  proof (cases op)
    case (Attest as)
    show ?thesis unfolding t Attest perform.simps
      by (intro transaction_moves) (simp add: moves_policy_def attest_moves)
  next
    case (Audit es)
    then show ?thesis unfolding t by (simp, intro preserves_moves preserves_rules)
  next
    case (Audit_Once e)
    then show ?thesis unfolding t by (simp, intro preserves_moves preserves_rules)
  next
    case (Record_Receipt i now)
    then show ?thesis unfolding t by (simp, intro preserves_moves preserves_rules)
  next
    case (Commit_Receipt i now)
    then show ?thesis unfolding t by (simp, intro preserves_moves preserves_rules)
  qed (unfold t, auto intro!: transaction_moves intro: create_moves [OF ok] revoke_moves [OF ok] replace_moves [OF ok]
      establish_moves [OF ok] legacy_moves [OF ok])
qed

interpretation policy: versioned_register "access_ok digest T" "store_step digest T" policy_content for digest T
proof unfold_locales
  fix s t v c
  assume "access_ok digest T s" and "store_step digest T s t"
  then show "access_ok digest T t" by (rule store_step_ok)
  assume "policy_content s = Some (v, c)"
  with store_step_moves [OF \<open>access_ok digest T s\<close> \<open>store_step digest T s t\<close>]
  show "policy_content t = Some (v, c) \<or> (\<exists>v' c'. policy_content t = Some (v', c') \<and> v < v')"
    by (auto simp: moves_policy_def policy_content_def)
qed

section \<open>What a snapshot holds\<close>

text \<open>The pure content of a decision snapshot: it looks at the state of policy and nothing else.\<close>

definition snapshot_of ::
  "hash \<Rightarrow> subject list \<Rightarrow> int \<Rightarrow> resource_ref list \<Rightarrow> subject option \<Rightarrow> resource_ref list option \<Rightarrow>
     int \<times> binding_row list \<times> owner_row list \<Rightarrow> decision_state" where
  "snapshot_of digest ps now artifacts owner resources policy = (case policy of (v, bindings, owners) \<Rightarrow>
     \<lparr>ds_policy_revision = Revision v,
      ds_bindings = filter (active_at now) (map br_binding (filter (\<lambda>r. (\<exists>p \<in> set ps. is_subject p r)
        \<and> bi_state (br_binding r) = BINDING_ACTIVE \<and> relevant_binding digest resources r) bindings)),
      ds_artifact_owners = fold (\<lambda>w m. m(resource_key (ow_resource w) \<mapsto> w))
        (List.map_filter artifact_owner_of (filter (\<lambda>r. owner_hash r \<in> set (map (\<lambda>q. digest (resource_key q)) artifacts)) owners)) Map.empty,
      ds_owned_resources = map ow_resource (List.map_filter artifact_owner_of
        (filter (\<lambda>r. case owner of None \<Rightarrow> False | Some p \<Rightarrow> owned_by p r) owners))\<rparr>)"

lemma owned_by_artifact: "owned_by p r \<Longrightarrow> is_artifact_owner r"
  by (cases r) (simp_all add: owned_by_def artifact_owner_of_def)

lemma decision_snapshot_run:
  "decision_snapshot digest ps now artifacts owner resources s
     = (Inr (snapshot_of digest ps now artifacts owner resources (the (policy_content s))), s)"
proof -
  have owned: "filter (owned_by p) rows = filter (\<lambda>r. is_artifact_owner r \<and> owned_by p r) rows" for p rows
    by (rule filter_cong) (auto dest: owned_by_artifact)
  show ?thesis
    by (cases "ps = []"; cases "artifacts = []"; cases owner)
       (simp_all add: decision_snapshot_def snapshot_of_def policy_content_def bind_run owned map_filter_simps conj_ac)
qed

text \<open>
  Decisions may be kept for as long as the policy revision stays the same: a snapshot
  read later, after any operations of the store, at the same revision is the same snapshot.
\<close>

theorem same_revision_same_snapshot:
  assumes "(store_step digest T)\<^sup>*\<^sup>* empty_access_db s" and "(store_step digest T)\<^sup>*\<^sup>* s t"
    and "fst (policy_revision t) = fst (policy_revision s)"
  shows "fst (decision_snapshot digest ps now artifacts owner resources t)
     = fst (decision_snapshot digest ps now artifacts owner resources s)"
proof -
  from assms(3) have "revision_number t = revision_number s" by simp
  then have "policy_content t = policy_content s"
    using policy.same_version_same_content [OF assms(2) store_run_ok [OF assms(1) access_ok_empty], of "revision_number s"
        "(ad_bindings s, filter is_artifact_owner (ad_owners s))" "(ad_bindings t, filter is_artifact_owner (ad_owners t))"]
    by (simp add: policy_content_def)
  then show ?thesis by (simp add: decision_snapshot_run)
qed

lemma same_revision_same_snapshot_witness:
  "\<forall>es. fst (decision_snapshot (\<lambda>x. x) [bi_subject (demo_binding ''b2'' ''eve'' 20 None)] 25 [] None None
       (snd (perform (\<lambda>x. x) (Audit es) demo_history)))
     = fst (decision_snapshot (\<lambda>x. x) [bi_subject (demo_binding ''b2'' ''eve'' 20 None)] 25 [] None None demo_history)"
proof
  fix es
  have "store_step (\<lambda>x. x) 20 demo_history (snd (perform (\<lambda>x. x) (Audit es) demo_history))"
    by (rule store_stepI) simp
  moreover have "revision_number (snd (perform (\<lambda>x. x) (Audit es) demo_history)) = revision_number demo_history"
  proof -
    have "preserves (\<lambda>u. policy_content u = policy_content demo_history) (perform (\<lambda>x. x) (Audit es))"
      unfolding perform.simps by (intro preserves_rules)
    then show ?thesis by (simp add: preserves_def policy_content_def)
  qed
  ultimately show "fst (decision_snapshot (\<lambda>x. x) [bi_subject (demo_binding ''b2'' ''eve'' 20 None)] 25 [] None None
       (snd (perform (\<lambda>x. x) (Audit es) demo_history)))
     = fst (decision_snapshot (\<lambda>x. x) [bi_subject (demo_binding ''b2'' ''eve'' 20 None)] 25 [] None None demo_history)"
    by (intro same_revision_same_snapshot [OF demo_history_run]) auto
qed

section \<open>Receipts\<close>

text \<open>Receipts and the ids of bindings only grow.\<close>

lemma kept_receipts [preserves_rules]:
  "preserves (\<lambda>u. i \<in> set (ad_receipts u)) (sql_insert ACCESS_POLICY_HEADS_TABLE h)"
  "preserves (\<lambda>u. i \<in> set (ad_receipts u)) (sql_update ACCESS_POLICY_HEADS_TABLE ph fh)"
  "preserves (\<lambda>u. i \<in> set (ad_receipts u)) (sql_insert ACCESS_BINDINGS_TABLE b)"
  "preserves (\<lambda>u. i \<in> set (ad_receipts u)) (sql_update ACCESS_BINDINGS_TABLE p f)"
  "preserves (\<lambda>u. i \<in> set (ad_receipts u)) (sql_insert ACCESS_OWNERS_TABLE w)"
  "preserves (\<lambda>u. i \<in> set (ad_receipts u)) (sql_delete ACCESS_OWNERS_TABLE q)"
  "preserves (\<lambda>u. i \<in> set (ad_receipts u)) (sql_insert ACCESS_AUDIT_EVENTS_TABLE e)"
  by (intro preserves_frame; simp)+

lemma kept_receipts_insert [preserves_rules]: "preserves (\<lambda>u. i \<in> set (ad_receipts u)) (sql_insert ACCESS_IDEMPOTENCY_TABLE j)"
  by (auto simp: preserves_def sql_insert_def)

definition has_id :: "string \<Rightarrow> access_db \<Rightarrow> bool" where
  "has_id x s \<longleftrightarrow> (\<exists>r \<in> set (ad_bindings s). has_binding_id x r)"

lemma kept_ids [preserves_rules]:
  "preserves (has_id x) (sql_insert ACCESS_POLICY_HEADS_TABLE h)"
  "preserves (has_id x) (sql_update ACCESS_POLICY_HEADS_TABLE ph fh)"
  "preserves (has_id x) (sql_insert ACCESS_OWNERS_TABLE w)"
  "preserves (has_id x) (sql_delete ACCESS_OWNERS_TABLE q)"
  "preserves (has_id x) (sql_insert ACCESS_AUDIT_EVENTS_TABLE e)"
  "preserves (has_id x) (sql_insert ACCESS_IDEMPOTENCY_TABLE j)"
  by (intro preserves_frame; simp add: has_id_def)+

lemma kept_ids_insert [preserves_rules]: "preserves (has_id x) (sql_insert ACCESS_BINDINGS_TABLE b)"
  by (auto simp: preserves_def sql_insert_def has_id_def)

lemma kept_ids_update:
  assumes "\<And>r. bi_binding_id (br_binding (f r)) = bi_binding_id (br_binding r)"
  shows "preserves (has_id x) (sql_update ACCESS_BINDINGS_TABLE p f)"
proof (rule preservesI)
  fix s
  assume "has_id x s"
  moreover have "has_id x (s\<lparr>ad_bindings := update_rows p f rs\<rparr>)" if "has_id x (s\<lparr>ad_bindings := rs\<rparr>)" for rs
    using that assms by (auto simp: has_id_def set_update_rows)
  ultimately show "has_id x (snd (sql_update ACCESS_BINDINGS_TABLE p f s))"
    by (simp add: sql_update_def Let_def has_id_def)
qed

lemma kept_by_parts [preserves_rules]:
  "preserves (\<lambda>u. i \<in> set (ad_receipts u)) (increment_policy_revision a)" "preserves (has_id x) (increment_policy_revision a)"
  "preserves (\<lambda>u. i \<in> set (ad_receipts u)) (append_audit e)" "preserves (has_id x) (append_audit e)"
  "preserves (\<lambda>u. i \<in> set (ad_receipts u)) (insert_binding digest b)"
  "preserves (\<lambda>u. i \<in> set (ad_receipts u)) (store_revoked digest j v r)"
  "preserves (\<lambda>u. i \<in> set (ad_receipts u)) (record_idempotency digest actor key operation payload_hash result secondary)"
  "preserves (has_id x) (record_idempotency digest actor key operation payload_hash result secondary)"
  unfolding increment_policy_revision_def append_audit_def insert_binding_def store_revoked_def record_idempotency_def Let_def
  by (intro preserves_rules)+

lemma kept_ids_parts [preserves_rules]:
  "preserves (has_id x) (insert_binding digest b)" "preserves (has_id x) (store_revoked digest j v r)"
  unfolding insert_binding_def store_revoked_def Let_def
  by (intro preserves_rules kept_ids_update; simp add: mutated_row_def)+

lemmas store_operations = create_binding_def create_new_def revoke_binding_def replace_binding_def establish_artifact_owners_def
  establish_missing_def attest_candidate_owners_def delete_legacy_topic_memory_owners_def append_audits_def
  append_audit_once_def record_receipt_identity_def commit_receipt_identity_def Let_def

lemma perform_keeps:
  "preserves (\<lambda>u. i \<in> set (ad_receipts u)) (perform digest op)" "preserves (has_id x) (perform digest op)"
  by (cases op; simp only: perform.simps store_operations; intro preserves_rules)+

lemma store_run_keeps:
  assumes "(store_step digest T)\<^sup>*\<^sup>* s t"
  shows "i \<in> set (ad_receipts s) \<Longrightarrow> i \<in> set (ad_receipts t)" and "has_id x s \<Longrightarrow> has_id x t"
  using assms by (induction rule: rtranclp_induct) (auto elim!: store_stepE intro: preservesD [OF perform_keeps(1)] preservesD [OF perform_keeps(2)])

definition create_receipt :: "hash \<Rightarrow> access_binding \<Rightarrow> string \<Rightarrow> string option \<Rightarrow> idempotency_row" where
  "create_receipt digest b result secondary = \<lparr>ir_actor_id = su_id (bi_granted_by b), ir_key_hash = digest (bi_idempotency_key b),
     ir_operation = ''binding.create'', ir_payload_hash = creation_hash digest b, ir_result_binding_id = Some result,
     ir_secondary_binding_id = secondary\<rparr>"

lemma idempotent_Some:
  assumes "idempotent_result digest actor key operation payload_hash s = (Inr (Some p), t)"
  shows "\<lparr>ir_actor_id = su_id actor, ir_key_hash = digest key, ir_operation = operation, ir_payload_hash = payload_hash,
     ir_result_binding_id = Some (fst p), ir_secondary_binding_id = snd p\<rparr> \<in> set (ad_receipts s)"
proof -
  let ?k = "\<lambda>r. ir_actor_id r = su_id actor \<and> ir_key_hash r = digest key"
  obtain row where row: "sql_one_or_none ACCESS_IDEMPOTENCY_TABLE ?k s = (Inr row, s)"
    and rest: "(case row of None \<Rightarrow> return None
       | Some r \<Rightarrow> if ir_operation r \<noteq> operation \<or> ir_payload_hash r \<noteq> payload_hash then raise (AccessConflict ''idempotency-key'')
           else (case ir_result_binding_id r of None \<Rightarrow> raise (AccessConflict ''idempotency-key'')
             | Some i \<Rightarrow> return (Some (i, ir_secondary_binding_id r)))) s = (Inr (Some p), t)"
    using assms unfolding idempotent_result_def by (elim bind_reads_Inr [OF reads_only_sql(3)])
  then obtain r where r: "row = Some r" by (cases row) auto
  have "r \<in> set (ad_receipts s)" "?k r"
    using sql_one_or_none_Inr [OF row] find_SomeD [of ?k "ad_receipts s" r] r by auto
  moreover have "ir_operation r = operation" "ir_payload_hash r = payload_hash" "ir_result_binding_id r = Some (fst p)"
      "ir_secondary_binding_id r = snd p"
    using rest r by (auto split: if_splits option.splits)
  ultimately have "r = \<lparr>ir_actor_id = su_id actor, ir_key_hash = digest key, ir_operation = operation, ir_payload_hash = payload_hash,
     ir_result_binding_id = Some (fst p), ir_secondary_binding_id = snd p\<rparr>"
    by (intro idempotency_row.equality) simp_all
  with \<open>r \<in> set (ad_receipts s)\<close> show ?thesis by simp
qed

lemma binding_by_id_Inr: "binding_by_id i s = (Inr (Some r), t) \<Longrightarrow> t = s \<and> r \<in> set (ad_bindings s) \<and> bi_binding_id (br_binding r) = i"
  unfolding binding_by_id_def by (drule sql_one_or_none_Inr) (auto dest!: sym [of "Some _"] dest: find_SomeD)

lemma binding_lookup_Inr:
  assumes "bind (binding_by_id i) (\<lambda>row. case row of None \<Rightarrow> raise e | Some r \<Rightarrow> return (br_binding r)) s = (Inr x, t)"
  shows "t = s \<and> (\<exists>row \<in> set (ad_bindings s). bi_binding_id (br_binding row) = i \<and> x = br_binding row)"
  using assms by (auto simp: bind_Inr_iff split: option.splits dest!: binding_by_id_Inr)

text \<open>A creation that returns leaves a receipt that names the binding it returned.\<close>

lemma create_binding_Inr:
  assumes "create_binding digest b s = (Inr r, t)"
  shows "(\<exists>x. create_receipt digest b (bi_binding_id r) x \<in> set (ad_receipts t)) \<and> has_id (bi_binding_id r) t"
proof -
  obtain replay where replay: "idempotent_result digest (bi_granted_by b) (bi_idempotency_key b) ''binding.create'' (creation_hash digest b) s = (Inr replay, s)"
    and rest: "(case replay of
        Some (i, _) \<Rightarrow> bind (binding_by_id i) (\<lambda>row.
          case row of None \<Rightarrow> raise (AccessConflict ''idempotency-key'') | Some r \<Rightarrow> return (br_binding r))
      | None \<Rightarrow> create_new digest b (creation_hash digest b)) s = (Inr r, t)"
    using assms unfolding create_binding_def Let_def by (elim bind_reads_Inr [OF store_reads(4)])
  show ?thesis
  proof (cases replay)
    case (Some p)
    from rest Some have "bind (binding_by_id (fst p)) (\<lambda>row. case row of None \<Rightarrow> raise (AccessConflict ''idempotency-key'')
        | Some r \<Rightarrow> return (br_binding r)) s = (Inr r, t)"
      by (simp add: case_prod_beta)
    note binding_lookup_Inr [OF this]
    moreover have "create_receipt digest b (fst p) (snd p) \<in> set (ad_receipts s)"
      using idempotent_Some replay unfolding Some create_receipt_def by blast
    ultimately show ?thesis by (auto simp: has_id_def)
  next
    case None
    from rest None obtain v u w where u: "insert_binding digest (b\<lparr>bi_policy_revision := Revision v\<rparr>) u = (Inr (), w)"
        "sql_insert ACCESS_IDEMPOTENCY_TABLE (create_receipt digest b (bi_binding_id b) None) w = (Inr (), t)"
        "r = b\<lparr>bi_policy_revision := Revision v\<rparr>"
      by (auto simp: create_new_def Let_def bind_Inr_iff andThen_Inr_iff catch_raise_Inr record_idempotency_def create_receipt_def)
    from u(1) have "has_id (bi_binding_id b) w"
      by (auto simp: insert_binding_def Let_def andThen_Inr_iff catch_raise_Inr sql_insert_def has_id_def binding_row_of_def split: if_splits)
    then have "has_id (bi_binding_id b) t" using preservesE [OF kept_ids(6) _ u(2)] by simp
    moreover have "create_receipt digest b (bi_binding_id b) None \<in> set (ad_receipts t)"
      using u(2) by (auto simp: sql_insert_def split: if_splits)
    ultimately show ?thesis using u(3) by auto
  qed
qed

text \<open>
  C27: Replaying a creation, at any later time and whatever happened to the binding since,
  changes nothing and returns the binding the first request created.
\<close>

theorem creation_is_idempotent:
  assumes "(store_step digest T)\<^sup>*\<^sup>* empty_access_db s" and "well_timed T (Create b)"
    and "create_binding digest b s = (Inr r, t)" and "(store_step digest T)\<^sup>*\<^sup>* t u"
    and "su_id (bi_granted_by b') = su_id (bi_granted_by b)" and "bi_idempotency_key b' = bi_idempotency_key b"
    and "creation_hash digest b' = creation_hash digest b"
  shows "\<exists>row. row \<in> set (ad_bindings u) \<and> bi_binding_id (br_binding row) = bi_binding_id r
     \<and> create_binding digest b' u = (Inr (br_binding row), u)"
proof -
  have "t = snd (perform digest (Create b) s)"
    using assms(3) by (simp add: transaction_run andThen_run)
  with store_stepI [OF assms(2), of digest s] have "store_step digest T s t" by (simp only:)
  then have ok: "access_ok digest T u"
    using assms(1,4) by (meson access_ok_empty rtranclp.rtrancl_into_rtrancl rtranclp_trans store_run_ok)
  obtain x where x: "create_receipt digest b (bi_binding_id r) x \<in> set (ad_receipts u)"
    using create_binding_Inr [OF assms(3)] store_run_keeps(1) [OF assms(4)] by blast
  have "List.find (\<lambda>y. ir_actor_id y = su_id (bi_granted_by b) \<and> ir_key_hash y = digest (bi_idempotency_key b)) (ad_receipts u)
      = Some (create_receipt digest b (bi_binding_id r) x)"
    using ok x by (intro find_key_row [where T = ACCESS_IDEMPOTENCY_TABLE])
      (auto simp: access_ok_def table_ok_def create_receipt_def ACCESS_IDEMPOTENCY_TABLE_def)
  then have receipt: "idempotent_result digest (bi_granted_by b') (bi_idempotency_key b') ''binding.create'' (creation_hash digest b') u
      = (Inr (Some (bi_binding_id r, x)), u)"
    using ok assms(5-7) unfolding idempotent_result_def
    by (subst bind_run, subst receipts_table.one_or_none_run)
       (auto simp: access_ok_def create_receipt_def ACCESS_IDEMPOTENCY_TABLE_def)
  obtain row where row: "row \<in> set (ad_bindings u)" "bi_binding_id (br_binding row) = bi_binding_id r"
    using create_binding_Inr [OF assms(3)] store_run_keeps(2) [OF assms(4)] by (auto simp: has_id_def)
  have "List.find (has_binding_id (bi_binding_id r)) (ad_bindings u) = Some row"
    using ok row by (intro find_key_row [where T = ACCESS_BINDINGS_TABLE])
      (auto simp: access_ok_def table_ok_def ACCESS_BINDINGS_TABLE_def)
  then have "binding_by_id (bi_binding_id r) u = (Inr (Some row), u)"
    using ok unfolding binding_by_id_def
    by (subst bindings_table.one_or_none_run) (auto simp: access_ok_def ACCESS_BINDINGS_TABLE_def)
  with receipt row show ?thesis
    by (intro exI [of _ row]) (simp add: create_binding_def Let_def bind_run)
qed

lemma creation_is_idempotent_witness:
  "\<exists>row. row \<in> set (ad_bindings (snd (perform (\<lambda>x. x) (Revoke ''b2'' 1 ''k'' 21 (bi_granted_by (demo_binding ''b2'' ''eve'' 20 None))) demo_history)))
     \<and> bi_binding_id (br_binding row) = ''b2''
     \<and> fst (create_binding (\<lambda>x. x) ((demo_binding ''b2'' ''eve'' 30 None)\<lparr>bi_binding_id := ''b9''\<rparr>)
          (snd (perform (\<lambda>x. x) (Revoke ''b2'' 1 ''k'' 21 (bi_granted_by (demo_binding ''b2'' ''eve'' 20 None))) demo_history)))
        = Inr (br_binding row)"
proof -
  let ?b = "demo_binding ''b2'' ''eve'' 20 None"
  let ?first = "snd (perform (\<lambda>x. x) (Create (demo_binding ''b1'' ''bob'' 0 (Some 10))) empty_access_db)"
  let ?later = "snd (perform (\<lambda>x. x) (Revoke ''b2'' 1 ''k'' 21 (bi_granted_by ?b)) demo_history)"
  have steps: "(store_step (\<lambda>x. x) 20)\<^sup>*\<^sup>* empty_access_db ?first" "(store_step (\<lambda>x. x) 20)\<^sup>*\<^sup>* demo_history ?later"
    by (intro r_into_rtranclp store_stepI; code_simp)+
  have timed: "well_timed 20 (Create ?b)" by code_simp
  have run: "create_binding (\<lambda>x. x) ?b ?first = (Inr (?b\<lparr>bi_policy_revision := Revision 2\<rparr>), demo_history)"
    by (simp add: demo_history_def create_binding_def create_new_def idempotent_result_def sql_one_or_none_def
      increment_policy_revision_def exec_simps sql_insert_def sql_update_def insert_binding_def record_idempotency_def access_tables
      empty_access_db_def demo_binding_def singleton_key_def one_per_resource_def binding_row_of_def Let_def clash_free_def)
  have hash: "creation_hash (\<lambda>x. x) ((demo_binding ''b2'' ''eve'' 30 None)\<lparr>bi_binding_id := ''b9''\<rparr>) = creation_hash (\<lambda>x. x) ?b"
    by (simp add: creation_hash_def demo_binding_def)
  from creation_is_idempotent [OF steps(1) timed run steps(2) _ _ hash] show ?thesis
    by (auto simp: demo_binding_def)
qed

section \<open>Receipt attribution\<close>

text \<open>Events of the audit log stay.\<close>

lemma kept_events [preserves_rules]:
  "preserves (\<lambda>u. e \<in> set (ad_audit u)) (sql_insert ACCESS_POLICY_HEADS_TABLE h)"
  "preserves (\<lambda>u. e \<in> set (ad_audit u)) (sql_update ACCESS_POLICY_HEADS_TABLE ph fh)"
  "preserves (\<lambda>u. e \<in> set (ad_audit u)) (sql_insert ACCESS_BINDINGS_TABLE b)"
  "preserves (\<lambda>u. e \<in> set (ad_audit u)) (sql_update ACCESS_BINDINGS_TABLE p f)"
  "preserves (\<lambda>u. e \<in> set (ad_audit u)) (sql_insert ACCESS_OWNERS_TABLE w)"
  "preserves (\<lambda>u. e \<in> set (ad_audit u)) (sql_delete ACCESS_OWNERS_TABLE q)"
  "preserves (\<lambda>u. e \<in> set (ad_audit u)) (sql_insert ACCESS_IDEMPOTENCY_TABLE j)"
  by (intro preserves_frame; simp)+

lemma kept_events_insert [preserves_rules]: "preserves (\<lambda>u. e \<in> set (ad_audit u)) (sql_insert ACCESS_AUDIT_EVENTS_TABLE x)"
  by (auto simp: preserves_def sql_insert_def)

lemma perform_keeps_events: "preserves (\<lambda>u. e \<in> set (ad_audit u)) (perform digest op)"
  by (cases op; simp only: perform.simps store_operations increment_policy_revision_def append_audit_def insert_binding_def
      store_revoked_def record_idempotency_def; intro preserves_rules)

lemma store_run_keeps_events: "(store_step digest T)\<^sup>*\<^sup>* s t \<Longrightarrow> e \<in> set (ad_audit s) \<Longrightarrow> e \<in> set (ad_audit t)"
  by (induction rule: rtranclp_induct) (auto elim!: store_stepE intro: preservesD [OF perform_keeps_events])

text \<open>The reading of a receipt, from the event that carries its id.\<close>

lemma get_receipt_run:
  assumes "access_ok digest T s" and "e \<in> set (ad_audit s)" and "ev_event_id e = receipt_event_id digest operation i c"
  shows "get_receipt_identity_event digest operation i c s = (map_sum (\<lambda>x. x) Some (receipt_of_event operation i c e), s)"
proof -
  have "List.find (\<lambda>r. ev_event_id r = receipt_event_id digest operation i c) (ad_audit s) = Some e"
    using assms by (intro find_key_row [where T = ACCESS_AUDIT_EVENTS_TABLE])
      (auto simp: access_ok_def table_ok_def ACCESS_AUDIT_EVENTS_TABLE_def)
  then have "sql_one_or_none ACCESS_AUDIT_EVENTS_TABLE (\<lambda>r. ev_event_id r = receipt_event_id digest operation i c) s = (Inr (Some e), s)"
    using assms by (subst audit_table.one_or_none_run) (auto simp: access_ok_def ACCESS_AUDIT_EVENTS_TABLE_def)
  then show ?thesis by (simp add: get_receipt_identity_event_def bind_run split: sum.split)
qed

definition attributed :: "hash \<Rightarrow> string \<Rightarrow> receipt_identity \<Rightarrow> access_db \<Rightarrow> bool" where
  "attributed digest operation x s \<longleftrightarrow> (\<exists>e \<in> set (ad_audit s).
     ev_event_id e = receipt_event_id digest operation (rc_scope_id x) (rc_source_id x)
     \<and> receipt_of_event operation (rc_scope_id x) (rc_source_id x) e = Inr x)"

lemma get_receipt_Some:
  assumes "get_receipt_identity_event digest operation i c s = (Inr (Some x), t)"
  shows "t = s \<and> rc_scope_id x = i \<and> rc_source_id x = c \<and> attributed digest operation x s"
proof -
  have "t = s" using reads_onlyD [OF receipt_reads(1) assms] .
  obtain row where row: "sql_one_or_none ACCESS_AUDIT_EVENTS_TABLE (\<lambda>r. ev_event_id r = receipt_event_id digest operation i c) s = (Inr row, s)"
    and rest: "(case row of None \<Rightarrow> return None
       | Some r \<Rightarrow> bind (lift_result (receipt_of_event operation i c r)) (\<lambda>i. return (Some i))) s = (Inr (Some x), t)"
    using assms unfolding get_receipt_identity_event_def by (elim bind_reads_Inr [OF reads_only_sql(3)])
  then obtain e where e: "row = Some e" by (cases row) auto
  with rest have x: "receipt_of_event operation i c e = Inr x" by (auto simp: bind_Inr_iff)
  then have "rc_scope_id x = i" "rc_source_id x = c" by (auto simp: receipt_of_event_def split: if_splits)
  moreover have "e \<in> set (ad_audit s)" "ev_event_id e = receipt_event_id digest operation i c"
    using sql_one_or_none_Inr [OF row] find_SomeD [of "\<lambda>r. ev_event_id r = receipt_event_id digest operation i c" "ad_audit s" e] e
    by auto
  ultimately show ?thesis using x \<open>t = s\<close> by (auto simp: attributed_def)
qed

lemma append_receipt:
  assumes "append_audit (receipt_event digest operation i now) s = (Inr e, t)" and "is_principal (rc_principal i)"
  shows "attributed digest operation i t"
  using assms by (auto simp: append_audit_def bind_run andThen_Inr_iff sql_insert_def attributed_def receipt_event_def receipt_of_event_def
      artifact_resource_def is_principal_def split: if_splits)

lemma recorded_receipt:
  assumes "record_receipt_identity digest now i s = (Inr x, t)" and "is_principal (rc_principal i)"
  shows "rc_scope_id x = rc_scope_id i \<and> rc_source_id x = rc_source_id i \<and> same_identity x i \<and> attributed digest RECEIPT_IDENTITY x t"
proof -
  obtain existing where existing: "get_receipt_identity digest (rc_scope_id i) (rc_source_id i) s = (Inr existing, s)"
    and rest: "(case existing of
       Some x \<Rightarrow> if \<not> same_identity x i then raise (AccessConflict ''receipt-identity'') else return x
     | None \<Rightarrow> andThen (lift_result (make_resource (artifact_resource (rc_scope_id i) ''handoff'' ''handoff'' None)))
         (catch (andThen (transaction (append_audit (receipt_event digest RECEIPT_IDENTITY i now))) (return i))
           (\<lambda>e. e = IntegrityError)
           (\<lambda>_. bind (get_receipt_identity digest (rc_scope_id i) (rc_source_id i)) (\<lambda>found.
              case found of
                None \<Rightarrow> raise (AccessConflict ''receipt-identity'')
              | Some x \<Rightarrow> if \<not> same_identity x i then raise (AccessConflict ''receipt-identity'') else return x)))) s = (Inr x, t)"
    using assms(1) unfolding record_receipt_identity_def by (elim bind_reads_Inr [OF receipt_reads(2)])
  have found: ?thesis if "get_receipt_identity digest (rc_scope_id i) (rc_source_id i) u = (Inr (Some x), t)" "same_identity x i" for u
    using get_receipt_Some [of digest RECEIPT_IDENTITY "rc_scope_id i" "rc_source_id i" u x t] that
    by (auto simp: get_receipt_identity_def)
  show ?thesis
  proof (cases existing)
    case (Some y)
    with rest existing found show ?thesis by (auto split: if_splits)
  next
    case None
    with rest have "(\<exists>e. append_audit (receipt_event digest RECEIPT_IDENTITY i now) s = (Inr e, t) \<and> x = i)
       \<or> (\<exists>u. get_receipt_identity digest (rc_scope_id i) (rc_source_id i) u = (Inr (Some x), t) \<and> same_identity x i)"
      by (auto simp: andThen_run bind_run catch_run transaction_run split: prod.splits sum.splits if_splits option.splits)
    then show ?thesis
      using found append_receipt assms(2) by (auto simp: same_identity_def same_subject_def)
  qed
qed

text \<open>
  C39: The identity recorded for a receipt is final: after any later operations of the store, the
  audit events that bear the receipt's own id included, reading the receipt gives the identity
  that was recorded, and recording a different one for the same source is refused and changes
  nothing.
\<close>

theorem receipt_attribution_is_final:
  assumes "(store_step digest T)\<^sup>*\<^sup>* empty_access_db s" and "is_principal (rc_principal i)"
    and "record_receipt_identity digest now i s = (Inr x, t)" and "(store_step digest T)\<^sup>*\<^sup>* t u"
    and "rc_scope_id j = rc_scope_id i" and "rc_source_id j = rc_source_id i" and "\<not> same_identity x j"
  shows "get_receipt_identity digest (rc_scope_id i) (rc_source_id i) u = (Inr (Some x), u)
    \<and> record_receipt_identity digest later j u = (Inl (AccessConflict ''receipt-identity''), u)"
proof -
  have "t = snd (perform digest (Record_Receipt i now) s)"
    using assms(3) by (simp add: andThen_run)
  with store_stepI [of T "Record_Receipt i now" digest s] have "store_step digest T s t" by simp
  then have ok: "access_ok digest T u"
    using assms(1,4) by (meson access_ok_empty rtranclp.rtrancl_into_rtrancl rtranclp_trans store_run_ok)
  note x = recorded_receipt [OF assms(3,2)]
  then obtain e where e: "e \<in> set (ad_audit t)"
      "ev_event_id e = receipt_event_id digest RECEIPT_IDENTITY (rc_scope_id j) (rc_source_id j)"
      "receipt_of_event RECEIPT_IDENTITY (rc_scope_id j) (rc_source_id j) e = Inr x"
    unfolding attributed_def assms(5,6) by auto
  from get_receipt_run [OF ok store_run_keeps_events [OF assms(4) e(1)] e(2)] e(3) show ?thesis
    using assms(5-7) by (simp add: record_receipt_identity_def bind_run get_receipt_identity_def)
qed

definition demo_receipt :: "string \<Rightarrow> receipt_identity" where
  "demo_receipt who = \<lparr>rc_scope_id = ''s'', rc_source_id = ''o'',
     rc_principal = \<lparr>su_type = ''user'', su_id = who, su_description = None\<rparr>, rc_receiver_identity_matches = True\<rparr>"

text \<open>An event that claims the id of bob's receipt for eve, kept once.\<close>

definition demo_receipts :: access_db where
  "demo_receipts = snd (record_receipt_identity (\<lambda>x. x) 3 (demo_receipt ''bob'') empty_access_db)"

definition demo_forged :: access_db where
  "demo_forged = snd (perform (\<lambda>x. x) (Audit_Once (receipt_event (\<lambda>x. x) RECEIPT_IDENTITY (demo_receipt ''eve'') 5)) demo_receipts)"

lemma receipt_attribution_is_final_witness:
  "get_receipt_identity (\<lambda>x. x) ''s'' ''o'' demo_forged = (Inr (Some (demo_receipt ''bob'')), demo_forged)
   \<and> record_receipt_identity (\<lambda>x. x) 9 (demo_receipt ''eve'') demo_forged = (Inl (AccessConflict ''receipt-identity''), demo_forged)"
proof -
  have valid: "make_resource (artifact_resource ''s'' ''handoff'' ''handoff'' None) = Inr (artifact_resource ''s'' ''handoff'' ''handoff'' None)"
    by code_simp
  have run: "record_receipt_identity (\<lambda>x. x) 3 (demo_receipt ''bob'') empty_access_db = (Inr (demo_receipt ''bob''), demo_receipts)"
    unfolding demo_receipts_def
    using valid by (simp add: record_receipt_identity_def get_receipt_identity_def get_receipt_identity_event_def exec_simps
      sql_one_or_none_def append_audit_def sql_insert_def empty_access_db_def demo_receipt_def access_tables)
  have "(store_step (\<lambda>x. x) 0)\<^sup>*\<^sup>* demo_receipts demo_forged"
    unfolding demo_forged_def by (intro r_into_rtranclp store_stepI) simp
  from receipt_attribution_is_final [OF rtranclp.rtrancl_refl _ run this, of "demo_receipt ''eve''"] show ?thesis
    by (simp add: demo_receipt_def is_principal_def same_identity_def same_subject_def)
qed

end
