(* ===== verification/Access_Service.thy ===== *)
theory Access_Service
  imports Access_History
begin

text \<open>
  The decisions and the orchestration of access control
  (\<^verbatim>\<open>src/src/powercontext/server/authz/service.py\<close>): the builtin authorization provider and
  \<^verbatim>\<open>AccessControlService\<close> over it, with the store of \<^verbatim>\<open>Access_Store\<close> as its relationships
  and its audit log.

  The clock and \<^verbatim>\<open>uuid4\<close> are functions of how often they were asked. A signed cursor is held
  as its payload, with one value for every text the service did not sign. The checks here
  ask the provider; those that find a batch of prefetched decisions are in \<^verbatim>\<open>Access_Batch\<close>.
\<close>

section \<open>Configuration and state\<close>

record service_config =
  sc_digest :: hash
  sc_family_profiles :: "(string \<times> family_profile) list"
  sc_deployment_id :: string
  sc_relationships :: bool
  sc_safe_resource_filtering :: bool
  sc_multi_requirement_check :: bool
  sc_relationship_management :: bool
  sc_group_subjects :: bool
  sc_max_direct_resource_keys :: nat
  sc_static_scope_principal :: "subject option"
  sc_clock :: "nat \<Rightarrow> int"
  sc_uuid :: "nat \<Rightarrow> string"

definition sc_profiles :: "service_config \<Rightarrow> profiles" where
  "sc_profiles cfg = map_of (sc_family_profiles cfg)"

record service_state =
  sv_db :: access_db
  sv_clock_reads :: nat
  sv_uuids :: nat
  sv_deferred :: "audit_event list option"

type_synonym 'a service = "(service_state, 'a) exec"

definition on_store :: "(access_db, 'a) exec \<Rightarrow> 'a service" where
  "on_store m = (\<lambda>s. case m (sv_db s) of (r, d) \<Rightarrow> (r, s\<lparr>sv_db := d\<rparr>))"

text \<open>A repository call that is not bound to a connection has a transaction of its own.\<close>

abbreviation store_call :: "(access_db, 'a) exec \<Rightarrow> 'a service" where
  "store_call m \<equiv> on_store (transaction m)"

text \<open>A transaction around a block undoes what it did to the store, not what it read of the clock.\<close>

definition in_transaction :: "'a service \<Rightarrow> 'a service" where
  "in_transaction m = (\<lambda>s. case m s of (Inl e, t) \<Rightarrow> (Inl e, t\<lparr>sv_db := sv_db s\<rparr>) | (Inr x, t) \<Rightarrow> (Inr x, t))"

definition clock :: "service_config \<Rightarrow> int service" where
  "clock cfg = (\<lambda>s. (Inr (sc_clock cfg (sv_clock_reads s)), s\<lparr>sv_clock_reads := sv_clock_reads s + 1\<rparr>))"

definition uuid4 :: "service_config \<Rightarrow> string service" where
  "uuid4 cfg = (\<lambda>s. (Inr (sc_uuid cfg (sv_uuids s)), s\<lparr>sv_uuids := sv_uuids s + 1\<rparr>))"

record audit_context =
  cx_transport :: string
  cx_operation :: string
  cx_request_id :: "string option"
  cx_actor :: "subject option"
  cx_subject_groups :: "subject list"

text \<open>\<^verbatim>\<open>_access_call\<close>: any other exception becomes an unavailable access service.\<close>

definition is_access_error :: "error \<Rightarrow> bool" where
  "is_access_error e = (case e of AccessIdentityRequired \<Rightarrow> True | AccessDenied \<Rightarrow> True | AccessBindingNotFound \<Rightarrow> True
     | AccessUnavailable _ \<Rightarrow> True | AccessConflict _ \<Rightarrow> True | AccessInvalidRequest _ \<Rightarrow> True | _ \<Rightarrow> False)"

definition access_call :: "'a service \<Rightarrow> 'a service" where
  "access_call m = catch m (\<lambda>e. \<not> is_access_error e) (\<lambda>_. raise (AccessUnavailable ''access_unavailable''))"

definition required_principal :: "subject option \<Rightarrow> subject service" where
  "required_principal who = (case who of None \<Rightarrow> raise AccessIdentityRequired | Some p \<Rightarrow> return p)"

definition validate_idempotency_key :: "string \<Rightarrow> 'a \<Rightarrow> error + 'a" where
  "validate_idempotency_key key x =
     (if key = [] \<or> 255 < length key \<or> key \<noteq> py_strip key then Inl (AccessInvalidRequest ''idempotency-key'') else Inr x)"

section \<open>The builtin provider\<close>

record access_request =
  ar_subject :: subject
  ar_action :: access_action
  ar_resource :: resource_ref
  ar_groups :: "subject list"

definition point_state :: "service_config \<Rightarrow> subject \<Rightarrow> subject list \<Rightarrow> resource_ref list \<Rightarrow> int \<Rightarrow> decision_state service" where
  "point_state cfg who groups resources at_time = on_store (decision_snapshot (sc_digest cfg) (who # groups) at_time
     (filter (\<lambda>r. re_type r = ARTIFACT) resources) None (Some resources))"

definition provider_check_batch :: "service_config \<Rightarrow> access_request list \<Rightarrow> access_decision list service" where
  "provider_check_batch cfg requests = (case requests of
     [] \<Rightarrow> return []
   | q # _ \<Rightarrow>
       if \<exists>r \<in> set requests. \<not> same_subject (ar_subject r) (ar_subject q) then raise (AccessInvalidRequest ''batch-subject'')
       else bind (clock cfg) (\<lambda>now.
         bind (point_state cfg (ar_subject q) (ar_groups q) (map ar_resource requests) now) (\<lambda>st.
         return (map (\<lambda>r. decide st (ar_subject q) (ar_groups q) now (ar_action r) (ar_resource r)) requests))))"

definition provider_check :: "service_config \<Rightarrow> access_request \<Rightarrow> access_decision service" where
  "provider_check cfg q = bind (provider_check_batch cfg [q]) (\<lambda>ds. return (hd ds))"

definition resolve_resource_filter ::
  "service_config \<Rightarrow> subject \<Rightarrow> subject list \<Rightarrow> access_action \<Rightarrow> access_resource_type \<Rightarrow> string option \<Rightarrow> resource_filter service" where
  "resolve_resource_filter cfg who groups action rt family =
     (let owner = (if rt = ARTIFACT \<and> action \<in> set (role_actions ARTIFACT_OWNER) then Some who else None) in
      bind (clock cfg) (\<lambda>now.
      bind (on_store (decision_snapshot (sc_digest cfg) (who # groups) now [] owner None)) (\<lambda>st.
      return (derive_authorized_resource_filter (ds_bindings st) (ds_owned_resources st) action rt family
        (contextual_policy_revision (ds_policy_revision st) groups)))))"

section \<open>Checks\<close>

definition reason_char :: "char \<Rightarrow> bool" where
  "reason_char c \<longleftrightarrow> (CHR ''0'' \<le> c \<and> c \<le> CHR ''9'') \<or> (CHR ''A'' \<le> c \<and> c \<le> CHR ''Z'') \<or> (CHR ''a'' \<le> c \<and> c \<le> CHR ''z'')"

text \<open>The text of a policy revision, at most 64 characters.\<close>

fun revision_text :: "hash \<Rightarrow> policy_revision \<Rightarrow> string" where
  "revision_text digest Pending_Revision = ''pending''"
| "revision_text digest (Revision n) = integer_text n"
| "revision_text digest (Member_Revision r groups) =
     (let membership = take 24 (digest (nul_join groups)) in
      take (64 - length membership - 3) (revision_text digest r) @ '':g:'' @ membership)"

definition validate_provider_decision :: "service_config \<Rightarrow> access_decision \<Rightarrow> unit service" where
  "validate_provider_decision cfg d =
     (let reason = dc_reason_code d; revision = revision_text (sc_digest cfg) (dc_policy_revision d) in
      require (\<not> (reason = [] \<or> 64 < length reason \<or> \<not> reason_char (hd reason)
          \<or> (\<exists>c \<in> set reason. \<not> (reason_char c \<or> c \<in> set ''._-'')) \<or> revision = [] \<or> 64 < length revision
          \<or> (dc_matched_subject d \<noteq> None \<and> \<not> dc_allowed d)))
        (AccessUnavailable ''access_unavailable''))"

definition append_decision_audit :: "audit_event \<Rightarrow> unit service" where
  "append_decision_audit e = bind (gets sv_deferred) (\<lambda>events. case events of
     None \<Rightarrow> andThen (store_call (append_audit e)) (return ())
   | Some es \<Rightarrow> (\<lambda>s. (Inr (), s\<lparr>sv_deferred := Some (es @ [e])\<rparr>)))"

definition new_event :: "service_config \<Rightarrow> audit_context \<Rightarrow> subject \<Rightarrow> (audit_event \<Rightarrow> audit_event) \<Rightarrow> audit_event service" where
  "new_event cfg context who f = bind (uuid4 cfg) (\<lambda>event_id. bind (clock cfg) (\<lambda>now.
     return (f \<lparr>ev_cursor = None, ev_event_id = event_id, ev_occurred_at = now, ev_request_id = cx_request_id context,
       ev_transport = cx_transport context, ev_operation = cx_operation context, ev_principal = who,
       ev_actor = cx_actor context, ev_action = ACCESS_SELF, ev_resource = server_resource (sc_deployment_id cfg),
       ev_allowed = True, ev_reason_code = [], ev_policy_revision = None, ev_matched_subject = None,
       ev_binding_id = None, ev_target = None, ev_role = None, ev_expected_version = None, ev_result_version = None\<rparr>)))"

definition record_decision ::
  "service_config \<Rightarrow> audit_context \<Rightarrow> subject \<Rightarrow> access_action \<Rightarrow> resource_ref \<Rightarrow> access_decision \<Rightarrow> unit service" where
  "record_decision cfg context who action r d =
     bind (new_event cfg context who (\<lambda>e. e\<lparr>ev_action := action, ev_resource := r, ev_allowed := dc_allowed d,
         ev_reason_code := dc_reason_code d, ev_policy_revision := Some (dc_policy_revision d),
         ev_matched_subject := dc_matched_subject d, ev_binding_id := dc_matched_binding_id d\<rparr>)) append_decision_audit"

definition audited ::
  "service_config \<Rightarrow> audit_context \<Rightarrow> subject \<Rightarrow> access_action \<Rightarrow> resource_ref \<Rightarrow> access_decision \<Rightarrow> unit service" where
  "audited cfg context who action r d =
     (if action = ACCESS_SELF then return () else access_call (record_decision cfg context who action r d))"

definition check :: "service_config \<Rightarrow> audit_context \<Rightarrow> subject option \<Rightarrow> access_action \<Rightarrow> resource_ref \<Rightarrow> access_decision service" where
  "check cfg context principal' action r =
     bind (required_principal principal') (\<lambda>who.
     andThen (lift_result (validate_action_resource (sc_profiles cfg) (sc_deployment_id cfg) action r))
    (bind (access_call (provider_check cfg \<lparr>ar_subject = who, ar_action = action, ar_resource = r,
        ar_groups = cx_subject_groups context\<rparr>)) (\<lambda>d.
     andThen (validate_provider_decision cfg d)
    (andThen (audited cfg context who action r d) (return d)))))"

text \<open>
  \<^verbatim>\<open>artifact-owner-pending\<close> is a reason only a remote provider gives; the service treats it
  as unavailable and not as a denial.
\<close>

definition require_allowed :: "access_decision \<Rightarrow> unit service" where
  "require_allowed d = andThen (require (dc_allowed d \<or> dc_reason_code d \<noteq> ''artifact-owner-pending'') (AccessUnavailable ''artifact_owner_pending''))
     (require (dc_allowed d) AccessDenied)"

definition require_access :: "service_config \<Rightarrow> audit_context \<Rightarrow> subject option \<Rightarrow> access_action \<Rightarrow> resource_ref \<Rightarrow> access_decision service" where
  "require_access cfg context principal' action r = bind (check cfg context principal' action r) (\<lambda>d.
     andThen (require_allowed d) (return d))"

type_synonym requirement = "access_action \<times> resource_ref"

definition check_batch :: "service_config \<Rightarrow> audit_context \<Rightarrow> subject option \<Rightarrow> requirement list \<Rightarrow> access_decision list service" where
  "check_batch cfg context principal' checks =
     andThen (require (sc_multi_requirement_check cfg) (AccessUnavailable ''multi_requirement_check_unavailable''))
    (bind (required_principal principal') (\<lambda>who.
     andThen (lift_result (each_result (\<lambda>(a, r). validate_action_resource (sc_profiles cfg) (sc_deployment_id cfg) a r) checks))
    (bind (access_call (provider_check_batch cfg (map (\<lambda>(a, r). \<lparr>ar_subject = who, ar_action = a, ar_resource = r,
        ar_groups = cx_subject_groups context\<rparr>) checks))) (\<lambda>decisions.
     andThen (require (length decisions = length checks) (AccessUnavailable ''access_unavailable''))
    (andThen (for_each decisions (validate_provider_decision cfg))
    (andThen (for_each (zip checks decisions) (\<lambda>(c, d). audited cfg context who (fst c) (snd c) d))
     (return decisions)))))))"

definition pending_owner :: "access_decision \<Rightarrow> bool" where
  "pending_owner d \<longleftrightarrow> dc_reason_code d = ''artifact-owner-pending''"

definition require_all :: "service_config \<Rightarrow> audit_context \<Rightarrow> subject option \<Rightarrow> requirement list \<Rightarrow> access_decision list service" where
  "require_all cfg context principal' checks = bind (check_batch cfg context principal' checks) (\<lambda>ds.
     andThen (require (\<not> (\<exists>d \<in> set ds. \<not> dc_allowed d \<and> \<not> pending_owner d)) AccessDenied)
    (andThen (require (\<forall>d \<in> set ds. dc_allowed d) (AccessUnavailable ''artifact_owner_pending''))
     (return ds)))"

definition require_any :: "service_config \<Rightarrow> audit_context \<Rightarrow> subject option \<Rightarrow> requirement list \<Rightarrow> access_decision list service" where
  "require_any cfg context principal' checks = bind (check_batch cfg context principal' checks) (\<lambda>ds.
     if \<not> (\<exists>d \<in> set ds. dc_allowed d)
     then raise (if \<exists>d \<in> set ds. pending_owner d then AccessUnavailable ''artifact_owner_pending'' else AccessDenied)
     else return ds)"

section \<open>Relationship metadata\<close>

definition relationship_store :: "service_config \<Rightarrow> unit service" where
  "relationship_store cfg = require (sc_relationships cfg \<and> sc_relationship_management cfg)
     (AccessUnavailable ''relationship_management_unavailable'')"

text \<open>A call on the relationship reader or writer.\<close>

definition related :: "service_config \<Rightarrow> (access_db, 'a) exec \<Rightarrow> 'a service" where
  "related cfg m = andThen (relationship_store cfg) (access_call (store_call m))"

definition administrative_checks :: "service_config \<Rightarrow> resource_ref \<Rightarrow> error + requirement list" where
  "administrative_checks cfg r =
     (let server = (SERVER_ADMIN, server_resource (sc_deployment_id cfg)) in
      case re_type r of
        SERVER \<Rightarrow> Inr [(SERVER_ADMIN, r)]
      | SCOPE \<Rightarrow> Inr [(SCOPE_ADMIN, r), server]
      | ARTIFACT \<Rightarrow> (case parent_scope r of
            None \<Rightarrow> Inl (AccessInvalidRequest ''artifact-identity'')
          | Some p \<Rightarrow> (case artifact_family_profile (sc_profiles cfg) r of
                Inl e \<Rightarrow> Inl e
              | Inr _ \<Rightarrow> Inr ([(ARTIFACT_SHARE, r), (SCOPE_ADMIN, p)]
                  @ (if re_family r = Some ''handoff'' then [(SCOPE_DELEGATE, p)] else []) @ [server]))))"

definition binding_list_checks :: "service_config \<Rightarrow> resource_ref \<Rightarrow> error + requirement list" where
  "binding_list_checks cfg r = (case re_type r of
     SERVER \<Rightarrow> Inr [(SERVER_ADMIN, r)]
   | SCOPE \<Rightarrow> Inr [(SCOPE_DELEGATE, r), (SCOPE_ADMIN, r), (SERVER_ADMIN, server_resource (sc_deployment_id cfg))]
   | ARTIFACT \<Rightarrow> administrative_checks cfg r)"

definition record_relationship :: "service_config \<Rightarrow> audit_context \<Rightarrow> subject \<Rightarrow> int option \<Rightarrow> access_binding \<Rightarrow> unit service" where
  "record_relationship cfg context who expected_version b =
     bind (uuid4 cfg) (\<lambda>event_id. bind (clock cfg) (\<lambda>now.
     bind (lift_result (administrative_checks cfg (bi_resource b))) (\<lambda>checks.
     andThen (store_call (append_audit \<lparr>ev_cursor = None, ev_event_id = event_id, ev_occurred_at = now,
         ev_request_id = cx_request_id context, ev_transport = cx_transport context, ev_operation = cx_operation context,
         ev_principal = who, ev_actor = cx_actor context, ev_action = fst (hd checks), ev_resource = bi_resource b,
         ev_allowed = True, ev_reason_code = (if bi_state b = BINDING_ACTIVE then ''binding-created'' else ''binding-revoked''),
         ev_policy_revision = Some (bi_policy_revision b), ev_matched_subject = None, ev_binding_id = Some (bi_binding_id b),
         ev_target = Some (bi_subject b), ev_role = Some (bi_role b), ev_expected_version = expected_version,
         ev_result_version = Some (bi_version b)\<rparr>)) (return ()))))"

section \<open>Changing bindings\<close>

record create_request =
  cr_subject :: subject
  cr_resource :: resource_ref
  cr_role :: access_role
  cr_idempotency_key :: string
  cr_reason :: "string option"
  cr_expires_at :: "int option"

definition make_create_request :: "create_request \<Rightarrow> error + create_request" where
  "make_create_request q = (case validate_idempotency_key (cr_idempotency_key q) q of
     Inl e \<Rightarrow> Inl e
   | Inr _ \<Rightarrow> if (case cr_reason q of None \<Rightarrow> False | Some x \<Rightarrow> 1024 < length x) then Inl (AccessInvalidRequest ''reason'') else Inr q)"

definition make_replace_request :: "replace_request \<Rightarrow> error + replace_request" where
  "make_replace_request q = (case validate_idempotency_key (rq_idempotency_key q) q of
     Inl e \<Rightarrow> Inl e
   | Inr _ \<Rightarrow> if rq_expected_version q < 1 then Inl (AccessInvalidRequest ''binding-version'')
       else if (case rq_reason q of None \<Rightarrow> False | Some x \<Rightarrow> 1024 < length x) then Inl (AccessInvalidRequest ''reason'') else Inr q)"

definition require_subject :: "service_config \<Rightarrow> subject \<Rightarrow> unit service" where
  "require_subject cfg p = require (su_type p \<noteq> ''group'' \<or> sc_group_subjects cfg) (AccessInvalidRequest ''group-subjects-unavailable'')"

definition require_future :: "int option \<Rightarrow> int \<Rightarrow> unit service" where
  "require_future expires now = require (case expires of None \<Rightarrow> True | Some e \<Rightarrow> now < e) (AccessInvalidRequest ''binding-expired'')"

text \<open>The callbacks with which a caller looks at the resource first.\<close>

definition with_resource :: "(resource_ref \<Rightarrow> unit service) option \<Rightarrow> resource_ref \<Rightarrow> unit service" where
  "with_resource f r = (case f of None \<Rightarrow> return () | Some g \<Rightarrow> g r)"

definition require_administration :: "service_config \<Rightarrow> audit_context \<Rightarrow> subject \<Rightarrow> resource_ref \<Rightarrow> unit service" where
  "require_administration cfg context who r = bind (lift_result (administrative_checks cfg r)) (\<lambda>checks.
     andThen (require_any cfg context (Some who) checks) (return ()))"

definition requested_binding :: "string \<Rightarrow> create_request \<Rightarrow> subject \<Rightarrow> int \<Rightarrow> access_binding" where
  "requested_binding i q who now = \<lparr>bi_binding_id = i, bi_subject = cr_subject q, bi_resource = cr_resource q,
     bi_role = cr_role q, bi_granted_by = who, bi_reason = cr_reason q, bi_created_at = now,
     bi_expires_at = cr_expires_at q, bi_state = BINDING_ACTIVE, bi_version = 1, bi_policy_revision = Pending_Revision,
     bi_idempotency_key = cr_idempotency_key q, bi_revoked_at = None, bi_revoked_by = None\<rparr>"

definition service_create_binding ::
  "service_config \<Rightarrow> audit_context \<Rightarrow> subject option \<Rightarrow> create_request \<Rightarrow> (resource_ref \<Rightarrow> unit service) option \<Rightarrow> access_binding service" where
  "service_create_binding cfg context principal' q validate_resource =
     andThen (lift_result (validate_binding_role (sc_profiles cfg) (sc_deployment_id cfg) (cr_resource q) (cr_role q)))
    (andThen (lift_result (validate_binding_subject (sc_profiles cfg) (cr_resource q) (cr_role q) (su_type (cr_subject q))))
    (andThen (require_subject cfg (cr_subject q))
    (bind (clock cfg) (\<lambda>now.
     andThen (require_future (cr_expires_at q) now)
    (bind (required_principal principal') (\<lambda>who.
     andThen (require_administration cfg context who (cr_resource q))
    (andThen (with_resource validate_resource (cr_resource q))
    (bind (uuid4 cfg) (\<lambda>i.
     bind (related cfg (create_binding (sc_digest cfg) (requested_binding i q who now))) (\<lambda>created.
     andThen (access_call (record_relationship cfg context who None created)) (return created)))))))))))"
text \<open>An unknown binding is reported only to a server administrator.\<close>

definition binding_not_found :: "service_config \<Rightarrow> audit_context \<Rightarrow> subject \<Rightarrow> 'a service" where
  "binding_not_found cfg context who =
     bind (check cfg context (Some who) SERVER_ADMIN (server_resource (sc_deployment_id cfg))) (\<lambda>d.
     raise (if dc_allowed d then AccessBindingNotFound else AccessDenied))"

definition service_revoke_binding ::
  "service_config \<Rightarrow> audit_context \<Rightarrow> subject option \<Rightarrow> string \<Rightarrow> int \<Rightarrow> string \<Rightarrow> (resource_ref \<Rightarrow> unit service) option \<Rightarrow> access_binding service" where
  "service_revoke_binding cfg context principal' binding_id expected_version idempotency_key prepare_resource =
     andThen (lift_result (validate_idempotency_key idempotency_key ()))
    (bind (required_principal principal') (\<lambda>who.
     bind (related cfg (get_binding binding_id)) (\<lambda>found.
     case found of
       None \<Rightarrow> binding_not_found cfg context who
     | Some b \<Rightarrow>
         andThen (with_resource prepare_resource (bi_resource b))
        (andThen (require_administration cfg context who (bi_resource b))
        (andThen (relationship_store cfg)
        (bind (clock cfg) (\<lambda>now.
         bind (access_call (store_call (revoke_binding (sc_digest cfg) binding_id expected_version idempotency_key now who))) (\<lambda>revoked.
         andThen (access_call (record_relationship cfg context who (Some expected_version) revoked)) (return revoked)))))))))"

definition service_replace_binding ::
  "service_config \<Rightarrow> audit_context \<Rightarrow> subject option \<Rightarrow> replace_request \<Rightarrow> (resource_ref \<Rightarrow> unit service) option \<Rightarrow>
     (access_binding \<times> access_binding) service" where
  "service_replace_binding cfg context principal' q prepare_resource =
     bind (required_principal principal') (\<lambda>who.
     bind (related cfg (get_binding (rq_binding_id q))) (\<lambda>found.
     case found of
       None \<Rightarrow> binding_not_found cfg context who
     | Some b \<Rightarrow>
         andThen (with_resource prepare_resource (bi_resource b))
        (andThen (lift_result (validate_binding_subject (sc_profiles cfg) (bi_resource b) (bi_role b) (su_type (rq_subject q))))
        (andThen (require_subject cfg (rq_subject q))
        (andThen (if rq_expires_at q = None then return () else bind (clock cfg) (require_future (rq_expires_at q)))
        (andThen (require_administration cfg context who (bi_resource b))
        (andThen (relationship_store cfg)
        (bind (clock cfg) (\<lambda>now.
         bind (access_call (store_call (replace_binding (sc_digest cfg) q who now))) (\<lambda>changed.
         andThen (access_call (record_relationship cfg context who (Some (rq_expected_version q)) (fst changed)))
        (andThen (access_call (record_relationship cfg context who None (snd changed))) (return changed))))))))))))"

section \<open>Cursors\<close>

text \<open>The query a cursor of bindings or of audit events belongs to.\<close>

datatype query_identity =
    Binding_Query string "access_role option" "access_binding_state option" "(string \<times> string) option" "access_role list"
  | Audit_Query "access_action option" "bool option" string "(string \<times> string) option" "int option" "int option"

text \<open>
  A cursor the service signed, by its payload: the position, the request it belongs to, the
  policy revision and the id of the subject. Every other text fails its signature.
\<close>

datatype cursor =
    Resource_Cursor string access_action access_resource_type "string option" policy_revision string
  | Scoped_Cursor string string query_identity "policy_revision option" string
  | Unsigned_Cursor

definition cursor_position :: "string \<Rightarrow> error + string option" where
  "cursor_position after = (if after = [] then Inl (AccessInvalidRequest ''cursor'') else Inr (Some after))"

definition decode_cursor ::
  "cursor option \<Rightarrow> subject \<Rightarrow> access_action \<Rightarrow> access_resource_type \<Rightarrow> string option \<Rightarrow> policy_revision \<Rightarrow> error + string option" where
  "decode_cursor c who action rt family revision = (case c of
     None \<Rightarrow> Inr None
   | Some (Resource_Cursor after a t f v i) \<Rightarrow>
       if a \<noteq> action \<or> t \<noteq> rt \<or> f \<noteq> family \<or> i \<noteq> su_id who then Inl (AccessInvalidRequest ''cursor'')
       else if v \<noteq> revision then Inl (AccessConflict ''access_cursor_stale'') else cursor_position after
   | Some _ \<Rightarrow> Inl (AccessInvalidRequest ''cursor''))"

definition decode_scoped_cursor ::
  "cursor option \<Rightarrow> subject \<Rightarrow> string \<Rightarrow> query_identity \<Rightarrow> policy_revision option \<Rightarrow> error + string option" where
  "decode_scoped_cursor c who operation query revision = (case c of
     None \<Rightarrow> Inr None
   | Some (Scoped_Cursor after p q v i) \<Rightarrow>
       if p \<noteq> operation \<or> q \<noteq> query \<or> i \<noteq> su_id who then Inl (AccessInvalidRequest ''cursor'')
       else if v \<noteq> revision then Inl (AccessConflict ''access_cursor_stale'') else cursor_position after
   | Some _ \<Rightarrow> Inl (AccessInvalidRequest ''cursor''))"

text \<open>\<^verbatim>\<open>int(after)\<close> of a position the service wrote with \<^verbatim>\<open>str\<close>.\<close>

definition parse_position :: "string \<Rightarrow> error + int" where
  "parse_position t = (if t \<noteq> [] \<and> (\<forall>c \<in> set t. CHR ''0'' \<le> c \<and> c \<le> CHR ''9'')
     then Inr (fold (\<lambda>c n. 10 * n + (of_char c - 48)) t 0) else Inl (AccessInvalidRequest ''cursor''))"

section \<open>Listings\<close>

definition validate_resource_list_query ::
  "(string \<times> family_profile) list \<Rightarrow> access_action \<Rightarrow> access_resource_type \<Rightarrow> string option \<Rightarrow> error + unit" where
  "validate_resource_list_query ps action rt family =
     (let invalid = Inl (AccessInvalidRequest ''action-resource'') in
      if action = ACCESS_SELF \<or> (family \<noteq> None \<and> rt \<noteq> ARTIFACT) then invalid
      else case rt of
        SERVER \<Rightarrow> if action \<in> {SERVER_OBSERVE, SERVER_ADMIN} then Inr () else invalid
      | SCOPE \<Rightarrow> if action \<in> set scope_actions then Inr () else invalid
      | ARTIFACT \<Rightarrow> (case family of
            None \<Rightarrow> if \<exists>(_, p) \<in> set ps. fp_enabled p \<and> action \<in> set (profile_actions p) then Inr () else invalid
          | Some f \<Rightarrow> (case map_of ps f of
                None \<Rightarrow> Inl (AccessInvalidRequest ''artifact-family'')
              | Some p \<Rightarrow> if \<not> fp_enabled p then Inl (AccessInvalidRequest ''artifact-family-disabled'')
                  else if action \<in> set (profile_actions p) then Inr () else invalid)))"

record resource_page =
  rp_items :: "resource_ref list"
  rp_total :: nat
  rp_next_cursor :: "cursor option"

text \<open>The ordered page of the resources a filter allows.\<close>

definition resource_page ::
  "resource_ref list \<Rightarrow> string option \<Rightarrow> nat \<Rightarrow> (string \<Rightarrow> cursor) \<Rightarrow> resource_page" where
  "resource_page resources after limit sign =
     (let ordered = by_sorted_key resources;
          visible = (case after of None \<Rightarrow> ordered | Some k \<Rightarrow> filter (\<lambda>r. k < resource_key r) ordered);
          items = take limit visible in
      \<lparr>rp_items = items, rp_total = length ordered,
       rp_next_cursor = (if length items < length visible then Some (sign (resource_key (last items))) else None)\<rparr>)"

definition list_resources ::
  "service_config \<Rightarrow> audit_context \<Rightarrow> subject option \<Rightarrow> access_action \<Rightarrow> access_resource_type \<Rightarrow>
     string option \<Rightarrow> cursor option \<Rightarrow> int \<Rightarrow> (resource_filter \<Rightarrow> resource_ref list service) option \<Rightarrow> resource_page service" where
  "list_resources cfg context principal' action rt family cur limit query_resources =
     andThen (require (sc_safe_resource_filtering cfg) (AccessUnavailable ''safe_resource_filtering_unavailable''))
    (andThen (require (1 \<le> limit \<and> limit \<le> 500) (AccessInvalidRequest ''limit''))
    (andThen (lift_result (validate_resource_list_query (sc_family_profiles cfg) action rt family))
    (bind (required_principal principal') (\<lambda>who.
     bind (access_call (resolve_resource_filter cfg who (cx_subject_groups context) action rt family)) (\<lambda>f.
     andThen (lift_result (validate_resource_filter (sc_profiles cfg) (sc_deployment_id cfg) (sc_max_direct_resource_keys cfg) action rt family f))
    (andThen (require (rf_parent_constraints f = [] \<or> query_resources \<noteq> None) (AccessUnavailable ''safe_resource_filtering_unavailable''))
    (bind (case query_resources of None \<Rightarrow> return (rf_exact_resources f) | Some q \<Rightarrow> access_call (q f)) (\<lambda>resources.
     andThen (require (\<forall>r \<in> set resources. resource_allowed_by_filter f r) (AccessUnavailable ''safe_resource_filtering_unavailable''))
    (bind (lift_result (decode_cursor cur who action rt family (rf_policy_revision f))) (\<lambda>after.
     return (resource_page resources after (nat limit)
       (\<lambda>k. Resource_Cursor k action rt family (rf_policy_revision f) (su_id who)))))))))))))"
definition first_allowed_revision :: "access_decision list \<Rightarrow> policy_revision option" where
  "first_allowed_revision ds = map_option dc_policy_revision (List.find dc_allowed ds)"

text \<open>A delegator who may not administer the scope sees the handoff roles alone.\<close>

definition delegate_only :: "resource_ref \<Rightarrow> access_decision list \<Rightarrow> bool" where
  "delegate_only r ds \<longleftrightarrow> re_type r = SCOPE \<and> dc_allowed (hd ds) \<and> \<not> (\<exists>d \<in> set (tl ds). dc_allowed d)"

definition binding_query :: "binding_search \<Rightarrow> access_role list \<Rightarrow> query_identity" where
  "binding_query q visible = Binding_Query (resource_key (bs_management_resource q)) (bs_role q) (bs_state q)
     (map_option (\<lambda>p. (su_type p, su_id p)) (bs_subject q)) visible"

definition service_list_bindings ::
  "service_config \<Rightarrow> audit_context \<Rightarrow> subject option \<Rightarrow> binding_search \<Rightarrow> cursor option \<Rightarrow> int \<Rightarrow> (access_binding list \<times> cursor option) service" where
  "service_list_bindings cfg context principal' q cur limit =
     andThen (require (1 \<le> limit \<and> limit \<le> 500) (AccessInvalidRequest ''limit''))
    (bind (required_principal principal') (\<lambda>who.
     bind (lift_result (binding_list_checks cfg (bs_management_resource q))) (\<lambda>checks.
     bind (require_any cfg context (Some who) checks) (\<lambda>ds.
     let revision = first_allowed_revision ds;
         visible = (if delegate_only (bs_management_resource q) ds then [HANDOFF_VIEWER, HANDOFF_RECEIVER] else bs_visible_roles q);
         query = binding_query q visible in
     bind (lift_result (decode_scoped_cursor cur who ''access.bindings.list'' query revision)) (\<lambda>after.
     bind (related cfg (store_list_bindings (q\<lparr>bs_cursor := after, bs_limit := nat limit + 1, bs_visible_roles := visible\<rparr>))) (\<lambda>rows.
     let items = take (nat limit) rows in
     return (items, if length items < length rows
       then Some (Scoped_Cursor (bi_binding_id (last items)) ''access.bindings.list'' query revision (su_id who)) else None)))))))"

definition audit_query :: "audit_search \<Rightarrow> query_identity" where
  "audit_query q = Audit_Query (as_action q) (as_allowed q) (resource_key (as_resource q))
     (map_option (\<lambda>p. (su_type p, su_id p)) (as_subject q)) (as_occurred_after q) (as_occurred_before q)"

definition service_list_audit ::
  "service_config \<Rightarrow> audit_context \<Rightarrow> subject option \<Rightarrow> audit_search \<Rightarrow> cursor option \<Rightarrow> int \<Rightarrow> (audit_event list \<times> cursor option) service" where
  "service_list_audit cfg context principal' q cur limit =
     andThen (require (1 \<le> limit \<and> limit \<le> 500) (AccessInvalidRequest ''limit''))
    (andThen (require (case (as_occurred_after q, as_occurred_before q) of (Some a, Some b) \<Rightarrow> a < b | _ \<Rightarrow> True)
        (AccessInvalidRequest ''time-range''))
    (bind (required_principal principal') (\<lambda>who.
     bind (case re_type (as_resource q) of
         SERVER \<Rightarrow> return [(SERVER_ADMIN, as_resource q)]
       | SCOPE \<Rightarrow> return [(SCOPE_ADMIN, as_resource q), (SERVER_ADMIN, server_resource (sc_deployment_id cfg))]
       | ARTIFACT \<Rightarrow> raise (AccessInvalidRequest ''action-resource'')) (\<lambda>checks.
     bind (require_any cfg context (Some who) checks) (\<lambda>ds.
     let revision = first_allowed_revision ds in
     bind (lift_result (decode_scoped_cursor cur who ''access.audit.list'' (audit_query q) revision)) (\<lambda>decoded.
     bind (case decoded of None \<Rightarrow> return None
         | Some t \<Rightarrow> bind (lift_result (parse_position t)) (\<lambda>n. return (Some n))) (\<lambda>after.
     bind (access_call (store_call (store_list_audit (q\<lparr>as_cursor := after, as_limit := nat limit + 1\<rparr>)))) (\<lambda>rows.
     let items = take (nat limit) rows in
     return (items, if length items < length rows
       then Some (Scoped_Cursor (case ev_cursor (last items) of None \<Rightarrow> ''None'' | Some n \<Rightarrow> integer_text n)
         ''access.audit.list'' (audit_query q) revision (su_id who)) else None)))))))))"

section \<open>Owners and receipts\<close>

definition owner_event :: "service_config \<Rightarrow> audit_context \<Rightarrow> subject \<Rightarrow> owner_relation \<Rightarrow> audit_event service" where
  "owner_event cfg context who w = new_event cfg context who (\<lambda>e. e\<lparr>ev_action := ARTIFACT_WRITE, ev_resource := ow_resource w,
     ev_reason_code := ''artifact-owner-established'', ev_policy_revision := Some (ow_policy_revision w),
     ev_target := Some (ow_owner w), ev_role := Some ARTIFACT_OWNER\<rparr>)"

definition pending_relation :: "service_config \<Rightarrow> subject \<Rightarrow> resource_ref \<times> string \<Rightarrow> owner_relation service" where
  "pending_relation cfg owner = (\<lambda>(r, key).
     andThen (require (re_type r = ARTIFACT) (AccessInvalidRequest ''artifact-identity''))
    (andThen (lift_result (validate_idempotency_key key ()))
    (bind (clock cfg) (\<lambda>now. return \<lparr>ow_resource = r, ow_owner = owner, ow_established_at = now,
       ow_policy_revision = Pending_Revision, ow_idempotency_key = key\<rparr>))))"

text \<open>
  The relations and their audit events in one transaction, as the code does when the store
  is also the audit log. The method calls itself inside the transaction and builds the
  relations again there.
\<close>

definition establish_owners ::
  "service_config \<Rightarrow> audit_context \<Rightarrow> subject \<Rightarrow> (resource_ref \<times> string) list \<Rightarrow> owner_relation list service" where
  "establish_owners cfg context owner resources =
     (if resources = [] then return []
      else andThen (bind (collect (pending_relation cfg owner) resources) (\<lambda>_. relationship_store cfg))
       (in_transaction
         (bind (collect (pending_relation cfg owner) resources) (\<lambda>relations.
          andThen (relationship_store cfg)
         (bind (access_call (on_store (establish_artifact_owners (sc_digest cfg) relations))) (\<lambda>established.
          bind (collect (owner_event cfg context owner) established) (\<lambda>events.
          andThen (access_call (on_store (append_audits events))) (return established))))))))"

definition attest_owners :: "service_config \<Rightarrow> candidate_owner list \<Rightarrow> candidate_owner list service" where
  "attest_owners cfg attestations =
     (if attestations = [] then return []
      else andThen (lift_result (each_result (\<lambda>a. validate_idempotency_key (co_idempotency_key a) ()) attestations))
        (related cfg (attest_candidate_owners (sc_digest cfg) attestations)))"

definition artifact_owner :: "service_config \<Rightarrow> resource_ref \<Rightarrow> owner_relation option service" where
  "artifact_owner cfg r = andThen (require (re_type r = ARTIFACT) (AccessInvalidRequest ''artifact-identity''))
     (related cfg (get_artifact_owner (sc_digest cfg) r))"

definition candidate_owner_at :: "service_config \<Rightarrow> string \<Rightarrow> string \<Rightarrow> candidate_owner option service" where
  "candidate_owner_at cfg i c = related cfg (get_candidate_owner (sc_digest cfg) i c)"

definition candidate_owners_at :: "service_config \<Rightarrow> string \<Rightarrow> string list \<Rightarrow> (string \<Rightarrow> candidate_owner option) service" where
  "candidate_owners_at cfg i cs = related cfg (get_candidate_owners (sc_digest cfg) i cs)"

text \<open>The receipt calls open their own connections, one for each statement.\<close>

definition service_record_receipt :: "service_config \<Rightarrow> receipt_identity \<Rightarrow> receipt_identity service" where
  "service_record_receipt cfg i = andThen (relationship_store cfg)
     (bind (clock cfg) (\<lambda>now. access_call (on_store (record_receipt_identity (sc_digest cfg) now i))))"

definition service_commit_receipt :: "service_config \<Rightarrow> receipt_identity \<Rightarrow> receipt_identity service" where
  "service_commit_receipt cfg i = andThen (relationship_store cfg)
     (bind (clock cfg) (\<lambda>now. access_call (on_store (commit_receipt_identity (sc_digest cfg) now i))))"

section \<open>Deferred audit\<close>

text \<open>
  \<^verbatim>\<open>defer_decision_audit\<close> around a block: the decisions made in it are collected, and
  written when it ends, with or without an exception. A nested block joins the outer one.
\<close>

definition with_deferred_audit :: "'a service \<Rightarrow> 'a service" where
  "with_deferred_audit m = (\<lambda>s.
     if sv_deferred s \<noteq> None then m s
     else (case m (s\<lparr>sv_deferred := Some []\<rparr>) of (r, t) \<Rightarrow>
       (case access_call (store_call (append_audits (case sv_deferred t of None \<Rightarrow> [] | Some es \<Rightarrow> es))) (t\<lparr>sv_deferred := None\<rparr>) of
          (Inl e, u) \<Rightarrow> (Inl e, u)
        | (Inr _, u) \<Rightarrow> (r, u))))"

section \<open>The static preset\<close>

definition static_scope_roles :: "access_role list" where
  "static_scope_roles = [SCOPE_VIEWER, SCOPE_CONTRIBUTOR, SCOPE_REVIEWER, SCOPE_DELEGATOR]"

definition static_scope_receipt_keys :: "service_config \<Rightarrow> string \<Rightarrow> string \<Rightarrow> access_role \<Rightarrow> string \<times> string" where
  "static_scope_receipt_keys cfg who i role =
     (let legacy = ''static-preset:'' @ sc_deployment_id cfg @ '':'' @ who @ '':'' @ i @ '':'' @ role_value role in
      (if length legacy \<le> 255 then legacy else ''static-preset:sha256:'' @ sc_digest cfg legacy, legacy))"

definition uses_static_preset :: "service_config \<Rightarrow> subject option \<Rightarrow> bool" where
  "uses_static_preset cfg who = (case (sc_static_scope_principal cfg, who) of
     (Some p, Some q) \<Rightarrow> same_subject q p | _ \<Rightarrow> False)"

definition preset_actions :: "resource_ref \<Rightarrow> access_role \<Rightarrow> access_action list" where
  "preset_actions r role = (if re_type r = SCOPE then role_actions role else role_child_actions role)"

definition can_bootstrap_static_scope :: "service_config \<Rightarrow> subject option \<Rightarrow> access_action \<Rightarrow> resource_ref \<Rightarrow> bool" where
  "can_bootstrap_static_scope cfg who action r \<longleftrightarrow> uses_static_preset cfg who \<and> re_scope_id r \<noteq> None
     \<and> (\<exists>role \<in> set static_scope_roles. action \<in> set (preset_actions r role))"

definition preset_initialized :: "service_config \<Rightarrow> subject \<Rightarrow> string \<Rightarrow> access_role \<Rightarrow> bool service" where
  "preset_initialized cfg who i role = (case static_scope_receipt_keys cfg (su_id who) i role of (key, legacy) \<Rightarrow>
     bind (access_call (store_call (static_scope_initialized (sc_digest cfg) who [key]))) (\<lambda>found.
     if found then return True
     else if key = legacy then return False
     else access_call (store_call (static_scope_initialized (sc_digest cfg) who [legacy]))))"

fun preset_would_grant :: "service_config \<Rightarrow> subject \<Rightarrow> string \<Rightarrow> access_role list \<Rightarrow> bool service" where
  "preset_would_grant cfg who i [] = return False"
| "preset_would_grant cfg who i (role # roles) = bind (preset_initialized cfg who i role) (\<lambda>found.
     if found then preset_would_grant cfg who i roles else return True)"

definition static_scope_bootstrap_would_grant :: "service_config \<Rightarrow> subject \<Rightarrow> access_action \<Rightarrow> resource_ref \<Rightarrow> bool service" where
  "static_scope_bootstrap_would_grant cfg who action r = (case re_scope_id r of
     None \<Rightarrow> return False
   | Some i \<Rightarrow>
       if \<not> can_bootstrap_static_scope cfg (Some who) action r \<or> \<not> sc_relationships cfg then return False
       else preset_would_grant cfg who i (filter (\<lambda>role. action \<in> set (preset_actions r role)) static_scope_roles))"

definition preset_binding :: "string \<Rightarrow> string \<Rightarrow> access_role \<Rightarrow> subject \<Rightarrow> string \<Rightarrow> int \<Rightarrow> string \<Rightarrow> access_binding" where
  "preset_binding binding_id i role who reason now key = \<lparr>bi_binding_id = binding_id, bi_subject = who,
     bi_resource = scope_resource i, bi_role = role, bi_granted_by = who, bi_reason = Some reason, bi_created_at = now,
     bi_expires_at = None, bi_state = BINDING_ACTIVE, bi_version = 1, bi_policy_revision = Pending_Revision,
     bi_idempotency_key = key, bi_revoked_at = None, bi_revoked_by = None\<rparr>"

definition bootstrap_role :: "service_config \<Rightarrow> audit_context \<Rightarrow> subject \<Rightarrow> string \<Rightarrow> int \<Rightarrow> access_role \<Rightarrow> unit service" where
  "bootstrap_role cfg context who i now role = (case static_scope_receipt_keys cfg (su_id who) i role of (key, legacy) \<Rightarrow>
     bind (if key = legacy then return False
           else access_call (store_call (static_scope_initialized (sc_digest cfg) who [legacy]))) (\<lambda>present.
     if present then return ()
     else bind (uuid4 cfg) (\<lambda>binding_id.
       bind (related cfg (create_binding (sc_digest cfg) (preset_binding binding_id i role who ''static bearer preset'' now key))) (\<lambda>created.
       if bi_binding_id created = binding_id
       then access_call (record_relationship cfg context who None created) else return ()))))"

definition bootstrap_static_scope :: "service_config \<Rightarrow> audit_context \<Rightarrow> subject option \<Rightarrow> string \<Rightarrow> unit service" where
  "bootstrap_static_scope cfg context principal' i =
     bind (required_principal principal') (\<lambda>who.
     if \<not> uses_static_preset cfg (Some who) then return ()
     else bind (lift_result (make_resource (scope_resource i))) (\<lambda>_.
       andThen (relationship_store cfg)
      (bind (store_call (static_scope_initialized (sc_digest cfg) who
          (map (\<lambda>role. fst (static_scope_receipt_keys cfg (su_id who) i role)) static_scope_roles))) (\<lambda>initialized.
       if initialized then return ()
       else bind (clock cfg) (\<lambda>now. for_each static_scope_roles (bootstrap_role cfg context who i now))))))"

text \<open>The contributor of a scope its creator opened, granted in the caller's transaction.\<close>

definition bootstrap_subject_scope :: "service_config \<Rightarrow> audit_context \<Rightarrow> subject option \<Rightarrow> string \<Rightarrow> unit service" where
  "bootstrap_subject_scope cfg context principal' i =
     andThen (require (sc_relationships cfg) (AccessUnavailable ''transactional_relationships_unavailable''))
    (bind (required_principal principal') (\<lambda>who.
     bind (uuid4 cfg) (\<lambda>binding_id.
     bind (lift_result (make_resource (scope_resource i))) (\<lambda>_.
     bind (clock cfg) (\<lambda>now.
     bind (on_store (create_binding (sc_digest cfg) (preset_binding binding_id i SCOPE_CONTRIBUTOR who ''Subject scope bootstrap'' now
         (''subject-scope:'' @ i)))) (\<lambda>created.
     record_relationship cfg context who None created))))))"

section \<open>Search and point decisions\<close>

lemma on_store_run [simp, exec_simps]: "on_store m s = (fst (m (sv_db s)), s\<lparr>sv_db := snd (m (sv_db s))\<rparr>)"
  by (simp add: on_store_def split: prod.split)

lemma clock_run [simp, exec_simps]: "clock cfg s = (Inr (sc_clock cfg (sv_clock_reads s)), s\<lparr>sv_clock_reads := sv_clock_reads s + 1\<rparr>)"
  by (simp add: clock_def)

lemma uuid4_run [simp, exec_simps]: "uuid4 cfg s = (Inr (sc_uuid cfg (sv_uuids s)), s\<lparr>sv_uuids := sv_uuids s + 1\<rparr>)"
  by (simp add: uuid4_def)

text \<open>A binding that grants an action on a resource is among those a point decision reads.\<close>

lemma granting_binding_relevant:
  assumes "binding_row_ok digest T row" and "resource_ok r" and "r \<in> set rs" and "binding_grants (br_binding row) a r"
  shows "relevant_binding digest (Some rs) row"
proof -
  let ?b = "bi_resource (br_binding row)"
  from assms(1) have hash: "br_resource_key_hash row = digest (resource_key ?b)" and ok: "resource_ok ?b"
    by (auto simp: binding_row_ok_def)
  have "re_type ?b = SERVER \<or> ?b = r \<or> parent_scope r = Some ?b"
    using assms(4) ok assms(2)
    by (elim resource_okE) (auto simp: binding_grants_def binding_covers_def parent_binding_grants_def parent_scope_def
        server_resource_def scope_resource_def artifact_resource_def split: if_splits)
  then show ?thesis
  proof (elim disjE)
    assume "re_type ?b = SERVER"
    then show ?thesis by (simp add: relevant_binding_def)
  next
    assume "?b = r"
    then show ?thesis using assms(3) hash by (cases "re_type r") (auto simp: relevant_binding_def)
  next
    assume parent: "parent_scope r = Some ?b"
    then obtain i where "scope_resource i = ?b" by (auto simp: parent_scope_def)
    from this [symmetric]
    have "re_type ?b = SCOPE" by (simp add: scope_resource_def)
    with parent assms(3) hash show ?thesis by (force simp: relevant_binding_def set_map_filter_some)
  qed
qed

text \<open>The owner a snapshot gives for a resource is the one the store holds.\<close>

lemma fold_owner_keys:
  "fold (\<lambda>w m. m(resource_key (ow_resource w) \<mapsto> w)) ws m k =
     (case List.find (\<lambda>w. resource_key (ow_resource w) = k) (rev ws) of None \<Rightarrow> m k | Some w \<Rightarrow> Some w)"
  by (induction ws arbitrary: m) (auto simp: find_append split: option.split)

lemma artifact_owner_of_Some [simp]: "artifact_owner_of x = Some w \<longleftrightarrow> (\<exists>h. x = Artifact_Owner h w)"
  by (cases x) (auto simp: artifact_owner_of_def)

lemma owner_row_facts:
  assumes "access_ok digest T s" and "Artifact_Owner h w \<in> set (ad_owners s)"
  shows "h = digest (resource_key (ow_resource w)) \<and> resource_ok (ow_resource w) \<and> re_type (ow_resource w) = ARTIFACT"
proof -
  from assms have "owner_row_ok digest (Artifact_Owner h w)" unfolding access_ok_def by blast
  then show ?thesis by (simp add: owner_row_ok_def)
qed

lemma owner_row_unique:
  assumes "access_ok digest T s" and "Artifact_Owner h w \<in> set (ad_owners s)" and "Artifact_Owner h' w' \<in> set (ad_owners s)"
    and "ow_resource w = ow_resource w'"
  shows "w = w'"
proof -
  have same: "h' = h" using owner_row_facts [OF assms(1,2)] owner_row_facts [OF assms(1,3)] assms(4) by simp
  have "List.find (has_owner_key h) (ad_owners s) = Some (Artifact_Owner h w)"
    "List.find (has_owner_key h) (ad_owners s) = Some (Artifact_Owner h' w')"
    using assms same by (intro find_key_row [where T = ACCESS_OWNERS_TABLE];
      auto simp: access_ok_def table_ok_def has_owner_key_def ACCESS_OWNERS_TABLE_def)+
  then show ?thesis by simp
qed

lemma snapshot_owner:
  assumes ok: "access_ok digest T s" and r: "resource_ok r" "re_type r = ARTIFACT" "r \<in> set artifacts"
  shows "ds_artifact_owners (snapshot_of digest ps now artifacts owner resources (the (policy_content s))) (resource_key r) = Some w
    \<longleftrightarrow> Artifact_Owner (digest (resource_key r)) w \<in> set (ad_owners s) \<and> ow_resource w = r"
proof -
  let ?ws = "List.map_filter artifact_owner_of (filter (\<lambda>x. owner_hash x \<in> set (map (\<lambda>q. digest (resource_key q)) artifacts))
     (filter is_artifact_owner (ad_owners s)))"
  have ws: "w \<in> set ?ws \<longleftrightarrow> (\<exists>h. Artifact_Owner h w \<in> set (ad_owners s) \<and> h \<in> set (map (\<lambda>q. digest (resource_key q)) artifacts))" for w
    by (force simp: set_map_filter_some)
  have hash: "h = digest (resource_key (ow_resource w)) \<and> resource_ok (ow_resource w)" if "Artifact_Owner h w \<in> set (ad_owners s)" for h w
    using owner_row_facts [OF ok that] by simp
  have eq: "ds_artifact_owners (snapshot_of digest ps now artifacts owner resources (the (policy_content s))) (resource_key r)
      = List.find (\<lambda>w. resource_key (ow_resource w) = resource_key r) (rev ?ws)"
    by (simp add: snapshot_of_def policy_content_def fold_owner_keys split: option.split)
  show ?thesis unfolding eq
  proof
    assume "List.find (\<lambda>w. resource_key (ow_resource w) = resource_key r) (rev ?ws) = Some w"
    then have "w \<in> set ?ws" "resource_key (ow_resource w) = resource_key r" by (auto dest: find_SomeD)
    with ws hash r(1) show "Artifact_Owner (digest (resource_key r)) w \<in> set (ad_owners s) \<and> ow_resource w = r"
      by (metis resource_key_inject)
  next
    assume w: "Artifact_Owner (digest (resource_key r)) w \<in> set (ad_owners s) \<and> ow_resource w = r"
    then have "w \<in> set ?ws" using r(3) ws by auto
    then obtain w' where w': "List.find (\<lambda>w. resource_key (ow_resource w) = resource_key r) (rev ?ws) = Some w'"
      using w by (cases "List.find (\<lambda>w. resource_key (ow_resource w) = resource_key r) (rev ?ws)") (auto simp: find_None_iff)
    then have "w' \<in> set ?ws" "resource_key (ow_resource w') = resource_key r" by (auto dest: find_SomeD)
    then obtain h where "Artifact_Owner h w' \<in> set (ad_owners s)" "ow_resource w' = r"
      using ws hash r(1) by (metis resource_key_inject)
    with owner_row_unique [OF ok, of h w' "digest (resource_key r)" w] w w'
    show "List.find (\<lambda>w. resource_key (ow_resource w) = resource_key r) (rev ?ws) = Some w" by simp
  qed
qed

lemma snapshot_owned:
  "r \<in> set (ds_owned_resources (snapshot_of digest ps now artifacts (Some who) resources (the (policy_content s))))
    \<longleftrightarrow> (\<exists>h w. Artifact_Owner h w \<in> set (ad_owners s) \<and> same_subject (ow_owner w) who \<and> ow_resource w = r)"
  by (force simp: snapshot_of_def policy_content_def set_map_filter_some owned_by_def split: option.splits)

lemma snapshot_bindings:
  "b \<in> set (ds_bindings (snapshot_of digest ps now artifacts owner resources (the (policy_content s)))) \<longleftrightarrow>
     (\<exists>row \<in> set (ad_bindings s). b = br_binding row \<and> (\<exists>p \<in> set ps. is_subject p row) \<and> active_at now b
        \<and> relevant_binding digest resources row)"
  by (auto simp: snapshot_of_def policy_content_def active_at_def)

lemma point_state_run:
  "point_state cfg who groups rs at_time s = (Inr (snapshot_of (sc_digest cfg) (who # groups) at_time
     (filter (\<lambda>r. re_type r = ARTIFACT) rs) None (Some rs) (the (policy_content (sv_db s)))), s)"
  by (simp add: point_state_def decision_snapshot_run)

text \<open>What a point decision allows, in terms of the rows of the store.\<close>

definition authorized :: "service_config \<Rightarrow> subject \<Rightarrow> subject list \<Rightarrow> int \<Rightarrow> access_action \<Rightarrow> resource_ref \<Rightarrow> access_db \<Rightarrow> bool" where
  "authorized cfg who groups now a r d \<longleftrightarrow>
     (\<exists>row \<in> set (ad_bindings d). (\<exists>p \<in> set (who # groups). same_subject (bi_subject (br_binding row)) p)
        \<and> active_at now (br_binding row) \<and> binding_grants (br_binding row) a r)
     \<or> (re_type r = ARTIFACT \<and> a \<in> set (role_actions ARTIFACT_OWNER)
        \<and> (\<exists>h w. Artifact_Owner h w \<in> set (ad_owners d) \<and> ow_resource w = r \<and> same_subject (ow_owner w) who))"

lemma point_decision_authorized:
  assumes ok: "access_ok (sc_digest cfg) T d" and r: "resource_ok r" "r \<in> set rs" and a: "a \<noteq> ACCESS_SELF"
  shows "dc_allowed (decide (snapshot_of (sc_digest cfg) (who # groups) now (filter (\<lambda>r. re_type r = ARTIFACT) rs) None (Some rs)
     (the (policy_content d))) who groups now a r) \<longleftrightarrow> authorized cfg who groups now a r d"
proof -
  let ?st = "snapshot_of (sc_digest cfg) (who # groups) now (filter (\<lambda>r. re_type r = ARTIFACT) rs) None (Some rs) (the (policy_content d))"
  have row: "binding_row_ok (sc_digest cfg) T row" if "row \<in> set (ad_bindings d)" for row
    using ok that by (auto simp: access_ok_def)
  have "(\<exists>b \<in> set (ds_bindings ?st). active_at now b \<and> binding_grants b a r) \<longleftrightarrow>
      (\<exists>row \<in> set (ad_bindings d). (\<exists>p \<in> set (who # groups). same_subject (bi_subject (br_binding row)) p)
        \<and> active_at now (br_binding row) \<and> binding_grants (br_binding row) a r)"
    unfolding Bex_def snapshot_bindings is_subject_def
    using granting_binding_relevant [OF row r] by blast
  moreover have "(\<exists>w. ds_artifact_owners ?st (resource_key r) = Some w \<and> same_subject (ow_owner w) who) \<longleftrightarrow>
      (\<exists>h w. Artifact_Owner h w \<in> set (ad_owners d) \<and> ow_resource w = r \<and> same_subject (ow_owner w) who)"
    if "re_type r = ARTIFACT"
    using snapshot_owner [OF ok r(1) that, of "filter (\<lambda>r. re_type r = ARTIFACT) rs"] r(2) that owner_row_facts [OF ok] by auto
  ultimately show ?thesis
    unfolding decide_allowed [OF a] authorized_def by blast
qed

lemma search_filter_authorized:
  assumes ok: "access_ok (sc_digest cfg) T d" and r: "resource_ok r" "re_type r = rt" "family = None \<or> re_family r = family"
    and st: "st = snapshot_of (sc_digest cfg) (who # groups) now [] (if rt = ARTIFACT \<and> a \<in> set (role_actions ARTIFACT_OWNER) then Some who else None)
      None (the (policy_content d))"
  shows "resource_allowed_by_filter (derive_authorized_resource_filter (ds_bindings st) (ds_owned_resources st) a rt family v) r
      \<longleftrightarrow> authorized cfg who groups now a r d"
proof -
  have row: "resource_ok (bi_resource (br_binding row))" if "row \<in> set (ad_bindings d)" for row
    using ok that by (auto simp: access_ok_def binding_row_ok_def)
  have bindings: "(\<exists>b \<in> set (ds_bindings st). binding_grants b a r) \<longleftrightarrow>
      (\<exists>row \<in> set (ad_bindings d). (\<exists>p \<in> set (who # groups). same_subject (bi_subject (br_binding row)) p)
        \<and> active_at now (br_binding row) \<and> binding_grants (br_binding row) a r)"
    unfolding Bex_def st snapshot_bindings is_subject_def relevant_binding_def by (simp del: list.set) blast
  have owned: "r \<in> set (ds_owned_resources st) \<longleftrightarrow>
      (\<exists>h w. Artifact_Owner h w \<in> set (ad_owners d) \<and> ow_resource w = r \<and> same_subject (ow_owner w) who)"
    if "rt = ARTIFACT \<and> a \<in> set (role_actions ARTIFACT_OWNER)"
    using that st snapshot_owned by (simp del: role_actions.simps) blast
  have b_ok: "\<forall>b \<in> set (ds_bindings st). resource_ok (bi_resource b)"
    using row unfolding st by (auto simp: snapshot_bindings)
  have o_ok: "\<forall>x \<in> set (ds_owned_resources st). resource_ok x"
    using owner_row_facts [OF ok] unfolding st
    by (cases "rt = ARTIFACT \<and> a \<in> set (role_actions ARTIFACT_OWNER)")
       (auto simp: snapshot_of_def policy_content_def map_filter_simps set_map_filter_some simp del: role_actions.simps)
  show ?thesis
    unfolding filter_allows_iff [OF b_ok o_ok r] bindings authorized_def using owned r(2) by blast
qed

text \<open>
  C15: A resource search and a point decision agree: the filter resolved for a search
  allows a resource exactly if a check of the same action on this resource is allowed,
  although the check reads only the bindings on the resource and its parents.
\<close>

theorem search_agrees_with_decisions:
  assumes "(store_step (sc_digest cfg) T)\<^sup>*\<^sup>* empty_access_db (sv_db s)"
    and "resource_ok r" and "re_type r = rt" and "family = None \<or> re_family r = family" and "a \<noteq> ACCESS_SELF"
  shows "\<exists>f d. fst (resolve_resource_filter cfg who groups a rt family s) = Inr f
     \<and> fst (provider_check cfg \<lparr>ar_subject = who, ar_action = a, ar_resource = r, ar_groups = groups\<rparr> s) = Inr d
     \<and> (resource_allowed_by_filter f r \<longleftrightarrow> dc_allowed d)"
proof -
  have ok: "access_ok (sc_digest cfg) T (sv_db s)" using store_run_ok [OF assms(1)] by simp
  show ?thesis
    using search_filter_authorized [OF ok assms(2-4) refl] point_decision_authorized [OF ok assms(2) _ assms(5), of "[r]"]
    by (auto simp: resolve_resource_filter_def provider_check_def provider_check_batch_def Let_def bind_run point_state_run
        decision_snapshot_run same_subject_def simp del: role_actions.simps)
qed

end
