(* ===== verification/Access_Control.thy ===== *)
theory Access_Control
  imports Access_Service
begin

text \<open>
  What the access service guarantees: the builtin provider decides what the rows of the
  store say, roles that manage do not read content, and relationships change only for a
  principal that administers the resource, as \<open>administers\<close> spells it out.
\<close>

section \<open>Changes need an allowed administrative decision\<close>

text \<open>Decisions and their audit leave the state of policy alone.\<close>

lemma on_store_preserves:
  "preserves P m \<Longrightarrow> preserves (\<lambda>s. P (sv_db s)) (on_store m)"
  by (simp add: preserves_def)

lemma keeps_service_policy [preserves_rules]:
  "preserves (\<lambda>s. policy_content (sv_db s) = c) (clock cfg)" "preserves (\<lambda>s. policy_content (sv_db s) = c) (uuid4 cfg)"
  "preserves (\<lambda>s. policy_content (sv_db s) = c) (point_state cfg who groups rs at_time)"
  by (simp_all add: preserves_def point_state_run)

lemma store_call_keeps_policy [preserves_rules]:
  "preserves (\<lambda>d. policy_content d = c) m \<Longrightarrow> preserves (\<lambda>s. policy_content (sv_db s) = c) (on_store m)"
  by (rule on_store_preserves)

lemma append_keeps_policy [preserves_rules]:
  "preserves (\<lambda>s. policy_content (sv_db s) = c) (append_decision_audit e)"
  unfolding append_decision_audit_def
  by (intro preserves_bind preserves_gets preserves_case_option preserves_andThen preserves_rules) (simp add: preserves_def)

lemma provider_keeps_policy [preserves_rules]:
  "preserves (\<lambda>s. policy_content (sv_db s) = c) (provider_check_batch cfg requests)"
  unfolding provider_check_batch_def by (cases requests) (simp_all only: list.case, intro preserves_rules, intro preserves_rules)

lemma audit_keeps_policy [preserves_rules]:
  "preserves (\<lambda>s. policy_content (sv_db s) = c) (audited cfg context who a r d)"
  unfolding audited_def record_decision_def new_event_def access_call_def by (intro preserves_rules)

lemma keeps_check_policy [preserves_rules]:
  "preserves (\<lambda>s. policy_content (sv_db s) = c) (check_batch cfg context p checks)"
  "preserves (\<lambda>s. policy_content (sv_db s) = c) (check cfg context p a r)"
  unfolding check_batch_def check_def provider_check_def access_call_def required_principal_def validate_provider_decision_def Let_def
  by (intro preserves_rules)+

lemma administration_keeps_policy [preserves_rules]:
  "preserves (\<lambda>s. policy_content (sv_db s) = c) (require_administration cfg context who r)"
  "preserves (\<lambda>s. policy_content (sv_db s) = c) (binding_not_found cfg context who)"
  unfolding require_administration_def require_any_def binding_not_found_def by (intro preserves_rules)+

lemma record_relationship_keeps_policy [preserves_rules]:
  "preserves (\<lambda>s. policy_content (sv_db s) = c) (record_relationship cfg context who v b)"
  unfolding record_relationship_def by (intro preserves_rules)

text \<open>No operation turns the clock back.\<close>

definition clock_forward :: "'a service \<Rightarrow> bool" where
  "clock_forward m \<longleftrightarrow> (\<forall>c. preserves (\<lambda>s. c \<le> sv_clock_reads s) m)"

lemma clock_forwardD: "clock_forward m \<Longrightarrow> m s = (x, t) \<Longrightarrow> sv_clock_reads s \<le> sv_clock_reads t"
  by (auto simp: clock_forward_def dest: preservesE)

lemma forward_rules [preserves_rules]:
  "preserves (\<lambda>s. c \<le> sv_clock_reads s) (clock cfg)" "preserves (\<lambda>s. c \<le> sv_clock_reads s) (uuid4 cfg)"
  "preserves (\<lambda>s. c \<le> sv_clock_reads s) (on_store m)"
  by (simp_all add: preserves_def)

lemma append_forward [preserves_rules]:
  "preserves (\<lambda>s. c \<le> sv_clock_reads s) (append_decision_audit e)"
  unfolding append_decision_audit_def
  by (intro preserves_bind preserves_gets preserves_case_option preserves_andThen preserves_rules) (simp add: preserves_def)

lemma audit_forward [preserves_rules]:
  "preserves (\<lambda>s. c \<le> sv_clock_reads s) (audited cfg context who a r d)"
  "preserves (\<lambda>s. c \<le> sv_clock_reads s) (record_relationship cfg context who v b)"
  unfolding audited_def record_decision_def new_event_def access_call_def record_relationship_def by (intro preserves_rules)+

lemma related_forward [preserves_rules]: "preserves (\<lambda>s. c \<le> sv_clock_reads s) (related cfg m)"
  "preserves (\<lambda>s. c \<le> sv_clock_reads s) (relationship_store cfg)"
  unfolding related_def relationship_store_def access_call_def by (intro preserves_rules)+

lemma access_call_Inr: "access_call m s = (Inr x, t) \<longleftrightarrow> m s = (Inr x, t)"
  by (simp add: access_call_def catch_raise_Inr)

lemma provider_check_batch_run:
  assumes "reqs \<noteq> []" and "\<forall>q \<in> set reqs. ar_subject q = who \<and> ar_groups q = groups"
  shows "fst (provider_check_batch cfg reqs s) = Inr (map (\<lambda>q. decide (snapshot_of (sc_digest cfg) (who # groups) (sc_clock cfg (sv_clock_reads s))
      (filter (\<lambda>r. re_type r = ARTIFACT) (map ar_resource reqs)) None (Some (map ar_resource reqs)) (the (policy_content (sv_db s))))
      who groups (sc_clock cfg (sv_clock_reads s)) (ar_action q) (ar_resource q)) reqs)"
proof -
  obtain q qs where reqs: "reqs = q # qs" using assms(1) by (cases reqs) auto
  then have "ar_subject q = who" "ar_groups q = groups" and "\<not> (\<exists>r \<in> set reqs. \<not> same_subject (ar_subject r) who)"
    using assms(2) by (auto simp: same_subject_def)
  moreover have "provider_check_batch cfg reqs = (if \<exists>r \<in> set reqs. \<not> same_subject (ar_subject r) (ar_subject q)
      then raise (AccessInvalidRequest ''batch-subject'')
      else bind (clock cfg) (\<lambda>now.
         bind (point_state cfg (ar_subject q) (ar_groups q) (map ar_resource reqs) now) (\<lambda>st.
         return (map (\<lambda>r. decide st (ar_subject q) (ar_groups q) now (ar_action r) (ar_resource r)) reqs))))"
    unfolding provider_check_batch_def reqs by (simp only: list.case)
  ultimately show ?thesis by (simp only: if_False bind_run point_state_run clock_run return_run fst_conv) simp
qed

lemma provider_reads_clock:
  "provider_check_batch cfg reqs s = (Inr ds, t) \<Longrightarrow> reqs \<noteq> [] \<Longrightarrow> sv_clock_reads t = sv_clock_reads s + 1"
  by (cases reqs) (auto simp: provider_check_batch_def exec_Inr_iffs point_state_run split: if_splits)

lemma validated_decisions: "for_each ds (validate_provider_decision cfg) s = (Inr x, t) \<Longrightarrow> t = s"
  by (induction ds arbitrary: s) (auto simp: validate_provider_decision_def exec_Inr_iffs Let_def split: if_splits)

lemma check_batch_Inr:
  assumes "check_batch cfg context (Some who) checks s = (Inr ds, t)" and "checks \<noteq> []"
  shows "ds = map (\<lambda>c. decide (snapshot_of (sc_digest cfg) (who # cx_subject_groups context) (sc_clock cfg (sv_clock_reads s))
      (filter (\<lambda>r. re_type r = ARTIFACT) (map snd checks)) None (Some (map snd checks)) (the (policy_content (sv_db s))))
      who (cx_subject_groups context) (sc_clock cfg (sv_clock_reads s)) (fst c) (snd c)) checks"
    and "sv_clock_reads s < sv_clock_reads t"
proof -
  let ?reqs = "map (\<lambda>(a, r). \<lparr>ar_subject = who, ar_action = a, ar_resource = r, ar_groups = cx_subject_groups context\<rparr>) checks"
  let ?audits = "for_each (zip checks ds) (\<lambda>(c, d). audited cfg context who (fst c) (snd c) d)"
  from assms obtain u x where u: "provider_check_batch cfg ?reqs s = (Inr ds, u)" and audits: "?audits u = (Inr x, t)"
    by (auto simp: check_batch_def exec_Inr_iffs access_call_Inr required_principal_def validate_provider_decision_def Let_def
        split: if_splits dest!: validated_decisions)
  have resources: "map ar_resource ?reqs = map snd checks" by (simp add: case_prod_beta)
  have "\<forall>q \<in> set ?reqs. ar_subject q = who \<and> ar_groups q = cx_subject_groups context" by auto
  from provider_check_batch_run [OF _ this, of cfg s] u assms(2)
  show "ds = map (\<lambda>c. decide (snapshot_of (sc_digest cfg) (who # cx_subject_groups context) (sc_clock cfg (sv_clock_reads s))
      (filter (\<lambda>r. re_type r = ARTIFACT) (map snd checks)) None (Some (map snd checks)) (the (policy_content (sv_db s))))
      who (cx_subject_groups context) (sc_clock cfg (sv_clock_reads s)) (fst c) (snd c)) checks"
    unfolding resources by (auto simp: case_prod_beta)
  have "clock_forward ?audits" unfolding clock_forward_def by (intro allI preserves_rules)
  from clock_forwardD [OF this audits] provider_reads_clock [OF u] assms(2) show "sv_clock_reads s < sv_clock_reads t" by simp
qed

text \<open>
  Who administers a resource, said without the code's list of checks, by the kind of the
  resource. A server: its administrators. A scope: its administrators and those of a
  server. An artifact: those its owner role is bound to, the administrators of its scope or
  of a server and, for a handoff, the delegators of its scope; besides these its owner.
\<close>

definition above :: "resource_ref \<Rightarrow> resource_ref \<Rightarrow> bool" where
  "above bound r \<longleftrightarrow> re_type bound = SERVER \<or> (re_type bound = SCOPE \<and> re_scope_id bound = re_scope_id r)"

definition administrative_binding :: "access_binding \<Rightarrow> resource_ref \<Rightarrow> bool" where
  "administrative_binding b r \<longleftrightarrow> (case re_type r of
     SERVER \<Rightarrow> bi_role b = ROLE_SERVER_ADMIN \<and> bi_resource b = r
   | SCOPE \<Rightarrow> (bi_role b = ROLE_SCOPE_ADMIN \<and> bi_resource b = r)
       \<or> (bi_role b = ROLE_SERVER_ADMIN \<and> re_type (bi_resource b) = SERVER)
   | ARTIFACT \<Rightarrow> (bi_role b = ARTIFACT_OWNER \<and> bi_resource b = r)
       \<or> (bi_role b \<in> {ROLE_SCOPE_ADMIN, ROLE_SERVER_ADMIN} \<and> above (bi_resource b) r)
       \<or> (bi_role b = SCOPE_DELEGATOR \<and> re_family r = Some ''handoff''
          \<and> re_type (bi_resource b) = SCOPE \<and> re_scope_id (bi_resource b) = re_scope_id r))"

definition administers :: "subject list \<Rightarrow> int \<Rightarrow> subject \<Rightarrow> resource_ref \<Rightarrow> access_db \<Rightarrow> bool" where
  "administers groups now who r d \<longleftrightarrow>
     (\<exists>b \<in> br_binding ` set (ad_bindings d).
        (\<exists>p \<in> set (who # groups). su_type (bi_subject b) = su_type p \<and> su_id (bi_subject b) = su_id p)
        \<and> bi_state b = BINDING_ACTIVE \<and> (bi_expires_at b = None \<or> now < the (bi_expires_at b)) \<and> administrative_binding b r)
     \<or> (re_type r = ARTIFACT \<and> (\<exists>h w. Artifact_Owner h w \<in> set (ad_owners d) \<and> ow_resource w = r
        \<and> su_type (ow_owner w) = su_type who \<and> su_id (ow_owner w) = su_id who))"

lemma administrative_grants:
  assumes "administrative_checks cfg r = Inr checks" and "(a, q) \<in> set checks" and "binding_grants b a q"
  shows "administrative_binding b r"
proof (cases "re_type r")
  case SERVER
  with assms show ?thesis
    by (cases "bi_role b") (auto simp: administrative_checks_def administrative_binding_def binding_grants_def parent_binding_grants_def
        split: if_splits)
next
  case SCOPE
  with assms show ?thesis
    by (cases "bi_role b") (auto simp: administrative_checks_def administrative_binding_def binding_grants_def parent_binding_grants_def
        server_resource_def split: if_splits access_resource_type.splits)
next
  case ARTIFACT
  with assms show ?thesis
    by (cases "bi_role b") (auto simp: administrative_checks_def administrative_binding_def above_def binding_grants_def
        parent_binding_grants_def binding_covers_def parent_scope_def server_resource_def scope_resource_def Let_def
        split: if_splits access_resource_type.splits option.splits sum.splits)
qed

lemma administrative_owner:
  "administrative_checks cfg r = Inr checks \<Longrightarrow> (a, q) \<in> set checks \<Longrightarrow> re_type q = ARTIFACT \<Longrightarrow> q = r"
  by (auto simp: administrative_checks_def parent_scope_def server_resource_def scope_resource_def Let_def
      split: if_splits access_resource_type.splits option.splits sum.splits)

lemma authorized_administers:
  assumes "administrative_checks cfg r = Inr checks" and "(a, q) \<in> set checks" and "authorized cfg who groups now a q d"
  shows "administers groups now who r d"
  using assms(3) administrative_grants [OF assms(1,2)] administrative_owner [OF assms(1,2)]
  unfolding authorized_def administers_def active_at_def same_subject_def
  by (fastforce simp del: role_actions.simps split: option.splits)

lemma administrative_checks_ok:
  assumes "administrative_checks cfg r = Inr checks" and "resource_ok r" and "valid_text 128 (sc_deployment_id cfg)"
  shows "checks \<noteq> []" and "(a, q) \<in> set checks \<Longrightarrow> resource_ok q \<and> a \<noteq> ACCESS_SELF"
proof -
  have server: "resource_ok (server_resource (sc_deployment_id cfg))"
    using assms(3) by (simp add: resource_ok_def server_resource_def valid_optional_def)
  have scope: "resource_ok p" if "parent_scope r = Some p" for p
    using that assms(2) by (auto simp: parent_scope_def resource_ok_def scope_resource_def valid_optional_def split: access_resource_type.splits option.splits)
  show "checks \<noteq> []"
    using assms(1) by (auto simp: administrative_checks_def Let_def split: access_resource_type.splits option.splits sum.splits)
  show "(a, q) \<in> set checks \<Longrightarrow> resource_ok q \<and> a \<noteq> ACCESS_SELF"
    using assms server scope by (auto simp: administrative_checks_def Let_def split: access_resource_type.splits option.splits sum.splits if_splits)
qed

lemma require_administration_Inr:
  assumes run: "require_administration cfg context who r s = (Inr x, t)"
    and ok: "access_ok (sc_digest cfg) T (sv_db s)" and r: "resource_ok r" and deployment: "valid_text 128 (sc_deployment_id cfg)"
  shows "administers (cx_subject_groups context) (sc_clock cfg (sv_clock_reads s)) who r (sv_db s)"
    and "sv_clock_reads s < sv_clock_reads t"
proof -
  let ?now = "sc_clock cfg (sv_clock_reads s)"
  obtain checks ds where checks: "administrative_checks cfg r = Inr checks"
    and ds: "check_batch cfg context (Some who) checks s = (Inr ds, t)" "\<exists>d \<in> set ds. dc_allowed d"
    using run by (auto simp: require_administration_def require_any_def exec_Inr_iffs split: if_splits)
  note facts = administrative_checks_ok [OF checks r deployment]
  from check_batch_Inr [OF ds(1) facts(1)] ds(2)
  obtain a q where aq: "(a, q) \<in> set checks" "dc_allowed (decide (snapshot_of (sc_digest cfg) (who # cx_subject_groups context) ?now
      (filter (\<lambda>r. re_type r = ARTIFACT) (map snd checks)) None (Some (map snd checks)) (the (policy_content (sv_db s))))
      who (cx_subject_groups context) ?now a q)"
    by auto
  moreover have "q \<in> set (map snd checks)" using aq(1) by force
  ultimately have "authorized cfg who (cx_subject_groups context) ?now a q (sv_db s)"
    using point_decision_authorized [OF ok] facts(2) [OF aq(1)] by blast
  with checks aq(1) show "administers (cx_subject_groups context) ?now who r (sv_db s)" by (rule authorized_administers)
  show "sv_clock_reads s < sv_clock_reads t" by (rule check_batch_Inr(2) [OF ds(1) facts(1)])
qed

text \<open>
  C6: The builtin provider decides exactly what the store says: a check succeeds, changes
  nothing but the reading of the clock, and allows an action if and only if an active
  binding of the subject or one of its groups grants it on the resource, from the resource
  itself or from a parent, or the subject owns the artifact and owners may do it.
\<close>

theorem provider_decides_policy:
  assumes "(store_step (sc_digest cfg) T)\<^sup>*\<^sup>* empty_access_db (sv_db s)" and "resource_ok r" and "a \<noteq> ACCESS_SELF"
  shows "\<exists>d. provider_check cfg \<lparr>ar_subject = who, ar_action = a, ar_resource = r, ar_groups = groups\<rparr> s
       = (Inr d, s\<lparr>sv_clock_reads := sv_clock_reads s + 1\<rparr>)
     \<and> (dc_allowed d \<longleftrightarrow> authorized cfg who groups (sc_clock cfg (sv_clock_reads s)) a r (sv_db s))"
proof -
  have ok: "access_ok (sc_digest cfg) T (sv_db s)" using store_run_ok [OF assms(1)] by simp
  show ?thesis
    using point_decision_authorized [OF ok assms(2) _ assms(3), of "[r]"]
    by (auto simp: provider_check_def provider_check_batch_def Let_def bind_run point_state_run same_subject_def
        simp del: role_actions.simps)
qed

text \<open>
  Managing is not reading: whoever holds only the roles \<^verbatim>\<open>scope.admin\<close>,
  \<^verbatim>\<open>server.observer\<close> and \<^verbatim>\<open>server.admin\<close>, directly or through groups, and
  owns no artifact, is denied every action on content, whatever the resource.
\<close>

theorem managers_do_not_read:
  assumes "(store_step (sc_digest cfg) T)\<^sup>*\<^sup>* empty_access_db (sv_db s)" and "resource_ok r" and "a \<notin> management_actions"
    and "\<And>row p. row \<in> set (ad_bindings (sv_db s)) \<Longrightarrow> p \<in> set (who # groups) \<Longrightarrow> same_subject (bi_subject (br_binding row)) p
      \<Longrightarrow> bi_role (br_binding row) \<in> management_roles"
    and "\<And>h w. Artifact_Owner h w \<in> set (ad_owners (sv_db s)) \<Longrightarrow> \<not> same_subject (ow_owner w) who"
  shows "\<exists>d. fst (provider_check cfg \<lparr>ar_subject = who, ar_action = a, ar_resource = r, ar_groups = groups\<rparr> s) = Inr d
     \<and> \<not> dc_allowed d"
proof -
  have ok: "access_ok (sc_digest cfg) T (sv_db s)" using store_run_ok [OF assms(1)] by simp
  have a: "a \<noteq> ACCESS_SELF" using assms(3) by (auto simp: management_actions_def)
  have "\<not> authorized cfg who groups now a r (sv_db s)" for now
    using assms(3-5) management_grants unfolding authorized_def by blast
  then show ?thesis
    using point_decision_authorized [OF ok assms(2) _ a, of "[r]"]
    by (auto simp: provider_check_def provider_check_batch_def Let_def bind_run point_state_run same_subject_def
        simp del: role_actions.simps)
qed

text \<open>An allowed decision of a batch is backed by the rows of the store.\<close>

lemma check_batch_decisions:
  assumes "check_batch cfg context (Some who) checks s = (Inr ds, t)" and "checks \<noteq> []"
    and ok: "access_ok (sc_digest cfg) T (sv_db s)"
    and checks: "\<And>a q. (a, q) \<in> set checks \<Longrightarrow> resource_ok q \<and> a \<noteq> ACCESS_SELF"
  shows "\<exists>now. map dc_allowed ds = map (\<lambda>(a, q). authorized cfg who (cx_subject_groups context) now a q (sv_db s)) checks"
proof -
  let ?now = "sc_clock cfg (sv_clock_reads s)"
  note ds = check_batch_Inr(1) [OF assms(1,2)]
  have "dc_allowed (decide (snapshot_of (sc_digest cfg) (who # cx_subject_groups context) ?now
      (filter (\<lambda>r. re_type r = ARTIFACT) (map snd checks)) None (Some (map snd checks)) (the (policy_content (sv_db s))))
      who (cx_subject_groups context) ?now (fst c) (snd c)) \<longleftrightarrow> authorized cfg who (cx_subject_groups context) ?now (fst c) (snd c) (sv_db s)"
    if "c \<in> set checks" for c
    using that checks [of "fst c" "snd c"] by (intro point_decision_authorized [OF ok]) auto
  then show ?thesis unfolding ds by (auto intro!: exI [of _ ?now])
qed

lemma store_list_bindings_roles:
  "fst (store_list_bindings q d) = Inr bs \<Longrightarrow> bs_visible_roles q \<noteq> [] \<Longrightarrow> bi_role ` set bs \<subseteq> set (bs_visible_roles q)"
  by (auto simp: store_list_bindings_def exec_simps binding_matches_def dest!: in_set_takeD)

lemma related_Inr: "related cfg m s = (Inr x, t) \<Longrightarrow> \<exists>d. m (sv_db s) = (Inr x, d)"
  by (auto simp: related_def relationship_store_def andThen_run access_call_Inr transaction_run split: if_splits prod.splits sum.splits)

text \<open>
  C40: Somebody who may delegate a scope, but administers neither the scope nor the server,
  is shown no binding but those of the handoff roles, whatever roles the request asks for.
\<close>

theorem delegator_sees_handoff_roles:
  assumes "(store_step (sc_digest cfg) T)\<^sup>*\<^sup>* empty_access_db (sv_db s)" and "valid_text 128 (sc_deployment_id cfg)"
    and "resource_ok (bs_management_resource q)" and "re_type (bs_management_resource q) = SCOPE"
    and "\<And>now. \<not> authorized cfg who (cx_subject_groups context) now SCOPE_ADMIN (bs_management_resource q) (sv_db s)"
    and "\<And>now. \<not> authorized cfg who (cx_subject_groups context) now SERVER_ADMIN (server_resource (sc_deployment_id cfg)) (sv_db s)"
  shows "case fst (service_list_bindings cfg context (Some who) q cur limit s) of
       Inl e \<Rightarrow> True | Inr (bindings, c) \<Rightarrow> bi_role ` set bindings \<subseteq> {HANDOFF_VIEWER, HANDOFF_RECEIVER}"
proof -
  let ?r = "bs_management_resource q" and ?server = "server_resource (sc_deployment_id cfg)"
  let ?checks = "[(SCOPE_DELEGATE, ?r), (SCOPE_ADMIN, ?r), (SERVER_ADMIN, ?server)]"
  have ok: "access_ok (sc_digest cfg) T (sv_db s)" using store_run_ok [OF assms(1)] by simp
  have server: "resource_ok ?server"
    using assms(2) by (simp add: resource_ok_def server_resource_def valid_optional_def)
  have only: "delegate_only ?r ds" if "require_any cfg context (Some who) ?checks s = (Inr ds, t)" for ds t
  proof -
    from that obtain u where batch: "check_batch cfg context (Some who) ?checks s = (Inr ds, u)" and some: "\<exists>d \<in> set ds. dc_allowed d"
      by (auto simp: require_any_def bind_Inr_iff split: if_splits)
    have "\<exists>now. map dc_allowed ds = map (\<lambda>(a, q). authorized cfg who (cx_subject_groups context) now a q (sv_db s)) ?checks"
      using assms(3) server by (intro check_batch_decisions [OF batch _ ok]) auto
    then obtain now where "map dc_allowed ds = map (\<lambda>(a, q). authorized cfg who (cx_subject_groups context) now a q (sv_db s)) ?checks"
      by blast
    with some assms(4-6) show ?thesis by (auto simp: delegate_only_def map_eq_Cons_conv)
  qed
  show ?thesis
  proof (cases "service_list_bindings cfg context (Some who) q cur limit s")
    case (Pair x t)
    show ?thesis
    proof (cases x)
      case (Inr y)
      obtain bs c where y: "y = (bs, c)" by (cases y)
      from Pair Inr y assms(4) obtain ds u rows v q' where "require_any cfg context (Some who) ?checks s = (Inr ds, u)"
        and rows: "related cfg (store_list_bindings q') u = (Inr rows, v)"
        and "delegate_only ?r ds \<longrightarrow> bs_visible_roles q' = [HANDOFF_VIEWER, HANDOFF_RECEIVER]" and bs: "bs = take (nat limit) rows"
        by (auto simp: service_list_bindings_def binding_list_checks_def Let_def exec_Inr_iffs required_principal_def split: if_splits)
      with only have visible: "bs_visible_roles q' = [HANDOFF_VIEWER, HANDOFF_RECEIVER]" by blast
      from related_Inr [OF rows] obtain d where "fst (store_list_bindings q' (sv_db u)) = Inr rows" by force
      from store_list_bindings_roles [OF this] visible have "bi_role ` set rows \<subseteq> {HANDOFF_VIEWER, HANDOFF_RECEIVER}" by simp
      with bs Pair Inr y show ?thesis by (auto dest: in_set_takeD)
    qed (simp add: Pair)
  qed
qed

text \<open>
  \<open>gated ok m s\<close>: started in \<open>s\<close>, the block changes policy only if \<open>ok\<close> holds of the store
  at one of the readings of the clock the block makes.
\<close>

definition gated :: "(nat \<Rightarrow> access_db \<Rightarrow> bool) \<Rightarrow> 'a service \<Rightarrow> service_state \<Rightarrow> bool" where
  "gated ok m s \<longleftrightarrow> policy_content (sv_db (snd (m s))) = policy_content (sv_db s)
     \<or> (\<exists>n. sv_clock_reads s \<le> n \<and> n < sv_clock_reads (snd (m s)) \<and> ok n (sv_db s))"

definition leaves_db :: "'a service \<Rightarrow> bool" where
  "leaves_db m \<longleftrightarrow> (\<forall>s. sv_db (snd (m s)) = sv_db s \<and> sv_clock_reads s \<le> sv_clock_reads (snd (m s)))"

lemma gated_bind:
  assumes "leaves_db m" and "\<And>x t. m s = (Inr x, t) \<Longrightarrow> sv_db t = sv_db s \<Longrightarrow> gated ok (f x) t"
  shows "gated ok (bind m f) s"
proof (cases "m s")
  case (Pair r t)
  with assms(1) have t: "sv_db t = sv_db s" "sv_clock_reads s \<le> sv_clock_reads t" unfolding leaves_db_def by (metis snd_conv)+
  show ?thesis
  proof (cases r)
    case (Inr x)
    have "bind m f s = f x t" using Pair Inr by (simp add: bind_run)
    with assms(2) [of x t] t Pair Inr show ?thesis by (auto simp: gated_def intro: order_trans)
  qed (use Pair t in \<open>simp add: gated_def bind_run\<close>)
qed

lemma gated_andThen:
  "leaves_db m \<Longrightarrow> (\<And>x t. m s = (Inr x, t) \<Longrightarrow> sv_db t = sv_db s \<Longrightarrow> gated ok n t) \<Longrightarrow> gated ok (andThen m n) s"
  unfolding andThen_def by (rule gated_bind)

lemma gated_keeps: "preserves (\<lambda>u. policy_content (sv_db u) = policy_content (sv_db s)) m \<Longrightarrow> gated ok m s"
  by (simp add: gated_def preserves_def)

lemma gated_administration:
  assumes "access_ok (sc_digest cfg) T (sv_db s)" and "resource_ok r" and "valid_text 128 (sc_deployment_id cfg)"
    and "administers (cx_subject_groups context) (sc_clock cfg (sv_clock_reads s)) who r (sv_db s) \<Longrightarrow> ok (sv_clock_reads s) (sv_db s)"
    and "clock_forward m"
  shows "gated ok (andThen (require_administration cfg context who r) m) s"
proof (cases "require_administration cfg context who r s")
  case (Pair x t)
  show ?thesis
  proof (cases x)
    case (Inl e)
    with Pair preservesE [OF administration_keeps_policy(1) refl Pair] show ?thesis
      by (simp add: gated_def andThen_run)
  next
    case (Inr y)
    note run = require_administration_Inr [OF Pair [unfolded Inr] assms(1-3)]
    have "andThen (require_administration cfg context who r) m s = m t" using Pair Inr by (simp add: andThen_run)
    moreover have "sv_clock_reads t \<le> sv_clock_reads (snd (m t))" using clock_forwardD [OF assms(5)] by (metis prod.collapse)
    ultimately show ?thesis using run(2) assms(4) [OF run(1)] by (auto simp: gated_def intro!: exI [of _ "sv_clock_reads s"])
  qed
qed

lemma leaves_db_rules [intro, simp]:
  "leaves_db (lift_result v)" "leaves_db (require b e)" "leaves_db (clock cfg)" "leaves_db (uuid4 cfg)"
  "leaves_db (required_principal p)" "leaves_db (return x)" "leaves_db (relationship_store cfg)"
  "leaves_db (require_subject cfg q)" "leaves_db (require_future expires now)"
  by (auto simp: leaves_db_def required_principal_def relationship_store_def require_subject_def require_future_def split: option.split)

lemma leaves_db_expiry: "leaves_db (if e = None then return () else bind (clock cfg) (require_future e))"
  by (auto simp: leaves_db_def require_future_def bind_run)

lemma leaves_db_related [intro]: "reads_only m \<Longrightarrow> leaves_db (related cfg m)"
  by (auto simp: leaves_db_def related_def relationship_store_def andThen_run access_call_def catch_run transaction_run
      dest: reads_onlyD split: prod.split sum.split)

text \<open>The three requests that change bindings, without callbacks that look at the resource.\<close>

datatype management_request =
    Create_Request create_request
  | Revoke_Request string int string
  | Replace_Request replace_request

fun manage :: "service_config \<Rightarrow> audit_context \<Rightarrow> subject option \<Rightarrow> management_request \<Rightarrow> unit service" where
  "manage cfg context p (Create_Request q) = andThen (service_create_binding cfg context p q None) (return ())"
| "manage cfg context p (Revoke_Request i v key) = andThen (service_revoke_binding cfg context p i v key None) (return ())"
| "manage cfg context p (Replace_Request q) = andThen (service_replace_binding cfg context p q None) (return ())"

text \<open>The resource a request is about: of the new binding, or of the stored one.\<close>

fun managed_resource :: "management_request \<Rightarrow> access_db \<Rightarrow> resource_ref \<Rightarrow> bool" where
  "managed_resource (Create_Request q) d r \<longleftrightarrow> r = cr_resource q"
| "managed_resource (Revoke_Request i v key) d r \<longleftrightarrow> (\<exists>row \<in> set (ad_bindings d). has_binding_id i row \<and> r = bi_resource (br_binding row))"
| "managed_resource (Replace_Request q) d r \<longleftrightarrow> (\<exists>row \<in> set (ad_bindings d). has_binding_id (rq_binding_id q) row \<and> r = bi_resource (br_binding row))"

lemma related_get_binding:
  assumes "related cfg (get_binding i) s = (Inr (Some b), t)"
  shows "\<exists>row \<in> set (ad_bindings (sv_db s)). has_binding_id i row \<and> b = br_binding row"
proof -
  from assms obtain u where "get_binding i (sv_db s) = (Inr (Some b), u)"
    by (auto simp: related_def relationship_store_def andThen_run access_call_Inr transaction_run split: if_splits prod.splits sum.splits)
  then obtain row v where "binding_by_id i (sv_db s) = (Inr (Some row), v)" "b = br_binding row"
    by (auto simp: get_binding_def bind_Inr_iff)
  then show ?thesis by (auto dest!: binding_by_id_Inr)
qed

lemma andThen_gated_unit: "gated ok (andThen m (return ())) s \<longleftrightarrow> gated ok m s"
  by (auto simp: gated_def andThen_run split: prod.split sum.split)

lemma stored_resource_ok: "access_ok digest T d \<Longrightarrow> row \<in> set (ad_bindings d) \<Longrightarrow> resource_ok (bi_resource (br_binding row))"
  by (auto simp: access_ok_def binding_row_ok_def)

lemma with_no_callback [simp]: "with_resource None r = return ()"
  by (simp add: with_resource_def)

lemma required_principal_Inr [simp]: "required_principal p s = (Inr who, t) \<longleftrightarrow> p = Some who \<and> t = s"
  by (auto simp: required_principal_def split: option.splits)

lemma manage_gated:
  assumes ok: "access_ok (sc_digest cfg) T (sv_db s)" and deployment: "valid_text 128 (sc_deployment_id cfg)"
    and r: "\<And>q. req = Create_Request q \<Longrightarrow> resource_ok (cr_resource q)"
  shows "gated (\<lambda>n d. \<exists>who r. p = Some who \<and> managed_resource req d r
     \<and> administers (cx_subject_groups context) (sc_clock cfg n) who r d) (manage cfg context p req) s"
proof (cases req)
  case (Create_Request q)
  show ?thesis
    unfolding Create_Request manage.simps andThen_gated_unit service_create_binding_def
    apply (rule gated_andThen gated_bind, rule leaves_db_rules)+
    apply (rule gated_administration [where T = T])
        apply (use ok deployment r [OF Create_Request] in auto)[4]
    apply (unfold clock_forward_def access_call_def with_no_callback, intro allI preserves_rules)
    done
next
  case (Revoke_Request i v key)
  show ?thesis
    unfolding Revoke_Request manage.simps andThen_gated_unit service_revoke_binding_def
    apply (rule gated_andThen gated_bind, (rule leaves_db_rules | rule leaves_db_related, rule store_reads))+
    apply (rename_tac found t, case_tac found)
     apply (simp only: option.case, intro gated_keeps preserves_rules)
    apply (simp only: option.case with_no_callback)
    apply (rule gated_andThen, rule leaves_db_rules)+
    apply (rule gated_administration [where T = T])
        apply (use ok deployment stored_resource_ok related_get_binding in \<open>fastforce+\<close>)[4]
    apply (unfold clock_forward_def access_call_def, intro allI preserves_rules)
    done
next
  case (Replace_Request q)
  show ?thesis
    unfolding Replace_Request manage.simps andThen_gated_unit service_replace_binding_def
    apply (rule gated_andThen gated_bind, (rule leaves_db_rules | rule leaves_db_related, rule store_reads))+
    apply (rename_tac found t, case_tac found)
     apply (simp only: option.case, intro gated_keeps preserves_rules)
    apply (simp only: option.case with_no_callback)
    apply (rule gated_andThen, rule leaves_db_rules leaves_db_expiry)+
    apply (rule gated_administration [where T = T])
        apply (use ok deployment stored_resource_ok related_get_binding in \<open>fastforce+\<close>)[4]
    apply (unfold clock_forward_def access_call_def, intro allI preserves_rules)
    done
qed

text \<open>
  C18: The state of policy changes only for someone who administers the resource: if a
  request to create, revoke or replace a binding changes what decisions read, then its
  principal, by the rows of the store the request found, administered the resource of the
  binding at a time the clock showed during the request. What administering takes is
  spelled out above for each kind of resource, expiry included.
\<close>

theorem changes_need_administration:
  assumes "(store_step (sc_digest cfg) T)\<^sup>*\<^sup>* empty_access_db (sv_db s)" and "valid_text 128 (sc_deployment_id cfg)"
    and "\<And>q. req = Create_Request q \<Longrightarrow> resource_ok (cr_resource q)"
    and "policy_content (sv_db (snd (manage cfg context p req s))) \<noteq> policy_content (sv_db s)"
  shows "\<exists>who r n. p = Some who \<and> managed_resource req (sv_db s) r
     \<and> sv_clock_reads s \<le> n \<and> n < sv_clock_reads (snd (manage cfg context p req s))
     \<and> administers (cx_subject_groups context) (sc_clock cfg n) who r (sv_db s)"
  using manage_gated [OF store_run_ok [OF assms(1) access_ok_empty] assms(2,3)] assms(4) by (simp add: gated_def) blast

definition demo_config :: service_config where
  "demo_config = \<lparr>sc_digest = (\<lambda>x. x), sc_family_profiles = [(''memory'', plain_profile [] [ARTIFACT_VIEWER] Selector_Memory_Entry)],
     sc_deployment_id = ''d'', sc_relationships = True, sc_safe_resource_filtering = True, sc_multi_requirement_check = True,
     sc_relationship_management = True, sc_group_subjects = True, sc_max_direct_resource_keys = 100,
     sc_static_scope_principal = None, sc_clock = int, sc_uuid = (\<lambda>n. replicate n (CHR ''x''))\<rparr>"

definition demo_context :: audit_context where
  "demo_context = \<lparr>cx_transport = ''http'', cx_operation = ''op'', cx_request_id = None, cx_actor = None, cx_subject_groups = []\<rparr>"

definition user :: "string \<Rightarrow> subject" where
  "user i = \<lparr>su_type = ''user'', su_id = i, su_description = None\<rparr>"

definition demo_grant :: "string \<Rightarrow> subject \<Rightarrow> resource_ref \<Rightarrow> access_role \<Rightarrow> access_binding" where
  "demo_grant i p r role = \<lparr>bi_binding_id = i, bi_subject = p, bi_resource = r, bi_role = role, bi_granted_by = p, bi_reason = None,
     bi_created_at = 0, bi_expires_at = None, bi_state = BINDING_ACTIVE, bi_version = 1, bi_policy_revision = Pending_Revision,
     bi_idempotency_key = i, bi_revoked_at = None, bi_revoked_by = None\<rparr>"

definition demo_state :: "access_binding \<Rightarrow> service_state" where
  "demo_state b = \<lparr>sv_db = snd (perform (\<lambda>x. x) (Create b) empty_access_db), sv_clock_reads = 0, sv_uuids = 0, sv_deferred = None\<rparr>"

lemma demo_state_reachable:
  "resource_ok (bi_resource b) \<Longrightarrow> bi_created_at b \<le> 0 \<Longrightarrow>
     (store_step (sc_digest demo_config) 0)\<^sup>*\<^sup>* empty_access_db (sv_db (demo_state b))"
  using store_stepI [of 0 "Create b" "\<lambda>x. x" empty_access_db] by (simp add: demo_state_def demo_config_def r_into_rtranclp)

definition demo_request :: management_request where
  "demo_request = Create_Request \<lparr>cr_subject = user ''bob'', cr_resource = server_resource ''d'', cr_role = SERVER_OBSERVER,
     cr_idempotency_key = ''k'', cr_reason = None, cr_expires_at = None\<rparr>"

definition demo_admin :: access_binding where
  "demo_admin = demo_grant ''b1'' (user ''ann'') (server_resource ''d'') ROLE_SERVER_ADMIN"

lemma demo_admin_db: "sv_db (demo_state demo_admin) = \<lparr>ad_heads = [\<lparr>ph_name = ''authorization'', ph_revision = 1\<rparr>],
   ad_bindings = [binding_row_of (\<lambda>x. x) (demo_admin\<lparr>bi_policy_revision := Revision 1\<rparr>)], ad_owners = [],
   ad_receipts = [create_receipt (\<lambda>x. x) demo_admin ''b1'' None], ad_audit = []\<rparr>"
  by (simp add: demo_state_def demo_admin_def demo_grant_def create_binding_def create_new_def idempotent_result_def sql_one_or_none_def
    increment_policy_revision_def exec_simps sql_insert_def sql_update_def insert_binding_def record_idempotency_def access_tables
    empty_access_db_def singleton_key_def one_per_resource_def binding_row_of_def Let_def clash_free_def create_receipt_def)

lemma demo_admin_fields [simp]:
  "bi_subject demo_admin = user ''ann''" "bi_resource demo_admin = server_resource ''d''" "bi_role demo_admin = ROLE_SERVER_ADMIN"
  "bi_state demo_admin = BINDING_ACTIVE" "bi_expires_at demo_admin = None" "bi_binding_id demo_admin = ''b1''"
  "bi_created_at demo_admin = 0" "bi_granted_by demo_admin = user ''ann''" "bi_idempotency_key demo_admin = ''b1''" "su_id (user i) = i" "su_type (user i) = ''user''"
  by (simp_all add: demo_admin_def demo_grant_def user_def)

lemma resource_types [simp]: "re_type (server_resource d) = SERVER" "re_type (scope_resource i) = SCOPE"
  "re_type (artifact_resource i f a sel) = ARTIFACT"
  "re_deployment_id (server_resource d) = Some d" "re_scope_id (scope_resource i) = Some i"
  by (simp_all add: server_resource_def scope_resource_def artifact_resource_def)

lemma demo_state_fields [simp]: "sv_clock_reads (demo_state b) = 0" "sv_uuids (demo_state b) = 0" "sv_deferred (demo_state b) = None"
  by (simp_all add: demo_state_def)

lemma demo_decision: "fst (provider_check_batch demo_config [\<lparr>ar_subject = user ''ann'', ar_action = SERVER_ADMIN,
     ar_resource = server_resource ''d'', ar_groups = []\<rparr>] (demo_state demo_admin\<lparr>sv_clock_reads := 1\<rparr>))
   = Inr [decision True ''role-binding'' (Revision 1) (Some (user ''ann'')) (Some ''b1'')]"
  by (subst provider_check_batch_run [where who = "user ''ann''" and groups = "[]"])
     (simp_all add: demo_admin_db policy_content_def revision_number_def snapshot_of_def binding_row_of_def is_subject_def same_subject_def
       relevant_binding_def active_at_def decide_def binding_decision_def Let_def
       binding_grants_def decision_def contextual_policy_revision_def map_filter_simps)

definition demo_started :: service_state where
  "demo_started = demo_state demo_admin\<lparr>sv_clock_reads := 1\<rparr>"

lemma demo_config_fields [simp]:
  "sc_digest demo_config = (\<lambda>x. x)" "sc_deployment_id demo_config = ''d''" "sc_relationships demo_config"
  "sc_multi_requirement_check demo_config" "sc_relationship_management demo_config" "sc_group_subjects demo_config"
  "sc_clock demo_config n = int n" "sc_uuid demo_config n = replicate n (CHR ''x'')"
  "cx_subject_groups demo_context = []"
  by (simp_all add: demo_config_def demo_context_def)

lemma demo_started_fields [simp]:
  "sv_db demo_started = sv_db (demo_state demo_admin)" "sv_clock_reads demo_started = 1" "sv_uuids demo_started = 0"
  "sv_deferred demo_started = None"
  by (simp_all add: demo_started_def demo_state_def)

lemma required_principal_run [simp]: "required_principal (Some who) s = (Inr who, s)"
  by simp

lemma demo_administration:
  "\<exists>e. require_administration demo_config demo_context (user ''ann'') (server_resource ''d'') demo_started
     = (Inr (), demo_started\<lparr>sv_clock_reads := 3, sv_uuids := 1, sv_db := sv_db (demo_state demo_admin)\<lparr>ad_audit := [e]\<rparr>\<rparr>)"
proof -
  let ?reqs = "[\<lparr>ar_subject = user ''ann'', ar_action = SERVER_ADMIN, ar_resource = server_resource ''d'', ar_groups = []\<rparr>]"
  have run: "provider_check_batch demo_config ?reqs demo_started
      = (Inr [decision True ''role-binding'' (Revision 1) (Some (user ''ann'')) (Some ''b1'')], demo_started\<lparr>sv_clock_reads := 2\<rparr>)"
    using demo_decision
    by (intro prod_eqI) (simp_all add: demo_started_def provider_check_batch_def bind_run point_state_run same_subject_def numeral_2_eq_2)
  have valid: "validate_provider_decision demo_config (decision True ''role-binding'' (Revision 1) (Some (user ''ann'')) (Some ''b1'')) t = (Inr (), t)" for t
  proof -
    have "\<forall>c \<in> set ''role-binding''. reason_char c \<or> c \<in> set ''._-''" "reason_char (hd ''role-binding'')" by code_simp+
    moreover have "integer_text 1 = ''1''" by code_simp
    ultimately show ?thesis by (simp add: validate_provider_decision_def decision_def)
  qed
  have checks: "administrative_checks demo_config (server_resource ''d'') = Inr [(SERVER_ADMIN, server_resource ''d'')]"
    by (simp add: administrative_checks_def)
  have action: "validate_action_resource (sc_profiles demo_config) (sc_deployment_id demo_config) SERVER_ADMIN (server_resource ''d'') = Inr ()"
    by (simp add: validate_action_resource_def server_actions_def)
  have audit: "ad_audit (sv_db (demo_state demo_admin)) = []" by (simp add: demo_admin_db)
  show ?thesis
    using run valid action audit
    by (simp add: require_administration_def checks require_any_def check_batch_def exec_simps access_call_def
        audited_def record_decision_def new_event_def append_decision_audit_def append_audit_def sql_insert_def
        access_tables decision_def numeral_3_eq_3 numeral_2_eq_2)
       (intro exI service_state.equality, simp_all)
qed

definition demo_create :: create_request where
  "demo_create = \<lparr>cr_subject = user ''bob'', cr_resource = server_resource ''d'', cr_role = SERVER_OBSERVER,
     cr_idempotency_key = ''k'', cr_reason = None, cr_expires_at = None\<rparr>"

lemma demo_create_fields [simp]:
  "cr_subject demo_create = user ''bob''" "cr_resource demo_create = server_resource ''d''" "cr_role demo_create = SERVER_OBSERVER"
  "cr_idempotency_key demo_create = ''k''" "cr_expires_at demo_create = None"
  by (simp_all add: demo_create_def)

lemma demo_creation:
  "\<exists>x d. create_binding (\<lambda>x. x) (requested_binding i demo_create (user ''ann'') n) (sv_db (demo_state demo_admin)\<lparr>ad_audit := es\<rparr>) = (Inr x, d)
     \<and> revision_number d = 2"
  if "i \<noteq> ''b1''"
  using that
  by (simp add: demo_admin_db create_binding_def create_new_def idempotent_result_def sql_one_or_none_def requested_binding_def
    increment_policy_revision_def exec_simps sql_insert_def sql_update_def insert_binding_def record_idempotency_def access_tables
    singleton_key_def one_per_resource_def binding_row_of_def Let_def clash_free_def create_receipt_def revision_number_def)

lemma demo_change:
  "policy_content (sv_db (snd (manage demo_config demo_context (Some (user ''ann'')) (Create_Request demo_create) (demo_state demo_admin))))
     \<noteq> policy_content (sv_db (demo_state demo_admin))"
proof -
  define recorded where "recorded = (\<lambda>created. andThen (access_call (record_relationship demo_config demo_context (user ''ann'') None created)) (return created))"
  obtain e where admin: "require_administration demo_config demo_context (user ''ann'') (server_resource ''d'') demo_started
     = (Inr (), demo_started\<lparr>sv_clock_reads := 3, sv_uuids := 1, sv_db := sv_db (demo_state demo_admin)\<lparr>ad_audit := [e]\<rparr>\<rparr>)"
    using demo_administration by blast
  then have started: "require_administration demo_config demo_context (user ''ann'') (server_resource ''d'') (demo_state demo_admin\<lparr>sv_clock_reads := Suc 0\<rparr>)
     = (Inr (), demo_state demo_admin\<lparr>sv_clock_reads := 3, sv_uuids := 1, sv_db := sv_db (demo_state demo_admin)\<lparr>ad_audit := [e]\<rparr>\<rparr>)"
    by (simp add: demo_started_def)
  obtain x d where created: "create_binding (\<lambda>x. x) (requested_binding ''x'' demo_create (user ''ann'') 0)
      (sv_db (demo_state demo_admin)\<lparr>ad_audit := [e]\<rparr>) = (Inr x, d)" "revision_number d = 2"
    using demo_creation [of "''x''" 0 "[e]"] by auto
  obtain v where v: "sv_db v = d" "manage demo_config demo_context (Some (user ''ann'')) (Create_Request demo_create) (demo_state demo_admin)
      = andThen (recorded x) (return ()) v"
  proof
    show "sv_db (demo_state demo_admin\<lparr>sv_clock_reads := 3, sv_uuids := Suc (Suc 0), sv_db := d\<rparr>) = d" by simp
    show "manage demo_config demo_context (Some (user ''ann'')) (Create_Request demo_create) (demo_state demo_admin)
      = andThen (recorded x) (return ()) (demo_state demo_admin\<lparr>sv_clock_reads := 3, sv_uuids := Suc (Suc 0), sv_db := d\<rparr>)"
    using started created(1)
    unfolding manage.simps service_create_binding_def recorded_def [symmetric]
    by (simp add: andThen_run bind_run transaction_run validate_binding_role_def validate_binding_subject_def role_subject_types_def
      require_subject_def require_future_def related_def relationship_store_def access_call_def catch_run)
       (simp add: recorded_def andThen_run access_call_def catch_run)
  qed
  have keeps: "preserves (\<lambda>s. policy_content (sv_db s) = c) (andThen (recorded y) (return ()))" for c y
    unfolding recorded_def access_call_def by (intro preserves_rules)
  have "policy_content (sv_db (snd (manage demo_config demo_context (Some (user ''ann'')) (Create_Request demo_create) (demo_state demo_admin))))
      = policy_content d"
    unfolding v(2) using preservesD [OF keeps refl, of x v] v(1) by simp
  moreover have "revision_number (sv_db (demo_state demo_admin)) = 1" by (simp add: demo_admin_db revision_number_def)
  ultimately show ?thesis using created(2) by (simp add: policy_content_def)
qed

lemma changes_need_administration_witness:
  "\<exists>who r n. Some (user ''ann'') = Some who \<and> managed_resource (Create_Request demo_create) (sv_db (demo_state demo_admin)) r
     \<and> sv_clock_reads (demo_state demo_admin) \<le> n
     \<and> n < sv_clock_reads (snd (manage demo_config demo_context (Some (user ''ann'')) (Create_Request demo_create) (demo_state demo_admin)))
     \<and> administers (cx_subject_groups demo_context) (sc_clock demo_config n) who r (sv_db (demo_state demo_admin))"
proof -
  have "resource_ok (server_resource ''d'')" "valid_text 128 (sc_deployment_id demo_config)" by code_simp+
  then show ?thesis
    by (intro changes_need_administration [OF demo_state_reachable _ _ demo_change]) (simp_all add: demo_admin_def demo_grant_def)
qed

lemma search_agrees_with_decisions_witness:
  "\<exists>f d. fst (resolve_resource_filter demo_config (user ''ann'') [] SERVER_ADMIN SERVER None (demo_state demo_admin)) = Inr f
     \<and> fst (provider_check demo_config \<lparr>ar_subject = user ''ann'', ar_action = SERVER_ADMIN, ar_resource = server_resource ''d'',
          ar_groups = []\<rparr> (demo_state demo_admin)) = Inr d
     \<and> (resource_allowed_by_filter f (server_resource ''d'') \<longleftrightarrow> dc_allowed d)"
proof -
  have "resource_ok (server_resource ''d'')" by code_simp
  then show ?thesis
    by (intro search_agrees_with_decisions [OF demo_state_reachable])
       (simp_all add: demo_admin_def demo_grant_def)
qed

lemma provider_decides_policy_witness:
  "\<exists>d. provider_check demo_config \<lparr>ar_subject = user ''bob'', ar_action = SCOPE_READ, ar_resource = scope_resource ''i'', ar_groups = []\<rparr>
       (demo_state demo_admin) = (Inr d, demo_state demo_admin\<lparr>sv_clock_reads := sv_clock_reads (demo_state demo_admin) + 1\<rparr>)
     \<and> (dc_allowed d \<longleftrightarrow> authorized demo_config (user ''bob'') [] (sc_clock demo_config (sv_clock_reads (demo_state demo_admin)))
          SCOPE_READ (scope_resource ''i'') (sv_db (demo_state demo_admin)))"
proof -
  have "resource_ok (server_resource ''d'')" "resource_ok (scope_resource ''i'')" by code_simp+
  then show ?thesis
    by (intro provider_decides_policy [OF demo_state_reachable]) (simp_all add: demo_admin_def demo_grant_def)
qed

lemma managers_do_not_read_witness:
  "\<exists>d. fst (provider_check demo_config \<lparr>ar_subject = user ''ann'', ar_action = SCOPE_READ, ar_resource = scope_resource ''i'', ar_groups = []\<rparr>
       (demo_state demo_admin)) = Inr d \<and> \<not> dc_allowed d"
proof -
  have "resource_ok (server_resource ''d'')" "resource_ok (scope_resource ''i'')" by code_simp+
  then show ?thesis
    by (intro managers_do_not_read [OF demo_state_reachable])
       (auto simp: management_actions_def management_roles_def demo_admin_db binding_row_of_def)
qed

definition demo_delegator :: access_binding where
  "demo_delegator = demo_grant ''b1'' (user ''ann'') (scope_resource ''i'') SCOPE_DELEGATOR"

lemma demo_delegator_rows: "ad_bindings (sv_db (demo_state demo_delegator)) = [binding_row_of (\<lambda>x. x) (demo_delegator\<lparr>bi_policy_revision := Revision 1\<rparr>)]"
  "ad_owners (sv_db (demo_state demo_delegator)) = []"
  by (simp_all add: demo_state_def demo_delegator_def demo_grant_def create_binding_def create_new_def idempotent_result_def sql_one_or_none_def
    increment_policy_revision_def exec_simps sql_insert_def sql_update_def insert_binding_def record_idempotency_def access_tables
    empty_access_db_def singleton_key_def one_per_resource_def binding_row_of_def Let_def clash_free_def create_receipt_def)

definition demo_search :: binding_search where
  "demo_search = \<lparr>bs_management_resource = scope_resource ''i'', bs_subject = None, bs_role = None, bs_state = None,
     bs_cursor = None, bs_limit = 0, bs_visible_roles = []\<rparr>"

lemma delegator_sees_handoff_roles_witness:
  "case fst (service_list_bindings demo_config demo_context (Some (user ''ann'')) demo_search None 10 (demo_state demo_delegator)) of
     Inl e \<Rightarrow> True | Inr (bindings, c) \<Rightarrow> bi_role ` set bindings \<subseteq> {HANDOFF_VIEWER, HANDOFF_RECEIVER}"
proof -
  have "resource_ok (scope_resource ''i'')" "valid_text 128 (sc_deployment_id demo_config)" by code_simp+
  moreover have "bi_resource demo_delegator = scope_resource ''i''" "bi_role demo_delegator = SCOPE_DELEGATOR" "bi_created_at demo_delegator = 0"
    "bs_management_resource demo_search = scope_resource ''i''"
    by (simp_all add: demo_delegator_def demo_grant_def demo_search_def)
  ultimately show ?thesis
    by (intro delegator_sees_handoff_roles [OF demo_state_reachable])
       (simp_all add: authorized_def demo_delegator_rows binding_row_of_def binding_grants_def parent_binding_grants_def)
qed

end
