(* ===== verification/Access_Batch.thy ===== *)
theory Access_Batch
  imports Access_Control
begin

text \<open>
  Prefetched point decisions, from \<^verbatim>\<open>src/src/powercontext/server/authz/service.py\<close>:
  \<^verbatim>\<open>point_decision_batch\<close>, \<^verbatim>\<open>prefetch_point_decisions\<close> and the part of \<^verbatim>\<open>check\<close>
  that answers from a batch.

  A batch keeps, per resource key, the policy inputs that were read for the resource. The
  context variable that holds the batch, and what each entered context manager restores when
  it is left, are the state; entering and leaving are the two halves of the code around its
  \<^verbatim>\<open>yield\<close>. Two values of the variable are the same object exactly if an entered prefetch
  restores fields of the batch and not the variable, so mutation is an update of the variable.

  The lemmas show that what a batch holds is what the store held at the revision the batch
  names, so a decision answered from an admitted prefetch is the decision a fresh check makes.
\<close>

section \<open>Batches\<close>

text \<open>The evaluation of a resource closes over who asked and the inputs that were read.\<close>

type_synonym evaluation = "subject \<times> subject list \<times> decision_state"

record point_batch =
  pb_subject :: subject
  pb_groups :: "subject list"
  pb_task :: nat
  pb_revision :: "policy_revision option"
  pb_evaluations :: "string \<Rightarrow> evaluation option"
  pb_connection :: "nat option"
  pb_resource_keys :: "string list"

text \<open>What a context manager does when it is left.\<close>

datatype restoration = Restore_Nothing | Restore_Fields "nat option" "string list" | Restore_Batch "point_batch option"

record batch_state =
  bt_service :: service_state
  bt_batch :: "point_batch option"
  bt_entered :: "restoration list"

type_synonym 'a batched = "(batch_state, 'a) exec"

text \<open>
  What the code asks of its surroundings: the current task, whether the provider is a local
  one, whether its repository is the relational one, and the connection the repository is
  bound to, with its dialect and whether its driver is in a transaction.
\<close>

record batch_environment =
  be_task :: nat
  be_local_provider :: bool
  be_relational :: bool
  be_bound_connection :: "nat option"
  be_dialect :: string
  be_in_transaction :: bool

definition on_service :: "'a service \<Rightarrow> 'a batched" where
  "on_service m = (\<lambda>s. case m (bt_service s) of (r, t) \<Rightarrow> (r, s\<lparr>bt_service := t\<rparr>))"

definition set_batch :: "point_batch option \<Rightarrow> unit batched" where
  "set_batch b = (\<lambda>s. (Inr (), s\<lparr>bt_batch := b\<rparr>))"

definition entered :: "restoration \<Rightarrow> unit batched" where
  "entered x = (\<lambda>s. (Inr (), s\<lparr>bt_entered := x # bt_entered s\<rparr>))"

definition same_groups :: "subject list \<Rightarrow> subject list \<Rightarrow> bool" where
  "same_groups gs hs \<longleftrightarrow> list_all2 same_subject gs hs"

definition fresh_batch :: "batch_environment \<Rightarrow> audit_context \<Rightarrow> subject \<Rightarrow> point_batch" where
  "fresh_batch env context who = \<lparr>pb_subject = who, pb_groups = cx_subject_groups context, pb_task = be_task env,
     pb_revision = None, pb_evaluations = Map.empty, pb_connection = None, pb_resource_keys = []\<rparr>"

definition enter_point_batch :: "batch_environment \<Rightarrow> audit_context \<Rightarrow> subject option \<Rightarrow> unit batched" where
  "enter_point_batch env context principal' =
     bind (on_service (required_principal principal')) (\<lambda>who.
     if \<not> be_local_provider env then entered Restore_Nothing
     else bind (gets bt_batch) (\<lambda>previous.
       andThen (entered (Restore_Batch previous)) (set_batch (Some (fresh_batch env context who)))))"

definition leave :: "unit batched" where
  "leave = bind (gets bt_entered) (\<lambda>stack. case stack of
     [] \<Rightarrow> return ()
   | x # xs \<Rightarrow> (\<lambda>s. (Inr (), (case x of
         Restore_Nothing \<Rightarrow> s
       | Restore_Fields c ks \<Rightarrow> s\<lparr>bt_batch := map_option (\<lambda>b. b\<lparr>pb_connection := c, pb_resource_keys := ks\<rparr>) (bt_batch s)\<rparr>
       | Restore_Batch b \<Rightarrow> s\<lparr>bt_batch := b\<rparr>)\<lparr>bt_entered := xs\<rparr>)))"

section \<open>Prefetching\<close>

definition belongs :: "batch_environment \<Rightarrow> audit_context \<Rightarrow> subject \<Rightarrow> point_batch \<Rightarrow> bool" where
  "belongs env context who b \<longleftrightarrow> same_subject (pb_subject b) who \<and> same_groups (pb_groups b) (cx_subject_groups context)
     \<and> pb_task b = be_task env"

text \<open>The values of a dictionary of the resources by key, in the order of first insertion.\<close>

definition selected_resources :: "resource_ref list \<Rightarrow> resource_ref list" where
  "selected_resources rs = List.map_filter (map_of (rev (map (\<lambda>r. (resource_key r, r)) rs)))
     (rev (remdups (rev (map resource_key rs))))"

definition missing_resources :: "point_batch \<Rightarrow> resource_ref list \<Rightarrow> resource_ref list" where
  "missing_resources b rs = filter (\<lambda>r. pb_evaluations b (resource_key r) = None) rs"

definition prepare_point_decisions :: "service_config \<Rightarrow> subject \<Rightarrow> subject list \<Rightarrow> resource_ref list \<Rightarrow> evaluation service" where
  "prepare_point_decisions cfg who groups rs = bind (clock cfg) (\<lambda>now.
     bind (point_state cfg who groups rs now) (\<lambda>st. return (who, groups, st)))"

definition add_evaluations :: "resource_ref list \<Rightarrow> evaluation \<Rightarrow> point_batch \<Rightarrow> point_batch" where
  "add_evaluations rs e b = b\<lparr>pb_evaluations := fold (\<lambda>r m. m(resource_key r \<mapsto> e)) rs (pb_evaluations b)\<rparr>"

text \<open>
  Complete the batch for the selected resources and put it in force; \<open>restored\<close> says what
  leaving restores.
\<close>

definition admit_batch ::
  "service_config \<Rightarrow> audit_context \<Rightarrow> nat \<Rightarrow> subject \<Rightarrow> resource_ref list \<Rightarrow> restoration \<Rightarrow> point_batch \<Rightarrow> bool batched" where
  "admit_batch cfg context connection who selected restored b =
     bind (if missing_resources b selected = [] then return b
           else bind (on_service (prepare_point_decisions cfg who (cx_subject_groups context) (missing_resources b selected)))
             (\<lambda>e. return (add_evaluations (missing_resources b selected) e b))) (\<lambda>b.
     andThen (entered restored)
    (andThen (set_batch (Some (b\<lparr>pb_connection := Some connection, pb_resource_keys := map resource_key selected\<rparr>)))
     (return True)))"

definition refuse_batch :: "bool batched" where
  "refuse_batch = andThen (entered Restore_Nothing) (return False)"

text \<open>A batch that follows the revision of the store: inputs of another revision are dropped.\<close>

definition at_revision :: "policy_revision \<Rightarrow> point_batch \<Rightarrow> point_batch" where
  "at_revision v b = (if pb_revision b = Some v then b else b\<lparr>pb_revision := Some v, pb_evaluations := Map.empty\<rparr>)"

definition enter_prefetch ::
  "service_config \<Rightarrow> batch_environment \<Rightarrow> audit_context \<Rightarrow> nat \<Rightarrow> subject option \<Rightarrow> resource_ref list \<Rightarrow>
     policy_revision option \<Rightarrow> bool batched" where
  "enter_prefetch cfg env context connection principal' resources observed =
     (if \<not> be_local_provider env \<or> \<not> be_relational env \<or> be_bound_connection env \<noteq> Some connection
        \<or> be_dialect env \<notin> {''sqlite'', ''mysql''} \<or> resources = [] then refuse_batch
      else if observed = None \<and> be_dialect env = ''sqlite'' \<and> \<not> be_in_transaction env then refuse_batch
      else bind (on_service (required_principal principal')) (\<lambda>who.
       bind (gets bt_batch) (\<lambda>previous.
       let selected = selected_resources resources;
           matching = (case previous of None \<Rightarrow> None | Some b \<Rightarrow> if belongs env context who b then Some b else None) in
       case observed of
         Some v \<Rightarrow> (case matching of
             None \<Rightarrow> refuse_batch
           | Some b \<Rightarrow> if pb_revision b \<noteq> Some v \<or> missing_resources b selected \<noteq> [] then refuse_batch
               else admit_batch cfg context connection who selected (Restore_Fields (pb_connection b) (pb_resource_keys b)) b)
       | None \<Rightarrow> (case matching of
             None \<Rightarrow> admit_batch cfg context connection who selected (Restore_Batch previous) (fresh_batch env context who)
           | Some b \<Rightarrow> bind (on_service (on_store policy_revision)) (\<lambda>v.
               andThen (set_batch (Some (at_revision v b)))
               (admit_batch cfg context connection who selected (Restore_Fields (pb_connection b) (pb_resource_keys b)) (at_revision v b)))))))"

section \<open>Checks\<close>

definition in_force :: "batch_environment \<Rightarrow> audit_context \<Rightarrow> subject \<Rightarrow> resource_ref \<Rightarrow> point_batch \<Rightarrow> bool" where
  "in_force env context who r b \<longleftrightarrow> be_local_provider env \<and> be_bound_connection env = pb_connection b
     \<and> belongs env context who b \<and> resource_key r \<in> set (pb_resource_keys b)"

text \<open>A decision from the inputs of an evaluation; expiry is applied at the time of the check.\<close>

definition evaluate :: "service_config \<Rightarrow> evaluation \<Rightarrow> access_action \<Rightarrow> resource_ref \<Rightarrow> access_decision service" where
  "evaluate cfg e action r = (case e of (who, groups, st) \<Rightarrow>
     if action = ACCESS_SELF then return (decide st who groups 0 action r)
     else bind (clock cfg) (\<lambda>now. return (decide st who groups now action r)))"

text \<open>A missing evaluation is the \<^verbatim>\<open>KeyError\<close> that becomes an unavailable service.\<close>

definition batched_decision :: "service_config \<Rightarrow> point_batch \<Rightarrow> access_action \<Rightarrow> resource_ref \<Rightarrow> access_decision service" where
  "batched_decision cfg b action r = (case pb_evaluations b (resource_key r) of
     None \<Rightarrow> raise (AccessUnavailable ''access_unavailable'')
   | Some e \<Rightarrow> evaluate cfg e action r)"

definition point_decision ::
  "service_config \<Rightarrow> batch_environment \<Rightarrow> audit_context \<Rightarrow> subject \<Rightarrow> access_action \<Rightarrow> resource_ref \<Rightarrow> access_decision batched" where
  "point_decision cfg env context who action r = bind (gets bt_batch) (\<lambda>current.
     let fresh = on_service (access_call (provider_check cfg \<lparr>ar_subject = who, ar_action = action, ar_resource = r,
        ar_groups = cx_subject_groups context\<rparr>)) in
     case current of None \<Rightarrow> fresh
     | Some b \<Rightarrow> if in_force env context who r b then on_service (batched_decision cfg b action r) else fresh)"

definition batched_check ::
  "service_config \<Rightarrow> batch_environment \<Rightarrow> audit_context \<Rightarrow> subject option \<Rightarrow> access_action \<Rightarrow> resource_ref \<Rightarrow> access_decision batched" where
  "batched_check cfg env context principal' action r =
     bind (on_service (required_principal principal')) (\<lambda>who.
     andThen (on_service (lift_result (validate_action_resource (sc_profiles cfg) (sc_deployment_id cfg) action r)))
    (bind (point_decision cfg env context who action r) (\<lambda>d.
     andThen (on_service (validate_provider_decision cfg d))
    (andThen (on_service (audited cfg context who action r d)) (return d)))))"

text \<open>Decisions are equal as Python compares them, where a subject's description does not count.\<close>

definition same_decision :: "access_decision \<Rightarrow> access_decision \<Rightarrow> bool" where
  "same_decision d e \<longleftrightarrow> dc_allowed d = dc_allowed e \<and> dc_reason_code d = dc_reason_code e
     \<and> dc_policy_revision d = dc_policy_revision e \<and> rel_option same_subject (dc_matched_subject d) (dc_matched_subject e)
     \<and> dc_matched_binding_id d = dc_matched_binding_id e"

section \<open>Decisions from the same state of policy\<close>

lemma find_within: "List.find P (filter Q xs) = List.find (\<lambda>x. Q x \<and> P x) xs"
  by (induction xs) auto

lemma find_map: "List.find P (map f xs) = map_option f (List.find (\<lambda>x. P (f x)) xs)"
  by (induction xs) auto

lemma same_groups_ids: "same_groups gs hs \<Longrightarrow> map su_id gs = map su_id hs \<and> (gs = [] \<longleftrightarrow> hs = [])"
  unfolding same_groups_def by (induction rule: list_all2_induct) (auto simp: same_subject_def)

lemma same_groups_subjects: "same_groups gs hs \<Longrightarrow> (\<exists>p \<in> set gs. same_subject q p) \<longleftrightarrow> (\<exists>p \<in> set hs. same_subject q p)"
  unfolding same_groups_def by (induction rule: list_all2_induct) (auto simp: same_subject_def)

lemma contextual_same: "same_groups gs hs \<Longrightarrow> contextual_policy_revision v gs = contextual_policy_revision v hs"
  using same_groups_ids [of gs hs] by (simp add: contextual_policy_revision_def)

lemma active_earlier: "active_at now b \<Longrightarrow> t \<le> now \<Longrightarrow> active_at t b"
  by (auto simp: active_at_def split: option.splits)

text \<open>The binding that decides: the first of the rows that is the subject's, active and grants.\<close>

lemma deciding_binding:
  assumes ok: "access_ok digest T d" and r: "resource_ok r" "r \<in> set rs" and t: "t \<le> now"
  shows "List.find (\<lambda>b. binding_grants b a r)
      (filter (active_at now) (ds_bindings (snapshot_of digest ps t artifacts None (Some rs) (the (policy_content d)))))
    = map_option br_binding (List.find (\<lambda>row. (\<exists>p \<in> set ps. same_subject (bi_subject (br_binding row)) p)
        \<and> active_at now (br_binding row) \<and> binding_grants (br_binding row) a r) (ad_bindings d))"
proof -
  have row: "binding_row_ok digest T row" if "row \<in> set (ad_bindings d)" for row
    using ok that by (auto simp: access_ok_def)
  have "List.find (\<lambda>row. ((\<exists>p \<in> set ps. is_subject p row) \<and> bi_state (br_binding row) = BINDING_ACTIVE \<and> relevant_binding digest (Some rs) row)
        \<and> active_at t (br_binding row) \<and> active_at now (br_binding row) \<and> binding_grants (br_binding row) a r) (ad_bindings d)
     = List.find (\<lambda>row. (\<exists>p \<in> set ps. same_subject (bi_subject (br_binding row)) p)
        \<and> active_at now (br_binding row) \<and> binding_grants (br_binding row) a r) (ad_bindings d)"
    by (rule find_cong [OF refl])
       (use row r t in \<open>auto simp: is_subject_def dest: granting_binding_relevant active_earlier, auto simp: active_at_def\<close>)
  then show ?thesis
    by (simp add: snapshot_of_def policy_content_def find_within find_map conj_assoc)
qed

lemma deciding_owner:
  assumes "access_ok digest T d" and "resource_ok r" "re_type r = ARTIFACT" "r \<in> set artifacts" "r \<in> set artifacts'"
  shows "ds_artifact_owners (snapshot_of digest ps t artifacts x y (the (policy_content d))) (resource_key r)
     = ds_artifact_owners (snapshot_of digest ps' t' artifacts' x' y' (the (policy_content d))) (resource_key r)"
  using snapshot_owner [OF assms(1-4), of ps t x y] snapshot_owner [OF assms(1-3,5), of ps' t' x' y']
  by (metis option.exhaust)

lemma same_subject_trans: "same_subject p q \<Longrightarrow> same_subject q x \<Longrightarrow> same_subject p x"
  by (simp add: same_subject_def)

lemma decide_same:
  assumes ok: "access_ok digest T d" and r: "resource_ok r" "r \<in> set rs" "r \<in> set rs'"
    and who: "same_subject w who" "same_groups g groups" and t: "t \<le> now" "t' \<le> now"
  shows "same_decision
     (decide (snapshot_of digest (w # g) t (filter (\<lambda>r. re_type r = ARTIFACT) rs) None (Some rs) (the (policy_content d))) w g now a r)
     (decide (snapshot_of digest (who # groups) t' (filter (\<lambda>r. re_type r = ARTIFACT) rs') None (Some rs') (the (policy_content d))) who groups now a r)"
    (is "same_decision (decide ?s w g now a r) (decide ?s' who groups now a r)")
proof -
  have revision: "ds_policy_revision ?s = ds_policy_revision ?s'"
    by (simp add: snapshot_of_def policy_content_def)
  have "(\<exists>p \<in> set (w # g). same_subject q p) \<longleftrightarrow> (\<exists>p \<in> set (who # groups). same_subject q p)" for q
    using who same_groups_subjects [of g groups q] by (auto simp: same_subject_def)
  then have found: "List.find (\<lambda>b. binding_grants b a r) (filter (active_at now) (ds_bindings ?s))
     = List.find (\<lambda>b. binding_grants b a r) (filter (active_at now) (ds_bindings ?s'))"
    unfolding deciding_binding [OF ok r(1,2) t(1)] deciding_binding [OF ok r(1,3) t(2)] by simp
  have owner: "ds_artifact_owners ?s (resource_key r) = ds_artifact_owners ?s' (resource_key r)" if "re_type r = ARTIFACT"
    using that r by (intro deciding_owner [OF ok]) auto
  have same: "same_subject q w \<longleftrightarrow> same_subject q who" for q using who(1) by (simp add: same_subject_def)
  show ?thesis
    using found owner who(1)
    unfolding decide_def binding_decision_def Let_def contextual_same [OF who(2)] revision same
    by (auto simp: same_decision_def decision_def option.rel_sel same_subject_def simp del: role_actions.simps split: option.splits)
qed

section \<open>What a batch holds\<close>

text \<open>
  An evaluation of a resource key is valid, at a store reached by a history, if it holds what
  the store held at some point of the history, at the revision the batch names, read at an
  earlier reading of the clock.
\<close>

definition evaluation_ok :: "service_config \<Rightarrow> int \<Rightarrow> service_state \<Rightarrow> policy_revision option \<Rightarrow> string \<Rightarrow> evaluation \<Rightarrow> bool" where
  "evaluation_ok cfg T s v k e \<longleftrightarrow> (case e of (who, groups, st) \<Rightarrow>
     \<exists>d n rs. (store_step (sc_digest cfg) T)\<^sup>*\<^sup>* empty_access_db d \<and> (store_step (sc_digest cfg) T)\<^sup>*\<^sup>* d (sv_db s)
       \<and> n < sv_clock_reads s \<and> (\<forall>r \<in> set rs. resource_ok r) \<and> k \<in> resource_key ` set rs
       \<and> (v = None \<or> v = Some (Revision (revision_number d)))
       \<and> st = snapshot_of (sc_digest cfg) (who # groups) (sc_clock cfg n) (filter (\<lambda>r. re_type r = ARTIFACT) rs) None (Some rs) (the (policy_content d)))"

definition batch_ok :: "service_config \<Rightarrow> int \<Rightarrow> service_state \<Rightarrow> point_batch \<Rightarrow> bool" where
  "batch_ok cfg T s b \<longleftrightarrow> (\<forall>k w g st. pb_evaluations b k = Some (w, g, st) \<longrightarrow>
     same_subject w (pb_subject b) \<and> same_groups g (pb_groups b) \<and> evaluation_ok cfg T s (pb_revision b) k (w, g, st))"

fun restoration_ok :: "(point_batch \<Rightarrow> bool) \<Rightarrow> restoration \<Rightarrow> bool" where
  "restoration_ok P (Restore_Batch (Some b)) \<longleftrightarrow> P b"
| "restoration_ok P x \<longleftrightarrow> True"

definition batches_ok :: "service_config \<Rightarrow> int \<Rightarrow> batch_state \<Rightarrow> bool" where
  "batches_ok cfg T s \<longleftrightarrow> (store_step (sc_digest cfg) T)\<^sup>*\<^sup>* empty_access_db (sv_db (bt_service s))
     \<and> pred_option (batch_ok cfg T (bt_service s)) (bt_batch s)
     \<and> list_all (restoration_ok (batch_ok cfg T (bt_service s))) (bt_entered s)"

text \<open>
  The histories of batches: the store and the clock move on, batches and prefetches are
  entered, successfully or not, and left.
\<close>

definition moves_on :: "service_config \<Rightarrow> int \<Rightarrow> service_state \<Rightarrow> service_state \<Rightarrow> bool" where
  "moves_on cfg T s t \<longleftrightarrow> (store_step (sc_digest cfg) T)\<^sup>*\<^sup>* (sv_db s) (sv_db t) \<and> sv_clock_reads s \<le> sv_clock_reads t"

inductive batch_step :: "service_config \<Rightarrow> int \<Rightarrow> batch_state \<Rightarrow> batch_state \<Rightarrow> bool" for cfg :: service_config and T :: int where
  elsewhere: "moves_on cfg T (bt_service s) u \<Longrightarrow> batch_step cfg T s (s\<lparr>bt_service := u\<rparr>)"
| open_batch: "batch_step cfg T s (snd (enter_point_batch env context p s))"
| prefetch: "\<forall>r \<in> set rs. resource_ok r \<Longrightarrow> batch_step cfg T s (snd (enter_prefetch cfg env context connection p rs observed s))"
| leave_block: "batch_step cfg T s (snd (leave s))"

lemma evaluation_ok_on:
  assumes "evaluation_ok cfg T s v k e" and "moves_on cfg T s t"
  shows "evaluation_ok cfg T t v k e"
proof -
  obtain w g st where e: "e = (w, g, st)" by (cases e)
  from assms(1) obtain d n rs where d: "(store_step (sc_digest cfg) T)\<^sup>*\<^sup>* empty_access_db d"
    "(store_step (sc_digest cfg) T)\<^sup>*\<^sup>* d (sv_db s)" and n: "n < sv_clock_reads s"
    and rest: "(\<forall>r \<in> set rs. resource_ok r) \<and> k \<in> resource_key ` set rs \<and> (v = None \<or> v = Some (Revision (revision_number d)))
       \<and> st = snapshot_of (sc_digest cfg) (w # g) (sc_clock cfg n) (filter (\<lambda>r. re_type r = ARTIFACT) rs) None (Some rs) (the (policy_content d))"
    unfolding e evaluation_ok_def prod.case by blast
  have "(store_step (sc_digest cfg) T)\<^sup>*\<^sup>* d (sv_db t)" "n < sv_clock_reads t"
    using d(2) n assms(2) by (auto simp: moves_on_def)
  then show ?thesis using d(1) rest unfolding e evaluation_ok_def prod.case by blast
qed

lemma batch_ok_on: "batch_ok cfg T s b \<Longrightarrow> moves_on cfg T s t \<Longrightarrow> batch_ok cfg T t b"
  unfolding batch_ok_def using evaluation_ok_on by blast

lemma restoration_ok_mono: "restoration_ok P x \<Longrightarrow> (\<And>b. P b \<Longrightarrow> Q b) \<Longrightarrow> restoration_ok Q x"
  by (cases "(P, x)" rule: restoration_ok.cases) auto

lemma batches_ok_on:
  assumes "batches_ok cfg T s" and "moves_on cfg T (bt_service s) u"
  shows "batches_ok cfg T (s\<lparr>bt_service := u\<rparr>)"
proof -
  have "batch_ok cfg T u b" if "batch_ok cfg T (bt_service s) b" for b using batch_ok_on that assms(2) .
  then show ?thesis
    using assms unfolding batches_ok_def moves_on_def
    by (auto simp: list_all_iff pred_option_def intro: rtranclp_trans restoration_ok_mono)
qed

lemma moves_on_refl [simp]: "moves_on cfg T s s"
  by (simp add: moves_on_def)

lemma batch_ok_fields [simp]:
  "batch_ok cfg T s (b\<lparr>pb_connection := c, pb_resource_keys := ks\<rparr>) = batch_ok cfg T s b"
  "batch_ok cfg T s (fresh_batch env context who)"
  by (simp_all add: batch_ok_def fresh_batch_def)

lemma batch_ok_at_revision: "batch_ok cfg T s b \<Longrightarrow> batch_ok cfg T s (at_revision v b)"
  by (cases "pb_revision b = Some v") (simp_all add: at_revision_def batch_ok_def)

text \<open>The keys and values of the selection are those of the resources.\<close>

lemma selected_in: "r \<in> set (selected_resources rs) \<Longrightarrow> r \<in> set rs"
proof -
  assume "r \<in> set (selected_resources rs)"
  then obtain k where "map_of (rev (map (\<lambda>r. (resource_key r, r)) rs)) k = Some r"
    by (auto simp: selected_resources_def set_map_filter_some)
  from map_of_SomeD [OF this] show "r \<in> set rs" by auto
qed

lemma selected_keys: "resource_key ` set (selected_resources rs) = resource_key ` set rs"
proof
  show "resource_key ` set (selected_resources rs) \<subseteq> resource_key ` set rs" using selected_in by blast
  show "resource_key ` set rs \<subseteq> resource_key ` set (selected_resources rs)"
  proof
    fix k assume k: "k \<in> resource_key ` set rs"
    then have "map_of (rev (map (\<lambda>r. (resource_key r, r)) rs)) k \<noteq> None"
      by (auto simp: map_of_eq_None_iff image_image)
    then obtain r where r: "map_of (rev (map (\<lambda>r. (resource_key r, r)) rs)) k = Some r" by blast
    from map_of_SomeD [OF this] have "k = resource_key r" by auto
    moreover from r k have "r \<in> set (selected_resources rs)"
      by (auto simp: selected_resources_def set_map_filter_some)
    ultimately show "k \<in> resource_key ` set (selected_resources rs)" by blast
  qed
qed

lemma fold_evaluations:
  "fold (\<lambda>r m. m(resource_key r \<mapsto> e)) rs m k = (if k \<in> resource_key ` set rs then Some e else m k)"
  by (induction rs arbitrary: m) auto

section \<open>Every history keeps batches valid\<close>

lemma on_service_run [simp, exec_simps]: "on_service m s = (fst (m (bt_service s)), s\<lparr>bt_service := snd (m (bt_service s))\<rparr>)"
  by (simp add: on_service_def split: prod.split)

lemma batch_effects [simp, exec_simps]:
  "set_batch b s = (Inr (), s\<lparr>bt_batch := b\<rparr>)" "entered x s = (Inr (), s\<lparr>bt_entered := x # bt_entered s\<rparr>)"
  "refuse_batch s = (Inr False, s\<lparr>bt_entered := Restore_Nothing # bt_entered s\<rparr>)"
  by (simp_all add: set_batch_def entered_def refuse_batch_def andThen_run)

definition prepared :: "service_config \<Rightarrow> subject \<Rightarrow> subject list \<Rightarrow> resource_ref list \<Rightarrow> service_state \<Rightarrow> evaluation" where
  "prepared cfg who groups rs s = (who, groups, snapshot_of (sc_digest cfg) (who # groups)
     (sc_clock cfg (sv_clock_reads s)) (filter (\<lambda>r. re_type r = ARTIFACT) rs) None (Some rs) (the (policy_content (sv_db s))))"

lemma prepare_run:
  "prepare_point_decisions cfg who groups rs s = (Inr (prepared cfg who groups rs s), s\<lparr>sv_clock_reads := sv_clock_reads s + 1\<rparr>)"
  by (simp add: prepare_point_decisions_def prepared_def bind_run point_state_run)

lemma same_groups_sym: "same_groups gs hs \<Longrightarrow> same_groups hs gs"
  unfolding same_groups_def by (induction rule: list_all2_induct) (auto simp: same_subject_def)

lemma same_groups_refl [simp]: "same_groups gs gs"
  by (simp add: same_groups_def list_all2_same same_subject_def)

lemma same_groups_trans: "same_groups gs hs \<Longrightarrow> same_groups hs ks \<Longrightarrow> same_groups gs ks"
  unfolding same_groups_def using list_all2_trans [of same_subject same_subject same_subject gs hs ks] same_subject_trans by blast

text \<open>The batch and the service state after it was completed for a selection.\<close>

definition completed :: "service_config \<Rightarrow> audit_context \<Rightarrow> subject \<Rightarrow> resource_ref list \<Rightarrow> service_state \<Rightarrow> point_batch \<Rightarrow> point_batch" where
  "completed cfg context who selected s b =
     (if missing_resources b selected = [] then b
      else add_evaluations (missing_resources b selected)
        (prepared cfg who (cx_subject_groups context) (missing_resources b selected) s) b)"

definition after_completing :: "resource_ref list \<Rightarrow> service_state \<Rightarrow> point_batch \<Rightarrow> service_state" where
  "after_completing selected s b = (if missing_resources b selected = [] then s else s\<lparr>sv_clock_reads := sv_clock_reads s + 1\<rparr>)"

lemma admit_run:
  "admit_batch cfg context connection who selected restored b s = (Inr True, s\<lparr>bt_service := after_completing selected (bt_service s) b,
     bt_batch := Some (completed cfg context who selected (bt_service s) b\<lparr>pb_connection := Some connection, pb_resource_keys := map resource_key selected\<rparr>),
     bt_entered := restored # bt_entered s\<rparr>)"
  by (simp add: admit_batch_def completed_def after_completing_def bind_run andThen_run prepare_run)

lemma after_completing_moves [simp]: "moves_on cfg T s (after_completing selected s b)"
  "sv_db (after_completing selected s b) = sv_db s"
  by (simp_all add: after_completing_def moves_on_def)

lemma completed_ok:
  assumes reach: "(store_step (sc_digest cfg) T)\<^sup>*\<^sup>* empty_access_db (sv_db s)" and b: "batch_ok cfg T s b"
    and who: "same_subject who (pb_subject b)" "same_groups (cx_subject_groups context) (pb_groups b)"
    and rs: "\<forall>r \<in> set selected. resource_ok r"
    and v: "missing_resources b selected \<noteq> [] \<Longrightarrow> pb_revision b = None \<or> pb_revision b = Some (Revision (revision_number (sv_db s)))"
  shows "batch_ok cfg T (after_completing selected s b) (completed cfg context who selected s b)"
proof (cases "missing_resources b selected = []")
  case True
  with b show ?thesis by (simp add: completed_def after_completing_def)
next
  case False
  let ?m = "missing_resources b selected" and ?t = "s\<lparr>sv_clock_reads := sv_clock_reads s + 1\<rparr>"
  have "moves_on cfg T s ?t" by (simp add: moves_on_def)
  with b have kept: "batch_ok cfg T ?t b" by (rule batch_ok_on)
  have new: "evaluation_ok cfg T ?t (pb_revision b) k (prepared cfg who (cx_subject_groups context) ?m s)"
    if "k \<in> resource_key ` set ?m" for k
    unfolding evaluation_ok_def prepared_def prod.case
    using that reach v [OF False] rs
    by (intro exI [of _ "sv_db s"] exI [of _ "sv_clock_reads s"] exI [of _ ?m]) (auto simp: missing_resources_def)
  show ?thesis
    using False kept new who
    by (simp add: completed_def after_completing_def prepared_def batch_ok_def add_evaluations_def fold_evaluations)
qed

lemma admit_ok:
  assumes s: "batches_ok cfg T s" and b: "batch_ok cfg T (bt_service s) b" and x: "restoration_ok (batch_ok cfg T (bt_service s)) restored"
    and who: "same_subject who (pb_subject b)" "same_groups (cx_subject_groups context) (pb_groups b)"
    and rs: "\<forall>r \<in> set selected. resource_ok r"
    and v: "missing_resources b selected \<noteq> [] \<Longrightarrow> pb_revision b = None \<or> pb_revision b = Some (Revision (revision_number (sv_db (bt_service s))))"
  shows "batches_ok cfg T (snd (admit_batch cfg context connection who selected restored b s))"
proof -
  let ?u = "after_completing selected (bt_service s) b"
  have reach: "(store_step (sc_digest cfg) T)\<^sup>*\<^sup>* empty_access_db (sv_db (bt_service s))" using s by (simp add: batches_ok_def)
  have mono: "batch_ok cfg T ?u c" if "batch_ok cfg T (bt_service s) c" for c using that by (rule batch_ok_on) simp
  show ?thesis
    using batches_ok_on [OF s after_completing_moves(1) [of cfg T "bt_service s" selected b]] completed_ok [OF reach b who rs v] x
      restoration_ok_mono [OF x mono]
    by (simp add: admit_run batches_ok_def)
qed

lemma belongs_subject: "belongs env context who b \<Longrightarrow> same_subject who (pb_subject b) \<and> same_groups (cx_subject_groups context) (pb_groups b)"
  by (auto simp: belongs_def same_subject_def dest: same_groups_sym)

lemma belongs_fresh [simp]: "belongs env context who (fresh_batch env context who)"
  by (simp add: belongs_def fresh_batch_def same_subject_def)

lemma belongs_at_revision [simp]: "belongs env context who (at_revision v b) = belongs env context who b"
  by (simp add: belongs_def at_revision_def)

lemma revision_at_revision [simp]: "pb_revision (at_revision v b) = Some v"
  by (simp add: at_revision_def)

text \<open>How a prefetch is entered: not at all, or by completing one of three batches.\<close>

lemma enter_prefetch_cases:
  assumes "enter_prefetch cfg env context connection p rs observed s = (x, t)"
  obtains (refused) "x \<noteq> Inr True" "t = s \<or> t = s\<lparr>bt_entered := Restore_Nothing # bt_entered s\<rparr>"
  | (admitted) who b u restored where "p = Some who" "be_local_provider env" "be_bound_connection env = Some connection"
      "belongs env context who b" "(x, t) = admit_batch cfg context connection who (selected_resources rs) restored b u"
      "(u = s \<and> b = fresh_batch env context who \<and> restored = Restore_Batch (bt_batch s) \<and> observed = None)
       \<or> (\<exists>v c ks. u = s \<and> bt_batch s = Some b \<and> observed = Some v \<and> pb_revision b = Some v
            \<and> missing_resources b (selected_resources rs) = [] \<and> restored = Restore_Fields c ks)
       \<or> (\<exists>b' v c ks. bt_batch s = Some b' \<and> v = Revision (revision_number (sv_db (bt_service s))) \<and> b = at_revision v b'
            \<and> u = s\<lparr>bt_batch := Some b\<rparr> \<and> restored = Restore_Fields c ks \<and> observed = None)"
proof (cases "\<not> be_local_provider env \<or> \<not> be_relational env \<or> be_bound_connection env \<noteq> Some connection \<or> be_dialect env \<notin> {''sqlite'', ''mysql''} \<or> rs = []
    \<or> observed = None \<and> be_dialect env = ''sqlite'' \<and> \<not> be_in_transaction env \<or> p = None")
  case True
  with assms show ?thesis
    by (intro refused) (auto simp: enter_prefetch_def bind_run required_principal_def split: if_splits)
next
  case False
  then obtain who where p: "p = Some who" by auto
  define matching where "matching = (case bt_batch s of None \<Rightarrow> None | Some b \<Rightarrow> if belongs env context who b then Some b else None)"
  have matching: "bt_batch s = Some b \<and> belongs env context who b" if "matching = Some b" for b
    using that by (auto simp: matching_def split: option.splits if_splits)
  let ?selected = "selected_resources rs" and ?v = "Revision (revision_number (sv_db (bt_service s)))"
  have run: "(x, t) = (case observed of
       Some v \<Rightarrow> (case matching of
           None \<Rightarrow> refuse_batch
         | Some b \<Rightarrow> if pb_revision b \<noteq> Some v \<or> missing_resources b ?selected \<noteq> [] then refuse_batch
             else admit_batch cfg context connection who ?selected (Restore_Fields (pb_connection b) (pb_resource_keys b)) b) s
     | None \<Rightarrow> (case matching of
           None \<Rightarrow> admit_batch cfg context connection who ?selected (Restore_Batch (bt_batch s)) (fresh_batch env context who) s
         | Some b \<Rightarrow> admit_batch cfg context connection who ?selected (Restore_Fields (pb_connection b) (pb_resource_keys b)) (at_revision ?v b)
             (s\<lparr>bt_batch := Some (at_revision ?v b)\<rparr>)))"
    using False assms p unfolding enter_prefetch_def matching_def [symmetric]
    by (auto simp: bind_run andThen_run required_principal_def Let_def matching_def [symmetric] split: option.splits if_splits)
  have local: "be_local_provider env" "be_bound_connection env = Some connection" using False by auto
  show ?thesis
  proof (cases observed)
    case None
    show ?thesis
    proof (cases matching)
      case matched: (Some b)
      from matching [OF this] show ?thesis
        using run None matched p local by (intro admitted [of who "at_revision ?v b"]) auto
    qed (use run None p local in \<open>intro admitted [of who "fresh_batch env context who" "Restore_Batch (bt_batch s)" s]; simp\<close>)
  next
    case (Some v)
    show ?thesis
    proof (cases "\<exists>b. matching = Some b \<and> pb_revision b = Some v \<and> missing_resources b ?selected = []")
      case True
      then obtain b where b: "matching = Some b" "pb_revision b = Some v" "missing_resources b ?selected = []" by blast
      from matching [OF b(1)] show ?thesis
        using run Some b p local by (intro admitted [of who b]) auto
    next
      case False
      with run Some show ?thesis by (intro refused) (auto split: option.splits if_splits)
    qed
  qed
qed

lemma enter_prefetch_ok:
  assumes s: "batches_ok cfg T s" and rs: "\<forall>r \<in> set rs. resource_ok r"
  shows "batches_ok cfg T (snd (enter_prefetch cfg env context connection p rs observed s))"
proof (cases "enter_prefetch cfg env context connection p rs observed s")
  case (Pair x t)
  have selected: "\<forall>r \<in> set (selected_resources rs). resource_ok r" using rs selected_in by blast
  from Pair have "batches_ok cfg T t"
  proof (cases rule: enter_prefetch_cases)
    case refused
    with s show ?thesis by (auto simp: batches_ok_def)
  next
    case (admitted who b u restored)
    have b: "batch_ok cfg T (bt_service s) b" and u: "bt_service u = bt_service s" "batches_ok cfg T u"
      and x: "restoration_ok (batch_ok cfg T (bt_service s)) restored"
      using admitted(6) s by (auto simp: batches_ok_def intro: batch_ok_at_revision) (cases "bt_batch s"; simp)
    have "pb_revision b = None \<or> pb_revision b = Some (Revision (revision_number (sv_db (bt_service u))))"
      if "missing_resources b (selected_resources rs) \<noteq> []"
      using that admitted(6) by (auto simp: fresh_batch_def)
    from admit_ok [OF u(2) _ _ _ _ selected this] b x belongs_subject [OF admitted(4)]
    have "batches_ok cfg T (snd (admit_batch cfg context connection who (selected_resources rs) restored b u))" unfolding u(1) by blast
    then show ?thesis unfolding admitted(5) [symmetric] by simp
  qed
  with Pair show ?thesis by simp
qed

lemma leave_ok: "batches_ok cfg T s \<Longrightarrow> batches_ok cfg T (snd (leave s))"
  by (cases "bt_entered s") (auto simp: batches_ok_def leave_def bind_run pred_option_def split: restoration.splits option.splits)

lemma open_ok: "batches_ok cfg T s \<Longrightarrow> batches_ok cfg T (snd (enter_point_batch env context p s))"
  by (cases "bt_batch s")
     (auto simp: batches_ok_def enter_point_batch_def bind_run andThen_run required_principal_def split: option.splits)

lemma batch_step_ok: "batch_step cfg T s t \<Longrightarrow> batches_ok cfg T s \<Longrightarrow> batches_ok cfg T t"
  by (induction rule: batch_step.induct) (auto intro: batches_ok_on enter_prefetch_ok leave_ok open_ok)

lemma batch_run_ok: "(batch_step cfg T)\<^sup>*\<^sup>* s t \<Longrightarrow> batches_ok cfg T s \<Longrightarrow> batches_ok cfg T t"
  by (induction rule: rtranclp_induct) (auto intro: batch_step_ok)

section \<open>A prefetched decision is a fresh one\<close>

text \<open>After completion every selected resource has inputs of the present state of policy.\<close>

lemma completed_current:
  assumes u: "batches_ok cfg T u" and b: "batch_ok cfg T (bt_service u) b" and who: "belongs env context who b"
    and rs: "\<forall>r \<in> set selected. resource_ok r" and r: "r \<in> set selected"
    and v: "pb_evaluations b = Map.empty \<or> pb_revision b = Some (Revision (revision_number (sv_db (bt_service u))))"
  obtains w g n rs' where "pb_evaluations (completed cfg context who selected (bt_service u) b) (resource_key r) = Some (w, g,
      snapshot_of (sc_digest cfg) (w # g) (sc_clock cfg n) (filter (\<lambda>r. re_type r = ARTIFACT) rs') None (Some rs') (the (policy_content (sv_db (bt_service u)))))"
    and "same_subject w who" "same_groups g (cx_subject_groups context)" "n \<le> sv_clock_reads (bt_service u)" "r \<in> set rs'"
proof (cases "pb_evaluations b (resource_key r)")
  case None
  then have missing: "r \<in> set (missing_resources b selected)" using r by (simp add: missing_resources_def)
  then have "missing_resources b selected \<noteq> []" by (metis empty_iff empty_set)
  with missing show ?thesis
    by (intro that [of who "cx_subject_groups context" "sv_clock_reads (bt_service u)" "missing_resources b selected"])
       (auto simp: completed_def add_evaluations_def fold_evaluations prepared_def same_subject_def)
next
  case (Some e)
  obtain w g st where e: "e = (w, g, st)" by (cases e)
  let ?s = "bt_service u"
  from v Some have revision: "pb_revision b = Some (Revision (revision_number (sv_db ?s)))" by auto
  from b Some e have same: "same_subject w (pb_subject b)" "same_groups g (pb_groups b)"
    and "evaluation_ok cfg T ?s (pb_revision b) (resource_key r) (w, g, st)" by (auto simp: batch_ok_def)
  then obtain d n rs' where d: "(store_step (sc_digest cfg) T)\<^sup>*\<^sup>* empty_access_db d" "(store_step (sc_digest cfg) T)\<^sup>*\<^sup>* d (sv_db ?s)"
      "revision_number d = revision_number (sv_db ?s)"
    and rs': "n < sv_clock_reads ?s" "\<forall>r \<in> set rs'. resource_ok r" "resource_key r \<in> resource_key ` set rs'"
    and st: "st = snapshot_of (sc_digest cfg) (w # g) (sc_clock cfg n) (filter (\<lambda>r. re_type r = ARTIFACT) rs') None (Some rs') (the (policy_content d))"
    unfolding evaluation_ok_def prod.case revision by auto
  have content: "policy_content (sv_db ?s) = policy_content d"
    using policy.same_version_same_content [OF d(2) store_run_ok [OF d(1) access_ok_empty], of "revision_number d"
        "(ad_bindings d, filter is_artifact_owner (ad_owners d))" "(ad_bindings (sv_db ?s), filter is_artifact_owner (ad_owners (sv_db ?s)))"]
      d(3) by (simp add: policy_content_def)
  have "r \<in> set rs'" using rs' rs r resource_key_inject by blast
  moreover have "pb_evaluations (completed cfg context who selected ?s b) (resource_key r) = Some e"
    using Some by (auto simp: completed_def add_evaluations_def fold_evaluations missing_resources_def)
  ultimately show ?thesis
    using same who rs'(1) unfolding e st content [symmetric]
    by (intro that [of w g n rs']) (auto simp: belongs_def intro: same_groups_trans same_subject_trans)
qed

lemma completed_fields [simp]:
  "pb_subject (completed cfg context who selected s b) = pb_subject b" "pb_groups (completed cfg context who selected s b) = pb_groups b"
  "pb_task (completed cfg context who selected s b) = pb_task b"
  by (simp_all add: completed_def add_evaluations_def)

definition initial_batches :: batch_state where
  "initial_batches = \<lparr>bt_service = \<lparr>sv_db = empty_access_db, sv_clock_reads = 0, sv_uuids = 0, sv_deferred = None\<rparr>,
     bt_batch = None, bt_entered = []\<rparr>"

lemma initial_batches_ok: "batches_ok cfg T initial_batches"
  by (simp add: batches_ok_def initial_batches_def)

text \<open>
  C5: Prefetched decisions are not stale. Whatever happened to the store, the clock and the
  batches before, after a prefetch was admitted (at an observed revision only if it is the
  store's) a check of one of its resources is answered as a fresh check answers it, for as
  long as the state of policy stays: the decisions are equal, expiry at the time of the check
  included, and both read the clock once.
\<close>

theorem prefetched_decision_is_fresh:
  assumes "(batch_step cfg T)\<^sup>*\<^sup>* initial_batches s" and "mono (sc_clock cfg)"
    and "enter_prefetch cfg env context connection (Some who) rs observed s = (Inr True, t)"
    and "observed = None \<or> observed = Some (Revision (revision_number (sv_db (bt_service s))))"
    and "list_all resource_ok rs" and "r \<in> set rs" and "a \<noteq> ACCESS_SELF"
    and "policy_content (sv_db u) = policy_content (sv_db (bt_service t))" and "sv_clock_reads (bt_service t) \<le> sv_clock_reads u"
  shows "\<exists>d d'. point_decision cfg env context who a r (t\<lparr>bt_service := u\<rparr>) = (Inr d, t\<lparr>bt_service := u\<lparr>sv_clock_reads := sv_clock_reads u + 1\<rparr>\<rparr>)
     \<and> provider_check cfg \<lparr>ar_subject = who, ar_action = a, ar_resource = r, ar_groups = cx_subject_groups context\<rparr> u
       = (Inr d', u\<lparr>sv_clock_reads := sv_clock_reads u + 1\<rparr>)
     \<and> same_decision d d'"
proof -
  let ?selected = "selected_resources rs"
  have s: "batches_ok cfg T s" by (rule batch_run_ok [OF assms(1) initial_batches_ok])
  have rs: "\<forall>r \<in> set rs. resource_ok r" using assms(5) by (simp add: list_all_iff)
  then have selected: "\<forall>r \<in> set ?selected. resource_ok r" using selected_in by blast
  have "resource_key r \<in> resource_key ` set ?selected" unfolding selected_keys using assms(6) by simp
  then have r: "r \<in> set ?selected" using rs selected assms(6) resource_key_inject by blast
  from assms(3) show ?thesis
  proof (cases rule: enter_prefetch_cases)
    case (admitted who' b v restored)
    then have who: "who' = who" by simp
    have v: "bt_service v = bt_service s" "batches_ok cfg T v" "batch_ok cfg T (bt_service v) b"
      "pb_evaluations b = Map.empty \<or> pb_revision b = Some (Revision (revision_number (sv_db (bt_service v))))"
      using admitted(6) s assms(4) by (auto simp: batches_ok_def intro: batch_ok_at_revision, simp add: fresh_batch_def)
    let ?done = "completed cfg context who ?selected (bt_service v) b"
    from admitted(5) have t: "t = v\<lparr>bt_service := after_completing ?selected (bt_service v) b,
       bt_batch := Some (?done\<lparr>pb_connection := Some connection, pb_resource_keys := map resource_key ?selected\<rparr>),
       bt_entered := restored # bt_entered v\<rparr>" unfolding who by (simp add: admit_run)
    have content: "policy_content (sv_db u) = policy_content (sv_db (bt_service v))" using assms(8) by (simp add: t)
    obtain w g n rs' where eval: "pb_evaluations ?done (resource_key r) = Some (w, g,
        snapshot_of (sc_digest cfg) (w # g) (sc_clock cfg n) (filter (\<lambda>r. re_type r = ARTIFACT) rs') None (Some rs') (the (policy_content (sv_db u))))"
      and same: "same_subject w who" "same_groups g (cx_subject_groups context)" and n: "n \<le> sv_clock_reads (bt_service v)" and r': "r \<in> set rs'"
      using completed_current [OF v(2,3) admitted(4) selected r v(4)] unfolding who content .
    have later: "sc_clock cfg n \<le> sc_clock cfg (sv_clock_reads u)"
      using n assms(9) by (intro monoD [OF assms(2)]) (simp add: t after_completing_def split: if_splits)
    have ok: "access_ok (sc_digest cfg) T (sv_db (bt_service v))"
      using v(2) store_run_ok [OF _ access_ok_empty] by (simp add: batches_ok_def)
    have force: "in_force env context who r (?done\<lparr>pb_connection := Some connection, pb_resource_keys := map resource_key ?selected\<rparr>)"
      using admitted(2-4) r unfolding who by (auto simp: in_force_def belongs_def)
    let ?d = "decide (snapshot_of (sc_digest cfg) (w # g) (sc_clock cfg n) (filter (\<lambda>r. re_type r = ARTIFACT) rs') None (Some rs')
        (the (policy_content (sv_db u)))) w g (sc_clock cfg (sv_clock_reads u)) a r"
    let ?d' = "decide (snapshot_of (sc_digest cfg) (who # cx_subject_groups context) (sc_clock cfg (sv_clock_reads u))
        (filter (\<lambda>r. re_type r = ARTIFACT) [r]) None (Some [r]) (the (policy_content (sv_db u)))) who (cx_subject_groups context)
        (sc_clock cfg (sv_clock_reads u)) a r"
    have "point_decision cfg env context who a r (t\<lparr>bt_service := u\<rparr>)
      = (Inr ?d, t\<lparr>bt_service := u\<lparr>sv_clock_reads := sv_clock_reads u + 1\<rparr>\<rparr>)"
      using force eval assms(7) by (simp add: point_decision_def bind_run Let_def batched_decision_def evaluate_def t)
    moreover have "provider_check cfg \<lparr>ar_subject = who, ar_action = a, ar_resource = r, ar_groups = cx_subject_groups context\<rparr> u
      = (Inr ?d', u\<lparr>sv_clock_reads := sv_clock_reads u + 1\<rparr>)"
      by (simp add: provider_check_def provider_check_batch_def Let_def bind_run point_state_run same_subject_def)
    moreover have "same_decision ?d ?d'"
      unfolding content using rs assms(6) by (intro decide_same [OF ok _ r' _ same later order_refl]) auto
    ultimately show ?thesis by blast
  qed simp
qed

definition demo_environment :: batch_environment where
  "demo_environment = \<lparr>be_task = 0, be_local_provider = True, be_relational = True, be_bound_connection = Some 0,
     be_dialect = ''mysql'', be_in_transaction = True\<rparr>"

definition demo_before :: batch_state where
  "demo_before = initial_batches\<lparr>bt_service := demo_started\<rparr>"

definition demo_prefetched :: batch_state where
  "demo_prefetched = snd (enter_prefetch demo_config demo_environment demo_context 0 (Some (user ''ann'')) [server_resource ''d''] None demo_before)"

definition demo_later :: service_state where
  "demo_later = bt_service demo_prefetched\<lparr>sv_clock_reads := sv_clock_reads (bt_service demo_prefetched) + 7\<rparr>"

lemma prefetched_decision_is_fresh_witness:
  "\<exists>d d'. point_decision demo_config demo_environment demo_context (user ''ann'') SERVER_ADMIN (server_resource ''d'') (demo_prefetched\<lparr>bt_service := demo_later\<rparr>)
       = (Inr d, demo_prefetched\<lparr>bt_service := demo_later\<lparr>sv_clock_reads := sv_clock_reads demo_later + 1\<rparr>\<rparr>)
     \<and> provider_check demo_config \<lparr>ar_subject = user ''ann'', ar_action = SERVER_ADMIN, ar_resource = server_resource ''d'',
         ar_groups = cx_subject_groups demo_context\<rparr> demo_later
       = (Inr d', demo_later\<lparr>sv_clock_reads := sv_clock_reads demo_later + 1\<rparr>)
     \<and> same_decision d d'"
proof (rule prefetched_decision_is_fresh)
  have "resource_ok (server_resource ''d'')" by code_simp
  then show "list_all resource_ok [server_resource ''d'']" by simp
  then have "(store_step (sc_digest demo_config) 0)\<^sup>*\<^sup>* empty_access_db (sv_db (demo_state demo_admin))"
    by (intro demo_state_reachable) simp_all
  then have "moves_on demo_config 0 (bt_service initial_batches) demo_started"
    by (simp add: moves_on_def initial_batches_def)
  then show "(batch_step demo_config 0)\<^sup>*\<^sup>* initial_batches demo_before"
    unfolding demo_before_def by (intro r_into_rtranclp elsewhere)
  show "mono (sc_clock demo_config)" by (simp add: demo_config_def mono_def)
  show "enter_prefetch demo_config demo_environment demo_context 0 (Some (user ''ann'')) [server_resource ''d''] None demo_before = (Inr True, demo_prefetched)"
    by (simp add: demo_prefetched_def enter_prefetch_def demo_environment_def demo_before_def initial_batches_def bind_run
        required_principal_def Let_def admit_run)
  show "policy_content (sv_db demo_later) = policy_content (sv_db (bt_service demo_prefetched))"
    "sv_clock_reads (bt_service demo_prefetched) \<le> sv_clock_reads demo_later"
    by (simp_all add: demo_later_def)
qed simp_all

end
