(* ===== verification/Journal.thy ===== *)
theory Journal
  imports Intents
begin

text \<open>
  The Source journal, from
  \<^verbatim>\<open>src/src/powercontext/builtin/persistence/sources.py\<close>: every scope has an allocator of
  journal positions, a Source is captured once under its type and id, a replayed capture
  must be identical, and every new capture marks the processing intents of the scope dirty.

  A Source is told apart as far as the repository does: a content Source with its handoff
  witness, another native Source, or an observation; everything else in it is of type
  \<open>'v\<close>. The payload column holds the decoded Source or \<open>Corrupt\<close>; the header that a replay
  adds to a legacy payload does not change what the payload decodes to and is left out. What
  the registry of adapters says of a Source is an argument, and so is the registration of
  memory evidence, which writes a table nothing else here reads.

  The lemmas show that the positions of a scope are numbered without gap, that windows of
  the journal join, that a capture is stable under replay, and that no new capture is left
  without a dirty intent.
\<close>

section \<open>Sources and their table\<close>

datatype 'v captured = Content_Captured 'v bool | Native_Captured 'v | Observed 'v

type_synonym source_key = "string \<times> string"

record 'v source_row =
  so_scope_id :: string
  so_key :: source_key
  so_payload :: "'v captured payload"
  so_position :: int

record 'v stored_source =
  ss_ref :: source_key
  ss_value :: "'v captured"
  ss_position :: int

text \<open>
  \<open>rg_ref\<close> is the reference of a Source to encode, \<open>rg_decoded\<close> that of a decoded one in a row
  of this type; both fail when no adapter is registered.
\<close>

record 'v source_registry =
  rg_ref :: "'v captured \<Rightarrow> error + source_key"
  rg_decoded :: "string \<Rightarrow> 'v captured \<Rightarrow> error + source_key"

text \<open>
  \<open>jd_plugin_scopes\<close> is the column \<^verbatim>\<open>plugin_spec\<close> of the binding states: absent, or the
  scopes of its manifest, where no list is all of them.
\<close>

record ('v, 'e) journal_db =
  jd_db :: db
  jd_sources :: "'v source_row list"
  jd_evidence :: 'e
  jd_plugin_scopes :: "string \<Rightarrow> string list option option"

type_synonym ('v, 'e, 'a) journal = "(('v, 'e) journal_db, 'a) exec"

type_synonym ('v, 'e) evidence_binder = "string \<Rightarrow> source_key \<Rightarrow> 'v captured \<Rightarrow> 'e \<Rightarrow> error + 'e"

definition on_db :: "(db, 'a) exec \<Rightarrow> ('v, 'e, 'a) journal" where
  "on_db m = (\<lambda>s. case m (jd_db s) of (r, d) \<Rightarrow> (r, s\<lparr>jd_db := d\<rparr>))"

definition SOURCES_TABLE :: "(('v, 'e) journal_db, 'v source_row) sql_table" where
  "SOURCES_TABLE = \<lparr>
     rows_of = jd_sources, put_rows = (\<lambda>t s. s\<lparr>jd_sources := t\<rparr>),
     clash = (\<lambda>a b. so_scope_id a = so_scope_id b \<and> (so_key a = so_key b \<or> so_position a = so_position b)),
     admits = (\<lambda>_ _. True)\<rparr>"

definition source_at :: "string \<Rightarrow> source_key \<Rightarrow> 'v source_row \<Rightarrow> bool" where
  "source_at scope_id key r \<longleftrightarrow> so_scope_id r = scope_id \<and> so_key r = key"

section \<open>Decoding\<close>

definition decode_source :: "'v source_registry \<Rightarrow> 'v source_row \<Rightarrow> error + 'v stored_source" where
  "decode_source rg r = (case so_payload r of
     Corrupt \<Rightarrow> Inl (InvalidStoredPayload ''source'' (fst (so_key r)))
   | Canonical v \<Rightarrow> (case rg_decoded rg (fst (so_key r)) v of
         Inl e \<Rightarrow> Inl e
       | Inr key \<Rightarrow> if so_key r \<noteq> key then Inl (SourceIdentityMismatch (so_key r) key)
           else Inr \<lparr>ss_ref = so_key r, ss_value = v, ss_position = so_position r\<rparr>))"

text \<open>
  \<open>_existing_many\<close>: a missing adapter is reported as the missing Source. The keys are looked
  up 400 at a time.
\<close>

abbreviation (input) SOURCE_LOOKUP_KEYS_PER_STATEMENT :: nat where "SOURCE_LOOKUP_KEYS_PER_STATEMENT \<equiv> 400"

definition decode_existing :: "'v source_registry \<Rightarrow> string \<Rightarrow> 'v source_row \<Rightarrow> error + 'v stored_source" where
  "decode_existing rg scope_id r = (case decode_source rg r of
     Inl (RepositoryNotFound _ _ _) \<Rightarrow> Inl (RepositoryNotFound ''source'' [scope_id, fst (so_key r), snd (so_key r)] None)
   | x \<Rightarrow> x)"

fun lookup_batches :: "'v source_registry \<Rightarrow> string \<Rightarrow> source_key list list \<Rightarrow> ('v, 'e, 'v stored_source list) journal" where
  "lookup_batches rg scope_id [] = return []"
| "lookup_batches rg scope_id (ks # kss) =
     bind (sql_select SOURCES_TABLE (\<lambda>r. so_scope_id r = scope_id \<and> so_key r \<in> set ks)) (\<lambda>rows.
     bind (lift_result (each_result (decode_existing rg scope_id) rows)) (\<lambda>found.
     bind (lookup_batches rg scope_id kss) (\<lambda>others. return (found @ others))))"

definition stored_by_key :: "'v stored_source list \<Rightarrow> source_key \<Rightarrow> 'v stored_source option" where
  "stored_by_key xs = fold (\<lambda>x m. m(ss_ref x \<mapsto> x)) xs Map.empty"

definition existing_many :: "'v source_registry \<Rightarrow> string \<Rightarrow> source_key list \<Rightarrow> ('v, 'e, source_key \<Rightarrow> 'v stored_source option) journal" where
  "existing_many rg scope_id refs =
     bind (lookup_batches rg scope_id (batches SOURCE_LOOKUP_KEYS_PER_STATEMENT (from_keys refs))) (\<lambda>found.
     return (stored_by_key found))"

section \<open>Capturing\<close>

definition lock_journal_head :: "string \<Rightarrow> ('v, 'e, int) journal" where
  "lock_journal_head scope_id =
     andThen (on_db (sql_update SOURCE_JOURNAL_HEADS_TABLE (\<lambda>r. jh_scope_id r = scope_id) (\<lambda>r. r)))
    (bind (on_db (sql_scalar SOURCE_JOURNAL_HEADS_TABLE (\<lambda>r. jh_scope_id r = scope_id) jh_position)) (\<lambda>position.
     bind (if position = None
           then andThen (catch (on_db (sql_insert SOURCE_JOURNAL_HEADS_TABLE \<lparr>jh_scope_id = scope_id, jh_position = 0\<rparr>))
                  (\<lambda>e. e = IntegrityError) (\<lambda>_. return ()))
                (on_db (sql_scalar SOURCE_JOURNAL_HEADS_TABLE (\<lambda>r. jh_scope_id r = scope_id) jh_position))
           else return position) (\<lambda>position.
     case position of
       Some p \<Rightarrow> if p < 0 then raise (InvalidStoredColumn ''journal_position'' ''a non-negative scope head'') else return p
     | None \<Rightarrow> raise (InvalidStoredColumn ''journal_position'' ''a non-negative scope head''))))"

text \<open>The classification of a batch: what is new, what is a replay, what is an upgrade.\<close>

record 'v capture_batch =
  ba_position :: int
  ba_existing :: "source_key \<Rightarrow> 'v stored_source option"
  ba_results :: "('v stored_source \<times> bool) list"
  ba_new :: "'v stored_source list"
  ba_upgrades :: "(source_key \<times> 'v captured) list"

text \<open>A content Source may come back with the handoff witness it did not have.\<close>

definition is_upgrade :: "'v captured \<Rightarrow> 'v captured \<Rightarrow> bool" where
  "is_upgrade source stored \<longleftrightarrow> (case (source, stored) of
     (Content_Captured x True, Content_Captured y False) \<Rightarrow> x = y | _ \<Rightarrow> False)"

fun classify_sources :: "string \<Rightarrow> ('v captured \<times> source_key) list \<Rightarrow> 'v capture_batch \<Rightarrow> error + 'v capture_batch" where
  "classify_sources scope_id [] b = Inr b"
| "classify_sources scope_id ((source, key) # prepared) b = (case ba_existing b key of
     Some stored \<Rightarrow>
       if is_upgrade source (ss_value stored)
       then (let stored' = \<lparr>ss_ref = key, ss_value = source, ss_position = ss_position stored\<rparr> in
         classify_sources scope_id prepared (b\<lparr>ba_existing := (ba_existing b)(key \<mapsto> stored'),
           ba_upgrades := ba_upgrades b @ [(key, source)], ba_results := ba_results b @ [(stored', False)]\<rparr>))
       else if ss_value stored \<noteq> source then Inl (StoredPayloadConflict ''source'' [scope_id, fst key, snd key] None)
       else classify_sources scope_id prepared (b\<lparr>ba_results := ba_results b @ [(stored, False)]\<rparr>)
   | None \<Rightarrow>
       (let position = ba_position b + 1; stored = \<lparr>ss_ref = key, ss_value = source, ss_position = position\<rparr> in
        classify_sources scope_id prepared (b\<lparr>ba_position := position, ba_existing := (ba_existing b)(key \<mapsto> stored),
          ba_new := ba_new b @ [stored], ba_results := ba_results b @ [(stored, True)]\<rparr>)))"

definition source_row_of :: "string \<Rightarrow> 'v stored_source \<Rightarrow> 'v source_row" where
  "source_row_of scope_id x = \<lparr>so_scope_id = scope_id, so_key = ss_ref x, so_payload = Canonical (ss_value x), so_position = ss_position x\<rparr>"

definition bind_memory_evidence :: "('v, 'e) evidence_binder \<Rightarrow> string \<Rightarrow> 'v stored_source \<Rightarrow> ('v, 'e, unit) journal" where
  "bind_memory_evidence bd scope_id x = bind (gets jd_evidence) (\<lambda>e.
     bind (lift_result (bd scope_id (ss_ref x) (ss_value x) e)) (\<lambda>e'. (\<lambda>s. (Inr (), s\<lparr>jd_evidence := e'\<rparr>))))"

definition SOURCE_PROCESSING_BINDINGS :: "string list" where
  "SOURCE_PROCESSING_BINDINGS = [''memory-source-window'', ''topic-memory-source-window'', ''experience-incubation'', ''profile-source-window'']"

definition mark_custom_bindings_dirty :: "string \<Rightarrow> int \<Rightarrow> ('v, 'e, unit) journal" where
  "mark_custom_bindings_dirty scope_id increment = bind (gets (\<lambda>s.
       [bs_binding_name r. r \<leftarrow> binding_states (jd_db s), case jd_plugin_scopes s (bs_binding_name r) of
          None \<Rightarrow> False | Some None \<Rightarrow> True | Some (Some scopes) \<Rightarrow> scope_id \<in> set scopes])) (\<lambda>bindings.
     on_db (mark_dirty_many scope_id bindings increment))"

definition store_batch :: "('v, 'e) evidence_binder \<Rightarrow> string \<Rightarrow> 'v capture_batch \<Rightarrow> ('v, 'e, ('v stored_source \<times> bool) list) journal" where
  "store_batch bd scope_id b =
     andThen (if ba_new b = [] then return () else
         andThen (on_db (sql_update SOURCE_JOURNAL_HEADS_TABLE (\<lambda>r. jh_scope_id r = scope_id) (\<lambda>r. r\<lparr>jh_position := ba_position b\<rparr>)))
        (andThen (for_each (map (source_row_of scope_id) (ba_new b)) (sql_insert SOURCES_TABLE))
         (for_each (ba_new b) (bind_memory_evidence bd scope_id))))
    (andThen (for_each (ba_upgrades b) (\<lambda>(key, source).
         andThen (sql_update SOURCES_TABLE (source_at scope_id key) (\<lambda>r. r\<lparr>so_payload := Canonical source\<rparr>)) (return ())))
    (andThen (if ba_new b = [] then return () else
         andThen (on_db (mark_dirty_many scope_id SOURCE_PROCESSING_BINDINGS (int (length (ba_new b)))))
           (mark_custom_bindings_dirty scope_id (int (length (ba_new b)))))
     (return (ba_results b))))"

definition add_many_with_status ::
  "'v source_registry \<Rightarrow> ('v, 'e) evidence_binder \<Rightarrow> string \<Rightarrow> 'v captured list \<Rightarrow> ('v, 'e, ('v stored_source \<times> bool) list) journal" where
  "add_many_with_status rg bd scope_id sources =
     (if sources = [] then return []
      else andThen (require_identifier ''scope_id'' scope_id MAX_SCOPE_ID_LENGTH)
       (bind (lift_result (each_result (\<lambda>source. map_sum id (Pair source) (rg_ref rg source)) sources)) (\<lambda>prepared.
        bind (lock_journal_head scope_id) (\<lambda>position.
        bind (existing_many rg scope_id (map snd prepared)) (\<lambda>existing.
        bind (lift_result (classify_sources scope_id prepared \<lparr>ba_position = position, ba_existing = existing,
          ba_results = [], ba_new = [], ba_upgrades = []\<rparr>)) (store_batch bd scope_id))))))"

definition add_with_status ::
  "'v source_registry \<Rightarrow> ('v, 'e) evidence_binder \<Rightarrow> string \<Rightarrow> 'v captured \<Rightarrow> ('v, 'e, 'v stored_source \<times> bool) journal" where
  "add_with_status rg bd scope_id source = bind (add_many_with_status rg bd scope_id [source]) (\<lambda>xs. return (hd xs))"

definition add_source ::
  "'v source_registry \<Rightarrow> ('v, 'e) evidence_binder \<Rightarrow> string \<Rightarrow> 'v captured \<Rightarrow> ('v, 'e, 'v stored_source) journal" where
  "add_source rg bd scope_id source = bind (add_with_status rg bd scope_id source) (\<lambda>x. return (fst x))"

section \<open>Reading\<close>

definition source_get :: "'v source_registry \<Rightarrow> string \<Rightarrow> source_key \<Rightarrow> ('v, 'e, 'v stored_source) journal" where
  "source_get rg scope_id key = andThen (require_identifier ''scope_id'' scope_id MAX_SCOPE_ID_LENGTH)
     (bind (sql_one_or_none SOURCES_TABLE (source_at scope_id key)) (\<lambda>row. case row of
        None \<Rightarrow> raise (RepositoryNotFound ''source'' [scope_id, fst key, snd key] None)
      | Some r \<Rightarrow> lift_result (decode_source rg r)))"

definition source_get_many :: "'v source_registry \<Rightarrow> string \<Rightarrow> source_key list \<Rightarrow> ('v, 'e, 'v stored_source list) journal" where
  "source_get_many rg scope_id refs = andThen (require_identifier ''scope_id'' scope_id MAX_SCOPE_ID_LENGTH)
     (let ordered = from_keys refs in
      if ordered = [] then return []
      else bind (existing_many rg scope_id ordered) (\<lambda>decoded. lift_result (each_result (\<lambda>key. case decoded key of
          None \<Rightarrow> Inl (RepositoryNotFound ''source'' [scope_id, fst key, snd key] None) | Some x \<Rightarrow> Inr x) ordered)))"

definition in_window :: "string \<Rightarrow> int \<Rightarrow> int option \<Rightarrow> 'v source_row \<Rightarrow> bool" where
  "in_window scope_id after through r \<longleftrightarrow> so_scope_id r = scope_id \<and> after < so_position r
     \<and> (case through of None \<Rightarrow> True | Some t \<Rightarrow> so_position r \<le> t)"

definition require_window :: "int \<Rightarrow> int option \<Rightarrow> ('s, unit) exec" where
  "require_window after through = andThen (require (0 \<le> after) (InvalidRepositoryArgument ''after'' ''must be non-negative''))
     (require (case through of None \<Rightarrow> True | Some t \<Rightarrow> after \<le> t) (InvalidRepositoryArgument ''through'' ''must not precede after''))"

definition list_window :: "'v source_registry \<Rightarrow> string \<Rightarrow> int \<Rightarrow> int \<Rightarrow> ('v, 'e, 'v stored_source list) journal" where
  "list_window rg scope_id after through = andThen (require_identifier ''scope_id'' scope_id MAX_SCOPE_ID_LENGTH)
    (andThen (require_window after (Some through))
    (bind (sql_select SOURCES_TABLE (in_window scope_id after (Some through))) (\<lambda>rows.
     lift_result (each_result (decode_source rg) (sort_key so_position rows)))))"

text \<open>A stream is the list of what it yields; a row that does not decode ends it with its error.\<close>

definition iter_list ::
  "'v source_registry \<Rightarrow> string \<Rightarrow> int \<Rightarrow> int option \<Rightarrow> int option \<Rightarrow> string option \<Rightarrow> string list option \<Rightarrow>
     ('v, 'e, 'v stored_source list) journal" where
  "iter_list rg scope_id after through limit source_type source_types =
     andThen (require_identifier ''scope_id'' scope_id MAX_SCOPE_ID_LENGTH)
    (andThen (require (0 \<le> after) (InvalidRepositoryArgument ''after'' ''must be non-negative''))
    (andThen (require (case limit of None \<Rightarrow> True | Some l \<Rightarrow> 1 \<le> l) (InvalidRepositoryArgument ''limit'' ''must be positive''))
    (andThen (require (case through of None \<Rightarrow> True | Some t \<Rightarrow> after \<le> t) (InvalidRepositoryArgument ''through'' ''must not precede after''))
    (bind (sql_select SOURCES_TABLE (\<lambda>r. in_window scope_id after through r
        \<and> (case source_type of None \<Rightarrow> True | Some t \<Rightarrow> fst (so_key r) = t)
        \<and> (case source_types of None \<Rightarrow> True | Some ts \<Rightarrow> fst (so_key r) \<in> set ts))) (\<lambda>rows.
     lift_result (each_result (decode_source rg)
       (case limit of None \<Rightarrow> sort_key so_position rows | Some l \<Rightarrow> take (nat l) (sort_key so_position rows))))))))"

definition source_list ::
  "'v source_registry \<Rightarrow> string \<Rightarrow> int \<Rightarrow> int option \<Rightarrow> int option \<Rightarrow> string option \<Rightarrow> ('v, 'e, 'v stored_source list) journal" where
  "source_list rg scope_id after through limit source_type = iter_list rg scope_id after through limit source_type None"

definition journal_position :: "string \<Rightarrow> ('v, 'e, int) journal" where
  "journal_position scope_id = andThen (require_identifier ''scope_id'' scope_id MAX_SCOPE_ID_LENGTH)
     (bind (sql_select SOURCES_TABLE (\<lambda>r. so_scope_id r = scope_id)) (\<lambda>rows.
      return (if rows = [] then 0 else Max (set (map so_position rows)))))"

section \<open>The state of a journal\<close>

interpretation sources_t: stored_table SOURCES_TABLE
  by unfold_locales (auto simp: SOURCES_TABLE_def)

lemma sources_handle [simp]: "rows_of SOURCES_TABLE = jd_sources" "put_rows SOURCES_TABLE t s = s\<lparr>jd_sources := t\<rparr>"
  by (simp_all add: SOURCES_TABLE_def)

lemma sources_ok_frame [simp]:
  "table_ok SOURCES_TABLE (s\<lparr>jd_db := d\<rparr>) = table_ok SOURCES_TABLE s"
  "table_ok SOURCES_TABLE (s\<lparr>jd_evidence := e\<rparr>) = table_ok SOURCES_TABLE s"
  "table_ok SOURCES_TABLE (s\<lparr>jd_plugin_scopes := p\<rparr>) = table_ok SOURCES_TABLE s"
  by (simp_all add: table_ok_def) (simp_all add: SOURCES_TABLE_def)

lemma on_db_run [simp, exec_simps]: "on_db m s = (fst (m (jd_db s)), s\<lparr>jd_db := snd (m (jd_db s))\<rparr>)"
  by (simp add: on_db_def split: prod.split)

definition head_at :: "('v, 'e) journal_db \<Rightarrow> string \<Rightarrow> int" where
  "head_at s i = (case lookup_row SOURCE_JOURNAL_HEADS_TABLE jh_scope_id (jd_db s) i of None \<Rightarrow> 0 | Some r \<Rightarrow> jh_position r)"

definition scope_rows :: "'v source_row list \<Rightarrow> string \<Rightarrow> 'v source_row list" where
  "scope_rows rows i = filter (\<lambda>r. so_scope_id r = i) rows"

text \<open>Every row holds a Source under the reference the registry gives it.\<close>

definition encoded_row :: "'v source_registry \<Rightarrow> 'v source_row \<Rightarrow> bool" where
  "encoded_row rg r \<longleftrightarrow> (\<exists>v. so_payload r = Canonical v \<and> rg_ref rg v = Inr (so_key r))"

definition journal_ok :: "'v source_registry \<Rightarrow> ('v, 'e) journal_db \<Rightarrow> bool" where
  "journal_ok rg s \<longleftrightarrow> intents_env (jd_db s) \<and> table_ok SOURCE_JOURNAL_HEADS_TABLE (jd_db s)
     \<and> table_ok SOURCES_TABLE s \<and> (\<forall>i. map so_position (scope_rows (jd_sources s) i) = [1..head_at s i])
     \<and> (\<forall>r \<in> set (jd_sources s). encoded_row rg r)"

lemma journal_ok_positions: "journal_ok rg s \<Longrightarrow> map so_position (scope_rows (jd_sources s) i) = [1..head_at s i]"
  by (simp add: journal_ok_def)

lemma sources_distinct:
  assumes "table_ok SOURCES_TABLE s"
  shows "distinct (map so_key (scope_rows (jd_sources s) i))"
proof -
  have "sorted_wrt (\<lambda>a b. so_scope_id a = so_scope_id b \<longrightarrow> so_key a \<noteq> so_key b) (scope_rows (jd_sources s) i)"
    using assms by (auto simp: table_ok_def clash_free_def scope_rows_def SOURCES_TABLE_def
        intro!: sorted_wrt_filter elim: sorted_wrt_mono_rel [rotated])
  then have "sorted_wrt (\<lambda>a b. so_key a \<noteq> so_key b) (scope_rows (jd_sources s) i)"
    by (rule sorted_wrt_mono_rel [rotated]) (auto simp: scope_rows_def)
  moreover have "sorted_wrt (\<lambda>a b. so_key a \<noteq> so_key b) rows \<Longrightarrow> distinct (map so_key rows)" for rows :: "'a source_row list"
    by (induction rows) auto
  ultimately show ?thesis by blast
qed

lemma head_nonneg: "journal_ok rg s \<Longrightarrow> 0 \<le> head_at s i"
  using journal_heads_t.lookup_admits [of "jd_db s" i]
  by (auto simp: journal_ok_def head_at_def handle_admits split: option.split)

lemma position_range:
  assumes "journal_ok rg s" and "r \<in> set (jd_sources s)"
  shows "1 \<le> so_position r \<and> so_position r \<le> head_at s (so_scope_id r)"
proof -
  have "so_position r \<in> set (map so_position (scope_rows (jd_sources s) (so_scope_id r)))"
    using assms(2) by (simp add: scope_rows_def)
  then show ?thesis unfolding journal_ok_positions [OF assms(1)] by simp
qed

section \<open>The allocator\<close>

lemma lock_run:
  assumes ok: "journal_ok rg s"
  obtains hs where "lock_journal_head i s = (Inr (head_at s i), s\<lparr>jd_db := (jd_db s)\<lparr>journal_heads := hs\<rparr>\<rparr>)"
    and "journal_ok rg (s\<lparr>jd_db := (jd_db s)\<lparr>journal_heads := hs\<rparr>\<rparr>)"
    and "lookup_row SOURCE_JOURNAL_HEADS_TABLE jh_scope_id ((jd_db s)\<lparr>journal_heads := hs\<rparr>) i \<noteq> None"
    and "\<And>j. head_at (s\<lparr>jd_db := (jd_db s)\<lparr>journal_heads := hs\<rparr>\<rparr>) j = head_at s j"
    and "lookup_row SOURCE_JOURNAL_HEADS_TABLE jh_scope_id (jd_db s) i \<noteq> None \<Longrightarrow> hs = journal_heads (jd_db s)"
    and "\<And>j. j \<noteq> i \<Longrightarrow> lookup_row SOURCE_JOURNAL_HEADS_TABLE jh_scope_id ((jd_db s)\<lparr>journal_heads := hs\<rparr>) j
      = lookup_row SOURCE_JOURNAL_HEADS_TABLE jh_scope_id (jd_db s) j"
proof -
  let ?T = SOURCE_JOURNAL_HEADS_TABLE and ?d = "jd_db s"
  have tab: "table_ok ?T ?d" using ok by (simp add: journal_ok_def)
  note lock = journal_heads_t.update_same [OF tab, of "\<lambda>r. jh_scope_id r = i" "\<lambda>r. r"]
  have scalar: "sql_scalar ?T (\<lambda>r. jh_scope_id r = i) jh_position d = (Inr (map_option jh_position (lookup_row ?T jh_scope_id d i)), d)" for d
    by (simp add: lookup_row_def)
  show ?thesis
  proof (cases "lookup_row ?T jh_scope_id ?d i")
    case (Some r)
    with journal_heads_t.lookup_admits [OF tab this] show ?thesis
      using ok lock by (intro that [of "journal_heads ?d"])
        (simp_all add: lock_journal_head_def bind_run andThen_run scalar head_at_def handle_admits del: sql_scalar_run)
  next
    case None
    let ?r = "\<lparr>jh_scope_id = i, jh_position = 0\<rparr>"
    let ?e = "store_row ?T jh_scope_id ?r ?d"
    have ins: "sql_insert ?T ?r ?d = (Inr (), ?e)"
      using None by (intro journal_heads_t.insert_store) (simp_all add: handle_admits)
    obtain hs where e: "?e = ?d\<lparr>journal_heads := hs\<rparr>" by (simp add: store_row_def)
    have look: "lookup_row ?T jh_scope_id ?e k = (if k = i then Some ?r else lookup_row ?T jh_scope_id ?d k)" for k
      by (simp add: journal_heads_t.lookup_store)
    have heads: "head_at (s\<lparr>jd_db := ?e\<rparr>) j = head_at s j" for j using None by (simp add: head_at_def look)
    have "intents_env (?d\<lparr>journal_heads := hs\<rparr>)" using ok
      by (simp add: journal_ok_def intents_env_def intents_inv_def supported_dialect_def table_ok_def seq_of_def handle_admits)
    then have "intents_env ?e" by (simp only: e)
    moreover have "table_ok ?T ?e" using tab by (intro journal_heads_t.table_ok_store) (simp_all add: handle_admits)
    ultimately have "journal_ok rg (s\<lparr>jd_db := ?e\<rparr>)" using ok heads by (simp add: journal_ok_def)
    moreover have "lock_journal_head i s = (Inr (head_at s i), s\<lparr>jd_db := ?e\<rparr>)"
      using None lock ins look by (simp add: lock_journal_head_def bind_run andThen_run catch_run scalar head_at_def del: sql_scalar_run)
    ultimately show ?thesis using heads look None unfolding e by (intro that [of hs]) simp_all
  qed
qed

section \<open>Looking up Sources\<close>

definition stored_row :: "('v, 'e) journal_db \<Rightarrow> string \<Rightarrow> source_key \<Rightarrow> 'v source_row option" where
  "stored_row s i k = List.find (\<lambda>r. so_key r = k) (scope_rows (jd_sources s) i)"

lemma find_distinct: "distinct (map f xs) \<Longrightarrow> x \<in> set xs \<Longrightarrow> List.find (\<lambda>y. f y = f x) xs = Some x"
  by (induction xs) auto

lemma stored_row_iff:
  assumes "journal_ok rg s"
  shows "stored_row s i k = Some r \<longleftrightarrow> r \<in> set (jd_sources s) \<and> so_scope_id r = i \<and> so_key r = k"
proof -
  have "distinct (map so_key (scope_rows (jd_sources s) i))" using assms by (simp add: journal_ok_def sources_distinct)
  from find_distinct [OF this, of r] show ?thesis
    by (auto simp: stored_row_def scope_rows_def dest!: find_SomeD)
qed

lemma stored_row_None: "stored_row s i k = None \<longleftrightarrow> (\<forall>r \<in> set (jd_sources s). so_scope_id r = i \<longrightarrow> so_key r \<noteq> k)"
  by (auto simp: stored_row_def scope_rows_def find_None_iff)

lemma each_result_Inr: "each_result f xs = Inr ys \<Longrightarrow> list_all2 (\<lambda>x y. f x = Inr y) xs ys"
  by (induction xs arbitrary: ys) (auto split: sum.splits)

lemma each_result_ok: "(\<And>x. x \<in> set xs \<Longrightarrow> f x = Inr (g x)) \<Longrightarrow> each_result f xs = Inr (map g xs)"
  by (induction xs) auto

text \<open>The registry decodes what it encodes; then every row decodes.\<close>

definition registry_ok :: "'v source_registry \<Rightarrow> bool" where
  "registry_ok rg \<longleftrightarrow> (\<forall>v k. rg_ref rg v = Inr k \<longrightarrow> rg_decoded rg (fst k) v = Inr k)"

definition row_value :: "'v source_row \<Rightarrow> 'v captured" where
  "row_value r = (case so_payload r of Canonical v \<Rightarrow> v | Corrupt \<Rightarrow> undefined)"

definition stored_of :: "'v source_row \<Rightarrow> 'v stored_source" where
  "stored_of r = \<lparr>ss_ref = so_key r, ss_value = row_value r, ss_position = so_position r\<rparr>"

lemma decode_encoded: "registry_ok rg \<Longrightarrow> encoded_row rg r \<Longrightarrow> decode_source rg r = Inr (stored_of r)"
  by (cases "so_key r") (auto simp: registry_ok_def encoded_row_def decode_source_def stored_of_def row_value_def)

lemma decode_existing_Inr: "decode_existing rg i r = Inr x \<Longrightarrow> decode_source rg r = Inr x"
  by (auto simp: decode_existing_def split: sum.splits error.splits)

lemma decode_source_Inr:
  "decode_source rg r = Inr x \<Longrightarrow> so_payload r = Canonical (ss_value x) \<and> x = stored_of r"
  by (auto simp: decode_source_def stored_of_def row_value_def split: payload.splits sum.splits if_splits)

lemma lookup_batches_Inr:
  assumes "lookup_batches rg i kss s = (Inr found, t)"
  shows "t = s \<and> set found = stored_of ` {r \<in> set (jd_sources s). so_scope_id r = i \<and> so_key r \<in> \<Union> (set ` set kss)}"
  using assms
proof (induction kss arbitrary: found)
  case Nil
  then show ?case by simp
next
  case (Cons ks kss)
  let ?rows = "filter (\<lambda>r. so_scope_id r = i \<and> so_key r \<in> set ks) (jd_sources s)"
  from Cons.prems obtain xs ys where xs: "each_result (decode_existing rg i) ?rows = Inr xs"
    and ys: "lookup_batches rg i kss s = (Inr ys, t)" and found: "found = xs @ ys"
    by (auto simp: bind_Inr_iff)
  have "list_all2 (\<lambda>r x. x = stored_of r) ?rows xs"
    using each_result_Inr [OF xs] by (rule list_all2_mono) (auto dest: decode_existing_Inr decode_source_Inr)
  then have "xs = map stored_of ?rows" by (simp add: list_all2_conv_all_nth list_eq_iff_nth_eq)
  with Cons.IH [OF ys] found show ?case by auto
qed

lemma lookup_batches_ok:
  assumes "registry_ok rg" and "\<forall>r \<in> set (jd_sources s). encoded_row rg r"
  shows "\<exists>found. lookup_batches rg i kss s = (Inr found, s)"
proof (induction kss)
  case (Cons ks kss)
  have "each_result (decode_existing rg i) (filter (\<lambda>r. so_scope_id r = i \<and> so_key r \<in> set ks) (jd_sources s))
      = Inr (map stored_of (filter (\<lambda>r. so_scope_id r = i \<and> so_key r \<in> set ks) (jd_sources s)))"
    using assms by (intro each_result_ok) (auto simp: decode_existing_def decode_encoded)
  with Cons show ?case by (auto simp: bind_run)
qed simp

lemma stored_by_key_find: "stored_by_key xs k = List.find (\<lambda>x. ss_ref x = k) (rev xs)"
proof -
  have "fold (\<lambda>x m. m(ss_ref x \<mapsto> x)) xs m k = (case List.find (\<lambda>x. ss_ref x = k) (rev xs) of None \<Rightarrow> m k | Some x \<Rightarrow> Some x)" for m
    by (induction xs arbitrary: m) (auto simp: find_append split: option.split)
  then show ?thesis by (simp add: stored_by_key_def split: option.split)
qed

lemma existing_many_Inr:
  assumes ok: "journal_ok rg s" and run: "existing_many rg i ks s = (Inr m, t)"
  shows "t = s \<and> m = (\<lambda>k. if k \<in> set ks then map_option stored_of (stored_row s i k) else None)"
proof -
  have union: "\<Union> (set ` set (batches SOURCE_LOOKUP_KEYS_PER_STATEMENT (from_keys ks))) = set ks"
    using concat_batches [of SOURCE_LOOKUP_KEYS_PER_STATEMENT "from_keys ks"] by (metis set_concat set_from_keys zero_less_numeral)
  from run obtain found where "lookup_batches rg i (batches SOURCE_LOOKUP_KEYS_PER_STATEMENT (from_keys ks)) s = (Inr found, t)"
    and m: "m = stored_by_key found"
    by (auto simp: existing_many_def bind_Inr_iff)
  from lookup_batches_Inr [OF this(1)] have t: "t = s"
    and found: "set found = stored_of ` {r \<in> set (jd_sources s). so_scope_id r = i \<and> so_key r \<in> set ks}" unfolding union by simp_all
  have "m k = (if k \<in> set ks then map_option stored_of (stored_row s i k) else None)" for k
  proof (cases "m k")
    case None
    then have "\<forall>x \<in> set found. ss_ref x \<noteq> k" unfolding m stored_by_key_find by (auto simp: find_None_iff)
    with found None show ?thesis by (auto simp: stored_of_def stored_row_None)
  next
    case (Some x)
    then have "x \<in> set found" "ss_ref x = k" unfolding m stored_by_key_find by (auto dest: find_SomeD)
    with found obtain r where "r \<in> set (jd_sources s)" "so_scope_id r = i" "so_key r = k" "k \<in> set ks" "x = stored_of r"
      by (auto simp: stored_of_def)
    with Some stored_row_iff [OF ok, of i k r] show ?thesis by simp
  qed
  with t show ?thesis by auto
qed

lemma existing_many_ok:
  assumes "registry_ok rg" and ok: "journal_ok rg s"
  shows "existing_many rg i ks s = (Inr (\<lambda>k. if k \<in> set ks then map_option stored_of (stored_row s i k) else None), s)"
proof -
  have "\<forall>r \<in> set (jd_sources s). encoded_row rg r" using ok by (simp add: journal_ok_def)
  from lookup_batches_ok [OF assms(1) this, of i "batches SOURCE_LOOKUP_KEYS_PER_STATEMENT (from_keys ks)"]
  obtain m where "existing_many rg i ks s = (Inr m, s)" by (auto simp: existing_many_def bind_run)
  with existing_many_Inr [OF ok this] show ?thesis by simp
qed

section \<open>Classifying a batch\<close>

text \<open>What a batch is while it is classified, started at position \<open>p\<close> with the stored Sources \<open>m\<close>.\<close>

definition classified :: "'v source_registry \<Rightarrow> source_key set \<Rightarrow> int \<Rightarrow> (source_key \<Rightarrow> 'v stored_source option) \<Rightarrow> 'v capture_batch \<Rightarrow> bool" where
  "classified rg K p m b \<longleftrightarrow> ba_position b = p + int (length (ba_new b)) \<and> map ss_position (ba_new b) = [p + 1..ba_position b]
     \<and> distinct (map ss_ref (ba_new b)) \<and> (\<forall>x \<in> set (ba_new b). m (ss_ref x) = None \<and> rg_ref rg (ss_value x) = Inr (ss_ref x) \<and> ss_ref x \<in> K)
     \<and> dom (ba_existing b) = dom m \<union> ss_ref ` set (ba_new b)
     \<and> (\<forall>u \<in> set (ba_upgrades b). rg_ref rg (snd u) = Inr (fst u))
     \<and> length (filter snd (ba_results b)) = length (ba_new b)"

lemma upto_snoc: "p \<le> q \<Longrightarrow> [p + 1..q + 1] = [p + 1..q] @ [q + 1 :: int]"
  by (simp add: upto_rec2)

lemma classify_step_upgrade:
  "classified rg K p m b \<Longrightarrow> rg_ref rg source = Inr key \<Longrightarrow> ba_existing b key \<noteq> None
   \<Longrightarrow> classified rg K p m (b\<lparr>ba_existing := (ba_existing b)(key \<mapsto> x), ba_upgrades := ba_upgrades b @ [(key, source)],
     ba_results := ba_results b @ [(y, False)]\<rparr>)"
  unfolding classified_def by (auto simp: insert_absorb)

lemma classify_step_new:
  assumes c: "classified rg K p m b" and "rg_ref rg source = Inr key" and "key \<in> K" and none: "ba_existing b key = None"
    and x: "x = \<lparr>ss_ref = key, ss_value = source, ss_position = ba_position b + 1\<rparr>"
  shows "classified rg K p m (b\<lparr>ba_position := ba_position b + 1, ba_existing := (ba_existing b)(key \<mapsto> x),
    ba_new := ba_new b @ [x], ba_results := ba_results b @ [(x, True)]\<rparr>)"
proof -
  from c have "p \<le> ba_position b" by (simp add: classified_def)
  note snoc = upto_snoc [OF this]
  from none have "key \<notin> dom (ba_existing b)" by (simp add: domIff)
  with c have "key \<notin> dom m" and "key \<notin> ss_ref ` set (ba_new b)" by (simp_all add: classified_def)
  with c assms(2,3) snoc show ?thesis unfolding classified_def x by (simp add: domIff)
qed

lemma classify_sources_Inr:
  "classify_sources i prepared b = Inr b' \<Longrightarrow> \<forall>q \<in> set prepared. rg_ref rg (fst q) = Inr (snd q) \<and> snd q \<in> K \<Longrightarrow> classified rg K p m b
   \<Longrightarrow> classified rg K p m b'"
proof (induction i prepared b rule: classify_sources.induct)
  case (1 i b)
  then show ?case by simp
next
  case (2 i source key prepared b)
  note c = \<open>classified rg K p m b\<close>
  from 2 have ref: "rg_ref rg source = Inr key" and "key \<in> K" and rest: "\<forall>q \<in> set prepared. rg_ref rg (fst q) = Inr (snd q) \<and> snd q \<in> K" by simp_all
  show ?case
  proof (cases "ba_existing b key")
    case None
    from 2(4) None 2(1) [OF None refl refl _ rest classify_step_new [OF c ref \<open>key \<in> K\<close> None refl]] show ?thesis by (simp add: Let_def)
  next
    case (Some stored)
    show ?thesis
    proof (cases "is_upgrade source (ss_value stored)")
      case True
      from 2(4) True Some 2(2) [OF Some True refl _ rest classify_step_upgrade [OF c ref]] show ?thesis by (simp add: Let_def)
    next
      case False
      have "classified rg K p m (b\<lparr>ba_results := ba_results b @ [(stored, False)]\<rparr>)" using c by (simp add: classified_def)
      with 2(4) False Some 2(3) [OF Some False _ _ rest] show ?thesis by (simp split: if_splits)
    qed
  qed
qed

lemma classified_start: "classified rg K p m \<lparr>ba_position = p, ba_existing = m, ba_results = [], ba_new = [], ba_upgrades = []\<rparr>"
  by (simp add: classified_def)

section \<open>Storing a batch\<close>

definition apply_upgrades :: "string \<Rightarrow> (source_key \<times> 'v captured) list \<Rightarrow> 'v source_row list \<Rightarrow> 'v source_row list" where
  "apply_upgrades i = fold (\<lambda>(key, source). update_rows (source_at i key) (\<lambda>r. r\<lparr>so_payload := Canonical source\<rparr>))"

lemma apply_upgrades_Cons:
  "apply_upgrades i ((key, source) # us) rows
   = apply_upgrades i us (update_rows (source_at i key) (\<lambda>r. r\<lparr>so_payload := Canonical source\<rparr>) rows)"
  by (simp add: apply_upgrades_def)

lemma upgrades_run:
  assumes "table_ok SOURCES_TABLE s"
  shows "for_each us (\<lambda>(key, source). andThen (sql_update SOURCES_TABLE (source_at i key)
      (\<lambda>r. r\<lparr>so_payload := Canonical source\<rparr>)) (return ())) s = (Inr (), s\<lparr>jd_sources := apply_upgrades i us (jd_sources s)\<rparr>)
    \<and> table_ok SOURCES_TABLE (s\<lparr>jd_sources := apply_upgrades i us (jd_sources s)\<rparr>)"
  using assms
proof (induction us arbitrary: s)
  case Nil
  then show ?case by (simp add: apply_upgrades_def)
next
  case (Cons u us)
  obtain key source where u: "u = (key, source)" by (cases u)
  have "sql_update SOURCES_TABLE (source_at i key) (\<lambda>r. r\<lparr>so_payload := Canonical source\<rparr>) s
    = (Inr (length (filter (source_at i key) (jd_sources s))),
       s\<lparr>jd_sources := update_rows (source_at i key) (\<lambda>r. r\<lparr>so_payload := Canonical source\<rparr>) (jd_sources s)\<rparr>)"
    using sources_t.update_run [OF Cons.prems, of "source_at i key" "\<lambda>r. r\<lparr>so_payload := Canonical source\<rparr>"]
    by (simp add: SOURCES_TABLE_def)
  moreover from sources_t.table_ok_update [OF Cons.prems, of "source_at i key" "\<lambda>r. r\<lparr>so_payload := Canonical source\<rparr>"] this
  have "table_ok SOURCES_TABLE (s\<lparr>jd_sources := update_rows (source_at i key) (\<lambda>r. r\<lparr>so_payload := Canonical source\<rparr>) (jd_sources s)\<rparr>)"
    by simp
  note Cons.IH [OF this]
  ultimately show ?case by (simp add: u andThen_run apply_upgrades_Cons)
qed

text \<open>An upgrade moves no Source: what \<open>f\<close> reads of a row, other than its payload, stays.\<close>

lemma apply_upgrades_stable:
  assumes "\<And>r v. f (r\<lparr>so_payload := v\<rparr>) = f r"
  shows "map f (scope_rows (apply_upgrades i us rows) j) = map f (scope_rows rows j)"
proof -
  have "map f (scope_rows (update_rows (source_at i key) (\<lambda>r. r\<lparr>so_payload := v\<rparr>) rows) j) = map f (scope_rows rows j)" for key v rows
    using assms by (induction rows) (simp_all add: scope_rows_def)
  then show ?thesis by (induction us arbitrary: rows) (simp_all add: apply_upgrades_def split_beta)
qed

lemma apply_upgrades_encoded:
  assumes "\<forall>u \<in> set us. rg_ref rg (snd u) = Inr (fst u)" and "\<forall>r \<in> set rows. encoded_row rg r"
  shows "\<forall>r \<in> set (apply_upgrades i us rows). encoded_row rg r"
  using assms
proof (induction us arbitrary: rows)
  case Nil
  then show ?case by (simp add: apply_upgrades_def)
next
  case (Cons u us)
  have "\<forall>r \<in> set (update_rows (source_at i (fst u)) (\<lambda>r. r\<lparr>so_payload := Canonical (snd u)\<rparr>) rows). encoded_row rg r"
    using Cons.prems by (auto simp: set_update_rows source_at_def encoded_row_def)
  with Cons show ?case by (cases u) (simp add: apply_upgrades_Cons)
qed

lemma heads_dirtied [simp]: "journal_heads (fold (dirtied i k) names d) = journal_heads d"
proof -
  have "journal_heads (dirtied i k n d) = journal_heads d" for n d
    by (simp add: dirtied_def upd_intent_def ensured_def)
  then show ?thesis by (induction names arbitrary: d) simp_all
qed

lemma mark_dirty_heads:
  assumes "intents_env d"
  shows "journal_heads (snd (mark_dirty_many i names k d)) = journal_heads d"
proof (cases "k < 1 \<or> (\<exists>n \<in> set names. \<not> valid_key i n)")
  case False
  with assms have "mark_dirty_many i names k d = (Inr (), fold (dirtied i k) (from_keys names) d)"
    by (intro mark_dirty_many_run) (auto simp: intents_env_def)
  then show ?thesis by simp
qed (simp add: mark_dirty_many_invalid)

lemma journal_head_frame:
  "journal_heads d = journal_heads d' \<Longrightarrow> lookup_row SOURCE_JOURNAL_HEADS_TABLE jh_scope_id d = lookup_row SOURCE_JOURNAL_HEADS_TABLE jh_scope_id d'"
  "journal_heads d = journal_heads d' \<Longrightarrow> table_ok SOURCE_JOURNAL_HEADS_TABLE d = table_ok SOURCE_JOURNAL_HEADS_TABLE d'"
  by (auto simp: fun_eq_iff lookup_row_def table_ok_def handle_admits)

lemma intents_env_heads [simp]: "intents_env (d\<lparr>journal_heads := hs\<rparr>) = intents_env d"
  by (simp add: intents_env_def intents_inv_def supported_dialect_def table_ok_def seq_of_def handle_admits)

lemma intents_advance_heads [simp]: "intents_advance d (d\<lparr>journal_heads := hs\<rparr>)"
  by (simp add: intents_advance_def intent_of_def seq_of_def row_advances_def)

lemma bind_memory_evidence_run:
  "bind_memory_evidence bd i x s = (case bd i (ss_ref x) (ss_value x) (jd_evidence s) of
     Inl e \<Rightarrow> (Inl e, s) | Inr e \<Rightarrow> (Inr (), s\<lparr>jd_evidence := e\<rparr>))"
  by (simp add: bind_memory_evidence_def bind_run lift_result_def split: sum.split)

lemma bind_evidence_step:
  "for_each (x # xs) (bind_memory_evidence bd i) s = (case bd i (ss_ref x) (ss_value x) (jd_evidence s) of
     Inl e \<Rightarrow> (Inl e, s) | Inr e \<Rightarrow> for_each xs (bind_memory_evidence bd i) (s\<lparr>jd_evidence := e\<rparr>))"
  by (simp add: andThen_run bind_memory_evidence_run split: sum.split)

lemma bind_evidence_Inr:
  "for_each xs (bind_memory_evidence bd i) s = (Inr x, t) \<Longrightarrow> \<exists>e. t = s\<lparr>jd_evidence := e\<rparr>"
proof (induction xs arbitrary: s)
  case Nil
  then have "t = s\<lparr>jd_evidence := jd_evidence s\<rparr>" by simp
  then show ?case ..
next
  case (Cons y xs)
  then obtain e where "for_each xs (bind_memory_evidence bd i) (s\<lparr>jd_evidence := e\<rparr>) = (Inr x, t)"
    unfolding bind_evidence_step by (auto split: sum.splits)
  from Cons.IH [OF this] show ?case by auto
qed

text \<open>The state in which the new rows of a batch stand in the journal.\<close>

definition with_new :: "string \<Rightarrow> 'v capture_batch \<Rightarrow> ('v, 'e) journal_db \<Rightarrow> ('v, 'e) journal_db" where
  "with_new i b s = s\<lparr>jd_db := store_row SOURCE_JOURNAL_HEADS_TABLE jh_scope_id \<lparr>jh_scope_id = i, jh_position = ba_position b\<rparr> (jd_db s),
     jd_sources := jd_sources s @ map (source_row_of i) (ba_new b)\<rparr>"

lemma new_rows_fit:
  fixes s :: "('v, 'e) journal_db"
  assumes ok: "journal_ok rg s" and b: "classified rg K (head_at s i) m b"
    and m: "\<And>k. k \<in> K \<Longrightarrow> m k = None \<Longrightarrow> stored_row s i k = None"
  shows "table_ok SOURCES_TABLE (with_new i b s)"
proof -
  let ?C = "\<lambda>a b. \<not> clash (SOURCES_TABLE :: (('v, 'e) journal_db, 'v source_row) sql_table) a b"
  have pos: "map ss_position (ba_new b) = [head_at s i + 1..ba_position b]" using b by (simp add: classified_def)
  have inc: "sorted_wrt (<) (map ss_position (ba_new b))" and refs: "distinct (map ss_ref (ba_new b))"
    using b by (auto simp: classified_def)
  moreover have "sorted_wrt (<) (map ss_position xs) \<Longrightarrow> distinct (map ss_ref xs) \<Longrightarrow> sorted_wrt ?C (map (source_row_of i) xs)"
    for xs :: "'v stored_source list"
    by (induction xs) (auto simp: SOURCES_TABLE_def source_row_of_def)
  ultimately have "sorted_wrt ?C (map (source_row_of i) (ba_new b))" by blast
  moreover have "?C r (source_row_of i x)" if r: "r \<in> set (jd_sources s)" and x: "x \<in> set (ba_new b)" for r x
  proof -
    have "so_position r \<le> head_at s i" if "so_scope_id r = i"
      using position_range [OF ok r] that by simp
    moreover have "ss_position x \<in> set (map ss_position (ba_new b))" using x by simp
    with pos have "head_at s i < ss_position x" by (simp del: set_map)
    moreover have "stored_row s i (ss_ref x) = None" using b x m by (simp add: classified_def)
    ultimately show ?thesis using r by (auto simp: SOURCES_TABLE_def source_row_of_def stored_row_None)
  qed
  moreover have "sorted_wrt ?C (jd_sources s)" using ok by (simp add: journal_ok_def table_ok_def clash_free_def)
  ultimately have "sorted_wrt ?C (jd_sources s @ map (source_row_of i) (ba_new b))" by (auto simp: sorted_wrt_append)
  then show ?thesis by (simp add: table_ok_def clash_free_def with_new_def) (simp add: SOURCES_TABLE_def)
qed

lemma head_pos_admits: "classified rg K p m b \<Longrightarrow> 0 \<le> p \<Longrightarrow> 0 \<le> ba_position b"
  by (simp add: classified_def)

lemma insert_new_run:
  fixes s :: "('v, 'e) journal_db"
  assumes ok: "journal_ok rg s" and b: "classified rg K (head_at s i) m b"
    and m: "\<And>k. k \<in> K \<Longrightarrow> m k = None \<Longrightarrow> stored_row s i k = None"
    and head: "lookup_row SOURCE_JOURNAL_HEADS_TABLE jh_scope_id (jd_db s) i \<noteq> None"
  shows "andThen (on_db (sql_update SOURCE_JOURNAL_HEADS_TABLE (\<lambda>r. jh_scope_id r = i) (\<lambda>r. r\<lparr>jh_position := ba_position b\<rparr>)))
        (andThen (for_each (map (source_row_of i) (ba_new b)) (sql_insert SOURCES_TABLE))
         (for_each (ba_new b) (bind_memory_evidence bd i))) s
    = for_each (ba_new b) (bind_memory_evidence bd i) (with_new i b s)"
    and "table_ok SOURCE_JOURNAL_HEADS_TABLE (jd_db (with_new i b s))" and "table_ok SOURCES_TABLE (with_new i b s)"
    and "\<And>j. head_at (with_new i b s) j = (if j = i then ba_position b else head_at s j)"
proof -
  let ?T = SOURCE_JOURNAL_HEADS_TABLE and ?r = "\<lparr>jh_scope_id = i, jh_position = ba_position b\<rparr>"
  have tab: "table_ok ?T (jd_db s)" using ok by (simp add: journal_ok_def)
  have adm: "admits ?T d ?r" for d using head_pos_admits [OF b head_nonneg [OF ok]] by (simp add: handle_admits)
  obtain r where r: "lookup_row ?T jh_scope_id (jd_db s) i = Some r" using head by blast
  with journal_heads_t.lookup_key [OF r] obtain p where r: "lookup_row ?T jh_scope_id (jd_db s) i = Some \<lparr>jh_scope_id = i, jh_position = p\<rparr>"
    by (cases r) simp
  with adm have upd: "sql_update ?T (\<lambda>r. jh_scope_id r = i) (\<lambda>r. r\<lparr>jh_position := ba_position b\<rparr>) (jd_db s)
      = (Inr 1, store_row ?T jh_scope_id ?r (jd_db s))"
    by (subst journal_heads_t.update_store [where k = i]) (simp_all add: tab)
  let ?u = "s\<lparr>jd_db := store_row ?T jh_scope_id ?r (jd_db s)\<rparr>"
  note new_rows_fit [OF ok b m]
  then have fit: "clash_free (SOURCES_TABLE :: (('v, 'e) journal_db, 'v source_row) sql_table) (rows_of SOURCES_TABLE ?u @ map (source_row_of i) (ba_new b))"
    by (simp add: table_ok_def with_new_def)
  have ins: "for_each (map (source_row_of i) (ba_new b)) (sql_insert SOURCES_TABLE) ?u = (Inr (), with_new i b s)"
    using sources_t.insert_many_run [OF fit] by (simp add: with_new_def SOURCES_TABLE_def)
  show "andThen (on_db (sql_update ?T (\<lambda>r. jh_scope_id r = i) (\<lambda>r. r\<lparr>jh_position := ba_position b\<rparr>)))
        (andThen (for_each (map (source_row_of i) (ba_new b)) (sql_insert SOURCES_TABLE))
         (for_each (ba_new b) (bind_memory_evidence bd i))) s
    = for_each (ba_new b) (bind_memory_evidence bd i) (with_new i b s)"
    using upd ins by (simp add: andThen_run)
  show "table_ok ?T (jd_db (with_new i b s))"
    using journal_heads_t.table_ok_store [OF tab adm] by (simp add: with_new_def)
  show "table_ok SOURCES_TABLE (with_new i b s)"
    using new_rows_fit [OF ok b m] .
  show "head_at (with_new i b s) j = (if j = i then ba_position b else head_at s j)" for j
    by (simp add: head_at_def with_new_def journal_heads_t.lookup_store)
qed

text \<open>Marking leaves what is clean as it is, and takes nothing from what is dirty.\<close>

definition only_marked :: "db \<Rightarrow> db \<Rightarrow> bool" where
  "only_marked d d' \<longleftrightarrow> (\<forall>j n r. intent_of d j n = Some r \<longrightarrow> (\<exists>r'. intent_of d' j n = Some r'
     \<and> in_clean_generation r' = in_clean_generation r \<and> in_dirty_generation r \<le> in_dirty_generation r'))"

lemma only_marked_refl [simp]: "only_marked d d"
  by (simp add: only_marked_def)

lemma only_marked_trans: "only_marked c d \<Longrightarrow> only_marked d e \<Longrightarrow> only_marked c e"
  unfolding only_marked_def by (intro allI impI) (fastforce dest: spec intro: order_trans)

lemma only_markedD:
  "only_marked d d' \<Longrightarrow> intent_of d j n = Some r
   \<Longrightarrow> \<exists>r'. intent_of d' j n = Some r' \<and> in_clean_generation r' = in_clean_generation r \<and> in_dirty_generation r \<le> in_dirty_generation r'"
  by (simp add: only_marked_def)

lemma only_marked_dirtied: "0 \<le> k \<Longrightarrow> only_marked d (dirtied i k n d)"
  by (auto simp: only_marked_def dirtied_def intent_of_upd intent_of_ensured bump_dirty_def)

lemma only_marked_fold: "0 \<le> k \<Longrightarrow> only_marked d (fold (dirtied i k) names d)"
proof (induction names arbitrary: d)
  case (Cons n names)
  then show ?case using only_marked_trans [OF only_marked_dirtied [OF Cons.prems, of d i n]] by simp
qed simp

lemma only_marked_mark:
  assumes "intents_env d"
  shows "only_marked d (snd (mark_dirty_many i names k d))"
proof (cases "k < 1 \<or> (\<exists>n \<in> set names. \<not> valid_key i n)")
  case False
  with assms have "mark_dirty_many i names k d = (Inr (), fold (dirtied i k) (from_keys names) d)"
    by (intro mark_dirty_many_run) (auto simp: intents_env_def)
  with False show ?thesis by (simp add: only_marked_fold)
qed (simp add: mark_dirty_many_invalid)

lemma marks_Inr:
  assumes env: "intents_env (jd_db v)"
    and run: "andThen (on_db (mark_dirty_many i names n)) (mark_custom_bindings_dirty i n) v = (Inr x, t)"
  obtains d1 d2 where "mark_dirty_many i names n (jd_db v) = (Inr (), d1)" and "t = v\<lparr>jd_db := d2\<rparr>" and "intents_env d2"
    and "only_marked d1 d2" and "intents_advance (jd_db v) d2" and "journal_heads d2 = journal_heads (jd_db v)"
proof -
  obtain r d1 where d1: "mark_dirty_many i names n (jd_db v) = (r, d1)" by fastforce
  with run have r: "r = Inr ()" by (cases r) (simp_all add: andThen_run)
  note env1 = env_mark_dirty_many [OF env, of i names n, unfolded d1 snd_conv]
  note heads1 = mark_dirty_heads [OF env, of i names n, unfolded d1 snd_conv]
  obtain bs where run2: "on_db (mark_dirty_many i bs n) (v\<lparr>jd_db := d1\<rparr>) = (Inr x, t)"
    using run d1 r by (auto simp: andThen_run mark_custom_bindings_dirty_def bind_run)
  define d2 where "d2 = snd (mark_dirty_many i bs n d1)"
  have "t = v\<lparr>jd_db := d2\<rparr>" using run2 by (auto simp: d2_def)
  moreover have "intents_env d2" "only_marked d1 d2" "intents_advance d1 d2" "journal_heads d2 = journal_heads (jd_db v)"
    using env_mark_dirty_many [of d1 i bs n] mark_dirty_heads [of d1 i bs n] only_marked_mark [of d1 i bs n] env1 heads1
    by (simp_all add: d2_def)
  ultimately show ?thesis using that d1 r env1 intents_advance_trans by blast
qed

text \<open>What a batch that is stored does to the state.\<close>

definition stored_batch :: "string \<Rightarrow> 'v capture_batch \<Rightarrow> ('v, 'e) journal_db \<Rightarrow> ('v, 'e) journal_db \<Rightarrow> bool" where
  "stored_batch i b s t \<longleftrightarrow> jd_sources t = apply_upgrades i (ba_upgrades b) (jd_sources s @ map (source_row_of i) (ba_new b))
     \<and> table_ok SOURCES_TABLE t \<and> intents_env (jd_db t) \<and> table_ok SOURCE_JOURNAL_HEADS_TABLE (jd_db t)
     \<and> (\<forall>j. head_at t j = (if j = i then ba_position b else head_at s j)) \<and> intents_advance (jd_db s) (jd_db t)
     \<and> (ba_new b \<noteq> [] \<longrightarrow> (\<exists>hs d. mark_dirty_many i SOURCE_PROCESSING_BINDINGS (int (length (ba_new b))) ((jd_db s)\<lparr>journal_heads := hs\<rparr>)
           = (Inr (), d) \<and> only_marked d (jd_db t)))"

lemma head_at_frame: "journal_heads (jd_db s) = journal_heads (jd_db t) \<Longrightarrow> head_at s = head_at t"
  by (auto simp: fun_eq_iff head_at_def dest: journal_head_frame(1))

lemma store_batch_Inr:
  assumes ok: "journal_ok rg s" and b: "classified rg K (head_at s i) m b"
    and m: "\<And>k. k \<in> K \<Longrightarrow> m k = None \<Longrightarrow> stored_row s i k = None"
    and head: "lookup_row SOURCE_JOURNAL_HEADS_TABLE jh_scope_id (jd_db s) i \<noteq> None"
    and run: "store_batch bd i b s = (Inr res, t)"
  shows "res = ba_results b \<and> stored_batch i b s t"
proof (cases "ba_new b = []")
  case True
  have src: "table_ok SOURCES_TABLE s" using ok by (simp add: journal_ok_def)
  have "t = s\<lparr>jd_sources := apply_upgrades i (ba_upgrades b) (jd_sources s)\<rparr>" "res = ba_results b"
    using run True conjunct1 [OF upgrades_run [OF src, of "ba_upgrades b" i]] by (simp_all add: store_batch_def andThen_run)
  moreover from this have "head_at t = head_at s" by (intro head_at_frame) simp
  moreover have "ba_position b = head_at s i" using b True by (simp add: classified_def)
  ultimately show ?thesis
    using ok True conjunct2 [OF upgrades_run [OF src, of "ba_upgrades b" i]] by (simp add: stored_batch_def journal_ok_def)
next
  case False
  note new = insert_new_run [OF ok b m head]
  from run False obtain x u where u: "for_each (ba_new b) (bind_memory_evidence bd i) (with_new i b s) = (Inr x, u)"
    and rest: "andThen (for_each (ba_upgrades b) (\<lambda>(key, source).
         andThen (sql_update SOURCES_TABLE (source_at i key) (\<lambda>r. r\<lparr>so_payload := Canonical source\<rparr>)) (return ())))
       (andThen (andThen (on_db (mark_dirty_many i SOURCE_PROCESSING_BINDINGS (int (length (ba_new b)))))
           (mark_custom_bindings_dirty i (int (length (ba_new b)))))
       (return (ba_results b))) u = (Inr res, t)"
    unfolding store_batch_def by (simp add: andThen_Inr_iff [where m = "andThen _ (andThen _ (for_each _ (bind_memory_evidence _ _)))"] new(1)) blast
  from bind_evidence_Inr [OF u] obtain e where e: "u = (with_new i b s)\<lparr>jd_evidence := e\<rparr>" ..
  then have src: "table_ok SOURCES_TABLE u" using new(3) by simp
  let ?v = "u\<lparr>jd_sources := apply_upgrades i (ba_upgrades b) (jd_sources u)\<rparr>"
  from rest conjunct1 [OF upgrades_run [OF src, of "ba_upgrades b" i]] obtain y
    where marks: "andThen (on_db (mark_dirty_many i SOURCE_PROCESSING_BINDINGS (int (length (ba_new b)))))
      (mark_custom_bindings_dirty i (int (length (ba_new b)))) ?v = (Inr y, t)" and res: "res = ba_results b"
    by (auto simp: andThen_Inr_iff)
  obtain hs where hs: "jd_db ?v = (jd_db s)\<lparr>journal_heads := hs\<rparr>" by (simp add: e with_new_def store_row_def)
  then have "intents_env (jd_db ?v)" using ok by (simp add: journal_ok_def)
  from marks_Inr [OF this marks] obtain d1 d2 where d:
    "mark_dirty_many i SOURCE_PROCESSING_BINDINGS (int (length (ba_new b))) (jd_db ?v) = (Inr (), d1)" "t = ?v\<lparr>jd_db := d2\<rparr>"
    "intents_env d2" "only_marked d1 d2" "intents_advance (jd_db ?v) d2" "journal_heads d2 = journal_heads (jd_db ?v)" by metis
  have "table_ok SOURCES_TABLE t" unfolding d(2) using conjunct2 [OF upgrades_run [OF src, of "ba_upgrades b" i]] by simp
  moreover have "table_ok SOURCE_JOURNAL_HEADS_TABLE (jd_db t)"
    using journal_head_frame(2) [OF d(6)] new(2) by (simp add: d(2) e)
  moreover have "head_at t = head_at (with_new i b s)" by (rule head_at_frame) (use d(6) in \<open>simp add: d(2) e\<close>)
  moreover have "intents_advance (jd_db s) (jd_db t)"
    using intents_advance_trans [OF intents_advance_heads d(5) [unfolded hs]] by (simp add: d(2))
  moreover have "jd_sources t = apply_upgrades i (ba_upgrades b) (jd_sources s @ map (source_row_of i) (ba_new b))"
    by (simp add: d(2) e with_new_def)
  moreover have "only_marked d1 (jd_db t)" "intents_env (jd_db t)" using d(3,4) by (simp_all add: d(2))
  ultimately show ?thesis
    using res d(1) [unfolded hs] new(4) unfolding stored_batch_def by auto
qed

section \<open>What a capture does\<close>

definition prepare_sources :: "'v source_registry \<Rightarrow> 'v captured list \<Rightarrow> error + ('v captured \<times> source_key) list" where
  "prepare_sources rg sources = each_result (\<lambda>source. map_sum id (Pair source) (rg_ref rg source)) sources"

definition batch_from :: "string \<Rightarrow> source_key list \<Rightarrow> ('v, 'e) journal_db \<Rightarrow> 'v capture_batch" where
  "batch_from i ks s = \<lparr>ba_position = head_at s i, ba_existing = (\<lambda>k. if k \<in> set ks then map_option stored_of (stored_row s i k) else None),
     ba_results = [], ba_new = [], ba_upgrades = []\<rparr>"

lemma prepare_sources_Inr:
  "prepare_sources rg sources = Inr prepared \<Longrightarrow> map fst prepared = sources \<and> (\<forall>q \<in> set prepared. rg_ref rg (fst q) = Inr (snd q))"
proof (induction sources arbitrary: prepared)
  case (Cons v sources)
  then show ?case
    by (cases "rg_ref rg v"; cases "prepare_sources rg sources") (auto simp: prepare_sources_def)
qed (simp add: prepare_sources_def)

lemma stored_batch_heads: 
  "head_at (s\<lparr>jd_db := (jd_db s)\<lparr>journal_heads := hs\<rparr>\<rparr>) = head_at s
   \<Longrightarrow> stored_batch i b (s\<lparr>jd_db := (jd_db s)\<lparr>journal_heads := hs\<rparr>\<rparr>) t = stored_batch i b s t"
  by (simp add: stored_batch_def intents_advance_def intent_of_def seq_of_def)

lemma stored_row_frame [simp]: "stored_row (s\<lparr>jd_db := d\<rparr>) i k = stored_row s i k"
  by (simp add: stored_row_def)

lemma add_many_Inr:
  assumes ok: "journal_ok rg s" and run: "add_many_with_status rg bd i sources s = (Inr res, t)" and "sources \<noteq> []"
  obtains prepared b where "prepare_sources rg sources = Inr prepared" and "valid_identifier i MAX_SCOPE_ID_LENGTH"
    and "classify_sources i prepared (batch_from i (map snd prepared) s) = Inr b" and "res = ba_results b"
    and "classified rg (set (map snd prepared)) (head_at s i) (ba_existing (batch_from i (map snd prepared) s)) b" and "stored_batch i b s t"
proof -
  obtain hs where lock: "lock_journal_head i s = (Inr (head_at s i), s\<lparr>jd_db := (jd_db s)\<lparr>journal_heads := hs\<rparr>\<rparr>)"
    and ok1: "journal_ok rg (s\<lparr>jd_db := (jd_db s)\<lparr>journal_heads := hs\<rparr>\<rparr>)"
    and head: "lookup_row SOURCE_JOURNAL_HEADS_TABLE jh_scope_id ((jd_db s)\<lparr>journal_heads := hs\<rparr>) i \<noteq> None"
    and heads: "\<And>j. head_at (s\<lparr>jd_db := (jd_db s)\<lparr>journal_heads := hs\<rparr>\<rparr>) j = head_at s j"
    using lock_run [OF ok, of i] by metis
  let ?s = "s\<lparr>jd_db := (jd_db s)\<lparr>journal_heads := hs\<rparr>\<rparr>"
  obtain prepared where prepared: "prepare_sources rg sources = Inr prepared" and valid: "valid_identifier i MAX_SCOPE_ID_LENGTH"
    using run \<open>sources \<noteq> []\<close> by (auto simp: add_many_with_status_def exec_Inr_iffs prepare_sources_def lift_result_def split: sum.splits)
  then obtain m u where m: "existing_many rg i (map snd prepared) ?s = (Inr m, u)"
    and rest: "bind (lift_result (classify_sources i prepared \<lparr>ba_position = head_at s i, ba_existing = m, ba_results = [], ba_new = [],
      ba_upgrades = []\<rparr>)) (store_batch bd i) u = (Inr res, t)"
    using run \<open>sources \<noteq> []\<close> lock
    by (auto simp: add_many_with_status_def exec_Inr_iffs prepare_sources_def [symmetric] lift_result_run)
  from rest obtain b where b: "classify_sources i prepared \<lparr>ba_position = head_at s i, ba_existing = m, ba_results = [],
      ba_new = [], ba_upgrades = []\<rparr> = Inr b" and store: "store_batch bd i b u = (Inr res, t)"
    by (auto simp: bind_run lift_result_def split: sum.splits)
  from existing_many_Inr [OF ok1 m] have u: "u = ?s"
    and meq: "m = (\<lambda>k. if k \<in> set (map snd prepared) then map_option stored_of (stored_row s i k) else None)" by (simp_all cong: if_cong)
  have bf: "batch_from i (map snd prepared) s = \<lparr>ba_position = head_at s i, ba_existing = m, ba_results = [], ba_new = [], ba_upgrades = []\<rparr>"
    by (simp add: batch_from_def meq)
  have "\<forall>q \<in> set prepared. rg_ref rg (fst q) = Inr (snd q) \<and> snd q \<in> set (map snd prepared)"
    using prepare_sources_Inr [OF prepared] by simp
  from classify_sources_Inr [OF b this classified_start]
  have cl: "classified rg (set (map snd prepared)) (head_at s i) m b" .
  have "m k = None \<Longrightarrow> stored_row ?s i k = None" if "k \<in> set (map snd prepared)" for k
    using that by (simp only: meq if_True stored_row_frame option.map_disc_iff)
  moreover have "classified rg (set (map snd prepared)) (head_at ?s i) m b" using cl by (simp only: heads)
  ultimately have "res = ba_results b \<and> stored_batch i b ?s t"
    using store head unfolding u by (intro store_batch_Inr [OF ok1]) simp_all
  moreover have "stored_batch i b ?s t = stored_batch i b s t" by (rule stored_batch_heads) (simp add: fun_eq_iff heads)
  ultimately show ?thesis using that [OF prepared valid] b cl unfolding bf by simp
qed

lemma upto_join: "0 \<le> h \<Longrightarrow> h \<le> k \<Longrightarrow> [1..h] @ [h + 1..k] = [1..k :: int]"
  by (cases "h = 0") (simp_all add: upto_split2 [of 1 h k])

lemma stored_batch_ok:
  assumes ok: "journal_ok rg s" and b: "classified rg K (head_at s i) m b" and st: "stored_batch i b s t"
  shows "journal_ok rg t" and "\<And>j. map so_key (scope_rows (jd_sources t) j) =
    map so_key (scope_rows (jd_sources s) j) @ (if j = i then map ss_ref (ba_new b) else [])"
proof -
  have src: "jd_sources t = apply_upgrades i (ba_upgrades b) (jd_sources s @ map (source_row_of i) (ba_new b))"
    using st by (simp add: stored_batch_def)
  have new: "scope_rows (map (source_row_of i) xs) j = (if j = i then map (source_row_of i) xs else [])" for xs :: "'a stored_source list" and j
    by (induction xs) (auto simp: scope_rows_def source_row_of_def)
  have split: "scope_rows (xs @ ys) j = scope_rows xs j @ scope_rows ys j" for xs ys :: "'a source_row list" and j
    by (simp add: scope_rows_def)
  show "map so_key (scope_rows (jd_sources t) j) =
    map so_key (scope_rows (jd_sources s) j) @ (if j = i then map ss_ref (ba_new b) else [])" for j
    by (simp add: src apply_upgrades_stable split new source_row_of_def)
  have "map so_position (scope_rows (jd_sources t) j) = [1..head_at t j]" for j
  proof -
    have "map so_position (scope_rows (jd_sources t) j) = [1..head_at s j] @ (if j = i then map ss_position (ba_new b) else [])"
      by (simp add: src apply_upgrades_stable split new source_row_of_def journal_ok_positions [OF ok])
    moreover have "map ss_position (ba_new b) = [head_at s i + 1..ba_position b]" "head_at s i \<le> ba_position b"
      using b by (simp_all add: classified_def)
    moreover have "head_at t j = (if j = i then ba_position b else head_at s j)" using st by (simp add: stored_batch_def)
    ultimately show ?thesis using upto_join [OF head_nonneg [OF ok, of i]] by simp
  qed
  moreover have "\<forall>r \<in> set (jd_sources t). encoded_row rg r" unfolding src
    using b ok by (intro apply_upgrades_encoded) (auto simp: classified_def journal_ok_def encoded_row_def source_row_of_def)
  ultimately show "journal_ok rg t" using st by (simp add: journal_ok_def stored_batch_def)
qed

section \<open>Steps\<close>

text \<open>
  A capture runs in a transaction. Everything else of the system may change the database as
  the other repositories do, the evidence and the plugins, but not the Sources and their heads.
\<close>

inductive journal_step ::
  "'v source_registry \<Rightarrow> ('v, 'e) evidence_binder \<Rightarrow> ('v, 'e) journal_db \<Rightarrow> ('v, 'e) journal_db \<Rightarrow> bool"
  for rg bd where
  step_capture: "journal_step rg bd s (snd (transaction (add_many_with_status rg bd i sources) s))"
| step_elsewhere: "intents_env d \<Longrightarrow> journal_heads d = journal_heads (jd_db s) \<Longrightarrow>
     journal_step rg bd s (s\<lparr>jd_db := d, jd_evidence := e, jd_plugin_scopes := p\<rparr>)"

inductive_cases journal_stepE: "journal_step rg bd s t"

definition journal_grows :: "('v, 'e) journal_db \<Rightarrow> ('v, 'e) journal_db \<Rightarrow> bool" where
  "journal_grows s t \<longleftrightarrow> (\<forall>i. \<exists>ks. map so_key (scope_rows (jd_sources t) i) = map so_key (scope_rows (jd_sources s) i) @ ks)"

lemma journal_grows_refl: "jd_sources t = jd_sources s \<Longrightarrow> journal_grows s t"
  by (simp add: journal_grows_def)

lemma journal_grows_trans: "journal_grows s t \<Longrightarrow> journal_grows t u \<Longrightarrow> journal_grows s u"
  unfolding journal_grows_def by (metis append_assoc)

lemma capture_ok:
  assumes "journal_ok rg s" and "add_many_with_status rg bd i sources s = (Inr res, t)"
  shows "journal_ok rg t \<and> journal_grows s t"
proof (cases "sources = []")
  case True
  with assms show ?thesis by (simp add: add_many_with_status_def journal_grows_refl)
next
  case False
  from add_many_Inr [OF assms False] obtain K m b where "classified rg K (head_at s i) m b" "stored_batch i b s t" by metis
  from stored_batch_ok [OF assms(1) this] show ?thesis by (auto simp: journal_grows_def)
qed

lemma journal_step_ok: "journal_step rg bd s t \<Longrightarrow> journal_ok rg s \<Longrightarrow> journal_ok rg t \<and> journal_grows s t"
proof (induction rule: journal_step.induct)
  case (step_capture s i sources)
  then show ?case
  proof (cases "add_many_with_status rg bd i sources s")
    case (Pair r u)
    with capture_ok [OF step_capture] step_capture show ?thesis
      by (cases r) (auto simp: transaction_run journal_grows_refl)
  qed
next
  case (step_elsewhere d s p e)
  let ?t = "s\<lparr>jd_db := d, jd_evidence := e, jd_plugin_scopes := p\<rparr>"
  from step_elsewhere have "head_at ?t = head_at s" by (intro head_at_frame) simp
  with step_elsewhere show ?case by (simp add: journal_ok_def journal_grows_refl journal_head_frame(2) [OF step_elsewhere(2)])
qed

text \<open>
  C4: every scope's Source journal is numbered from one to its head without a gap, no Source
  stands in it twice, and it only grows: whatever captures of any scope run, succeed or fail,
  and whatever else the system does to the database in between, the Sources captured before
  keep their positions and order, and new ones follow them.
\<close>

theorem journal_gapless:
  assumes "(journal_step rg bd)\<^sup>*\<^sup>* s t" and "journal_ok rg s"
  shows "map so_position (scope_rows (jd_sources t) i) = [1..head_at t i] \<and> distinct (map so_key (scope_rows (jd_sources t) i))
    \<and> (\<exists>ks. map so_key (scope_rows (jd_sources t) i) = map so_key (scope_rows (jd_sources s) i) @ ks)"
proof -
  from assms have "journal_ok rg t \<and> journal_grows s t"
    by (induction rule: rtranclp_induct) (auto simp: journal_grows_refl dest: journal_step_ok intro: journal_grows_trans)
  then show ?thesis
    using journal_ok_positions [of rg t i] sources_distinct [of t i] by (auto simp: journal_grows_def journal_ok_def)
qed

text \<open>An empty journal, and a registry that names a text Source by its text.\<close>

definition empty_journal :: "string \<Rightarrow> ('v, unit) journal_db" where
  "empty_journal d = \<lparr>jd_db = empty_db d (\<lambda>_. 0), jd_sources = [], jd_evidence = (), jd_plugin_scopes = (\<lambda>_. None)\<rparr>"

definition text_registry :: "string source_registry" where
  "text_registry = \<lparr>rg_ref = (\<lambda>v. case v of Content_Captured x _ \<Rightarrow> Inr (''content'', x) | Native_Captured x \<Rightarrow> Inr (''native'', x)
       | Observed x \<Rightarrow> Inr (''observed'', x)),
     rg_decoded = (\<lambda>_ v. case v of Content_Captured x _ \<Rightarrow> Inr (''content'', x) | Native_Captured x \<Rightarrow> Inr (''native'', x)
       | Observed x \<Rightarrow> Inr (''observed'', x))\<rparr>"

abbreviation no_evidence :: "(string, unit) evidence_binder" where "no_evidence \<equiv> \<lambda>_ _ _ _. Inr ()"

lemma text_registry_ok: "registry_ok text_registry"
  by (auto simp: registry_ok_def text_registry_def split: captured.splits)

lemma empty_journal_ok: "d = ''sqlite'' \<or> d = ''mysql'' \<Longrightarrow> journal_ok rg (empty_journal d)"
  using intents_env_empty [of d "\<lambda>_. 0"]
  by (simp add: journal_ok_def empty_journal_def table_ok_def scope_rows_def head_at_def lookup_row_def) (simp add: empty_db_def)

definition example_captures :: "string captured list" where
  "example_captures = [Content_Captured ''a'' False, Observed ''b'', Content_Captured ''a'' True]"

theorem journal_gapless_witness:
  "map so_position (scope_rows (jd_sources (snd (transaction (add_many_with_status text_registry no_evidence ''scope'' example_captures)
     (empty_journal ''sqlite'')))) ''scope'') = [1..2]"
proof -
  let ?s = "empty_journal ''sqlite''"
  let ?t = "snd (transaction (add_many_with_status text_registry no_evidence ''scope'' example_captures) ?s)"
  have "(journal_step text_registry no_evidence)\<^sup>*\<^sup>* ?s ?t" by (rule r_into_rtranclp) (rule step_capture)
  note this [THEN journal_gapless, OF empty_journal_ok [of "''sqlite''"], of "''scope''"]
  moreover have "head_at ?t ''scope'' = 2" by code_simp
  ultimately show ?thesis by simp
qed

section \<open>Windows of the journal\<close>

definition window_rows :: "string \<Rightarrow> int \<Rightarrow> int \<Rightarrow> ('v, 'e) journal_db \<Rightarrow> 'v source_row list" where
  "window_rows i a b s = filter (\<lambda>r. a < so_position r \<and> so_position r \<le> b) (scope_rows (jd_sources s) i)"

lemma positions_sorted: "journal_ok rg s \<Longrightarrow> sorted (map so_position (scope_rows (jd_sources s) i))"
  by (simp add: journal_ok_positions)

lemma list_window_run:
  assumes "registry_ok rg" and ok: "journal_ok rg s" and "valid_identifier i MAX_SCOPE_ID_LENGTH" and "0 \<le> a" and "a \<le> b"
  shows "list_window rg i a b s = (Inr (map stored_of (window_rows i a b s)), s)"
proof -
  have rows: "filter (in_window i a (Some b)) (jd_sources s) = window_rows i a b s"
    by (auto simp: window_rows_def scope_rows_def in_window_def intro: filter_cong)
  have "sorted (map so_position (window_rows i a b s))"
    unfolding window_rows_def by (rule sorted_filter) (rule positions_sorted [OF ok])
  then have "sort_key so_position (window_rows i a b s) = window_rows i a b s" by (rule sort_key_id_if_sorted)
  moreover have "each_result (decode_source rg) (window_rows i a b s) = Inr (map stored_of (window_rows i a b s))"
    using assms(1) ok by (intro each_result_ok decode_encoded) (auto simp: journal_ok_def window_rows_def scope_rows_def)
  ultimately show ?thesis
    using assms(3-) by (simp add: list_window_def require_window_def andThen_run bind_run rows)
qed

lemma filter_split_sorted:
  "sorted (map f xs) \<Longrightarrow> a \<le> b \<Longrightarrow> b \<le> c \<Longrightarrow> filter (\<lambda>x. a < f x \<and> f x \<le> c) xs
     = filter (\<lambda>x. a < f x \<and> f x \<le> b) xs @ filter (\<lambda>x. b < f x \<and> f x \<le> (c :: int)) xs"
proof (induction xs)
  case (Cons x xs)
  have "b < f x \<Longrightarrow> filter (\<lambda>x. a < f x \<and> f x \<le> b) xs = []" using Cons.prems(1) by (auto simp: filter_empty_conv)
  with Cons show ?case by auto
qed simp

lemma window_positions:
  assumes "journal_ok rg s" and "0 \<le> a"
  shows "map ss_position (map stored_of (window_rows i a b s)) = [a + 1..min b (head_at s i)]"
proof -
  have "map ss_position (map stored_of (window_rows i a b s)) = map so_position (window_rows i a b s)"
    by (simp add: stored_of_def)
  also have "\<dots> = filter (\<lambda>p. a < p \<and> p \<le> b) [1..head_at s i]"
    using journal_ok_positions [OF assms(1), of i, symmetric] by (simp add: window_rows_def filter_map comp_def)
  also have "\<dots> = [a + 1..min b (head_at s i)]"
    using assms(2) by (intro sorted_distinct_set_unique sorted_wrt_filter distinct_filter) auto
  finally show ?thesis .
qed

text \<open>
  C21: a consumer that reads a scope's journal in two adjacent windows reads what it would read
  in one: nothing twice, nothing missed, every position of the windows up to the head present.
\<close>

theorem windows_join:
  assumes "registry_ok rg" and "journal_ok rg s" and "valid_identifier i MAX_SCOPE_ID_LENGTH" and "0 \<le> a" and "a \<le> b" and "b \<le> c"
  shows "\<exists>xs ys. list_window rg i a b s = (Inr xs, s) \<and> list_window rg i b c s = (Inr ys, s) \<and> list_window rg i a c s = (Inr (xs @ ys), s)
    \<and> map ss_position (xs @ ys) = [a + 1..min c (head_at s i)]"
proof -
  have join: "window_rows i a c s = window_rows i a b s @ window_rows i b c s"
    unfolding window_rows_def using positions_sorted [OF assms(2)] assms(5,6) by (rule filter_split_sorted)
  then have "map ss_position (map stored_of (window_rows i a b s) @ map stored_of (window_rows i b c s)) = [a + 1..min c (head_at s i)]"
    using window_positions [OF assms(2,4), of i c] by simp
  with join list_window_run [OF assms(1-3)] assms(4-6) show ?thesis by simp
qed

text \<open>A journal of two Sources, captured in one batch that also upgrades the first.\<close>

definition example_journal :: "(string, unit) journal_db" where
  "example_journal = snd (add_many_with_status text_registry no_evidence ''scope'' example_captures (empty_journal ''sqlite''))"

definition example_results :: "(string stored_source \<times> bool) list" where
  "example_results = [(\<lparr>ss_ref = (''content'', ''a''), ss_value = Content_Captured ''a'' False, ss_position = 1\<rparr>, True),
      (\<lparr>ss_ref = (''observed'', ''b''), ss_value = Observed ''b'', ss_position = 2\<rparr>, True),
      (\<lparr>ss_ref = (''content'', ''a''), ss_value = Content_Captured ''a'' True, ss_position = 1\<rparr>, False)]"

lemma example_journal_run:
  "add_many_with_status text_registry no_evidence ''scope'' example_captures (empty_journal ''sqlite'') = (Inr example_results, example_journal)"
proof -
  have "fst (add_many_with_status text_registry no_evidence ''scope'' example_captures (empty_journal ''sqlite'')) = Inr example_results"
    by code_simp
  then show ?thesis unfolding example_journal_def by (metis prod.collapse)
qed

lemma example_journal_ok: "journal_ok text_registry example_journal"
  using capture_ok [OF empty_journal_ok [of "''sqlite''"] example_journal_run] by simp

theorem windows_join_witness:
  "\<exists>xs ys. list_window text_registry ''scope'' 0 1 example_journal = (Inr xs, example_journal)
     \<and> list_window text_registry ''scope'' 1 7 example_journal = (Inr ys, example_journal)
     \<and> list_window text_registry ''scope'' 0 7 example_journal = (Inr (xs @ ys), example_journal)
     \<and> map ss_position (xs @ ys) = [1..2]"
proof -
  have "valid_identifier ''scope'' MAX_SCOPE_ID_LENGTH" and "head_at example_journal ''scope'' = 2" by code_simp+
  with windows_join [OF text_registry_ok example_journal_ok, of "''scope''" 0 1 7] show ?thesis by simp
qed

text \<open>The position of a scope is its head; what is listed after it is empty.\<close>

lemma journal_position_run:
  assumes "journal_ok rg s" and "valid_identifier i MAX_SCOPE_ID_LENGTH"
  shows "journal_position i s = (Inr (head_at s i), s)"
proof -
  let ?rows = "filter (\<lambda>r. so_scope_id r = i) (jd_sources s)"
  have pos: "map so_position ?rows = [1..head_at s i]"
    using journal_ok_positions [OF assms(1), of i] by (simp add: scope_rows_def)
  have "(if ?rows = [] then 0 else Max (set (map so_position ?rows))) = head_at s i"
  proof (cases "?rows = []")
    case True
    with pos have "[1..head_at s i] = []" by simp
    with head_nonneg [OF assms(1), of i] True show ?thesis by simp
  next
    case False
    with pos have "1 \<le> head_at s i" by (metis map_is_Nil_conv upto_Nil not_less)
    with False show ?thesis unfolding pos by (simp del: set_map) (rule Max_eqI, auto)
  qed
  with assms(2) show ?thesis by (simp add: journal_position_def andThen_run bind_run del: set_map)
qed

section \<open>Replays\<close>

lemma add_one_Inr:
  assumes ok: "journal_ok rg s" and run: "add_with_status rg bd i source s = (Inr (x, created), t)"
  obtains b where "rg_ref rg source = Inr (ss_ref x)" and "valid_identifier i MAX_SCOPE_ID_LENGTH"
    and "classify_sources i [(source, ss_ref x)] (batch_from i [ss_ref x] s) = Inr b" and "ba_results b = [(x, created)]"
    and "stored_batch i b s t" and "journal_ok rg t"
proof -
  from run obtain res where res: "add_many_with_status rg bd i [source] s = (Inr res, t)" and hd: "hd res = (x, created)"
    by (auto simp: add_with_status_def bind_Inr_iff)
  from add_many_Inr [OF ok res] obtain prepared b where b: "prepare_sources rg [source] = Inr prepared" "valid_identifier i MAX_SCOPE_ID_LENGTH"
    "classify_sources i prepared (batch_from i (map snd prepared) s) = Inr b" "res = ba_results b" "stored_batch i b s t" by blast
  from prepare_sources_Inr [OF b(1)] obtain key where p: "prepared = [(source, key)]" and key: "rg_ref rg source = Inr key" by fastforce
  have "\<exists>x c. ba_results b = [(x, c)] \<and> ss_ref x = key"
    using b(3) unfolding p
    by (auto simp: batch_from_def Let_def stored_of_def stored_row_iff [OF ok] split: option.splits if_splits)
  with hd b(4) have "ba_results b = [(x, created)]" "ss_ref x = key" by auto
  moreover have "journal_ok rg t" using capture_ok [OF ok res] by simp
  ultimately show ?thesis using that [of b] b p key by simp
qed

lemma captured_row:
  assumes ok: "journal_ok rg s" and run: "add_with_status rg bd i source s = (Inr (x, created), t)"
  obtains r where "stored_row t i (ss_ref x) = Some r" and "stored_of r = x" and "row_value r = source"
proof -
  from add_one_Inr [OF ok run] obtain b where key: "rg_ref rg source = Inr (ss_ref x)"
    and b: "classify_sources i [(source, ss_ref x)] (batch_from i [ss_ref x] s) = Inr b" "ba_results b = [(x, created)]" "stored_batch i b s t"
    and okt: "journal_ok rg t" by blast
  have src: "jd_sources t = apply_upgrades i (ba_upgrades b) (jd_sources s @ map (source_row_of i) (ba_new b))"
    using b(3) by (simp add: stored_batch_def)
  show ?thesis
  proof (cases "stored_row s i (ss_ref x)")
    case None
    with b have new: "ba_new b = [x]" "ba_upgrades b = []" "x = \<lparr>ss_ref = ss_ref x, ss_value = source, ss_position = head_at s i + 1\<rparr>"
      by (auto simp: batch_from_def Let_def)
    then have "ss_value x = source" by (metis stored_source.select_convs(2))
    have "source_row_of i x \<in> set (jd_sources t)" using new(1,2) by (simp add: src apply_upgrades_def)
    with stored_row_iff [OF okt, of i "ss_ref x" "source_row_of i x"] have "stored_row t i (ss_ref x) = Some (source_row_of i x)"
      by (simp add: source_row_of_def)
    then show ?thesis using that \<open>ss_value x = source\<close> by (simp add: source_row_of_def stored_of_def row_value_def)
  next
    case (Some r)
    note r = stored_row_iff [OF ok, THEN iffD1, OF Some]
    show ?thesis
    proof (cases "is_upgrade source (row_value r)")
      case True
      let ?r = "r\<lparr>so_payload := Canonical source\<rparr>"
      from True Some b have "ba_new b = []" "ba_upgrades b = [(ss_ref x, source)]" "x = stored_of ?r"
        using r by (auto simp: batch_from_def Let_def stored_of_def row_value_def)
      then have "?r \<in> set (jd_sources t)" using r by (auto simp: src apply_upgrades_def set_update_rows source_at_def image_iff)
      with stored_row_iff [OF okt, of i "ss_ref x" ?r] r have "stored_row t i (ss_ref x) = Some ?r" by simp
      then show ?thesis using that \<open>x = stored_of ?r\<close> by (simp add: row_value_def)
    next
      case False
      with Some b have "ba_new b = []" "ba_upgrades b = []" "x = stored_of r" "row_value r = source"
        by (auto simp: batch_from_def stored_of_def split: if_splits)
      with stored_row_iff [OF okt, of i "ss_ref x" r] r show ?thesis by (intro that [of r]) (simp_all add: src apply_upgrades_def)
    qed
  qed
qed

lemma not_upgrade_self [simp]: "\<not> is_upgrade x x"
  by (auto simp: is_upgrade_def split: captured.splits bool.splits)

lemma replay_run:
  assumes rg: "registry_ok rg" and ok: "journal_ok rg t" and row: "stored_row t i key = Some r"
    and key: "rg_ref rg (row_value r) = Inr key" and valid: "valid_identifier i MAX_SCOPE_ID_LENGTH"
  shows "add_with_status rg bd i (row_value r) t = (Inr (stored_of r, False), t)"
proof -
  note r = stored_row_iff [OF ok, THEN iffD1, OF row]
  then have "1 \<le> head_at t i" using position_range [OF ok, of r] by simp
  then have "lookup_row SOURCE_JOURNAL_HEADS_TABLE jh_scope_id (jd_db t) i \<noteq> None"
    by (cases "lookup_row SOURCE_JOURNAL_HEADS_TABLE jh_scope_id (jd_db t) i") (simp_all add: head_at_def)
  with lock_run [OF ok, of i] obtain hs where "hs = journal_heads (jd_db t)"
    "lock_journal_head i t = (Inr (head_at t i), t\<lparr>jd_db := (jd_db t)\<lparr>journal_heads := hs\<rparr>\<rparr>)" by metis
  then have lock: "lock_journal_head i t = (Inr (head_at t i), t)" by simp
  show ?thesis
    using valid by (simp add: add_with_status_def add_many_with_status_def andThen_run bind_run key lock
        existing_many_ok [OF rg ok] row stored_of_def store_batch_def)
qed

text \<open>
  C10: a Source that was captured is what its reference reads back, and capturing it again, once
  or any number of times, returns the same stored Source, reports that nothing was inserted and
  leaves the journal, the intents and the evidence exactly as they are.
\<close>

theorem capture_replayed:
  assumes "registry_ok rg" and "journal_ok rg s" and "add_with_status rg bd i source s = (Inr (x, created), t)"
  shows "ss_value x = source \<and> source_get rg i (ss_ref x) t = (Inr x, t) \<and> add_with_status rg bd' i source t = (Inr (x, False), t)"
proof -
  from add_one_Inr [OF assms(2,3)] have key: "rg_ref rg source = Inr (ss_ref x)" and valid: "valid_identifier i MAX_SCOPE_ID_LENGTH"
    and ok: "journal_ok rg t" by blast+
  from captured_row [OF assms(2,3)] obtain r where r: "stored_row t i (ss_ref x) = Some r" "stored_of r = x" "row_value r = source" by blast
  have replay: "add_with_status rg bd' i source t = (Inr (x, False), t)"
    using replay_run [OF assms(1) ok r(1) _ valid] key by (simp add: r(2,3))
  have src: "table_ok SOURCES_TABLE t" and enc: "encoded_row rg r" using ok r(1) stored_row_iff [OF ok] by (auto simp: journal_ok_def)
  have "sql_one_or_none SOURCES_TABLE (source_at i (ss_ref x)) t = (Inr (List.find (source_at i (ss_ref x)) (jd_sources t)), t)"
    using sources_t.one_or_none_run [OF src, of "source_at i (ss_ref x)"] by (simp add: source_at_def SOURCES_TABLE_def)
  moreover have "List.find (source_at i (ss_ref x)) (jd_sources t) = Some r"
    using r(1) by (simp add: stored_row_def scope_rows_def find_in_filter source_at_def [abs_def])
  ultimately have "source_get rg i (ss_ref x) t = (Inr x, t)"
    using valid decode_encoded [OF assms(1) enc] r(2) by (simp add: source_get_def andThen_run bind_run)
  moreover have "ss_value x = source" using r by (auto simp: stored_of_def)
  ultimately show ?thesis using replay by simp
qed

lemma example_capture_run:
  "add_with_status text_registry no_evidence ''scope'' (Observed ''b'') (empty_journal ''sqlite'')
     = (Inr (\<lparr>ss_ref = (''observed'', ''b''), ss_value = Observed ''b'', ss_position = 1\<rparr>, True),
        snd (add_with_status text_registry no_evidence ''scope'' (Observed ''b'') (empty_journal ''sqlite'')))"
proof -
  have "fst (add_with_status text_registry no_evidence ''scope'' (Observed ''b'') (empty_journal ''sqlite''))
      = Inr (\<lparr>ss_ref = (''observed'', ''b''), ss_value = Observed ''b'', ss_position = 1\<rparr>, True)" by code_simp
  then show ?thesis by (metis prod.collapse)
qed

theorem capture_replayed_witness:
  "let t = snd (add_with_status text_registry no_evidence ''scope'' (Observed ''b'') (empty_journal ''sqlite'')) in
     source_get text_registry ''scope'' (''observed'', ''b'') t = (Inr \<lparr>ss_ref = (''observed'', ''b''), ss_value = Observed ''b'', ss_position = 1\<rparr>, t)"
  using capture_replayed [OF text_registry_ok empty_journal_ok [of "''sqlite''"] example_capture_run] by (simp add: Let_def)

section \<open>Waking the processing of a scope\<close>

lemma processing_bindings_valid:
  "valid_identifier i MAX_SCOPE_ID_LENGTH \<Longrightarrow> n \<in> set SOURCE_PROCESSING_BINDINGS \<Longrightarrow> valid_key i n"
proof -
  have "list_all (\<lambda>n. valid_identifier n MAX_BINDING_NAME_LENGTH) SOURCE_PROCESSING_BINDINGS" by code_simp
  then show "valid_identifier i MAX_SCOPE_ID_LENGTH \<Longrightarrow> n \<in> set SOURCE_PROCESSING_BINDINGS \<Longrightarrow> valid_key i n"
    by (simp add: valid_key_def list_all_iff)
qed

lemma dirtied_intent:
  assumes "intents_env d"
  obtains r where "intent_of (dirtied i k n d) i n = Some r" and "in_clean_generation r + k \<le> in_dirty_generation r"
    and "\<And>r0. intent_of d i n = Some r0 \<Longrightarrow> in_dirty_generation r0 + k \<le> in_dirty_generation r"
proof (cases "intent_of d i n")
  case None
  then show ?thesis
    by (intro that [of "bump_dirty k (new_intent i n (seq_of d + 1))"])
       (simp_all add: dirtied_def intent_of_upd intent_of_ensured bump_dirty_def new_intent_def)
next
  case (Some r0)
  moreover from assms have "admits ARTIFACT_PROCESSING_INTENTS_TABLE d r0"
    using Some by (intro intent_of_admits) (auto simp: intents_env_def)
  ultimately show ?thesis
    by (intro that [of "bump_dirty k r0"]) (simp_all add: dirtied_def intent_of_upd intent_of_ensured bump_dirty_def handle_admits)
qed

lemma fold_dirtied_intent:
  assumes "intents_env d" and "0 \<le> k" and "n \<in> set names"
  shows "\<exists>r. intent_of (fold (dirtied i k) names d) i n = Some r \<and> in_clean_generation r + k \<le> in_dirty_generation r
    \<and> (\<forall>r0. intent_of d i n = Some r0 \<longrightarrow> in_dirty_generation r0 + k \<le> in_dirty_generation r)"
  using assms
proof (induction names arbitrary: d)
  case (Cons m names)
  show ?case
  proof (cases "m = n")
    case True
    obtain r where r: "intent_of (dirtied i k n d) i n = Some r" "in_clean_generation r + k \<le> in_dirty_generation r"
      "\<And>r0. intent_of d i n = Some r0 \<Longrightarrow> in_dirty_generation r0 + k \<le> in_dirty_generation r"
      using dirtied_intent [OF Cons.prems(1)] by metis
    from only_markedD [OF only_marked_fold [OF Cons.prems(2)] r(1), of i names] obtain r'
      where "intent_of (fold (dirtied i k) names (dirtied i k n d)) i n = Some r'"
        "in_clean_generation r' = in_clean_generation r" "in_dirty_generation r \<le> in_dirty_generation r'"
      by blast
    with r True show ?thesis by fastforce
  next
    case False
    with Cons.prems have "n \<in> set names" by simp
    with Cons.IH [OF conjunct1 [OF env_dirtied [OF Cons.prems(1,2)]] Cons.prems(2)]
      only_marked_dirtied [OF Cons.prems(2), of d i m]
    show ?thesis by (fastforce simp: only_marked_def)
  qed
qed simp

text \<open>
  C9: no new Source goes unprocessed: a capture that inserts Sources leaves, for each of the four
  Source processing bindings, an intent of the scope whose dirty generation is ahead of its clean
  one by at least the number of Sources inserted, and has grown by at least that number.
\<close>

theorem capture_wakes_processing:
  assumes "journal_ok rg s" and "add_many_with_status rg bd i sources s = (Inr res, t)" and "filter snd res \<noteq> []"
    and "binding \<in> set SOURCE_PROCESSING_BINDINGS"
  shows "\<exists>r. intent_of (jd_db t) i binding = Some r
    \<and> in_clean_generation r + int (length (filter snd res)) \<le> in_dirty_generation r
    \<and> (\<forall>r0. intent_of (jd_db s) i binding = Some r0 \<longrightarrow> in_dirty_generation r0 + int (length (filter snd res)) \<le> in_dirty_generation r)"
proof -
  have "sources \<noteq> []" using assms(2,3) by (auto simp: add_many_with_status_def)
  from add_many_Inr [OF assms(1,2) this] obtain K m b where valid: "valid_identifier i MAX_SCOPE_ID_LENGTH" and res: "res = ba_results b"
    and cl: "classified rg K (head_at s i) m b" and st: "stored_batch i b s t" by metis
  let ?k = "int (length (ba_new b))"
  have len: "length (filter snd res) = length (ba_new b)" using cl res by (simp add: classified_def)
  with assms(3) have new: "ba_new b \<noteq> []" by auto
  with st obtain hs d where mark: "mark_dirty_many i SOURCE_PROCESSING_BINDINGS ?k ((jd_db s)\<lparr>journal_heads := hs\<rparr>) = (Inr (), d)"
    and only: "only_marked d (jd_db t)" by (auto simp: stored_batch_def)
  have env: "intents_env ((jd_db s)\<lparr>journal_heads := hs\<rparr>)" using assms(1) by (simp add: journal_ok_def)
  have "1 \<le> ?k" using new by (cases "ba_new b") simp_all
  then have "mark_dirty_many i SOURCE_PROCESSING_BINDINGS ?k ((jd_db s)\<lparr>journal_heads := hs\<rparr>)
      = (Inr (), fold (dirtied i ?k) (from_keys SOURCE_PROCESSING_BINDINGS) ((jd_db s)\<lparr>journal_heads := hs\<rparr>))"
    using env processing_bindings_valid [OF valid] by (intro mark_dirty_many_run) (auto simp: intents_env_def)
  with mark have d: "d = fold (dirtied i ?k) (from_keys SOURCE_PROCESSING_BINDINGS) ((jd_db s)\<lparr>journal_heads := hs\<rparr>)" by simp
  have "intent_of ((jd_db s)\<lparr>journal_heads := hs\<rparr>) i binding = intent_of (jd_db s) i binding" by (simp add: intent_of_def)
  with fold_dirtied_intent [OF env, of ?k binding "from_keys SOURCE_PROCESSING_BINDINGS" i] assms(4) obtain r
    where r: "intent_of d i binding = Some r" "in_clean_generation r + ?k \<le> in_dirty_generation r"
      "\<And>r0. intent_of (jd_db s) i binding = Some r0 \<Longrightarrow> in_dirty_generation r0 + ?k \<le> in_dirty_generation r"
    unfolding d by auto
  from only_markedD [OF only r(1)] obtain r' where "intent_of (jd_db t) i binding = Some r'" "in_clean_generation r' = in_clean_generation r"
    "in_dirty_generation r \<le> in_dirty_generation r'" by blast
  with r len show ?thesis by fastforce
qed

theorem capture_wakes_processing_witness:
  "\<exists>r. intent_of (jd_db (snd (add_many_with_status text_registry no_evidence ''scope'' example_captures (empty_journal ''sqlite''))))
     ''scope'' ''profile-source-window'' = Some r \<and> in_clean_generation r + 2 \<le> in_dirty_generation r"
proof -
  from capture_wakes_processing [OF empty_journal_ok [of "''sqlite''"] example_journal_run, of "''profile-source-window''"]
  show ?thesis by (simp add: SOURCE_PROCESSING_BINDINGS_def example_results_def example_journal_def) blast
qed

section \<open>A Source that is not known yet\<close>

lemma mark_dirty_ok:
  assumes "intents_env d" and "\<And>n. n \<in> set names \<Longrightarrow> valid_key i n"
  shows "mark_dirty_many i names 1 d = (Inr (), fold (dirtied i 1) (from_keys names) d)"
  using assms by (intro mark_dirty_many_run) (simp_all add: intents_env_def)

text \<open>Marking changes no table but the intents and the allocator of their sequence numbers.\<close>

definition marks_only :: "string \<Rightarrow> string set \<Rightarrow> db \<Rightarrow> db \<Rightarrow> bool" where
  "marks_only i N d d' \<longleftrightarrow> (\<exists>sq rs. d' = d\<lparr>sequences := sq, intents := rs\<rparr>)
     \<and> (\<forall>j n. j \<noteq> i \<or> n \<notin> N \<longrightarrow> intent_of d' j n = intent_of d j n)"

lemma marks_only_refl [simp]: "marks_only i N d d"
  unfolding marks_only_def by (intro conjI exI [of _ "sequences d"] exI [of _ "intents d"]) simp_all

lemma marks_only_trans:
  assumes "marks_only i N c d" and "marks_only i M d e"
  shows "marks_only i (N \<union> M) c e"
proof -
  from assms obtain sq rs sq' rs' where "d = c\<lparr>sequences := sq, intents := rs\<rparr>" "e = d\<lparr>sequences := sq', intents := rs'\<rparr>"
    unfolding marks_only_def by blast
  then have "e = c\<lparr>sequences := sq', intents := rs'\<rparr>" by simp
  then show ?thesis using assms unfolding marks_only_def by (metis UnCI)
qed

lemma marks_only_dirtied: "marks_only i {n} d (dirtied i k n d)"
  unfolding marks_only_def dirtied_def
proof (intro conjI)
  show "\<exists>sq rs. upd_intent i n (bump_dirty k) (ensured i n d) = d\<lparr>sequences := sq, intents := rs\<rparr>"
  proof (cases "intent_of d i n = None")
    case False
    then have "ensured i n d = d" unfolding ensured_def by (simp only: if_False)
    then show ?thesis
      by (intro exI [of _ "sequences d"] exI [of _ "update_rows (intent_key i n) (bump_dirty k) (intents d)"])
         (simp add: upd_intent_def)
  qed (auto simp: upd_intent_def ensured_def)
qed (auto simp: intent_of_upd intent_of_ensured)

lemma marks_only_fold: "marks_only i (set names) d (fold (dirtied i k) names d)"
proof (induction names arbitrary: d)
  case (Cons n names)
  from marks_only_trans [OF marks_only_dirtied [of i n d k] Cons.IH] show ?case by simp
qed simp

lemma marks_run:
  assumes env: "intents_env (jd_db v)" and valid: "valid_identifier i MAX_SCOPE_ID_LENGTH"
    and names: "\<forall>r \<in> set (binding_states (jd_db v)). valid_key i (bs_binding_name r)"
  shows "\<exists>d. andThen (on_db (mark_dirty_many i SOURCE_PROCESSING_BINDINGS 1)) (mark_custom_bindings_dirty i 1) v = (Inr (), v\<lparr>jd_db := d\<rparr>)
    \<and> journal_heads d = journal_heads (jd_db v)
    \<and> marks_only i (set SOURCE_PROCESSING_BINDINGS \<union> bs_binding_name ` set (binding_states (jd_db v))) (jd_db v) d"
proof -
  let ?d = "fold (dirtied i 1) (from_keys SOURCE_PROCESSING_BINDINGS) (jd_db v)"
  have first: "mark_dirty_many i SOURCE_PROCESSING_BINDINGS 1 (jd_db v) = (Inr (), ?d)"
    using processing_bindings_valid [OF valid] by (intro mark_dirty_ok env)
  have env1: "intents_env ?d" and "binding_states ?d = binding_states (jd_db v)"
    using env_fold_dirtied [OF env, of 1 i "from_keys SOURCE_PROCESSING_BINDINGS"] by (simp_all add: intents_advance_def)
  let ?names = "[bs_binding_name r. r \<leftarrow> binding_states ?d, case jd_plugin_scopes v (bs_binding_name r) of
      None \<Rightarrow> False | Some None \<Rightarrow> True | Some (Some scopes) \<Rightarrow> i \<in> set scopes]"
  have "mark_dirty_many i ?names 1 ?d = (Inr (), fold (dirtied i 1) (from_keys ?names) ?d)"
    using names \<open>binding_states ?d = _\<close> by (intro mark_dirty_ok env1) auto
  moreover have "marks_only i (set SOURCE_PROCESSING_BINDINGS \<union> bs_binding_name ` set (binding_states (jd_db v))) (jd_db v)
      (fold (dirtied i 1) (from_keys ?names) ?d)"
    using marks_only_trans [OF marks_only_fold [of i "from_keys SOURCE_PROCESSING_BINDINGS" "jd_db v" 1] marks_only_fold [of i "from_keys ?names" ?d 1]]
    unfolding \<open>binding_states ?d = _\<close> marks_only_def by (elim conjE, intro conjI) (assumption, auto)
  ultimately show ?thesis using first
    by (intro exI [of _ "fold (dirtied i 1) (from_keys ?names) ?d"])
       (simp add: andThen_run bind_run mark_custom_bindings_dirty_def)
qed


text \<open>A batch with one new Source is stored, its evidence bound and its scope marked.\<close>

lemma store_new_run:
  fixes u :: "('v, 'e) journal_db"
  assumes ok: "journal_ok rg u" and cl: "classified rg K (head_at u i) m b"
    and m: "\<And>k. k \<in> K \<Longrightarrow> m k = None \<Longrightarrow> stored_row u i k = None"
    and head: "lookup_row SOURCE_JOURNAL_HEADS_TABLE jh_scope_id (jd_db u) i \<noteq> None"
    and b: "ba_new b = [x]" "ba_upgrades b = []" and bd: "bd i (ss_ref x) (ss_value x) (jd_evidence u) = Inr e"
    and valid: "valid_identifier i MAX_SCOPE_ID_LENGTH" and names: "\<forall>r \<in> set (binding_states (jd_db u)). valid_key i (bs_binding_name r)"
  shows "\<exists>d. store_batch bd i b u = (Inr (ba_results b), (with_new i b u)\<lparr>jd_evidence := e, jd_db := d\<rparr>)
    \<and> journal_heads d = journal_heads (jd_db (with_new i b u))
    \<and> marks_only i (set SOURCE_PROCESSING_BINDINGS \<union> bs_binding_name ` set (binding_states (jd_db u))) (jd_db (with_new i b u)) d"
proof -
  let ?v = "(with_new i b u)\<lparr>jd_evidence := e\<rparr>"
  have ev: "for_each (ba_new b) (bind_memory_evidence bd i) (with_new i b u) = (Inr (), ?v)"
    using bd by (simp add: b bind_evidence_step with_new_def del: for_each.simps(2))
  note inserted = insert_new_run(1) [OF ok cl m head, of bd, unfolded ev]
  obtain hs where hs: "jd_db ?v = (jd_db u)\<lparr>journal_heads := hs\<rparr>" by (simp add: with_new_def store_row_def)
  have "intents_env (jd_db ?v)" using ok by (simp add: hs journal_ok_def)
  from marks_run [OF this valid] names obtain d where
    "andThen (on_db (mark_dirty_many i SOURCE_PROCESSING_BINDINGS 1)) (mark_custom_bindings_dirty i 1) ?v = (Inr (), ?v\<lparr>jd_db := d\<rparr>)"
    "journal_heads d = journal_heads (jd_db ?v)"
    "marks_only i (set SOURCE_PROCESSING_BINDINGS \<union> bs_binding_name ` set (binding_states (jd_db u))) (jd_db ?v) d"
    by (auto simp: hs)
  then show ?thesis
    using inserted \<open>ba_upgrades b = []\<close> \<open>ba_new b = [x]\<close>
    by (intro exI [of _ d]) (simp add: store_batch_def andThen_run del: on_db_run)
qed

text \<open>
  C20: a Source that the scope does not have yet is captured: with a valid scope, a registered
  adapter, evidence that can be bound and valid binding names, the capture does not fail, the Source
  takes the next position of its scope and the head of this scope moves there. The heads of the other
  scopes stay as they are; besides the Sources and the bound evidence only intents and the allocator
  of their sequence numbers change, and of the intents only those of this scope for a built-in or
  registered custom binding; no other table changes.
\<close>

theorem capture_unknown:
  assumes "registry_ok rg" and ok: "journal_ok rg s" and valid: "valid_identifier i MAX_SCOPE_ID_LENGTH"
    and key: "rg_ref rg source = Inr key" and none: "\<forall>r \<in> set (jd_sources s). so_scope_id r = i \<longrightarrow> so_key r \<noteq> key"
    and bd: "bd i key source (jd_evidence s) = Inr e" and names: "\<forall>r \<in> set (binding_states (jd_db s)). valid_key i (bs_binding_name r)"
  shows "\<exists>t. add_with_status rg bd i source s = (Inr (\<lparr>ss_ref = key, ss_value = source, ss_position = head_at s i + 1\<rparr>, True), t)
    \<and> jd_sources t = jd_sources s @ [\<lparr>so_scope_id = i, so_key = key, so_payload = Canonical source, so_position = head_at s i + 1\<rparr>]
    \<and> jd_evidence t = e \<and> jd_plugin_scopes t = jd_plugin_scopes s
    \<and> (\<exists>hs sq rs. jd_db t = (jd_db s)\<lparr>journal_heads := hs, sequences := sq, intents := rs\<rparr>)
    \<and> (\<forall>j. lookup_row SOURCE_JOURNAL_HEADS_TABLE jh_scope_id (jd_db t) j =
         (if j = i then Some \<lparr>jh_scope_id = i, jh_position = head_at s i + 1\<rparr>
          else lookup_row SOURCE_JOURNAL_HEADS_TABLE jh_scope_id (jd_db s) j))
    \<and> (\<forall>j n. j \<noteq> i \<or> n \<notin> set SOURCE_PROCESSING_BINDINGS \<union> bs_binding_name ` set (binding_states (jd_db s))
         \<longrightarrow> intent_of (jd_db t) j n = intent_of (jd_db s) j n)"
proof -
  obtain hs where lock: "lock_journal_head i s = (Inr (head_at s i), s\<lparr>jd_db := (jd_db s)\<lparr>journal_heads := hs\<rparr>\<rparr>)"
    and ok1: "journal_ok rg (s\<lparr>jd_db := (jd_db s)\<lparr>journal_heads := hs\<rparr>\<rparr>)"
    and head: "lookup_row SOURCE_JOURNAL_HEADS_TABLE jh_scope_id ((jd_db s)\<lparr>journal_heads := hs\<rparr>) i \<noteq> None"
    and heads: "\<And>j. head_at (s\<lparr>jd_db := (jd_db s)\<lparr>journal_heads := hs\<rparr>\<rparr>) j = head_at s j"
    and others: "\<And>j. j \<noteq> i \<Longrightarrow> lookup_row SOURCE_JOURNAL_HEADS_TABLE jh_scope_id ((jd_db s)\<lparr>journal_heads := hs\<rparr>) j
      = lookup_row SOURCE_JOURNAL_HEADS_TABLE jh_scope_id (jd_db s) j"
    by (rule lock_run [OF ok, of i]) blast
  define u where "u = s\<lparr>jd_db := (jd_db s)\<lparr>journal_heads := hs\<rparr>\<rparr>"
  note [simp] = u_def [THEN arg_cong, of jd_sources, simplified] u_def [THEN arg_cong, of jd_evidence, simplified]
  let ?m = "\<lambda>k. if k = key then map_option stored_of (stored_row u i k) else None"
  let ?x = "\<lparr>ss_ref = key, ss_value = source, ss_position = head_at s i + 1\<rparr>"
  let ?b = "\<lparr>ba_position = head_at s i + 1, ba_existing = ?m(key \<mapsto> ?x), ba_results = [(?x, True)], ba_new = [?x], ba_upgrades = []\<rparr>"
  have row: "stored_row u i key = None" using none by (simp add: stored_row_None)
  have u: "lock_journal_head i s = (Inr (head_at s i), u)" "journal_ok rg u" "head_at u i = head_at s i"
    "lookup_row SOURCE_JOURNAL_HEADS_TABLE jh_scope_id (jd_db u) i \<noteq> None" using lock ok1 heads head by (simp_all add: u_def)
  have "classified rg {key} (head_at s i) ?m \<lparr>ba_position = head_at s i, ba_existing = ?m, ba_results = [], ba_new = [], ba_upgrades = []\<rparr>"
    by (rule classified_start)
  from classify_step_new [OF this key _ _ refl] row have cl: "classified rg {key} (head_at u i) ?m ?b" by (simp add: u(3))
  let ?v = "(with_new i ?b u)\<lparr>jd_evidence := e\<rparr>"
  obtain hs' where hs': "jd_db (with_new i ?b u) = (jd_db s)\<lparr>journal_heads := hs'\<rparr>"
    by (simp add: with_new_def store_row_def u_def)
  have "\<exists>d. store_batch bd i ?b u = (Inr (ba_results ?b), ?v\<lparr>jd_db := d\<rparr>)
      \<and> journal_heads d = journal_heads (jd_db (with_new i ?b u))
      \<and> marks_only i (set SOURCE_PROCESSING_BINDINGS \<union> bs_binding_name ` set (binding_states (jd_db u))) (jd_db (with_new i ?b u)) d"
    by (rule store_new_run [where x = ?x, OF u(2) cl _ u(4) _ _ _ valid]) (use row bd names in \<open>simp_all add: u_def\<close>)
  then obtain d where store: "store_batch bd i ?b u = (Inr [(?x, True)], ?v\<lparr>jd_db := d\<rparr>)"
    and d: "journal_heads d = journal_heads (jd_db (with_new i ?b u))"
    and only: "marks_only i (set SOURCE_PROCESSING_BINDINGS \<union> bs_binding_name ` set (binding_states (jd_db s))) (jd_db (with_new i ?b u)) d"
    by (auto simp: u_def)
  have "add_with_status rg bd i source s = (Inr (?x, True), ?v\<lparr>jd_db := d\<rparr>)"
    using store row valid existing_many_ok [OF assms(1) u(2), of i "[key]"]
    by (simp add: add_with_status_def add_many_with_status_def andThen_run bind_run key u(1) Let_def)
  moreover have "\<exists>hs sq rs. d = (jd_db s)\<lparr>journal_heads := hs, sequences := sq, intents := rs\<rparr>"
    using only unfolding marks_only_def hs' by blast
  moreover have "lookup_row SOURCE_JOURNAL_HEADS_TABLE jh_scope_id d j =
      (if j = i then Some \<lparr>jh_scope_id = i, jh_position = head_at s i + 1\<rparr>
       else lookup_row SOURCE_JOURNAL_HEADS_TABLE jh_scope_id (jd_db s) j)" for j
    using journal_head_frame(1) [OF d] others [of j]
    by (simp add: with_new_def journal_heads_t.lookup_store u_def)
  moreover have "intent_of d j n = intent_of (jd_db s) j n"
    if "j \<noteq> i \<or> n \<notin> set SOURCE_PROCESSING_BINDINGS \<union> bs_binding_name ` set (binding_states (jd_db s))" for j n
    using only that unfolding marks_only_def hs' by (simp add: intent_of_def)
  ultimately show ?thesis
    by (intro exI [of _ "?v\<lparr>jd_db := d\<rparr>"]) (simp add: with_new_def source_row_of_def u_def)
qed

theorem capture_unknown_witness:
  "\<exists>t. add_with_status text_registry no_evidence ''scope'' (Native_Captured ''n'') (empty_journal ''mysql'') =
       (Inr (\<lparr>ss_ref = (''native'', ''n''), ss_value = Native_Captured ''n'', ss_position = 1\<rparr>, True), t)
     \<and> lookup_row SOURCE_JOURNAL_HEADS_TABLE jh_scope_id (jd_db t) ''scope'' = Some \<lparr>jh_scope_id = ''scope'', jh_position = 1\<rparr>"
proof -
  let ?s = "empty_journal ''mysql'' :: (string, unit) journal_db"
  have valid: "valid_identifier ''scope'' MAX_SCOPE_ID_LENGTH" by code_simp
  have key: "rg_ref text_registry (Native_Captured ''n'') = Inr (''native'', ''n'')" by (simp add: text_registry_def)
  have none: "\<forall>r \<in> set (jd_sources ?s). so_scope_id r = ''scope'' \<longrightarrow> so_key r \<noteq> (''native'', ''n'')"
    by (simp add: empty_journal_def)
  have names: "\<forall>r \<in> set (binding_states (jd_db ?s)). valid_key ''scope'' (bs_binding_name r)"
    by (simp add: empty_journal_def empty_db_def)
  have "head_at ?s ''scope'' = 0" by (simp add: head_at_def lookup_row_def empty_journal_def empty_db_def)
  then show ?thesis
    using capture_unknown [where bd = no_evidence and e = "()",
      OF text_registry_ok empty_journal_ok [OF disjI2 [OF refl]] valid key none refl names]
    by (elim exE, rule_tac x = t in exI) simp
qed

end
