(* ===== verification/Spec2Isabelle.thy ===== *)
theory Spec2Isabelle
  imports Scope_Processor Chunking Candidates Artifacts Access_Batch Journal
begin

text \<open>
  A model of the core of PowerContext (\<^verbatim>\<open>src/src/powercontext/\<close>), a service that keeps
  curated context for agents: sources are captured per scope, background workers derive
  topic memory and other artifacts from them, reviewers decide on candidates, and a server
  guards everything with role bindings. Modelled is what has to be right for data not to be
  lost, done twice, or shown to the wrong reader: the relational repositories and their
  coordination protocols, the scope worker, the chunker, and access control.

  \<^bold>\<open>How the parts interact.\<close> A source captured in a scope takes the next position of its
  journal (\<^verbatim>\<open>Journal\<close>) and marks the intent of each bound processor dirty (\<^verbatim>\<open>Intents\<close>); the
  work up to the journal head is tracked by pending watermarks (\<^verbatim>\<open>Pending\<close>). The supervisor that holds the lease of its group (\<^verbatim>\<open>Supervision\<close>)
  freezes scans and waves and hands out fences; every write of a worker presents its fence.
  A worker (\<^verbatim>\<open>Scope_Processor\<close>) captures a target, processes windows within the work
  budget of the frontier (\<^verbatim>\<open>Work_Budget\<close>), moves the source cursor by compare-and-swap
  (\<^verbatim>\<open>Cursors\<close>) and acknowledges exactly what it saw. A frontier that exhausted its budget
  is blocked and can be retried (\<^verbatim>\<open>Recovery\<close>). Results are artifact revisions with lineage
  (\<^verbatim>\<open>Artifacts\<close>, \<^verbatim>\<open>Provenance\<close>, \<^verbatim>\<open>Eligibility\<close>), topic texts are split for
  projection (\<^verbatim>\<open>Chunking\<close>), changes that need a reviewer are candidates
  (\<^verbatim>\<open>Candidates\<close>), and a lifecycle governs every artifact (\<^verbatim>\<open>Governance\<close>). Requests
  to the server pass \<^verbatim>\<open>Access_Service\<close>, which decides on the bindings and owners in
  \<^verbatim>\<open>Access_Store\<close>.

  \<^bold>\<open>Theories and sources\<close> (paths below \<^verbatim>\<open>src/src/powercontext/\<close>).

  \<^item> \<^verbatim>\<open>Prelude\<close>: Python strings, limits (\<^verbatim>\<open>limits.py\<close>), the exceptions, and the effect
    type \<open>('s, 'a) exec\<close> with \<open>transaction\<close>, \<open>catch\<close> and the rule collections
    \<open>exec_simps\<close> and \<open>preserves_rules\<close> that carry most proofs. \<^verbatim>\<open>Sql\<close>: the statements of
    SQLAlchemy over tables with their constraints, and the locale \<open>stored_table\<close> every table
    handle is an interpretation of. \<^verbatim>\<open>Register\<close>: the locale \<open>versioned_register\<close> of
    optimistically versioned records, interpreted by leases, candidates, artifact heads, their
    governance and the access policy. \<^verbatim>\<open>Database\<close> and \<^verbatim>\<open>Catalog\<close>: the row types and tables of
    \<^verbatim>\<open>builtin/persistence/tables.py\<close>.
  \<^item> \<^verbatim>\<open>Journal\<close> (\<^verbatim>\<open>builtin/persistence/sources.py\<close>): capturing and reading Sources, over the state
    \<open>journal_db\<close>, which adds the Sources to the shared database.
  \<^item> \<^verbatim>\<open>Cursors\<close> (\<^verbatim>\<open>builtin/persistence/cursors.py\<close>), \<^verbatim>\<open>Intents\<close>
    (\<^verbatim>\<open>processing_intents.py\<close>), \<^verbatim>\<open>Supervision\<close> (\<^verbatim>\<open>supervision.py\<close>), \<^verbatim>\<open>Pending\<close>
    (\<^verbatim>\<open>processing.py\<close>), \<^verbatim>\<open>Work_Budget\<close> (\<^verbatim>\<open>topic_memory_budget.py\<close>), \<^verbatim>\<open>Recovery\<close>
    (\<^verbatim>\<open>topic_memory_recovery.py\<close>): one definition per repository method, named after it.
  \<^item> \<^verbatim>\<open>Scope_Processor\<close> (\<^verbatim>\<open>builtin/runtime/topic_memory_scope.py\<close>,
    \<^verbatim>\<open>processing_contracts.py\<close>): the worker of one invocation. \<^verbatim>\<open>Chunking\<close>
    (\<^verbatim>\<open>builtin/artifacts/topic_memory/chunking.py\<close>).
  \<^item> \<^verbatim>\<open>Governance\<close> (\<^verbatim>\<open>builtin/persistence/artifact_governance.py\<close>), \<^verbatim>\<open>Candidates\<close>
    (\<^verbatim>\<open>candidates.py\<close>, \<^verbatim>\<open>builtin/review/models.py\<close>), \<^verbatim>\<open>Eligibility\<close>
    (\<^verbatim>\<open>builtin/source_eligibility.py\<close>), \<^verbatim>\<open>Provenance\<close> and \<^verbatim>\<open>Artifacts\<close>
    (\<^verbatim>\<open>builtin/persistence/artifacts.py\<close>, \<^verbatim>\<open>revision_meta.py\<close>, \<^verbatim>\<open>artifacts/models.py\<close>).
  \<^item> \<^verbatim>\<open>Access_Model\<close> (\<^verbatim>\<open>server/authz/models.py\<close>, \<^verbatim>\<open>profiles.py\<close>, the pure functions
    of \<^verbatim>\<open>service.py\<close>), \<^verbatim>\<open>Access_Store\<close> and \<^verbatim>\<open>Access_History\<close>
    (\<^verbatim>\<open>server/authz/repository.py\<close>), \<^verbatim>\<open>Access_Service\<close>, \<^verbatim>\<open>Access_Control\<close> and
    \<^verbatim>\<open>Access_Batch\<close> (\<^verbatim>\<open>server/authz/service.py\<close>: decisions and changes, what they
    guarantee, and the prefetched decisions).

  \<^bold>\<open>What the lemmas show.\<close> Per repository: the state every operation leaves on every
  branch, errors included; an invariant of the tables (\<open>intents_inv\<close>, the ceilings of the
  work budget, \<open>access_ok\<close>, the gapless numbering of
  revisions and of journals) that every operation keeps, by the
  step relations over all operations; and the protocol guarantees over whole histories: a
  fence of an earlier term is refused forever, an acknowledgement never hides later work,
  pending work disappears only when it is done, a reviewer's decision is final, a stale base
  is refused, a singleton role has one holder, a policy revision identifies the policy. Across
  components: the worker ends and retires exactly its snapshot, a retry frees the budget and
  opens a flush and an invocation, and the service's decisions and searches agree with the rows of the
  access store, with or without prefetched inputs; it changes policy only for who administers the
  resource while the request runs, stated on those rows and not on the checks the code lists.

  \<^bold>\<open>Bounds and fuel.\<close> Two loops take fuel. The walk over publications
  (\<open>provenance_rounds\<close>) gets two rounds more than there are publications, which
  \<open>provenance_follows_every_path\<close> shows it never exhausts. The window loop of the worker has its
  fuel as an argument; \<open>invocation_ends\<close> shows that one more than the sources left of a target
  is enough when the window processor moves the cursor on success. All other loops are structural or have a measure.

  \<^bold>\<open>Modelling decisions.\<close> The statements of a transaction run one after another on an explicit
  state; interleaving is at the granularity of transactions, as steps of a history, since the
  code takes write locks or runs serialized. Clocks, \<^verbatim>\<open>uuid4\<close> and SHA-256 are parameters.
  A payload column holds what decoding it yields. Python integers are \<^typ>\<open>int\<close>, strings are
  \<^typ>\<open>string\<close> (code points below 256; lists of code points in \<^verbatim>\<open>Chunking\<close>), times are
  microseconds. A string sorts by code point, as under a binary collation.

  \<^bold>\<open>Not modelled.\<close> The HTTP layer and its generated schema, the server application, the CLI, the
  clients and the plugins translate between transports and the operations above; evaluation,
  migrations, dashboards and observability are not part of the running logic. Inference, search
  indexes and vector projections depend on services whose results are not determined by the
  code. Of the runtime, the pipeline that prompts a model for topic memory
  (\<^verbatim>\<open>topic_memory_processing.py\<close>) is the window processor, an argument of the worker here.
  Of the Source repository the adapters, legacy encodings and historical evidence are arguments or
  left out, as \<^verbatim>\<open>Journal\<close> says; the repositories that only look a Source up take that as an
  argument. Dream, Atomic Memory, the code index and the portability bundle are subsystems of their own, left
  out for their size; the Dream query is an argument where modelled code calls it. In access control the Casbin and AuthZEN providers (third-party engines),
  the recovery of owners at startup, readiness, and the signing of cursors are left out.
\<close>

end
